(* ===== verification/Prelude.thy ===== *)
theory Prelude
  imports Main "HOL-Library.Multiset" "HOL-Library.Sublist" "HOL-Library.Product_Lexorder"
begin

section \<open>Shared vocabulary and list lemmas\<close>

text \<open>
  The helpers every component uses: the result type, a stable sort by key (Rust's
  \<open>sort_by_key\<close>), the removal of consecutive duplicates (\<open>dedup_by_key\<close>),
  \<open>swap_remove\<close>, \<open>rotate_left\<close>, the position of the first match, and
  association lists in iteration order for the hash maps of the code.
  The named collection \<open>refract_simps\<close> gathers the simplification facts of the
  components.
\<close>

named_theorems refract_simps

type_synonym millis = int
type_synonym secs = nat

subsection \<open>Results\<close>

text \<open>
  \<open>Result<A, E>\<close> is \<open>'e + 'a\<close> with \<open>Inl\<close> the error. \<open>rbind\<close> is the \<open>?\<close>
  operator, \<open>ensure\<close> an early return of an error, \<open>each_ok\<close> a loop whose body may
  return an error.
\<close>

definition rbind :: "'e + 'a \<Rightarrow> ('a \<Rightarrow> 'e + 'b) \<Rightarrow> 'e + 'b" where
  "rbind r f = (case r of Inl e \<Rightarrow> Inl e | Inr a \<Rightarrow> f a)"

definition ensure :: "bool \<Rightarrow> 'e \<Rightarrow> 'e + unit" where
  "ensure b e = (if b then Inr () else Inl e)"

fun each_ok :: "('a \<Rightarrow> 'e + unit) \<Rightarrow> 'a list \<Rightarrow> 'e + unit" where
  "each_ok f [] = Inr ()"
| "each_ok f (x # xs) = (case f x of Inl e \<Rightarrow> Inl e | Inr _ \<Rightarrow> each_ok f xs)"

lemma rbind_simps [simp]: "rbind (Inl e) f = Inl e" "rbind (Inr a) f = f a"
  by (simp_all add: rbind_def)

lemma rbind_Inr: "rbind r f = Inr b \<longleftrightarrow> (\<exists>a. r = Inr a \<and> f a = Inr b)"
  by (cases r) auto

lemma ensure_Inr [simp]: "ensure b e = Inr u \<longleftrightarrow> b"
  by (cases u) (simp add: ensure_def)

lemma ensure_Inl [simp]: "ensure b e = Inl e' \<longleftrightarrow> \<not> b \<and> e' = e"
  by (auto simp: ensure_def)

lemma ensure_bind: "rbind (ensure b e) f = (if b then f () else Inl e)"
  by (simp add: ensure_def)

lemma each_ok_Inr: "each_ok f xs = Inr u \<longleftrightarrow> (\<forall>x \<in> set xs. f x = Inr ())"
  by (induction xs) (auto split: sum.splits)

subsection \<open>Position of the first match\<close>

text \<open>\<open>Iterator::position\<close>.\<close>

fun position :: "('a \<Rightarrow> bool) \<Rightarrow> 'a list \<Rightarrow> nat option" where
  "position p [] = None"
| "position p (x # xs) = (if p x then Some 0 else map_option Suc (position p xs))"

lemma position_None [simp]: "position p xs = None \<longleftrightarrow> (\<forall>x \<in> set xs. \<not> p x)"
  by (induction xs) auto

lemma position_Some:
  "position p xs = Some i \<longleftrightarrow> i < length xs \<and> p (xs ! i) \<and> (\<forall>j < i. \<not> p (xs ! j))"
proof (induction xs arbitrary: i)
  case Nil
  then show ?case by simp
next
  case (Cons x xs)
  show ?case
  proof (cases "p x")
    case True
    then show ?thesis by (cases i) auto
  next
    case False
    then show ?thesis
      by (cases i) (auto simp: Cons.IH less_Suc_eq_0_disj)
  qed
qed

lemma position_bound: "position p xs = Some i \<Longrightarrow> i < length xs"
  by (simp add: position_Some)

lemma position_holds: "position p xs = Some i \<Longrightarrow> p (xs ! i)"
  by (simp add: position_Some)

subsection \<open>\<open>swap_remove\<close> and \<open>rotate_left\<close>\<close>

text \<open>
  \<open>Vec::swap_remove(i)\<close> takes the element at \<open>i\<close> out and puts the last element in
  its place; the model gives the remaining vector. The caller reads \<open>xs ! i\<close> itself, and
  the code panics when \<open>i\<close> is out of range, so both are used with \<open>i < length xs\<close> only.
\<close>

definition swap_remove :: "nat \<Rightarrow> 'a list \<Rightarrow> 'a list" where
  "swap_remove i xs = (if Suc i = length xs then butlast xs else butlast (xs[i := last xs]))"

lemma length_swap_remove [simp]: "length (swap_remove i xs) = length xs - 1"
  by (simp add: swap_remove_def)

lemma mset_swap_remove:
  assumes "i < length xs"
  shows "mset xs = add_mset (xs ! i) (mset (swap_remove i xs))"
proof (cases "Suc i = length xs")
  case True
  then have "xs \<noteq> []" and "i = length xs - 1" by auto
  then have "xs \<noteq> []" and "last xs = xs ! i" by (auto simp: last_conv_nth)
  then show ?thesis
    by (metis True append_butlast_last_id mset.simps(2) mset_append swap_remove_def
        add_mset_add_single mset.simps(1))
next
  case False
  with assms obtain ys l where xs: "xs = ys @ [l]" and i: "i < length ys"
    by (cases xs rule: rev_cases) auto
  then have "swap_remove i xs = ys[i := l]"
    by (simp add: swap_remove_def list_update_append)
  moreover have "mset (ys[i := l]) = add_mset l (mset ys - {#ys ! i#})"
    using i by (simp add: mset_update)
  moreover have "ys ! i \<in># mset ys" using i by simp
  ultimately show ?thesis using xs i by (simp add: nth_append)
qed

definition rotate_left :: "nat \<Rightarrow> 'a list \<Rightarrow> 'a list" where
  "rotate_left n xs = drop n xs @ take n xs"

lemma mset_rotate_left [simp]: "mset (rotate_left n xs) = mset xs"
  by (metis append_take_drop_id mset_append rotate_left_def union_commute)

lemma length_rotate_left [simp]: "length (rotate_left n xs) = length xs"
  by (simp add: rotate_left_def)

lemma hd_rotate_left: "n < length xs \<Longrightarrow> hd (rotate_left n xs) = xs ! n"
  by (simp add: rotate_left_def hd_append hd_drop_conv_nth)

lemma mset_rotate: "mset (rotate n xs) = mset xs"
  by (metis append_take_drop_id mset_append rotate_drop_take union_commute)

subsection \<open>Removing consecutive duplicates\<close>

text \<open>\<open>Vec::dedup_by_key\<close>: of each run of equal keys the first element stays.\<close>

function dedup_by :: "('a \<Rightarrow> 'k) \<Rightarrow> 'a list \<Rightarrow> 'a list" where
  "dedup_by k [] = []"
| "dedup_by k (x # xs) = x # dedup_by k (dropWhile (\<lambda>y. k y = k x) xs)"
  by pat_completeness auto
termination
  by (relation "measure (length \<circ> snd)") (auto intro: le_imp_less_Suc length_dropWhile_le)

lemma set_dedup_by_subset: "set (dedup_by k xs) \<subseteq> set xs"
proof (induction k xs rule: dedup_by.induct)
  case (2 k x xs)
  have "set (dropWhile (\<lambda>y. k y = k x) xs) \<subseteq> set xs" by (auto dest: set_dropWhileD)
  with 2 show ?case by auto
qed simp

lemma dedup_by_keys: "k ` set (dedup_by k xs) = k ` set xs"
proof (induction k xs rule: dedup_by.induct)
  case (2 k x xs)
  have "set xs = set (takeWhile (\<lambda>y. k y = k x) xs) \<union> set (dropWhile (\<lambda>y. k y = k x) xs)"
    by (metis set_append takeWhile_dropWhile_id)
  moreover have "k ` set (takeWhile (\<lambda>y. k y = k x) xs) \<subseteq> {k x}"
    by (auto dest: set_takeWhileD)
  ultimately show ?case using 2 by auto
qed simp

lemma sorted_dropWhile_keys:
  fixes k :: "'a \<Rightarrow> 'k :: linorder"
  assumes "sorted (map k (x # xs))" and "y \<in> set (dropWhile (\<lambda>y. k y = k x) xs)"
  shows "k x < k y"
  using assms
proof (induction xs)
  case (Cons a xs)
  show ?case
  proof (cases "k a = k x")
    case True
    with Cons show ?thesis by auto
  next
    case False
    with Cons.prems have "k x < k a" by (auto simp: less_le)
    moreover from Cons.prems False have "k a \<le> k y" by auto
    ultimately show ?thesis by simp
  qed
qed simp

lemma sorted_map_dropWhile:
  "sorted (map k xs) \<Longrightarrow> sorted (map k (dropWhile p xs))"
  by (metis map_append sorted_append takeWhile_dropWhile_id)

text \<open>On a list sorted by the key, the keys that are left are distinct and increasing.\<close>

lemma dedup_by_strict:
  fixes k :: "'a \<Rightarrow> 'k :: linorder"
  assumes "sorted (map k xs)"
  shows "sorted_wrt (<) (map k (dedup_by k xs))"
  using assms
proof (induction k xs rule: dedup_by.induct)
  case (2 k x xs)
  then have "sorted (map k (dropWhile (\<lambda>y. k y = k x) xs))"
    by (auto intro: sorted_map_dropWhile)
  with "2.IH" have "sorted_wrt (<) (map k (dedup_by k (dropWhile (\<lambda>y. k y = k x) xs)))" .
  moreover have "\<forall>y \<in> set (dedup_by k (dropWhile (\<lambda>y. k y = k x) xs)). k x < k y"
  proof
    fix y
    assume "y \<in> set (dedup_by k (dropWhile (\<lambda>y. k y = k x) xs))"
    then have "y \<in> set (dropWhile (\<lambda>y. k y = k x) xs)" using set_dedup_by_subset by fast
    with 2(2) show "k x < k y" by (rule sorted_dropWhile_keys)
  qed
  ultimately show ?case by simp
qed simp

lemma dedup_by_distinct:
  fixes k :: "'a \<Rightarrow> 'k :: linorder"
  shows "sorted (map k xs) \<Longrightarrow> distinct (map k (dedup_by k xs))"
  using dedup_by_strict strict_sorted_iff by blast

text \<open>
  The survivor of a key is the first of its run: when the list is also sorted by a finer
  relation \<open>R\<close>, the survivor is \<open>R\<close>-below every element with its key.
\<close>

lemma dedup_by_first:
  fixes k :: "'a \<Rightarrow> 'k :: linorder"
  assumes "sorted (map k xs)" and "sorted_wrt R xs" and "\<And>x. R x x"
    and "x \<in> set (dedup_by k xs)" and "y \<in> set xs" and "k y = k x"
  shows "R x y"
  using assms
proof (induction k xs rule: dedup_by.induct)
  case (2 k z xs)
  let ?d = "dropWhile (\<lambda>y. k y = k z) xs"
  show ?case
  proof (cases "x = z")
    case True
    with "2.prems" show ?thesis by auto
  next
    case False
    with "2.prems"(4) have xd: "x \<in> set (dedup_by k ?d)" by simp
    then have "x \<in> set ?d" using set_dedup_by_subset by fast
    with "2.prems"(1) have kx: "k z < k x" by (rule sorted_dropWhile_keys)
    with "2.prems"(5,6) have "y \<in> set xs" and "k y \<noteq> k z" by auto
    then have yd: "y \<in> set ?d"
      by (metis (mono_tags, lifting) Un_iff set_append set_takeWhileD takeWhile_dropWhile_id)
    have "sorted (map k ?d)" using "2.prems"(1) by (auto intro: sorted_map_dropWhile)
    moreover have "sorted_wrt R ?d" using "2.prems"(2)
      by (metis sorted_wrt.simps(2) sorted_wrt_append takeWhile_dropWhile_id)
    ultimately show ?thesis using "2.IH" "2.prems"(3,6) xd yd by blast
  qed
qed simp

subsection \<open>Association lists in iteration order\<close>

text \<open>
  The code's hash maps are association lists with distinct keys, in the order an iteration
  would visit them. That order is arbitrary in the code; a theorem about any list of
  entries therefore covers every order.
\<close>

definition al_put :: "'k \<Rightarrow> 'v \<Rightarrow> ('k \<times> 'v) list \<Rightarrow> ('k \<times> 'v) list" where
  "al_put k v m = (if map_of m k = None then m @ [(k, v)]
     else map (\<lambda>(k', v'). if k' = k then (k', v) else (k', v')) m)"

definition al_del :: "'k \<Rightarrow> ('k \<times> 'v) list \<Rightarrow> ('k \<times> 'v) list" where
  "al_del k m = filter (\<lambda>(k', _). k' \<noteq> k) m"

lemma map_of_map_upd_values:
  "map_of (map (\<lambda>(k', v'). if k' = k then (k', v) else (k', v')) m) =
   (\<lambda>j. if j = k then (if map_of m k = None then None else Some v) else map_of m j)"
  by (induction m) (auto simp: fun_eq_iff)

lemma map_of_al_put [simp]: "map_of (al_put k v m) = (map_of m)(k \<mapsto> v)"
  by (auto simp: al_put_def map_of_map_upd_values fun_eq_iff map_add_def
      split: option.splits)

lemma map_of_al_del [simp]: "map_of (al_del k m) = (map_of m)(k := None)"
  by (induction m) (auto simp: al_del_def fun_eq_iff)

lemma keys_al_put_present:
  "map_of m k \<noteq> None \<Longrightarrow> map fst (al_put k v m) = map fst m"
  by (auto simp: al_put_def)

lemma length_al_put:
  "length (al_put k v m) = (if map_of m k = None then Suc (length m) else length m)"
  by (simp add: al_put_def)

lemma distinct_al_put [simp]:
  "distinct (map fst m) \<Longrightarrow> distinct (map fst (al_put k v m))"
  by (cases "map_of m k")
     (auto simp: al_put_def map_of_eq_None_iff comp_def case_prod_beta if_distrib cong: if_cong)

lemma distinct_al_filter [simp]:
  "distinct (map fst m) \<Longrightarrow> distinct (map fst (filter p m))"
  by (induction m) auto

lemma distinct_al_del [simp]:
  "distinct (map fst m) \<Longrightarrow> distinct (map fst (al_del k m))"
  by (simp add: al_del_def)

lemma length_al_del_le: "length (al_del k m) \<le> length m"
  by (simp add: al_del_def)

lemma length_al_del:
  "distinct (map fst m) \<Longrightarrow>
   length (al_del k m) = (if map_of m k = None then length m else length m - 1)"
proof (induction m)
  case (Cons a m)
  obtain k' v' where a: "a = (k', v')" by (cases a)
  show ?case
  proof (cases "k' = k")
    case True
    with Cons a have "map_of m k = None" by (auto simp: map_of_eq_None_iff)
    with Cons a True show ?thesis by (simp add: al_del_def)
  next
    case False
    with Cons a show ?thesis
      by (cases m) (auto simp: al_del_def split: if_splits)
  qed
qed (simp add: al_del_def)

lemma set_al_del: "set (al_del k m) = {e \<in> set m. fst e \<noteq> k}"
  by (auto simp: al_del_def)

lemma map_of_filter_value:
  "distinct (map fst m) \<Longrightarrow> map_of (filter (\<lambda>(_, v). p v) m) k =
     (case map_of m k of Some v \<Rightarrow> if p v then Some v else None | None \<Rightarrow> None)"
  by (induction m) (auto simp: map_of_eq_None_iff split: option.split)

end
