(* ===== verification/Rust_Str.thy ===== *)
theory Rust_Str
  imports Prelude
begin

section \<open>Strings of the Rust standard library\<close>

text \<open>
  A Rust \<open>str\<close> is a sequence of UTF-8 bytes, here a \<open>char list\<close> (an Isabelle
  \<open>char\<close> is one byte). This theory writes out the methods the code calls: \<open>trim\<close> and
  its variants over the Unicode \<open>White_Space\<close> characters, ASCII lower-casing, searching,
  splitting, replacing, the UTF-8 check of \<open>str::from_utf8\<close>, and the split into
  characters behind \<open>chars()\<close>.
\<close>

definition byte :: "char \<Rightarrow> nat" where
  "byte c = of_char c"

subsection \<open>White space\<close>

definition ws1 :: "char \<Rightarrow> bool" where
  "ws1 a = ((9 \<le> byte a \<and> byte a \<le> 13) \<or> byte a = 32)"

definition ws2 :: "char \<Rightarrow> char \<Rightarrow> bool" where
  "ws2 a b = (byte a = 0xC2 \<and> (byte b = 0x85 \<or> byte b = 0xA0))"

definition ws3 :: "char \<Rightarrow> char \<Rightarrow> char \<Rightarrow> bool" where
  "ws3 a b c = (
     (byte a = 0xE1 \<and> byte b = 0x9A \<and> byte c = 0x80) \<or>
     (byte a = 0xE2 \<and> byte b = 0x80 \<and>
        ((0x80 \<le> byte c \<and> byte c \<le> 0x8A) \<or> byte c = 0xA8 \<or> byte c = 0xA9 \<or> byte c = 0xAF)) \<or>
     (byte a = 0xE2 \<and> byte b = 0x81 \<and> byte c = 0x9F) \<or>
     (byte a = 0xE3 \<and> byte b = 0x80 \<and> byte c = 0x80))"

text \<open>The number of bytes of the white-space character at the front, 0 when there is none.\<close>

fun ws_front :: "string \<Rightarrow> nat" where
  "ws_front [] = 0"
| "ws_front [a] = (if ws1 a then 1 else 0)"
| "ws_front [a, b] = (if ws1 a then 1 else if ws2 a b then 2 else 0)"
| "ws_front (a # b # c # _) =
     (if ws1 a then 1 else if ws2 a b then 2 else if ws3 a b c then 3 else 0)"

text \<open>The same at the back, on the reversed string.\<close>

fun ws_back :: "string \<Rightarrow> nat" where
  "ws_back [] = 0"
| "ws_back [a] = (if ws1 a then 1 else 0)"
| "ws_back [b, a] = (if ws1 b then 1 else if ws2 a b then 2 else 0)"
| "ws_back (c # b # a # _) =
     (if ws1 c then 1 else if ws2 b c then 2 else if ws3 a b c then 3 else 0)"

function strip :: "(string \<Rightarrow> nat) \<Rightarrow> string \<Rightarrow> string" where
  "strip w s = (if s = [] \<or> w s = 0 then s else strip w (drop (w s) s))"
  by pat_completeness auto
termination
  by (relation "measure (length \<circ> snd)") auto

declare strip.simps [simp del]

definition trim_start :: "string \<Rightarrow> string" where
  "trim_start s = strip ws_front s"

definition trim_end :: "string \<Rightarrow> string" where
  "trim_end s = rev (strip ws_back (rev s))"

definition trim :: "string \<Rightarrow> string" where
  "trim s = trim_end (trim_start s)"

lemma strip_Nil [simp]: "strip w [] = []"
  by (subst strip.simps) simp

lemma strip_suffix: "suffix (strip w s) s"
proof (induction w s rule: strip.induct)
  case (1 w s)
  show ?case
  proof (cases "s = [] \<or> w s = 0")
    case True
    then show ?thesis by (subst strip.simps) auto
  next
    case False
    with 1 have "suffix (strip w (drop (w s) s)) (drop (w s) s)" by blast
    then have "suffix (strip w (drop (w s) s)) s" using suffix_drop suffix_order.trans by blast
    with False show ?thesis by (simp add: strip.simps[of w s])
  qed
qed

lemma strip_stop: "strip w s = [] \<or> w (strip w s) = 0"
proof (induction w s rule: strip.induct)
  case (1 w s)
  then show ?case by (cases "s = [] \<or> w s = 0") (auto simp: strip.simps[of w s])
qed

lemma strip_idem [simp]: "strip w (strip w s) = strip w s"
  using strip_stop[of w s] by (subst strip.simps) auto

lemma trim_Nil [simp]: "trim [] = []"
  by (simp add: trim_def trim_start_def trim_end_def)

text \<open>
  A shorter string with the same beginning cannot begin with a longer white-space
  character, so cutting the end never exposes white space at the front.
\<close>

lemma ws_front_prefix: "ws_front (s @ t) = 0 \<Longrightarrow> ws_front s = 0"
proof (induction s rule: ws_front.induct)
  case (2 a)
  then show ?case by (cases t rule: ws_front.cases) (auto split: if_splits)
next
  case (3 a b)
  then show ?case by (cases t) (auto split: if_splits)
qed auto

lemma trim_end_prefix: "prefix (trim_end s) s"
  using strip_suffix[of ws_back "rev s"] by (simp add: trim_end_def suffix_to_prefix)

lemma trim_start_idem [simp]: "trim_start (trim_start s) = trim_start s"
  by (simp add: trim_start_def)

lemma trim_end_idem [simp]: "trim_end (trim_end s) = trim_end s"
  by (simp add: trim_end_def)

lemma trim_start_fixed: "ws_front s = 0 \<Longrightarrow> trim_start s = s"
  by (simp add: trim_start_def strip.simps[of ws_front s])

lemma trim_start_trim [simp]: "trim_start (trim s) = trim s"
proof -
  obtain t where t: "trim_start s = trim s @ t"
    using trim_end_prefix[of "trim_start s"] by (auto simp: trim_def prefix_def)
  have "trim_start s = [] \<or> ws_front (trim_start s) = 0"
    unfolding trim_start_def by (rule strip_stop)
  then have "ws_front (trim s) = 0"
    using t ws_front_prefix by (metis append_is_Nil_conv ws_front.simps(1))
  then show ?thesis by (rule trim_start_fixed)
qed

lemma trim_idem [simp]: "trim (trim s) = trim s"
  by (metis trim_def trim_end_idem trim_start_trim)

lemma trim_end_trim [simp]: "trim_end (trim s) = trim s"
  by (simp add: trim_def)

text \<open>\<open>trim_end_matches(c)\<close> for a single character.\<close>

definition trim_end_matches :: "char \<Rightarrow> string \<Rightarrow> string" where
  "trim_end_matches c s = rev (dropWhile (\<lambda>x. x = c) (rev s))"

lemma trim_end_matches_last: "trim_end_matches c s \<noteq> [] \<Longrightarrow> last (trim_end_matches c s) \<noteq> c"
  unfolding trim_end_matches_def
  by (metis (full_types) hd_dropWhile last_rev rev_is_Nil_conv)

lemma trim_end_matches_id: "s = [] \<or> last s \<noteq> c \<Longrightarrow> trim_end_matches c s = s"
  unfolding trim_end_matches_def
  by (cases s rule: rev_cases) auto

subsection \<open>Case, searching, splitting, replacing\<close>

definition ascii_lower :: "char \<Rightarrow> char" where
  "ascii_lower c = (if 65 \<le> byte c \<and> byte c \<le> 90 then char_of (byte c + 32) else c)"

definition to_ascii_lowercase :: "string \<Rightarrow> string" where
  "to_ascii_lowercase s = map ascii_lower s"

definition is_ascii_graphic :: "char \<Rightarrow> bool" where
  "is_ascii_graphic c = (33 \<le> byte c \<and> byte c \<le> 126)"

fun contains_sub :: "string \<Rightarrow> string \<Rightarrow> bool" where
  "contains_sub p [] = (p = [])"
| "contains_sub p (c # s) = (prefix p (c # s) \<or> contains_sub p s)"

lemma contains_sub_iff: "contains_sub p s \<longleftrightarrow> (\<exists>u v. s = u @ p @ v)"
proof (induction s)
  case (Cons c s)
  show ?case
  proof
    assume "contains_sub p (c # s)"
    then consider "prefix p (c # s)" | "contains_sub p s" by auto
    then show "\<exists>u v. c # s = u @ p @ v"
    proof cases
      case 1
      then show ?thesis by (metis append_Nil prefix_def)
    next
      case 2
      then show ?thesis using Cons by (metis append_Cons)
    qed
  next
    assume "\<exists>u v. c # s = u @ p @ v"
    then obtain u v where uv: "c # s = u @ p @ v" by blast
    show "contains_sub p (c # s)"
    proof (cases u)
      case Nil
      with uv have "prefix p (c # s)" by simp
      then show ?thesis by simp
    next
      case (Cons a us)
      with uv have "s = us @ p @ v" by simp
      with Cons.IH show ?thesis by auto
    qed
  qed
qed auto

text \<open>\<open>split_once(c)\<close>: before and after the first \<open>c\<close>.\<close>

definition split_once :: "char \<Rightarrow> string \<Rightarrow> (string \<times> string) option" where
  "split_once c s = (if c \<in> set s
     then Some (takeWhile (\<lambda>x. x \<noteq> c) s, tl (dropWhile (\<lambda>x. x \<noteq> c) s)) else None)"

text \<open>\<open>split(c)\<close>: the pieces between the occurrences of \<open>c\<close>, at least one.\<close>

fun split_on :: "char \<Rightarrow> string \<Rightarrow> string list" where
  "split_on c [] = [[]]"
| "split_on c (x # s) = (if x = c then [] # split_on c s
     else (case split_on c s of [] \<Rightarrow> [[x]] | p # ps \<Rightarrow> (x # p) # ps))"

text \<open>\<open>[_].join(sep)\<close>.\<close>

fun join :: "string \<Rightarrow> string list \<Rightarrow> string" where
  "join sep [] = []"
| "join sep [p] = p"
| "join sep (p # q # ps) = p @ sep @ join sep (q # ps)"

lemma split_on_nonempty [simp]: "split_on c s \<noteq> []"
  by (induction s) (auto split: list.splits)

lemma split_on_no_sep: "p \<in> set (split_on c s) \<Longrightarrow> c \<notin> set p"
proof (induction s arbitrary: p)
  case (Cons x s)
  then show ?case by (fastforce split: if_splits list.splits)
qed simp

lemma join_split_on: "join [c] (split_on c s) = s"
proof (induction s)
  case (Cons x s)
  obtain p ps where sp: "split_on c s = p # ps" by (cases "split_on c s") auto
  show ?case
  proof (cases "x = c")
    case True
    with Cons sp show ?thesis by simp
  next
    case False
    with Cons sp show ?thesis by (cases ps) auto
  qed
qed simp

text \<open>\<open>strip_prefix\<close>.\<close>

definition strip_prefix :: "string \<Rightarrow> string \<Rightarrow> string option" where
  "strip_prefix p s = (if prefix p s then Some (drop (length p) s) else None)"

text \<open>\<open>replace(pat, to)\<close> for a non-empty pattern: left to right, no overlaps.\<close>

function replace_all :: "string \<Rightarrow> string \<Rightarrow> string \<Rightarrow> string" where
  "replace_all p t [] = []"
| "replace_all p t (c # s) =
     (if p \<noteq> [] \<and> prefix p (c # s) then t @ replace_all p t (drop (length p) (c # s))
      else c # replace_all p t s)"
  by pat_completeness auto
termination
proof (relation "measure (\<lambda>(p, t, s). length s)")
  fix p :: string and t :: string and c :: char and s :: string
  assume "p \<noteq> [] \<and> prefix p (c # s)"
  then have "length p > 0" by simp
  then have "length (drop (length p) (c # s)) < length (c # s)" by (cases p) auto
  then show "((p, t, drop (length p) (c # s)), p, t, c # s) \<in> measure (\<lambda>(p, t, s). length s)"
    by simp
qed auto

lemma replace_all_absent: "\<not> contains_sub p s \<Longrightarrow> replace_all p t s = s"
  by (induction s) auto

subsection \<open>UTF-8\<close>

definition cont_byte :: "char \<Rightarrow> bool" where
  "cont_byte c = (0x80 \<le> byte c \<and> byte c \<le> 0xBF)"

text \<open>The length of the encoded character at the front, 0 when it is not well formed.\<close>

definition utf8_step :: "string \<Rightarrow> nat" where
  "utf8_step s = (case s of
     [] \<Rightarrow> 0
   | a # r \<Rightarrow>
       (if byte a < 0x80 then 1
        else if 0xC2 \<le> byte a \<and> byte a \<le> 0xDF then
          (case r of b # _ \<Rightarrow> if cont_byte b then 2 else 0 | _ \<Rightarrow> 0)
        else if 0xE0 \<le> byte a \<and> byte a \<le> 0xEF then
          (case r of b # c # _ \<Rightarrow>
             if cont_byte b \<and> cont_byte c \<and> (byte a = 0xE0 \<longrightarrow> 0xA0 \<le> byte b)
                \<and> (byte a = 0xED \<longrightarrow> byte b \<le> 0x9F) then 3 else 0
           | _ \<Rightarrow> 0)
        else if 0xF0 \<le> byte a \<and> byte a \<le> 0xF4 then
          (case r of b # c # d # _ \<Rightarrow>
             if cont_byte b \<and> cont_byte c \<and> cont_byte d \<and> (byte a = 0xF0 \<longrightarrow> 0x90 \<le> byte b)
                \<and> (byte a = 0xF4 \<longrightarrow> byte b \<le> 0x8F) then 4 else 0
           | _ \<Rightarrow> 0)
        else 0))"

text \<open>\<open>str::from_utf8(..).is_ok()\<close>.\<close>

function utf8_valid :: "string \<Rightarrow> bool" where
  "utf8_valid s = (if s = [] then True else if utf8_step s = 0 then False
     else utf8_valid (drop (utf8_step s) s))"
  by pat_completeness auto
termination
  by (relation "measure length") auto

declare utf8_valid.simps [simp del]

text \<open>
  The characters of a valid string: each lead byte with its continuation bytes. On bytes
  that are not valid UTF-8 it is never used.
\<close>

definition char_len :: "char \<Rightarrow> nat" where
  "char_len a = (if byte a < 0xC0 then 1 else if byte a < 0xE0 then 2
     else if byte a < 0xF0 then 3 else 4)"

function chars :: "string \<Rightarrow> string list" where
  "chars s = (if s = [] then [] else take (char_len (hd s)) s # chars (drop (char_len (hd s)) s))"
  by pat_completeness auto
termination
  by (relation "measure length") (auto simp: char_len_def)

declare chars.simps [simp del]

lemma char_len_pos [simp]: "0 < char_len a"
  by (simp add: char_len_def)

lemma chars_Nil [simp]: "chars [] = []"
  by (subst chars.simps) simp

lemma concat_chars [simp]: "concat (chars s) = s"
proof (induction s rule: chars.induct)
  case (1 s)
  then show ?case by (cases "s = []") (auto simp: chars.simps[of s])
qed

lemma chars_eq_Nil [simp]: "chars s = [] \<longleftrightarrow> s = []"
  by (subst chars.simps) simp

lemma utf8_step_ascii [simp]: "byte a < 0x80 \<Longrightarrow> utf8_step (a # s) = 1"
  by (simp add: utf8_step_def)

lemma utf8_valid_Nil [simp]: "utf8_valid []"
  by (subst utf8_valid.simps) simp

lemma utf8_valid_ascii [simp]: "byte a < 0x80 \<Longrightarrow> utf8_valid (a # s) = utf8_valid s"
  by (subst utf8_valid.simps) simp

lemma utf8_valid_ascii_prefix:
  "\<forall>c \<in> set p. byte c < 0x80 \<Longrightarrow> utf8_valid (p @ s) = utf8_valid s"
  by (induction p) auto

text \<open>An ASCII byte ends whatever character precedes it, so validity splits there.\<close>

lemma utf8_step_le: "utf8_step s \<le> length s"
  by (auto simp: utf8_step_def split: list.splits)

lemma utf8_step_append_ascii:
  assumes "byte c < 0x80" and "a \<noteq> []"
  shows "utf8_step (a @ c # b) = utf8_step a"
proof -
  obtain x r where a: "a = x # r" using assms(2) by (cases a) auto
  have "\<not> cont_byte c" using assms(1) by (simp add: cont_byte_def)
  then show ?thesis unfolding a
    by (cases r; cases "tl r"; cases "tl (tl r)") (auto simp: utf8_step_def split: list.splits)
qed

lemma utf8_valid_append_ascii:
  assumes "byte c < 0x80"
  shows "utf8_valid (a @ c # b) \<longleftrightarrow> utf8_valid a \<and> utf8_valid b"
proof (induction "length a" arbitrary: a rule: less_induct)
  case less
  show ?case
  proof (cases "a = []")
    case True
    then show ?thesis using assms by simp
  next
    case False
    note step = utf8_step_append_ascii[OF assms False, of b]
    show ?thesis
    proof (cases "utf8_step a = 0")
      case True
      then show ?thesis using False step
        by (simp add: utf8_valid.simps[of a] utf8_valid.simps[of "a @ c # b"])
    next
      case pos: False
      have le: "utf8_step a \<le> length a" by (rule utf8_step_le)
      have "utf8_valid (drop (utf8_step a) a @ c # b) \<longleftrightarrow> utf8_valid (drop (utf8_step a) a) \<and> utf8_valid b"
        using less.hyps[of "drop (utf8_step a) a"] pos False by simp
      then show ?thesis using False step pos le
        by (simp add: utf8_valid.simps[of a] utf8_valid.simps[of "a @ c # b"])
    qed
  qed
qed

lemma utf8_valid_split_on:
  "byte c < 0x80 \<Longrightarrow> utf8_valid s \<Longrightarrow> l \<in> set (split_on c s) \<Longrightarrow> utf8_valid l"
proof (induction "length s" arbitrary: s rule: less_induct)
  case less
  show ?case
  proof (cases "c \<in> set s")
    case True
    then obtain a b where ab: "s = a @ c # b" "c \<notin> set a" using split_list_first[of c s] by blast
    have "split_on c s = a # split_on c b" unfolding ab(1) using ab(2) by (induction a) auto
    moreover have "utf8_valid a" "utf8_valid b"
      using less.prems ab utf8_valid_append_ascii[of c a b] by auto
    moreover have "l \<in> set (split_on c b) \<Longrightarrow> utf8_valid l"
      using less.hyps[of b] less.prems(1) \<open>utf8_valid b\<close> ab(1) by simp
    ultimately show ?thesis using less.prems(3) ab(1) by auto
  next
    case False
    then have "split_on c s = [s]" by (induction s) auto
    then show ?thesis using less.prems by simp
  qed
qed

text \<open>\<open>to_string()\<close> of an unsigned integer.\<close>

definition digit :: "nat \<Rightarrow> char" where
  "digit d = char_of (48 + d)"

fun nat_to_string :: "nat \<Rightarrow> string" where
  "nat_to_string n = (if n < 10 then [digit n] else nat_to_string (n div 10) @ [digit (n mod 10)])"

declare nat_to_string.simps [simp del]

text \<open>The printed number is made of digits and says which number it was.\<close>

lemma byte_digit: "d < 10 \<Longrightarrow> byte (digit d) = 48 + d"
  by (simp add: digit_def byte_def)

lemma nat_to_string_digits: "list_all (\<lambda>c. 48 \<le> byte c \<and> byte c \<le> 57) (nat_to_string n)"
proof (induction n rule: nat_to_string.induct)
  case (1 n)
  show ?case
  proof (cases "n < 10")
    case True
    then show ?thesis by (simp add: nat_to_string.simps[of n] byte_digit)
  next
    case False
    then show ?thesis using 1 by (simp add: nat_to_string.simps[of n] byte_digit)
  qed
qed

lemma nat_to_string_nonempty [simp]: "nat_to_string n \<noteq> []"
  by (simp add: nat_to_string.simps[of n])

lemma nat_to_string_value: "fold (\<lambda>c v. 10 * v + (byte c - 48)) (nat_to_string n) 0 = n"
proof (induction n rule: nat_to_string.induct)
  case (1 n)
  show ?case
  proof (cases "n < 10")
    case True
    then show ?thesis by (simp add: nat_to_string.simps[of n] byte_digit)
  next
    case False
    then have "fold (\<lambda>c v. 10 * v + (byte c - 48)) (nat_to_string (n div 10)) 0 = n div 10" by (rule 1)
    then show ?thesis using False by (simp add: nat_to_string.simps[of n] byte_digit)
  qed
qed

lemma nat_to_string_inject [simp]: "nat_to_string m = nat_to_string n \<longleftrightarrow> m = n"
  by (metis nat_to_string_value)

lemma split_on_none: "c \<notin> set s \<Longrightarrow> split_on c s = [s]"
  by (induction s) auto

end
