(* ===== verification/Protocol.thy ===== *)
theory Protocol
  imports Rust_Str "HOL-Library.Word"
begin

section \<open>Protocols and protocol sets\<close>

text \<open>
  \<open>crates/refract-core/src/protocol.rs\<close>: the four protocols, their fixed strings, the
  recognition of a protocol's paths, and \<open>ProtocolSet\<close>, the byte-wide bit set behind the
  transcoding switches. The set's laws are the locale \<open>finite_protocol_set\<close>, proved of
  the bit operations at the width of the code; the later theories use the set through
  the facts of its interpretation \<open>pset\<close>.
\<close>

unbundle bit_operations_syntax

datatype protocol = Chat | Responses | Messages | Gemini

datatype auth_scheme = Bearer | AnthropicApiKey | GoogleApiKey

definition all_protocols :: "protocol list" where
  "all_protocols = [Chat, Responses, Messages, Gemini]"

lemma in_all_protocols [simp]: "p \<in> set all_protocols"
  by (cases p) (simp_all add: all_protocols_def)

text \<open>The derived \<open>Ord\<close>: the order of declaration, which is also the discriminant.\<close>

fun discriminant :: "protocol \<Rightarrow> nat" where
  "discriminant Chat = 0"
| "discriminant Responses = 1"
| "discriminant Messages = 2"
| "discriminant Gemini = 3"

lemma discriminant_inj [simp]: "discriminant p = discriminant q \<longleftrightarrow> p = q"
  by (cases p; cases q) auto

instantiation protocol :: linorder
begin

definition less_eq_protocol :: "protocol \<Rightarrow> protocol \<Rightarrow> bool" where
  "less_eq_protocol p q = (discriminant p \<le> discriminant q)"

definition less_protocol :: "protocol \<Rightarrow> protocol \<Rightarrow> bool" where
  "less_protocol p q = (discriminant p < discriminant q)"

instance
  by standard (auto simp: less_eq_protocol_def less_protocol_def)

end

fun protocol_str :: "protocol \<Rightarrow> string" where
  "protocol_str Chat = ''chat''"
| "protocol_str Responses = ''responses''"
| "protocol_str Messages = ''messages''"
| "protocol_str Gemini = ''gemini''"

fun display_name :: "protocol \<Rightarrow> string" where
  "display_name Chat = ''OpenAI Chat Completions''"
| "display_name Responses = ''OpenAI Responses''"
| "display_name Messages = ''Anthropic Messages''"
| "display_name Gemini = ''Google Gemini''"

fun default_base_url :: "protocol \<Rightarrow> string" where
  "default_base_url Chat = ''https://api.openai.com''"
| "default_base_url Responses = ''https://api.openai.com''"
| "default_base_url Messages = ''https://api.anthropic.com''"
| "default_base_url Gemini = ''https://generativelanguage.googleapis.com''"

fun default_version_prefix :: "protocol \<Rightarrow> string" where
  "default_version_prefix Gemini = ''/v1beta''"
| "default_version_prefix _ = ''/v1''"

fun default_path :: "protocol \<Rightarrow> string" where
  "default_path Chat = ''/chat/completions''"
| "default_path Responses = ''/responses''"
| "default_path Messages = ''/messages''"
| "default_path Gemini = ''/models/{model}:{action}''"

definition default_models_path :: "protocol \<Rightarrow> string" where
  "default_models_path p = ''/models''"

fun protocol_auth :: "protocol \<Rightarrow> auth_scheme" where
  "protocol_auth Chat = Bearer"
| "protocol_auth Responses = Bearer"
| "protocol_auth Messages = AnthropicApiKey"
| "protocol_auth Gemini = GoogleApiKey"

definition path_is_model_dependent :: "protocol \<Rightarrow> bool" where
  "path_is_model_dependent p = (p = Gemini)"

definition path_looks_native :: "protocol \<Rightarrow> string \<Rightarrow> bool" where
  "path_looks_native p path0 = (
     let path = trim_end_matches (CHR ''/'') path0 in
     case p of
       Chat \<Rightarrow> suffix ''/chat/completions'' path
     | Responses \<Rightarrow> suffix ''/responses'' path
     | Messages \<Rightarrow> suffix ''/messages'' path
     | Gemini \<Rightarrow> contains_sub '':generateContent'' path
         \<or> contains_sub '':streamGenerateContent'' path
         \<or> contains_sub ''/models/'' path)"

text \<open>\<open>FromStr\<close>: the user-facing aliases included; \<open>None\<close> is \<open>ParseProtocolError\<close>.\<close>

definition parse_protocol :: "string \<Rightarrow> protocol option" where
  "parse_protocol s =
     (if s = ''chat'' then Some Chat
      else if s = ''responses'' \<or> s = ''res'' then Some Responses
      else if s = ''messages'' \<or> s = ''message'' then Some Messages
      else if s = ''gemini'' then Some Gemini
      else None)"

lemma parse_protocol_str [simp]: "parse_protocol (protocol_str p) = Some p"
  by (cases p) (simp_all add: parse_protocol_def)

lemma protocol_str_inj [simp]: "protocol_str p = protocol_str q \<longleftrightarrow> p = q"
  by (cases p; cases q) auto

lemma protocol_str_ascii: "c \<in> set (protocol_str p) \<Longrightarrow> byte c < 0x80"
  by (cases p) (auto simp: byte_def)

subsection \<open>Protocol sets\<close>

type_synonym protocol_set = "8 word"

definition pset_empty :: protocol_set where
  "pset_empty = 0"

definition pset_all :: protocol_set where
  "pset_all = 0b1111"

definition pset_bit :: "protocol \<Rightarrow> protocol_set" where
  "pset_bit p = push_bit (discriminant p) 1"

definition pset_insert :: "protocol \<Rightarrow> protocol_set \<Rightarrow> protocol_set" where
  "pset_insert p s = s OR pset_bit p"

definition pset_remove :: "protocol \<Rightarrow> protocol_set \<Rightarrow> protocol_set" where
  "pset_remove p s = s AND NOT (pset_bit p)"

definition pset_contains :: "protocol_set \<Rightarrow> protocol \<Rightarrow> bool" where
  "pset_contains s p = (s AND pset_bit p \<noteq> 0)"

definition pset_is_empty :: "protocol_set \<Rightarrow> bool" where
  "pset_is_empty s = (s = 0)"

definition pset_len :: "protocol_set \<Rightarrow> nat" where
  "pset_len s = length (filter (bit s) [0..<8])"

definition pset_iter :: "protocol_set \<Rightarrow> protocol list" where
  "pset_iter s = filter (pset_contains s) all_protocols"

definition pset_from_list :: "protocol list \<Rightarrow> protocol_set" where
  "pset_from_list ps = fold pset_insert ps pset_empty"

text \<open>\<open>Display\<close>: the names separated by commas, in the order of \<open>Protocol::ALL\<close>.\<close>

definition pset_display :: "protocol_set \<Rightarrow> string" where
  "pset_display s = join '','' (map protocol_str (pset_iter s))"

lemma bit_pset_bit_iff: "bit (pset_bit p) n \<longleftrightarrow> n = discriminant p"
proof -
  have "discriminant p < 8" by (cases p) auto
  then show ?thesis by (auto simp: pset_bit_def bit_exp_iff)
qed

lemma pset_bit_nz: "s AND pset_bit p \<noteq> 0 \<longleftrightarrow> bit s (discriminant p)"
proof -
  have "s AND pset_bit p = 0 \<longleftrightarrow> (\<forall>n. \<not> bit (s AND pset_bit p) n)"
    by (metis bit_0_eq bit_eq_iff bot_fun_def bot_bool_def)
  then show ?thesis by (auto simp: bit_and_iff bit_pset_bit_iff)
qed

lemma pset_contains_bit: "pset_contains s p \<longleftrightarrow> bit s (discriminant p)"
  by (simp add: pset_contains_def pset_bit_nz)

lemma bit_pset_bit: "bit (pset_bit q) (discriminant p) \<longleftrightarrow> p = q"
  by (auto simp: bit_pset_bit_iff)

text \<open>
  What a set of protocols promises its clients, whatever its representation: insertion and
  removal change one member and nothing else, the empty set has none.
\<close>

locale finite_protocol_set =
  fixes empty_set :: 's
    and ins :: "protocol \<Rightarrow> 's \<Rightarrow> 's"
    and del :: "protocol \<Rightarrow> 's \<Rightarrow> 's"
    and mem :: "'s \<Rightarrow> protocol \<Rightarrow> bool"
  assumes mem_empty: "\<not> mem empty_set p"
    and mem_ins: "mem (ins p s) q \<longleftrightarrow> q = p \<or> mem s q"
    and mem_del: "mem (del p s) q \<longleftrightarrow> q \<noteq> p \<and> mem s q"
begin

lemma mem_fold_ins: "mem (fold ins ps s) q \<longleftrightarrow> q \<in> set ps \<or> mem s q"
  by (induction ps arbitrary: s) (auto simp: mem_ins)

lemma mem_of_list: "mem (fold ins ps empty_set) q \<longleftrightarrow> q \<in> set ps"
  by (simp add: mem_fold_ins mem_empty)

lemma members_ins: "{q. mem (ins p s) q} = insert p {q. mem s q}"
  by (auto simp: mem_ins)

text \<open>Inserting the members of a condition, as the diagnosis of a route does.\<close>

lemma mem_fold_ins_if:
  "mem (fold (\<lambda>p s. if P p then ins p s else s) ps s) q \<longleftrightarrow> (q \<in> set ps \<and> P q) \<or> mem s q"
  by (induction ps arbitrary: s) (auto simp: mem_ins)

end

interpretation pset: finite_protocol_set pset_empty pset_insert pset_remove pset_contains
proof unfold_locales
  show "\<not> pset_contains pset_empty p" for p
    by (simp add: pset_contains_def pset_empty_def)
  show "pset_contains (pset_insert p s) q \<longleftrightarrow> q = p \<or> pset_contains s q" for p s q
    by (auto simp: pset_contains_bit pset_insert_def bit_or_iff bit_pset_bit)
  show "pset_contains (pset_remove p s) q \<longleftrightarrow> q \<noteq> p \<and> pset_contains s q" for p s q
  proof -
    have "discriminant q < 8" by (cases q) auto
    then show ?thesis
      by (auto simp: pset_contains_bit pset_remove_def bit_and_iff bit_not_iff bit_pset_bit)
  qed
qed

lemma pset_contains_all [simp]: "pset_contains pset_all p"
  by (cases p) (simp_all add: pset_contains_def pset_all_def pset_bit_def)

lemma set_pset_iter: "set (pset_iter s) = {p. pset_contains s p}"
  by (auto simp: pset_iter_def)

lemma sorted_pset_iter: "sorted_wrt (<) (pset_iter s)"
  unfolding pset_iter_def
  by (rule sorted_wrt_filter) (simp add: all_protocols_def less_protocol_def)

text \<open>
  A set built from protocols only uses the low four bits; on such a set \<open>len\<close> counts the
  members and the iteration rebuilds the set.
\<close>

definition pset_wf :: "protocol_set \<Rightarrow> bool" where
  "pset_wf s = (\<forall>i. bit s i \<longrightarrow> i < 4)"

lemma pset_wf_empty [simp]: "pset_wf pset_empty"
  by (simp add: pset_wf_def pset_empty_def)

lemma pset_wf_insert [simp]: "pset_wf s \<Longrightarrow> pset_wf (pset_insert p s)"
  by (cases p) (auto simp: pset_wf_def pset_insert_def bit_or_iff bit_pset_bit_iff)

lemma pset_wf_remove [simp]: "pset_wf s \<Longrightarrow> pset_wf (pset_remove p s)"
  by (auto simp: pset_wf_def pset_remove_def bit_and_iff)

lemma pset_wf_fold_insert: "pset_wf s \<Longrightarrow> pset_wf (fold pset_insert ps s)"
  by (induction ps arbitrary: s) auto

lemma pset_eqI:
  assumes "pset_wf s" and "pset_wf t" and "\<And>p. pset_contains s p \<longleftrightarrow> pset_contains t p"
  shows "s = t"
proof (rule bit_eqI)
  fix n
  have "bit s n \<longleftrightarrow> bit t n" if "n < 4"
  proof -
    from that consider "n = discriminant Chat" | "n = discriminant Responses"
      | "n = discriminant Messages" | "n = discriminant Gemini" by fastforce
    then show ?thesis by cases (use assms(3) in \<open>metis pset_contains_bit\<close>)+
  qed
  then show "bit s n \<longleftrightarrow> bit t n" using assms(1,2) by (meson pset_wf_def)
qed

lemma upt_8: "[0..<8] = [0, 1, 2, 3, 4, 5, 6, 7::nat]"
  by (simp add: upt_rec)

lemma pset_len_wf:
  assumes "pset_wf s"
  shows "pset_len s = length (pset_iter s)"
proof -
  have "\<not> bit s 4" "\<not> bit s 5" "\<not> bit s 6" "\<not> bit s 7"
    using assms by (auto simp: pset_wf_def)
  then show ?thesis
    by (simp add: pset_len_def pset_iter_def all_protocols_def pset_contains_bit upt_8)
qed

end
