(* ===== verification/Address.thy ===== *)
theory Address
  imports Protocol
begin

section \<open>Upstream addresses\<close>

text \<open>
  \<open>crates/refract-core/src/address.rs\<close>: how the URL of an upstream call is built from a
  channel's address settings. URL parsing is the \<open>url\<close> crate's: the operations the code
  uses of it are the record \<open>url_lib\<close>, a parameter of \<open>resolve\<close>.
\<close>

record ('u, 'e) url_lib =
  ul_parse :: "string \<Rightarrow> 'e + 'u"
  ul_path :: "'u \<Rightarrow> string"
  ul_has_query :: "'u \<Rightarrow> string \<Rightarrow> bool"
  ul_append_pair :: "string \<Rightarrow> string \<Rightarrow> 'u \<Rightarrow> 'u"

datatype pass_kind =
    Embeddings | Completions | Images | ImageEdits | AudioSpeech | AudioTranscriptions
  | AudioTranslations | Moderations | Rerank | CountTokens | GeminiCountTokens
  | GeminiEmbed | GeminiBatchEmbed

datatype action = Generate | StreamAction | ListModels | Passthrough pass_kind

record upstream_address =
  ua_unofficial :: bool
  ua_full_address :: bool
  ua_base_url :: "string option"
  ua_version_prefix :: "string option"
  ua_path :: "string option"

datatype 'e address_error =
    MissingBaseUrl
  | MissingFullAddress
  | InvalidUrl string 'e
  | ProtocolMismatch string protocol

definition pass_protocol :: "pass_kind \<Rightarrow> protocol" where
  "pass_protocol k = (case k of
     CountTokens \<Rightarrow> Messages
   | GeminiCountTokens \<Rightarrow> Gemini | GeminiEmbed \<Rightarrow> Gemini | GeminiBatchEmbed \<Rightarrow> Gemini
   | _ \<Rightarrow> Chat)"

fun pass_default_path :: "pass_kind \<Rightarrow> string" where
  "pass_default_path Embeddings = ''/embeddings''"
| "pass_default_path Completions = ''/completions''"
| "pass_default_path Images = ''/images/generations''"
| "pass_default_path ImageEdits = ''/images/edits''"
| "pass_default_path AudioSpeech = ''/audio/speech''"
| "pass_default_path AudioTranscriptions = ''/audio/transcriptions''"
| "pass_default_path AudioTranslations = ''/audio/translations''"
| "pass_default_path Moderations = ''/moderations''"
| "pass_default_path Rerank = ''/rerank''"
| "pass_default_path CountTokens = ''/messages/count_tokens''"
| "pass_default_path _ = ''/models/{model}:{action}''"

definition pass_path_suffix :: "pass_kind \<Rightarrow> string" where
  "pass_path_suffix k = (case k of
     GeminiCountTokens \<Rightarrow> '':countTokens''
   | GeminiEmbed \<Rightarrow> '':embedContent''
   | GeminiBatchEmbed \<Rightarrow> '':batchEmbedContents''
   | kind \<Rightarrow> pass_default_path kind)"

definition pass_gemini_verb :: "pass_kind \<Rightarrow> string" where
  "pass_gemini_verb k = (case k of
     GeminiCountTokens \<Rightarrow> ''countTokens''
   | GeminiEmbed \<Rightarrow> ''embedContent''
   | GeminiBatchEmbed \<Rightarrow> ''batchEmbedContents''
   | _ \<Rightarrow> [])"

fun gemini_verb :: "action \<Rightarrow> string" where
  "gemini_verb Generate = ''generateContent''"
| "gemini_verb StreamAction = ''streamGenerateContent''"
| "gemini_verb (Passthrough k) = pass_gemini_verb k"
| "gemini_verb ListModels = []"

definition official_address :: upstream_address where
  "official_address = \<lparr>ua_unofficial = False, ua_full_address = False, ua_base_url = None,
     ua_version_prefix = None, ua_path = None\<rparr>"

definition is_inherited :: "upstream_address \<Rightarrow> bool" where
  "is_inherited a \<longleftrightarrow> \<not> ua_unofficial a \<and> \<not> ua_full_address a \<and> ua_base_url a = None
     \<and> ua_version_prefix a = None \<and> ua_path a = None"

lemma is_inherited_official: "is_inherited a \<longleftrightarrow> a = official_address"
  by (cases a) (auto simp: is_inherited_def official_address_def)

fun default_path_for :: "protocol \<Rightarrow> action \<Rightarrow> string" where
  "default_path_for p ListModels = default_models_path p"
| "default_path_for p (Passthrough k) = pass_default_path k"
| "default_path_for p _ = default_path p"

subsection \<open>Joining and substituting\<close>

definition slash :: char where
  "slash = CHR ''/''"

text \<open>One segment of the loop of \<open>join_segments\<close>.\<close>

definition join_segment :: "string \<Rightarrow> string \<Rightarrow> string" where
  "join_segment out seg0 = (
     let seg = trim seg0 in
     if seg = [] then out
     else out @ (if prefix [slash] seg then [] else [slash]) @ trim_end_matches slash seg)"

definition join_segments :: "string \<Rightarrow> string list \<Rightarrow> string" where
  "join_segments base segs = foldl join_segment (trim_end_matches slash base) segs"

definition substitute_placeholders :: "string \<Rightarrow> action \<Rightarrow> string \<Rightarrow> string" where
  "substitute_placeholders raw act model = (
     if CHR ''{'' \<notin> set raw then raw
     else replace_all ''{action}'' (gemini_verb act) (replace_all ''{model}'' model raw))"

definition parse_url :: "('u, 'e) url_lib \<Rightarrow> string \<Rightarrow> 'e address_error + 'u" where
  "parse_url U raw = (case ul_parse U raw of Inl e \<Rightarrow> Inl (InvalidUrl raw e) | Inr u \<Rightarrow> Inr u)"

definition append_gemini_sse_query ::
  "('u, 'e) url_lib \<Rightarrow> protocol \<Rightarrow> action \<Rightarrow> 'u \<Rightarrow> 'u" where
  "append_gemini_sse_query U p act u = (
     if p \<noteq> Gemini \<or> act \<noteq> StreamAction then u
     else if ul_has_query U u ''alt'' then u
     else ul_append_pair U ''alt'' ''sse'' u)"

definition build_official ::
  "('u, 'e) url_lib \<Rightarrow> protocol \<Rightarrow> action \<Rightarrow> string \<Rightarrow> 'e address_error + 'u" where
  "build_official U p act model = (
     let joined = join_segments (default_base_url p)
                    [default_version_prefix p, default_path_for p act] in
     case parse_url U (substitute_placeholders joined act model) of
       Inl e \<Rightarrow> Inl e
     | Inr u \<Rightarrow> Inr (append_gemini_sse_query U p act u))"

text \<open>\<open>opt.as_deref().map(str::trim).filter(|s| !s.is_empty())\<close>.\<close>

definition trimmed :: "string option \<Rightarrow> string option" where
  "trimmed v = (case v of None \<Rightarrow> None | Some s \<Rightarrow> if trim s = [] then None else Some (trim s))"

definition path_ok :: "protocol \<Rightarrow> action \<Rightarrow> string \<Rightarrow> bool" where
  "path_ok p act path = (case act of
     ListModels \<Rightarrow> True
   | Passthrough k \<Rightarrow> suffix (pass_path_suffix k) (trim_end_matches slash path)
   | _ \<Rightarrow> path_looks_native p path)"

text \<open>The joined and substituted text of the address that is neither official nor full.\<close>

definition joined_address ::
  "upstream_address \<Rightarrow> string \<Rightarrow> protocol \<Rightarrow> action \<Rightarrow> string \<Rightarrow> string" where
  "joined_address a base p act model = (
     let pre = (case trimmed (ua_version_prefix a) of Some s \<Rightarrow> s | None \<Rightarrow> default_version_prefix p);
         path = (case act of
                   ListModels \<Rightarrow> default_path_for p act
                 | Passthrough _ \<Rightarrow> default_path_for p act
                 | _ \<Rightarrow> (case trimmed (ua_path a) of Some s \<Rightarrow> s | None \<Rightarrow> default_path_for p act))
     in substitute_placeholders (join_segments base [pre, path]) act model)"

definition resolve ::
  "('u, 'e) url_lib \<Rightarrow> upstream_address \<Rightarrow> protocol \<Rightarrow> action \<Rightarrow> string \<Rightarrow> 'e address_error + 'u"
where
  "resolve U a p act model = (
     if \<not> ua_unofficial a then build_official U p act model
     else
       let base = trimmed (ua_base_url a) in
       if ua_full_address a then
         (case base of
            None \<Rightarrow> Inl MissingFullAddress
          | Some raw \<Rightarrow> parse_url U (substitute_placeholders raw act model))
       else
         (case base of
            None \<Rightarrow> Inl MissingBaseUrl
          | Some b \<Rightarrow>
              (case parse_url U (joined_address a b p act model) of
                 Inl e \<Rightarrow> Inl e
               | Inr u \<Rightarrow>
                   if path_ok p act (ul_path U u) then Inr (append_gemini_sse_query U p act u)
                   else Inl (ProtocolMismatch (ul_path U u) p))))"

definition display_address :: "upstream_address \<Rightarrow> string" where
  "display_address a = (
     if \<not> ua_unofficial a then ''<official>''
     else let base = (case ua_base_url a of Some b \<Rightarrow> b | None \<Rightarrow> ''<unset>'') in
       if ua_full_address a then base
       else base @ (case ua_version_prefix a of Some v \<Rightarrow> v | None \<Rightarrow> [])
              @ (case ua_path a of Some v \<Rightarrow> v | None \<Rightarrow> []))"

subsection \<open>Properties\<close>

lemma trimmed_Some: "trimmed v = Some s \<Longrightarrow> s \<noteq> [] \<and> trim s = s"
  by (auto simp: trimmed_def split: option.splits if_splits)

text \<open>
  Slashes at the joints do not matter: an address typed with trailing slashes on the base,
  with or without a leading slash on a segment, or with trailing slashes on a segment,
  joins to the same text, and two pieces are always separated by exactly one slash that
  the segment brings or the join adds.
\<close>

lemma trim_end_matches_replicate [simp]:
  "trim_end_matches c (s @ replicate n c) = trim_end_matches c s"
proof -
  have "dropWhile (\<lambda>x. x = c) (replicate n c @ xs) = dropWhile (\<lambda>x. x = c) xs" for xs
    by (induction n) auto
  then show ?thesis by (simp add: trim_end_matches_def)
qed

lemma join_segments_base_slashes:
  "join_segments (base @ replicate n slash) segs = join_segments base segs"
  by (simp add: join_segments_def)

lemma join_segment_prefix: "prefix out (join_segment out seg)"
  by (simp add: join_segment_def Let_def)

lemma join_segments_prefix: "prefix (trim_end_matches slash base) (join_segments base segs)"
proof -
  have "prefix out (foldl join_segment out segs)" for out
  proof (induction segs arbitrary: out)
    case (Cons s segs)
    have "prefix (join_segment out s) (foldl join_segment (join_segment out s) segs)" by (rule Cons)
    with join_segment_prefix show ?case using prefix_order.trans by fastforce
  qed simp
  then show ?thesis by (simp add: join_segments_def)
qed

lemma resolve_official_ignores_fields:
  "\<not> ua_unofficial a \<Longrightarrow> resolve U a p act m = resolve U official_address p act m"
  by (simp add: resolve_def official_address_def)

lemma resolve_missing_base:
  "trimmed (ua_base_url a) \<noteq> None \<Longrightarrow>
   resolve U a p act m \<noteq> Inl MissingBaseUrl \<and> resolve U a p act m \<noteq> Inl MissingFullAddress"
  by (auto simp: resolve_def build_official_def parse_url_def Let_def split: option.splits sum.splits)

lemma resolve_official_no_missing:
  "\<not> ua_unofficial a \<Longrightarrow>
   resolve U a p act m \<noteq> Inl MissingBaseUrl \<and> resolve U a p act m \<noteq> Inl MissingFullAddress"
  by (auto simp: resolve_def build_official_def parse_url_def Let_def split: sum.splits)

text \<open>The errors of \<open>resolve\<close> that a missing base causes, exactly.\<close>

lemma resolve_missing_iff:
  "resolve U a p act m = Inl MissingBaseUrl \<longleftrightarrow>
     ua_unofficial a \<and> \<not> ua_full_address a \<and> trimmed (ua_base_url a) = None"
  "resolve U a p act m = Inl MissingFullAddress \<longleftrightarrow>
     ua_unofficial a \<and> ua_full_address a \<and> trimmed (ua_base_url a) = None"
  by (auto simp: resolve_def build_official_def parse_url_def Let_def split: option.splits sum.splits)

lemma resolve_joined_cases:
  assumes "ua_unofficial a" and "\<not> ua_full_address a" and "resolve U a p act m = Inr u"
  obtains b v where "trimmed (ua_base_url a) = Some b"
    and "ul_parse U (joined_address a b p act m) = Inr v"
    and "path_ok p act (ul_path U v)" and "u = append_gemini_sse_query U p act v"
  using assms
  by (auto simp: resolve_def parse_url_def Let_def split: option.splits sum.splits if_splits)

lemma append_query_path:
  assumes "\<And>k v w. ul_path U (ul_append_pair U k v w) = ul_path U w"
  shows "ul_path U (append_gemini_sse_query U p act u) = ul_path U u"
  using assms by (simp add: append_gemini_sse_query_def)

lemma append_query_alt:
  assumes "\<And>k v w. ul_has_query U (ul_append_pair U k v w) k"
  shows "ul_has_query U (append_gemini_sse_query U Gemini StreamAction u) ''alt''"
  using assms by (simp add: append_gemini_sse_query_def)

text \<open>Outside the full-address mode a resolved URL names an endpoint of the right
  shape: its path passes the check of the protocol and action it was resolved for, and a
  streaming Gemini URL carries an \<open>alt\<close> query. The two hypotheses say what the URL
  library's \<open>append_pair\<close> does: it leaves the path alone and adds the key.\<close>

theorem resolve_well_shaped:
  assumes path: "\<And>k v w. ul_path U (ul_append_pair U k v w) = ul_path U w"
    and query: "\<And>k v w. ul_has_query U (ul_append_pair U k v w) k"
    and res: "resolve U a p act m = Inr u" and nf: "\<not> ua_full_address a"
  shows "(ua_unofficial a \<longrightarrow> path_ok p act (ul_path U u))
       \<and> (p = Gemini \<and> act = StreamAction \<longrightarrow> ul_has_query U u ''alt'')"
proof (cases "ua_unofficial a")
  case True
  from resolve_joined_cases[OF True nf res] obtain v
    where "path_ok p act (ul_path U v)" and "u = append_gemini_sse_query U p act v" by blast
  then show ?thesis using append_query_path[OF path] append_query_alt[OF query] by auto
next
  case False
  with res obtain v where "u = append_gemini_sse_query U p act v"
    by (auto simp: resolve_def build_official_def parse_url_def Let_def split: sum.splits)
  with False show ?thesis using append_query_alt[OF query] by auto
qed

text \<open>A concrete URL library for the witness: a URL is its text, the path what follows the
  scheme, the query keys what has been appended.\<close>

definition plain_url_lib :: "(string \<times> string list, unit) url_lib" where
  "plain_url_lib = \<lparr>ul_parse = (\<lambda>s. Inr (s, [])), ul_path = fst,
     ul_has_query = (\<lambda>u k. k \<in> set (snd u)), ul_append_pair = (\<lambda>k v u. (fst u, k # snd u))\<rparr>"

definition relay_address :: upstream_address where
  "relay_address = official_address\<lparr>ua_unofficial := True,
     ua_base_url := Some ''https://relay.example.com/''\<rparr>"

lemma relay_address_resolves:
  "resolve plain_url_lib relay_address Gemini StreamAction ''m'' =
   Inr (''https://relay.example.com/v1beta/models/m:streamGenerateContent'', [''alt''])"
  by code_simp

theorem resolve_well_shaped_witness:
  "path_ok Gemini StreamAction ''https://relay.example.com/v1beta/models/m:streamGenerateContent''"
proof -
  have "(ua_unofficial relay_address \<longrightarrow> path_ok Gemini StreamAction (ul_path plain_url_lib
          (''https://relay.example.com/v1beta/models/m:streamGenerateContent'', [''alt''])))
      \<and> (Gemini = Gemini \<and> StreamAction = StreamAction \<longrightarrow> ul_has_query plain_url_lib
          (''https://relay.example.com/v1beta/models/m:streamGenerateContent'', [''alt'']) ''alt'')"
    by (rule resolve_well_shaped [OF _ _ relay_address_resolves])
       (simp_all add: plain_url_lib_def relay_address_def official_address_def)
  then show ?thesis by (simp add: relay_address_def plain_url_lib_def)
qed

end
