(* ===== verification/Json.thy ===== *)
theory Json
  imports Rust_Str "HOL-Library.Word" "HOL-Library.List_Lexorder" "HOL-Library.Char_ord"
begin

section \<open>JSON values\<close>

text \<open>
  The values of \<open>serde_json\<close> as the workspace builds it (feature
  \<open>preserve_order\<close>): an object keeps its entries in insertion order, \<open>insert\<close>
  overwrites in place, \<open>remove\<close> moves the last entry into the hole. Integers are
  integers; a floating-point number is kept as the bits of its \<open>f64\<close>. Parsing text to a
  value and printing are the library's and stay parameters of the operations that need
  them.
\<close>

type_synonym f64 = "64 word"

datatype jnum = JInt int | JFloat f64

datatype json =
    JNull
  | JBool bool
  | JNum jnum
  | JStr string
  | JArr "json list"
  | JObj "(string \<times> json) list"

type_synonym jmap = "(string \<times> json) list"

definition map_insert :: "string \<Rightarrow> 'v \<Rightarrow> (string \<times> 'v) list \<Rightarrow> (string \<times> 'v) list" where
  "map_insert k v m = al_put k v m"

definition map_remove :: "string \<Rightarrow> (string \<times> 'v) list \<Rightarrow> (string \<times> 'v) list" where
  "map_remove k m = (case position (\<lambda>e. fst e = k) m of None \<Rightarrow> m | Some i \<Rightarrow> swap_remove i m)"

text \<open>\<open>BTreeMap::insert\<close> on a map in the order of its keys.\<close>

fun btree_insert :: "'k :: linorder \<Rightarrow> 'v \<Rightarrow> ('k \<times> 'v) list \<Rightarrow> ('k \<times> 'v) list" where
  "btree_insert k v [] = [(k, v)]"
| "btree_insert k v ((k', v') # m) = (
     if k < k' then (k, v) # (k', v') # m
     else if k = k' then (k, v) # m else (k', v') # btree_insert k v m)"

lemma map_of_btree_insert [simp]: "map_of (btree_insert k v m) = (map_of m)(k \<mapsto> v)"
  by (induction k v m rule: btree_insert.induct) auto

lemma keys_btree_insert: "x \<in> set (map fst (btree_insert k v m)) \<longleftrightarrow> x = k \<or> x \<in> set (map fst m)"
  by (induction k v m rule: btree_insert.induct) auto

lemma btree_insert_sorted: "sorted_wrt (<) (map fst m) \<Longrightarrow> sorted_wrt (<) (map fst (btree_insert k v m))"
proof (induction k v m rule: btree_insert.induct)
  case (2 k v k' v' m)
  have above: "\<forall>y \<in> set (map fst m). k' < y" using 2(2) by simp
  consider "k < k'" | "k = k'" | "\<not> k < k'" "k \<noteq> k'" by blast
  then show ?case
  proof cases
    case 1
    then have "\<forall>y \<in> set (map fst m). k < y" using above by (blast intro: less_trans)
    then show ?thesis using 1 2(2) by simp
  next
    case 2
    then show ?thesis using \<open>sorted_wrt (<) (map fst ((k', v') # m))\<close> by simp
  next
    case 3
    then have "k' < k" by simp
    then have "\<forall>y \<in> set (map fst (btree_insert k v m)). k' < y" using above by (auto simp only: keys_btree_insert)
    moreover have "sorted_wrt (<) (map fst (btree_insert k v m))" using 2(1)[OF 3] 2(2) by simp
    ultimately show ?thesis using 3 by simp
  qed
qed simp

text \<open>A map filled in the order of its keys is what was put in.\<close>

lemma btree_insert_last:
  "\<forall>k' \<in> set (map fst m). k' < k \<Longrightarrow> btree_insert k v m = m @ [(k, v)]"
  by (induction k v m rule: btree_insert.induct) (auto dest: less_not_sym)

text \<open>\<open>Value::get(key)\<close>.\<close>

fun jget :: "string \<Rightarrow> json \<Rightarrow> json option" where
  "jget k (JObj m) = map_of m k"
| "jget k _ = None"

fun as_str :: "json \<Rightarrow> string option" where
  "as_str (JStr s) = Some s"
| "as_str _ = None"

fun as_array :: "json \<Rightarrow> json list option" where
  "as_array (JArr xs) = Some xs"
| "as_array _ = None"

definition is_null :: "json \<Rightarrow> bool" where
  "is_null v = (v = JNull)"

lemma map_of_map_insert [simp]: "map_of (map_insert k v m) = (map_of m)(k \<mapsto> v)"
  by (simp add: map_insert_def)

lemma distinct_map_insert [simp]:
  "distinct (map fst m) \<Longrightarrow> distinct (map fst (map_insert k v m))"
  by (simp add: map_insert_def)

text \<open>An object with distinct keys is determined by its set of entries.\<close>

lemma map_of_mset_eq:
  assumes "distinct (map fst m)" and "mset m = mset m'"
  shows "map_of m = map_of m'"
proof -
  have "mset (map fst m) = mset (map fst m')" using assms(2) by simp
  then have "distinct (map fst m')" using assms(1) mset_eq_imp_distinct_iff by blast
  moreover have "set m = set m'" using assms(2) by (metis set_mset_mset)
  ultimately show ?thesis using assms(1) by (metis map_of_inject_set)
qed

lemma map_remove_absent:
  assumes "map_of m k = None"
  shows "map_remove k m = m"
proof -
  have "\<forall>e \<in> set m. fst e \<noteq> k" using assms by (force simp: map_of_eq_None_iff)
  then have "position (\<lambda>e. fst e = k) m = None" by (simp only: position_None)
  then show ?thesis unfolding map_remove_def by (rule ssubst) simp
qed

lemma map_remove_mset:
  assumes "map_of m k = Some v" and "distinct (map fst m)"
  shows "mset m = add_mset (k, v) (mset (map_remove k m))"
proof -
  have "\<exists>e \<in> set m. fst e = k" using map_of_SomeD[OF assms(1)] by (rule bexI[rotated]) simp
  then have "position (\<lambda>e. fst e = k) m \<noteq> None" by auto
  then obtain i where i: "position (\<lambda>e. fst e = k) m = Some i" by blast
  then have len: "i < length m" and fst: "fst (m ! i) = k"
    by (auto simp: position_Some)
  then have "map_of m k = Some (snd (m ! i))"
  proof -
    have "(k, snd (m ! i)) \<in> set m" using len fst by (metis nth_mem prod.collapse)
    with assms(2) show ?thesis by (rule map_of_is_SomeI)
  qed
  with assms(1) fst have "m ! i = (k, v)" by (simp add: prod_eq_iff)
  with mset_swap_remove[OF len] i show ?thesis by (simp add: map_remove_def)
qed

lemma distinct_map_remove [simp]:
  assumes "distinct (map fst m)"
  shows "distinct (map fst (map_remove k m))"
proof (cases "map_of m k")
  case None
  with assms show ?thesis by (simp add: map_remove_absent)
next
  case (Some v)
  from map_remove_mset[OF Some assms]
  have "mset (map fst m) = mset (k # map fst (map_remove k m))" by simp
  with assms have "distinct (k # map fst (map_remove k m))" using mset_eq_imp_distinct_iff by blast
  then show ?thesis by simp
qed

lemma map_of_map_remove [simp]:
  assumes "distinct (map fst m)"
  shows "map_of (map_remove k m) = (map_of m)(k := None)"
proof (cases "map_of m k")
  case None
  then show ?thesis by (auto simp: map_remove_absent fun_eq_iff)
next
  case (Some v)
  from map_remove_mset[OF Some assms] have "mset m = mset ((k, v) # map_remove k m)" by simp
  with assms have eq: "map_of m = map_of ((k, v) # map_remove k m)" by (rule map_of_mset_eq)
  have "mset (map fst m) = mset (k # map fst (map_remove k m))"
    using map_remove_mset[OF Some assms] by simp
  with assms have "distinct (k # map fst (map_remove k m))"
    using mset_eq_imp_distinct_iff by blast
  then have "map_of (map_remove k m) k = None" by (simp add: map_of_eq_None_iff)
  with eq show ?thesis by (auto simp: fun_eq_iff)
qed

end
