(* ===== verification/Gateway_Error.thy ===== *)
theory Gateway_Error
  imports Protocol Json
begin

section \<open>Gateway errors\<close>

text \<open>
  \<open>crates/refract-core/src/error.rs\<close>: the error kinds with their status codes and their
  names in the three error formats, the two classifications routing is driven by
  (\<open>is_retryable\<close>, \<open>is_key_failure\<close>), and the error value with its builders.
  Durations are counted in nanoseconds.
\<close>

type_synonym duration = nat

definition from_secs :: "nat \<Rightarrow> duration" where
  "from_secs n = n * 10 ^ 9"

lemma from_secs_le [simp]: "from_secs a \<le> from_secs b \<longleftrightarrow> a \<le> b"
  by (simp add: from_secs_def)

datatype error_kind =
    InvalidRequest | Unauthenticated | PermissionDenied | NotFound | PayloadTooLarge
  | RateLimited | UpstreamError | InvalidUpstreamResponse | NoAvailableChannel | Timeout
  | TranscodeNotPermitted | TranscodeFailed | Configuration | Internal

fun kind_status :: "error_kind \<Rightarrow> nat" where
  "kind_status InvalidRequest = 400"
| "kind_status TranscodeNotPermitted = 400"
| "kind_status Unauthenticated = 401"
| "kind_status PermissionDenied = 403"
| "kind_status NotFound = 404"
| "kind_status PayloadTooLarge = 413"
| "kind_status RateLimited = 429"
| "kind_status Internal = 500"
| "kind_status TranscodeFailed = 500"
| "kind_status Configuration = 500"
| "kind_status InvalidUpstreamResponse = 500"
| "kind_status UpstreamError = 502"
| "kind_status NoAvailableChannel = 503"
| "kind_status Timeout = 504"

definition openai_type :: "error_kind \<Rightarrow> string" where
  "openai_type k = (
     if k \<in> {InvalidRequest, TranscodeNotPermitted, PayloadTooLarge, NotFound}
       then ''invalid_request_error''
     else if k = Unauthenticated then ''authentication_error''
     else if k = PermissionDenied then ''permission_error''
     else if k = RateLimited then ''rate_limit_error''
     else if k \<in> {UpstreamError, NoAvailableChannel} then ''api_error''
     else if k = Timeout then ''timeout_error''
     else ''internal_server_error'')"

definition anthropic_type :: "error_kind \<Rightarrow> string" where
  "anthropic_type k = (
     if k \<in> {InvalidRequest, TranscodeNotPermitted} then ''invalid_request_error''
     else if k = Unauthenticated then ''authentication_error''
     else if k = PermissionDenied then ''permission_error''
     else if k = NotFound then ''not_found_error''
     else if k = PayloadTooLarge then ''request_too_large''
     else if k = RateLimited then ''rate_limit_error''
     else if k \<in> {UpstreamError, NoAvailableChannel} then ''api_error''
     else if k = Timeout then ''timeout_error''
     else ''api_error'')"

definition google_status :: "error_kind \<Rightarrow> string" where
  "google_status k = (
     if k \<in> {InvalidRequest, TranscodeNotPermitted} then ''INVALID_ARGUMENT''
     else if k = Unauthenticated then ''UNAUTHENTICATED''
     else if k = PermissionDenied then ''PERMISSION_DENIED''
     else if k = NotFound then ''NOT_FOUND''
     else if k = PayloadTooLarge then ''OUT_OF_RANGE''
     else if k = RateLimited then ''RESOURCE_EXHAUSTED''
     else if k = UpstreamError then ''INTERNAL''
     else if k = NoAvailableChannel then ''UNAVAILABLE''
     else if k = Timeout then ''DEADLINE_EXCEEDED''
     else ''INTERNAL'')"

definition kind_retryable :: "error_kind \<Rightarrow> bool" where
  "kind_retryable k =
     (k \<in> {RateLimited, UpstreamError, Timeout, Unauthenticated, PermissionDenied})"

definition is_key_failure :: "error_kind \<Rightarrow> bool" where
  "is_key_failure k = (k \<in> {Unauthenticated, PermissionDenied, RateLimited})"

lemma key_failure_retryable: "is_key_failure k \<Longrightarrow> kind_retryable k"
  by (auto simp: is_key_failure_def kind_retryable_def)

record gateway_error =
  ge_kind :: error_kind
  ge_message :: string
  ge_protocol :: "protocol option"
  ge_channel_id :: "int option"
  ge_channel_name :: "string option"
  ge_attempts :: nat
  ge_upstream_model :: "string option"
  ge_upstream_body :: "string option"
  ge_upstream_status :: "nat option"
  ge_retry_after :: "duration option"
  ge_credential_hint :: "string option"
  ge_details :: "json option"

definition gateway_error_new :: "error_kind \<Rightarrow> string \<Rightarrow> gateway_error" where
  "gateway_error_new k m = \<lparr>ge_kind = k, ge_message = m, ge_protocol = None,
     ge_channel_id = None, ge_channel_name = None, ge_attempts = 0,
     ge_upstream_model = None, ge_upstream_body = None, ge_upstream_status = None,
     ge_retry_after = None, ge_credential_hint = None, ge_details = None\<rparr>"

definition ge_invalid_request :: "string \<Rightarrow> gateway_error" where
  "ge_invalid_request m = gateway_error_new InvalidRequest m"

definition ge_budget_exhausted :: gateway_error where
  "ge_budget_exhausted = gateway_error_new NoAvailableChannel ''upstream call budget exhausted''"

definition with_protocol :: "protocol \<Rightarrow> gateway_error \<Rightarrow> gateway_error" where
  "with_protocol p e = e\<lparr>ge_protocol := Some p\<rparr>"

definition with_channel :: "int \<Rightarrow> gateway_error \<Rightarrow> gateway_error" where
  "with_channel c e = e\<lparr>ge_channel_id := Some c\<rparr>"

definition with_upstream :: "nat \<Rightarrow> string \<Rightarrow> gateway_error \<Rightarrow> gateway_error" where
  "with_upstream st body e = e\<lparr>ge_upstream_status := Some st, ge_upstream_body := Some body\<rparr>"

definition with_retry_after :: "duration \<Rightarrow> gateway_error \<Rightarrow> gateway_error" where
  "with_retry_after d e = e\<lparr>ge_retry_after := Some d\<rparr>"

definition ge_transcode_not_permitted :: "protocol \<Rightarrow> protocol \<Rightarrow> gateway_error" where
  "ge_transcode_not_permitted inbound native =
     with_protocol native (gateway_error_new TranscodeNotPermitted
       (''channel endpoint speaks `'' @ protocol_str native
        @ ''` and does not accept transcoding from `'' @ protocol_str inbound @ ''`''))"

definition ge_retryable :: "gateway_error \<Rightarrow> bool" where
  "ge_retryable e = kind_retryable (ge_kind e)"

definition ge_status :: "gateway_error \<Rightarrow> nat" where
  "ge_status e = kind_status (ge_kind e)"

lemma ge_kind_new [simp]: "ge_kind (gateway_error_new k m) = k"
  by (simp add: gateway_error_new_def)

lemma ge_builders_kind [simp]:
  "ge_kind (with_protocol p e) = ge_kind e" "ge_kind (with_channel c e) = ge_kind e"
  "ge_kind (with_upstream st b e) = ge_kind e" "ge_kind (with_retry_after d e) = ge_kind e"
  by (simp_all add: with_protocol_def with_channel_def with_upstream_def with_retry_after_def)

end
