(* ===== verification/Channel.thy ===== *)
theory Channel
  imports Address Gateway_Error Json
begin

section \<open>Channels\<close>

text \<open>
  \<open>crates/refract-core/src/channel.rs\<close>: channel kinds, the transcoding policy, the
  credentials and the key pool, model entries, the empty-response policy, parameter
  overrides, and the channel itself with its validation. \<open>f64\<close> balances are bit patterns
  and times are integers; no operation reads them.
\<close>

type_synonym channel_id = int

datatype channel_kind = Single protocol | Aggregate

definition aggregate_tag :: string where
  "aggregate_tag = ''aggregate''"

definition parse_channel_kind :: "string \<Rightarrow> string + channel_kind" where
  "parse_channel_kind s = (
     if s = aggregate_tag then Inr Aggregate
     else case parse_protocol s of Some p \<Rightarrow> Inr (Single p) | None \<Rightarrow> Inl s)"

fun kind_str :: "channel_kind \<Rightarrow> string" where
  "kind_str (Single p) = protocol_str p"
| "kind_str Aggregate = ''aggregate''"

fun native_protocol :: "channel_kind \<Rightarrow> protocol option" where
  "native_protocol (Single p) = Some p"
| "native_protocol Aggregate = None"

definition is_aggregate :: "channel_kind \<Rightarrow> bool" where
  "is_aggregate k = (k = Aggregate)"

lemma parse_kind_str: "parse_channel_kind (kind_str k) = Inr k"
proof (cases k)
  case (Single p)
  then show ?thesis by (cases p) (simp_all add: parse_channel_kind_def parse_protocol_def aggregate_tag_def)
qed (simp add: parse_channel_kind_def aggregate_tag_def)

subsection \<open>Transcoding policy\<close>

record transcode_policy =
  tp_enabled :: bool
  tp_accepted :: protocol_set

definition transcode_disabled :: transcode_policy where
  "transcode_disabled = \<lparr>tp_enabled = False, tp_accepted = pset_empty\<rparr>"

definition can_serve :: "transcode_policy \<Rightarrow> protocol \<Rightarrow> protocol \<Rightarrow> bool" where
  "can_serve t inbound native \<longleftrightarrow>
     inbound = native \<or> (tp_enabled t \<and> pset_contains (tp_accepted t) inbound)"

definition served_protocols :: "transcode_policy \<Rightarrow> protocol \<Rightarrow> protocol_set" where
  "served_protocols t native =
     pset_insert native (if tp_enabled t then tp_accepted t else pset_empty)"

lemma served_protocols_can_serve:
  "pset_contains (served_protocols t native) p \<longleftrightarrow> can_serve t p native"
  by (auto simp: served_protocols_def can_serve_def pset.mem_ins pset.mem_empty)

subsection \<open>Credentials and key pools\<close>

type_synonym credential = string

definition cred_is_empty :: "credential \<Rightarrow> bool" where
  "cred_is_empty c = (trim c = [])"

text \<open>The bullet and the ellipsis of the masked form, in UTF-8.\<close>

definition bullet :: string where
  "bullet = map char_of [0xE2, 0x80, 0xA2 :: nat]"

definition ellipsis :: string where
  "ellipsis = map char_of [0xE2, 0x80, 0xA6 :: nat]"

definition masked :: "credential \<Rightarrow> string" where
  "masked c = (
     let cs = chars (trim c); n = length cs in
     if n = 0 then []
     else if n \<le> 8 then concat (replicate n bullet)
     else concat (take 4 cs) @ ellipsis @ concat (drop (n - 4) cs))"

datatype key_strategy = Sticky | RoundRobinKeys | RandomKeys

fun strategy_str :: "key_strategy \<Rightarrow> string" where
  "strategy_str Sticky = ''sticky''"
| "strategy_str RoundRobinKeys = ''round_robin''"
| "strategy_str RandomKeys = ''random''"

definition parse_strategy :: "string \<Rightarrow> key_strategy" where
  "parse_strategy s = (if s = ''sticky'' then Sticky else if s = ''random'' then RandomKeys
     else RoundRobinKeys)"

lemma parse_strategy_str: "parse_strategy (strategy_str s) = s"
  by (cases s) (simp_all add: parse_strategy_def)

datatype key_pool =
    SingleKey credential
  | Pool (pool_first: credential) (pool_rest: "credential list") (pool_strategy: key_strategy)

fun pool_len :: "key_pool \<Rightarrow> nat" where
  "pool_len (SingleKey _) = 1"
| "pool_len (Pool _ rest _) = Suc (length rest)"

fun is_single :: "key_pool \<Rightarrow> bool" where
  "is_single (SingleKey _) = True"
| "is_single (Pool _ _ _) = False"

fun strategy :: "key_pool \<Rightarrow> key_strategy" where
  "strategy (SingleKey _) = RoundRobinKeys"
| "strategy (Pool _ _ s) = s"

text \<open>The index into \<open>rest\<close> is in range: the code indexes after the reduction modulo
  the pool's length.\<close>

fun key_at :: "key_pool \<Rightarrow> nat \<Rightarrow> credential" where
  "key_at (SingleKey k) _ = k"
| "key_at (Pool f rest _) index =
     (if rest = [] then f
      else let i = index mod Suc (length rest) in if i = 0 then f else rest ! (i - 1))"

text \<open>The keys of the pool in their logical order.\<close>

fun pool_keys :: "key_pool \<Rightarrow> credential list" where
  "pool_keys (SingleKey k) = [k]"
| "pool_keys (Pool f rest _) = f # rest"

lemma length_pool_keys [simp]: "length (pool_keys pool) = pool_len pool"
  by (cases pool) auto

lemma pool_len_pos [simp]: "0 < pool_len pool"
  by (cases pool) auto

lemma key_at_nth: "key_at pool i = pool_keys pool ! (i mod pool_len pool)"
proof (cases pool)
  case (Pool f rest s)
  show ?thesis
  proof (cases "i mod Suc (length rest)")
    case 0
    then show ?thesis using Pool by (simp add: Let_def)
  next
    case (Suc j)
    then have "rest \<noteq> []" by auto
    with Suc show ?thesis using Pool by (simp add: Let_def)
  qed
qed simp

lemma key_at_mem: "key_at pool i \<in> set (pool_keys pool)"
  by (simp add: key_at_nth)

subsection \<open>Models and endpoints\<close>

record model_entry =
  me_name :: string
  me_upstream :: "string option"

definition plain_model :: "string \<Rightarrow> model_entry" where
  "plain_model n = \<lparr>me_name = n, me_upstream = None\<rparr>"

definition upstream_name :: "model_entry \<Rightarrow> string" where
  "upstream_name m = (case me_upstream m of Some u \<Rightarrow> u | None \<Rightarrow> me_name m)"

record channel_endpoint =
  ep_protocol :: protocol
  ep_order :: nat
  ep_enabled :: bool
  ep_address :: upstream_address
  ep_credential :: "credential option"
  ep_models :: "model_entry list"
  ep_transcode :: transcode_policy

definition endpoint_new :: "protocol \<Rightarrow> channel_endpoint" where
  "endpoint_new p = \<lparr>ep_protocol = p, ep_order = 0, ep_enabled = True,
     ep_address = official_address, ep_credential = None, ep_models = [],
     ep_transcode = transcode_disabled\<rparr>"

definition find_model :: "channel_endpoint \<Rightarrow> string \<Rightarrow> model_entry option" where
  "find_model e name = find (\<lambda>m. me_name m = name) (ep_models e)"

lemma find_model_Some: "find_model e n = Some m \<Longrightarrow> m \<in> set (ep_models e) \<and> me_name m = n"
  by (auto simp: find_model_def find_Some_iff)

lemma find_model_None: "find_model e n = None \<longleftrightarrow> (\<forall>m \<in> set (ep_models e). me_name m \<noteq> n)"
  by (auto simp: find_model_def find_None_iff)

subsection \<open>Empty-response retry policy\<close>

record empty_retry_policy =
  er_window_secs :: nat
  er_max_retries :: nat
  er_reject_nonstandard_200 :: bool

definition default_empty_retry :: empty_retry_policy where
  "default_empty_retry = \<lparr>er_window_secs = 3, er_max_retries = 5, er_reject_nonstandard_200 = False\<rparr>"

definition validate_empty_retry :: "empty_retry_policy \<Rightarrow> string + unit" where
  "validate_empty_retry p = (
     if er_window_secs p > 3600
       then Inl ''empty response retry window must be at most 3600 seconds''
     else if er_max_retries p > 100 then Inl ''empty response retries must be at most 100''
     else Inr ())"

definition empty_retry_enabled :: "empty_retry_policy \<Rightarrow> bool" where
  "empty_retry_enabled p \<longleftrightarrow> er_window_secs p > 0 \<and> er_max_retries p > 0"

record empty_retry_override =
  eo_window_secs :: "nat option"
  eo_max_retries :: "nat option"

definition no_retry_override :: empty_retry_override where
  "no_retry_override = \<lparr>eo_window_secs = None, eo_max_retries = None\<rparr>"

definition retry_is_inherited :: "empty_retry_override \<Rightarrow> bool" where
  "retry_is_inherited ov \<longleftrightarrow> eo_window_secs ov = None \<and> eo_max_retries ov = None"

definition resolve_retry :: "empty_retry_override \<Rightarrow> empty_retry_policy \<Rightarrow> empty_retry_policy" where
  "resolve_retry ov g = \<lparr>
     er_window_secs = (case eo_window_secs ov of Some w \<Rightarrow> w | None \<Rightarrow> er_window_secs g),
     er_max_retries = (case eo_max_retries ov of Some n \<Rightarrow> n | None \<Rightarrow> er_max_retries g),
     er_reject_nonstandard_200 = er_reject_nonstandard_200 g\<rparr>"

definition validate_retry_override :: "empty_retry_override \<Rightarrow> string + unit" where
  "validate_retry_override ov = validate_empty_retry (resolve_retry ov
     \<lparr>er_window_secs = 0, er_max_retries = 0, er_reject_nonstandard_200 = False\<rparr>)"

text \<open>Valid parts resolve to a valid policy, so the loop bounds of the executor hold.\<close>

lemma resolve_retry_valid:
  assumes "validate_retry_override ov = Inr ()" and "validate_empty_retry g = Inr ()"
  shows "validate_empty_retry (resolve_retry ov g) = Inr ()"
  using assms
  by (auto simp: validate_retry_override_def validate_empty_retry_def resolve_retry_def
      split: option.splits if_splits)

subsection \<open>Parameter overrides\<close>

record param_override =
  po_common :: jmap
  po_protocols :: "(protocol \<times> jmap) list"

definition empty_override :: param_override where
  "empty_override = \<lparr>po_common = [], po_protocols = []\<rparr>"

definition override_is_empty :: "param_override \<Rightarrow> bool" where
  "override_is_empty v \<longleftrightarrow> po_common v = [] \<and> po_protocols v = []"

text \<open>One entry of the flat legacy shape: a protocol's name with an object is that
  protocol's group, anything else is common.\<close>

definition legacy_entry :: "param_override \<Rightarrow> string \<times> json \<Rightarrow> param_override" where
  "legacy_entry v kv = (case kv of (key, val) \<Rightarrow>
     (case (val, parse_protocol key) of
        (JObj grp, Some p) \<Rightarrow> v\<lparr>po_protocols := al_put p grp (po_protocols v)\<rparr>
      | _ \<Rightarrow> v\<lparr>po_common := map_insert key val (po_common v)\<rparr>))"

definition from_legacy :: "jmap \<Rightarrow> param_override" where
  "from_legacy m = foldl legacy_entry empty_override m"

text \<open>The explicit shape: a protocol's group must be an object under the protocol's own
  name (the derived decoder knows no aliases).\<close>

fun parse_groups :: "jmap \<Rightarrow> (protocol \<times> jmap) list option" where
  "parse_groups [] = Some []"
| "parse_groups ((k, v) # m) =
     (case (find (\<lambda>p. protocol_str p = k) all_protocols, v, parse_groups m) of
        (Some p, JObj grp, Some gs) \<Rightarrow> Some ((p, grp) # gs)
      | _ \<Rightarrow> None)"

definition parse_explicit :: "jmap \<Rightarrow> param_override option" where
  "parse_explicit m = (
     case (case map_of m ''common'' of None \<Rightarrow> Some [] | Some (JObj c) \<Rightarrow> Some c | Some _ \<Rightarrow> None) of
       None \<Rightarrow> None
     | Some c \<Rightarrow>
         (case (case map_of m ''protocols'' of
                  None \<Rightarrow> Some [] | Some (JObj g) \<Rightarrow> parse_groups g | Some _ \<Rightarrow> None) of
            None \<Rightarrow> None
          | Some gs \<Rightarrow> Some \<lparr>po_common = c, po_protocols = gs\<rparr>))"

text \<open>\<open>Deserialize\<close>: \<open>None\<close> is a decoding error.\<close>

definition parse_param_override :: "json \<Rightarrow> param_override option" where
  "parse_param_override v = (case v of
     JObj m \<Rightarrow>
       if list_all (\<lambda>e. fst e = ''common'' \<or> fst e = ''protocols'') m then parse_explicit m
       else Some (from_legacy m)
   | _ \<Rightarrow> None)"

subsection \<open>The channel\<close>

datatype visibility = Shared | Private

fun visibility_str :: "visibility \<Rightarrow> string" where
  "visibility_str Shared = ''shared''"
| "visibility_str Private = ''private''"

definition parse_visibility :: "string \<Rightarrow> string + visibility" where
  "parse_visibility s = (if s = ''shared'' then Inr Shared else if s = ''private'' then Inr Private
     else Inl s)"

record channel =
  ch_id :: channel_id
  ch_owner_id :: int
  ch_name :: string
  ch_kind :: channel_kind
  ch_enabled :: bool
  ch_priority :: int
  ch_weight :: nat
  ch_credential :: credential
  ch_credentials :: "credential list"
  ch_key_strategy :: key_strategy
  ch_address :: upstream_address
  ch_endpoints :: "channel_endpoint list"
  ch_tags :: "string list"
  ch_timeout_secs :: nat
  ch_proxy :: "string option"
  ch_param_override :: "param_override option"
  ch_note :: "string option"
  ch_auto_disabled :: bool
  ch_balance :: "f64 option"
  ch_balance_updated_at :: "int option"
  ch_extra_headers :: "(string \<times> string) list"
  ch_test_model :: "string option"
  ch_empty_response_retry :: empty_retry_override
  ch_visibility :: visibility
  ch_user_id :: "int option"

datatype channel_error =
    EmptyName
  | NoEndpoints
  | SingleMustHaveOneEndpoint nat
  | EndpointProtocolMismatch protocol protocol
  | DuplicateProtocol protocol
  | MissingCredential protocol
  | EmptyPoolCredential
  | SelfTranscode protocol
  | InvalidExtraHeader string
  | ForbiddenExtraHeader string
  | InvalidExtraHeaderValue string
  | EmptyModelName protocol
  | EmptyUpstreamMapping string
  | MissingUnofficialBaseUrl protocol
  | MissingDefaultUnofficialBaseUrl
  | InvalidEmptyResponseRetry string

definition base_url_missing :: "upstream_address \<Rightarrow> bool" where
  "base_url_missing a = (case ua_base_url a of None \<Rightarrow> True | Some b \<Rightarrow> trim b = [])"

lemma base_url_missing_trimmed: "base_url_missing a \<longleftrightarrow> trimmed (ua_base_url a) = None"
  by (auto simp: base_url_missing_def trimmed_def split: option.splits)

definition validate_model :: "protocol \<Rightarrow> model_entry \<Rightarrow> channel_error + unit" where
  "validate_model p m = (
     if trim (me_name m) = [] then Inl (EmptyModelName p)
     else case me_upstream m of
       Some u \<Rightarrow> if trim u = [] then Inl (EmptyUpstreamMapping (me_name m)) else Inr ()
     | None \<Rightarrow> Inr ())"

definition has_own_credential :: "channel_endpoint \<Rightarrow> bool" where
  "has_own_credential e = (case ep_credential e of Some c \<Rightarrow> \<not> cred_is_empty c | None \<Rightarrow> False)"

text \<open>The body of the loop over the endpoints, after the duplicate test.\<close>

definition validate_endpoint :: "channel \<Rightarrow> channel_endpoint \<Rightarrow> channel_error + unit" where
  "validate_endpoint c e = (
     if pset_contains (tp_accepted (ep_transcode e)) (ep_protocol e)
       then Inl (SelfTranscode (ep_protocol e))
     else if \<not> has_own_credential e \<and> cred_is_empty (ch_credential c) \<and> ch_credentials c = []
       then Inl (MissingCredential (ep_protocol e))
     else rbind (each_ok (validate_model (ep_protocol e)) (ep_models e)) (\<lambda>_.
       if ua_unofficial (ep_address e) \<and> base_url_missing (ep_address e)
         then Inl (MissingUnofficialBaseUrl (ep_protocol e)) else Inr ()))"

fun validate_endpoints ::
  "channel \<Rightarrow> protocol_set \<Rightarrow> channel_endpoint list \<Rightarrow> channel_error + unit"
where
  "validate_endpoints c seen [] = Inr ()"
| "validate_endpoints c seen (e # es) =
     (if pset_contains seen (ep_protocol e) then Inl (DuplicateProtocol (ep_protocol e))
      else rbind (validate_endpoint c e)
             (\<lambda>_. validate_endpoints c (pset_insert (ep_protocol e) seen) es))"

definition forbidden_headers :: "string list" where
  "forbidden_headers =
     [''authorization'', ''host'', ''content-length'', ''content-type'', ''x-api-key'']"

definition validate_header :: "string \<times> string \<Rightarrow> channel_error + unit" where
  "validate_header h = (case h of (name, val) \<Rightarrow>
     let normalized = to_ascii_lowercase (trim name) in
     if normalized = [] \<or> \<not> list_all is_ascii_graphic normalized then Inl (InvalidExtraHeader name)
     else if normalized \<in> set forbidden_headers then Inl (ForbiddenExtraHeader normalized)
     else if CHR 0x0D \<in> set val \<or> CHR 0x0A \<in> set val then Inl (InvalidExtraHeaderValue name)
     else Inr ())"

definition validate_kind :: "channel \<Rightarrow> channel_error + unit" where
  "validate_kind c = (case native_protocol (ch_kind c) of
     None \<Rightarrow> Inr ()
   | Some native \<Rightarrow>
       (case ch_endpoints c of
          [e] \<Rightarrow> if ep_protocol e \<noteq> native
                then Inl (EndpointProtocolMismatch native (ep_protocol e)) else Inr ()
        | es \<Rightarrow> Inl (SingleMustHaveOneEndpoint (length es))))"

definition validate_channel :: "channel \<Rightarrow> channel_error + unit" where
  "validate_channel c = (
     if trim (ch_name c) = [] then Inl EmptyName
     else if ch_endpoints c = [] then Inl NoEndpoints
     else if list_ex cred_is_empty (ch_credentials c) then Inl EmptyPoolCredential
     else rbind (validate_kind c) (\<lambda>_.
          rbind (validate_endpoints c pset_empty (ch_endpoints c)) (\<lambda>_.
            if ua_unofficial (ch_address c) \<and> base_url_missing (ch_address c)
              then Inl MissingDefaultUnofficialBaseUrl
            else rbind (each_ok validate_header (ch_extra_headers c)) (\<lambda>_.
              case validate_retry_override (ch_empty_response_retry c) of
                Inl m \<Rightarrow> Inl (InvalidEmptyResponseRetry m) | Inr _ \<Rightarrow> Inr ()))))"

definition effective_address :: "channel \<Rightarrow> channel_endpoint \<Rightarrow> upstream_address" where
  "effective_address c e = (if is_inherited (ep_address e) then ch_address c else ep_address e)"

definition key_pool :: "channel \<Rightarrow> channel_endpoint \<Rightarrow> key_pool" where
  "key_pool c e = (
     case (case ep_credential e of Some own \<Rightarrow> if cred_is_empty own then None else Some own
           | None \<Rightarrow> None) of
       Some own \<Rightarrow> SingleKey own
     | None \<Rightarrow>
         if \<not> cred_is_empty (ch_credential c) then
           (if ch_credentials c = [] then SingleKey (ch_credential c)
            else Pool (ch_credential c) (ch_credentials c) (ch_key_strategy c))
         else case ch_credentials c of
           f # rest \<Rightarrow> Pool f rest (ch_key_strategy c)
         | [] \<Rightarrow> SingleKey (ch_credential c))"

definition effective_credential :: "channel \<Rightarrow> channel_endpoint \<Rightarrow> credential" where
  "effective_credential c e = key_at (key_pool c e) 0"

definition endpoints_by_order :: "channel \<Rightarrow> channel_endpoint list" where
  "endpoints_by_order c =
     sort_key (\<lambda>e. (ep_order e, ep_protocol e)) (filter ep_enabled (ch_endpoints c))"

text \<open>Names in order of first occurrence.\<close>

definition push_new :: "string list \<Rightarrow> string \<Rightarrow> string list" where
  "push_new out n = (if n \<in> set out then out else out @ [n])"

definition exposed_models :: "channel \<Rightarrow> string list" where
  "exposed_models c =
     foldl push_new [] (concat (map (\<lambda>e. map me_name (ep_models e)) (endpoints_by_order c)))"

definition visible_to :: "channel \<Rightarrow> int \<Rightarrow> bool" where
  "visible_to c user \<longleftrightarrow> ch_visibility c = Shared \<or> ch_user_id c = Some user"

subsection \<open>What a validated channel guarantees\<close>

definition model_wf :: "model_entry \<Rightarrow> bool" where
  "model_wf m \<longleftrightarrow> trim (me_name m) \<noteq> [] \<and> (\<forall>u. me_upstream m = Some u \<longrightarrow> trim u \<noteq> [])"

definition endpoint_wf :: "channel \<Rightarrow> channel_endpoint \<Rightarrow> bool" where
  "endpoint_wf c e \<longleftrightarrow>
     \<not> pset_contains (tp_accepted (ep_transcode e)) (ep_protocol e)
   \<and> (has_own_credential e \<or> \<not> cred_is_empty (ch_credential c) \<or> ch_credentials c \<noteq> [])
   \<and> (\<forall>m \<in> set (ep_models e). model_wf m)
   \<and> (ua_unofficial (ep_address e) \<longrightarrow> trimmed (ua_base_url (ep_address e)) \<noteq> None)"

definition header_wf :: "string \<times> string \<Rightarrow> bool" where
  "header_wf h \<longleftrightarrow>
     (let n = to_ascii_lowercase (trim (fst h)) in
        n \<noteq> [] \<and> (\<forall>b \<in> set n. is_ascii_graphic b) \<and> n \<notin> set forbidden_headers)
   \<and> CHR 0x0D \<notin> set (snd h) \<and> CHR 0x0A \<notin> set (snd h)"

text \<open>The invariants of a stored channel, independent of the order of the checks.\<close>

definition channel_wf :: "channel \<Rightarrow> bool" where
  "channel_wf c \<longleftrightarrow>
     trim (ch_name c) \<noteq> [] \<and> ch_endpoints c \<noteq> []
   \<and> (\<forall>k \<in> set (ch_credentials c). \<not> cred_is_empty k)
   \<and> (\<forall>p. ch_kind c = Single p \<longrightarrow> map ep_protocol (ch_endpoints c) = [p])
   \<and> distinct (map ep_protocol (ch_endpoints c))
   \<and> (\<forall>e \<in> set (ch_endpoints c). endpoint_wf c e)
   \<and> (ua_unofficial (ch_address c) \<longrightarrow> trimmed (ua_base_url (ch_address c)) \<noteq> None)
   \<and> (\<forall>h \<in> set (ch_extra_headers c). header_wf h)
   \<and> (\<forall>w. eo_window_secs (ch_empty_response_retry c) = Some w \<longrightarrow> w \<le> 3600)
   \<and> (\<forall>n. eo_max_retries (ch_empty_response_retry c) = Some n \<longrightarrow> n \<le> 100)"

lemma validate_model_Inr: "validate_model p m = Inr u \<longleftrightarrow> model_wf m"
  by (auto simp: validate_model_def model_wf_def split: option.splits)

lemma validate_endpoint_Inr: "validate_endpoint c e = Inr u \<longleftrightarrow> endpoint_wf c e"
  by (auto simp: validate_endpoint_def endpoint_wf_def base_url_missing_trimmed rbind_Inr
      each_ok_Inr validate_model_Inr)

lemma validate_header_Inr: "validate_header h = Inr u \<longleftrightarrow> header_wf h"
  by (cases h) (auto simp: validate_header_def header_wf_def Let_def list_all_iff)

lemma validate_kind_Inr:
  "validate_kind c = Inr u \<longleftrightarrow> (\<forall>p. ch_kind c = Single p \<longrightarrow> map ep_protocol (ch_endpoints c) = [p])"
  by (cases "ch_kind c") (auto simp: validate_kind_def split: list.splits)

lemma validate_endpoints_Inr:
  "validate_endpoints c seen es = Inr u \<longleftrightarrow>
   distinct (map ep_protocol es) \<and> (\<forall>e \<in> set es. endpoint_wf c e)
   \<and> (\<forall>e \<in> set es. \<not> pset_contains seen (ep_protocol e))"
  by (induction es arbitrary: seen)
     (auto simp: rbind_Inr validate_endpoint_Inr pset.mem_ins image_iff)

lemma validate_retry_override_Inr:
  "validate_retry_override ov = Inr u \<longleftrightarrow>
   (\<forall>w. eo_window_secs ov = Some w \<longrightarrow> w \<le> 3600) \<and> (\<forall>n. eo_max_retries ov = Some n \<longrightarrow> n \<le> 100)"
  by (auto simp: validate_retry_override_def validate_empty_retry_def resolve_retry_def
      split: option.splits)

text \<open>The validation accepts exactly the channels with the stored-channel invariants:
  whatever the order of its early returns, it lets no ill-formed channel through and
  rejects no well-formed one.\<close>

theorem validate_channel_iff: "validate_channel c = Inr () \<longleftrightarrow> channel_wf c"
proof -
  have "(case validate_retry_override ov of Inl m \<Rightarrow> Inl (InvalidEmptyResponseRetry m)
         | Inr _ \<Rightarrow> Inr ()) = Inr () \<longleftrightarrow> validate_retry_override ov = Inr ()" for ov
    by (cases "validate_retry_override ov") auto
  then show ?thesis
    by (auto simp: validate_channel_def channel_wf_def rbind_Inr validate_kind_Inr
        validate_endpoints_Inr each_ok_Inr validate_header_Inr validate_retry_override_Inr
        base_url_missing_trimmed list_ex_iff pset.mem_empty split: if_splits)
qed

lemma key_pool_nonempty:
  assumes "channel_wf c" and "e \<in> set (ch_endpoints c)" and "k \<in> set (pool_keys (key_pool c e))"
  shows "\<not> cred_is_empty k"
proof -
  from assms(1,2) have pool: "\<forall>k \<in> set (ch_credentials c). \<not> cred_is_empty k"
    and some: "has_own_credential e \<or> \<not> cred_is_empty (ch_credential c) \<or> ch_credentials c \<noteq> []"
    by (auto simp: channel_wf_def endpoint_wf_def)
  show ?thesis
  proof (cases "has_own_credential e")
    case True
    then obtain own where "ep_credential e = Some own" and "\<not> cred_is_empty own"
      by (auto simp: has_own_credential_def split: option.splits)
    with assms(3) show ?thesis by (simp add: key_pool_def)
  next
    case False
    then have own: "(case ep_credential e of Some own \<Rightarrow> if cred_is_empty own then None else Some own
        | None \<Rightarrow> None) = None"
      by (auto simp: has_own_credential_def split: option.splits)
    show ?thesis
      using assms(3) own False some pool
      by (cases "ch_credentials c") (auto simp: key_pool_def split: if_splits)
  qed
qed

lemma effective_address_based:
  assumes "channel_wf c" and "e \<in> set (ch_endpoints c)"
  shows "ua_unofficial (effective_address c e) \<longrightarrow>
         trimmed (ua_base_url (effective_address c e)) \<noteq> None"
  using assms by (auto simp: channel_wf_def endpoint_wf_def effective_address_def)

text \<open>A validated channel is usable: for each of its endpoints every key the executor
  can pick from the endpoint's pool is non-empty, and resolving the endpoint's effective
  address for any request never fails for want of a base URL.\<close>

theorem validated_channel_usable:
  assumes "validate_channel c = Inr ()" and "e \<in> set (ch_endpoints c)"
  shows "\<not> cred_is_empty (key_at (key_pool c e) i)
       \<and> resolve U (effective_address c e) p act m \<noteq> Inl MissingBaseUrl
       \<and> resolve U (effective_address c e) p act m \<noteq> Inl MissingFullAddress"
proof -
  from assms(1) have wf: "channel_wf c" by (simp add: validate_channel_iff)
  have "\<not> cred_is_empty (key_at (key_pool c e) i)"
    using key_pool_nonempty[OF wf assms(2) key_at_mem] .
  with effective_address_based[OF wf assms(2)] show ?thesis by (auto simp: resolve_missing_iff)
qed

lemma distinct_protocols_length: "distinct (ps :: protocol list) \<Longrightarrow> length ps \<le> 4"
proof -
  assume d: "distinct ps"
  have "set ps \<subseteq> set all_protocols" by auto
  then have "card (set ps) \<le> card (set all_protocols)" by (rule card_mono[rotated]) simp
  also have "card (set all_protocols) \<le> 4" by (simp add: all_protocols_def)
  finally show ?thesis using d by (simp add: distinct_card)
qed

text \<open>A validated channel has between one and four endpoints, at most one per
  protocol, and a single-protocol channel exactly the one of its protocol.\<close>

theorem validated_channel_endpoints:
  assumes "validate_channel c = Inr ()"
  shows "1 \<le> length (ch_endpoints c) \<and> length (ch_endpoints c) \<le> 4
       \<and> distinct (map ep_protocol (ch_endpoints c))
       \<and> (\<forall>p. ch_kind c = Single p \<longrightarrow> map ep_protocol (ch_endpoints c) = [p])"
proof -
  from assms have wf: "channel_wf c" by (simp add: validate_channel_iff)
  then have d: "distinct (map ep_protocol (ch_endpoints c))" and "ch_endpoints c \<noteq> []"
    by (auto simp: channel_wf_def)
  then have "1 \<le> length (ch_endpoints c)" by (cases "ch_endpoints c") auto
  with d wf distinct_protocols_length[OF d] show ?thesis by (auto simp: channel_wf_def)
qed

text \<open>An aggregate channel for the witnesses: two endpoints, a key of its own on one of them.\<close>

definition sample_channel :: channel where
  "sample_channel = \<lparr>ch_id = 7, ch_owner_id = 1, ch_name = ''relay'', ch_kind = Aggregate,
     ch_enabled = True, ch_priority = 0, ch_weight = 1, ch_credential = ''sk-a'',
     ch_credentials = [''sk-b''], ch_key_strategy = RoundRobinKeys,
     ch_address = relay_address,
     ch_endpoints =
       [(endpoint_new Chat)\<lparr>ep_models := [plain_model ''m''],
          ep_transcode := \<lparr>tp_enabled = True, tp_accepted = pset_from_list [Messages]\<rparr>\<rparr>,
        (endpoint_new Gemini)\<lparr>ep_credential := Some ''g-key'', ep_models := [plain_model ''m'']\<rparr>],
     ch_tags = [], ch_timeout_secs = 0, ch_proxy = None, ch_param_override = None,
     ch_note = None, ch_auto_disabled = False, ch_balance = None, ch_balance_updated_at = None,
     ch_extra_headers = [(''X-Relay'', ''1'')], ch_test_model = None,
     ch_empty_response_retry = no_retry_override, ch_visibility = Shared, ch_user_id = None\<rparr>"

lemma sample_channel_valid: "validate_channel sample_channel = Inr ()"
  by code_simp

theorem validated_channel_usable_witness:
  "\<not> cred_is_empty (key_at (key_pool sample_channel (ch_endpoints sample_channel ! 1)) 3)"
proof -
  have "ch_endpoints sample_channel ! 1 \<in> set (ch_endpoints sample_channel)"
    by (simp add: sample_channel_def)
  from validated_channel_usable[OF sample_channel_valid this, of 3 plain_url_lib Chat Generate "''m''"]
  show ?thesis by blast
qed

theorem validated_channel_endpoints_witness: "length (ch_endpoints sample_channel) \<le> 4"
  using validated_channel_endpoints[OF sample_channel_valid] by blast

text \<open>The masked form of a key leaks at most eight characters: two keys of more than
  eight characters with the same first four and last four have the same masked form,
  whatever is between and however long it is, and a shorter key shows only its length.\<close>

theorem masked_hides_middle:
  assumes "8 < length (chars (trim a))" and "8 < length (chars (trim b))"
    and "take 4 (chars (trim a)) = take 4 (chars (trim b))"
    and "drop (length (chars (trim a)) - 4) (chars (trim a)) =
         drop (length (chars (trim b)) - 4) (chars (trim b))"
  shows "masked a = masked b"
proof -
  from assms(1,2) have "trim a \<noteq> []" and "trim b \<noteq> []" by auto
  with assms show ?thesis by (simp add: masked_def Let_def)
qed

lemma masked_short:
  "length (chars (trim a)) \<le> 8 \<Longrightarrow> masked a = concat (replicate (length (chars (trim a))) bullet)"
  by (auto simp: masked_def Let_def)

theorem masked_hides_middle_witness: "masked ''sk-aBCDEF9f2c'' = masked ''sk-aXX-very-long-9f2c''"
  by (rule masked_hides_middle) code_simp+

end
