(* ===== verification/Routing.thy ===== *)
theory Routing
  imports Prelude
begin

section \<open>Routing policy, rank keys and the weighted pick\<close>

text \<open>
  \<open>crates/refract-core/src/routing.rs\<close>. Priorities are \<open>i32\<close> values, orders \<open>u16\<close>
  values and weights \<open>u32\<close> values; the code compares priorities, negates an order after
  widening it to \<open>i32\<close>, and sums the weights as \<open>u64\<close>, so none of them can overflow
  and they are \<open>int\<close> and \<open>nat\<close> here. The random number generator is a parameter: a
  function from a bound and the generator's state to a number and the next state.
\<close>

datatype selection_mode = WeightedRandom | RoundRobin | First

record routing_policy =
  rp_native_first :: bool
  rp_selection :: selection_mode
  rp_max_attempts :: nat
  rp_retry_same_channel :: bool
  rp_max_upstream_calls :: nat

definition default_max_upstream_calls :: nat where
  "default_max_upstream_calls = 8"

definition default_policy :: routing_policy where
  "default_policy = \<lparr>rp_native_first = True, rp_selection = WeightedRandom,
     rp_max_attempts = 3, rp_retry_same_channel = False,
     rp_max_upstream_calls = default_max_upstream_calls\<rparr>"

text \<open>The error text of the code carries the offending value; \<open>Inl\<close> keeps that value.\<close>

definition validate_policy :: "routing_policy \<Rightarrow> nat + unit" where
  "validate_policy p = ensure (rp_max_attempts p \<le> 32) (rp_max_attempts p)"

record rank_key =
  rk_native :: bool
  rk_priority :: int
  rk_endpoint_order :: nat

definition tier :: "bool \<Rightarrow> rank_key \<Rightarrow> int \<times> int \<times> int" where
  "tier native_first k =
     ((if native_first then (if rk_native k then 1 else 0) else 0),
      rk_priority k, - int (rk_endpoint_order k))"

definition same_tier :: "bool \<Rightarrow> rank_key \<Rightarrow> rank_key \<Rightarrow> bool" where
  "same_tier native_first a b =
     (let (an, ap, _) = tier native_first a; (bn, bp, _) = tier native_first b
      in an = bn \<and> ap = bp)"

text \<open>The part of the tier that decides which candidates compete with each other.\<close>

definition layer :: "bool \<Rightarrow> rank_key \<Rightarrow> int \<times> int" where
  "layer native_first k = (fst (tier native_first k), fst (snd (tier native_first k)))"

lemma same_tier_layer: "same_tier nf a b \<longleftrightarrow> layer nf a = layer nf b"
  by (auto simp: same_tier_def layer_def Let_def tier_def)

lemma tier_eq_layer: "tier nf k = (fst (layer nf k), snd (layer nf k), - int (rk_endpoint_order k))"
  by (simp add: layer_def tier_def)

lemma layer_native_first: "rk_native a \<Longrightarrow> \<not> rk_native b \<Longrightarrow> layer True b < layer True a"
  by (simp add: layer_def tier_def)

lemma layer_off: "layer False k = (0, rk_priority k)"
  by (simp add: layer_def tier_def)

subsection \<open>Weighted pick\<close>

type_synonym 'r rng = "nat \<Rightarrow> 'r \<Rightarrow> nat \<times> 'r"

definition effective_weights :: "nat list \<Rightarrow> nat list" where
  "effective_weights ws = map (\<lambda>w. max w 1) ws"

text \<open>The loop over the weights; \<open>None\<close> is leaving it without a hit.\<close>

fun pick_loop :: "nat list \<Rightarrow> nat \<Rightarrow> nat \<Rightarrow> nat option" where
  "pick_loop [] idx point = None"
| "pick_loop (w # ws) idx point =
     (if point < w then Some idx else pick_loop ws (Suc idx) (point - w))"

definition weighted_pick :: "'r rng \<Rightarrow> nat list \<Rightarrow> 'r \<Rightarrow> nat option \<times> 'r" where
  "weighted_pick random_range ws r = (
     if ws = [] then (None, r)
     else
       let effective = effective_weights ws;
           total = sum_list effective;
           (point, r') = random_range total r
       in case pick_loop effective 0 point of
            Some idx \<Rightarrow> (Some idx, r')
          | None \<Rightarrow> (Some (length effective - 1), r'))"

lemma effective_weights_pos: "w \<in> set (effective_weights ws) \<Longrightarrow> 0 < w"
  by (auto simp: effective_weights_def)

lemma length_effective_weights [simp]: "length (effective_weights ws) = length ws"
  by (simp add: effective_weights_def)

lemma pick_loop_bounds: "pick_loop ws idx point = Some i \<Longrightarrow> idx \<le> i \<and> i < idx + length ws"
  by (induction ws idx point rule: pick_loop.induct) (auto split: if_splits)

lemma pick_loop_total: "point < sum_list ws \<Longrightarrow> pick_loop ws idx point \<noteq> None"
  by (induction ws idx point rule: pick_loop.induct) auto

text \<open>An index is hit exactly on the interval of its weight.\<close>

lemma pick_loop_Some:
  "pick_loop ws idx point = Some (idx + i) \<longleftrightarrow>
   i < length ws \<and> sum_list (take i ws) \<le> point \<and> point < sum_list (take (Suc i) ws)"
proof (induction ws arbitrary: idx point i)
  case (Cons w ws)
  show ?case
  proof (cases i)
    case 0
    then show ?thesis using pick_loop_bounds[of ws "Suc idx" "point - w" idx] by auto
  next
    case (Suc j)
    have "pick_loop ws (Suc idx) (point - w) = Some (Suc idx + j) \<longleftrightarrow>
        j < length ws \<and> sum_list (take j ws) \<le> point - w \<and> point - w < sum_list (take (Suc j) ws)"
      by (rule Cons.IH)
    then show ?thesis using Suc by (auto simp: less_diff_conv2)
  qed
qed simp

text \<open>
  The contract of the pick: an index within bounds for a non-empty list, none for the
  empty one, whatever the generator returns.
\<close>

lemma weighted_pick_range:
  assumes "ws \<noteq> []"
  obtains i r' where "weighted_pick rnd ws r = (Some i, r')" and "i < length ws"
proof -
  obtain pt r' where "rnd (sum_list (effective_weights ws)) r = (pt, r')" by fastforce
  with assms that show thesis
    by (cases "pick_loop (effective_weights ws) 0 pt")
       (auto simp: weighted_pick_def dest!: pick_loop_bounds)
qed

text \<open>The weighted pick is exactly proportional: of the \<open>total\<close> points the
  generator can return, the number that select index \<open>i\<close> is the weight of \<open>i\<close>, with a
  weight of zero counted as one. No index is unreachable, and the fallback after the loop
  is never taken.\<close>

theorem weighted_pick_distribution:
  assumes "i < length ws"
  shows "card {pt. pt < sum_list (effective_weights ws) \<and>
           fst (weighted_pick (\<lambda>_ r. (pt, r)) ws ()) = Some i} = max (ws ! i) 1"
proof -
  let ?e = "effective_weights ws"
  have ws: "ws \<noteq> []" using assms by auto
  have i: "i < length ?e" using assms by simp
  have step: "sum_list (take (Suc i) ?e) = sum_list (take i ?e) + ?e ! i"
    using i by (simp add: take_Suc_conv_app_nth)
  have le: "sum_list (take (Suc i) ?e) \<le> sum_list ?e"
    by (metis append_take_drop_id le_add1 sum_list_append)
  have "fst (weighted_pick (\<lambda>_ r. (pt, r)) ws ()) = Some i \<longleftrightarrow>
      sum_list (take i ?e) \<le> pt \<and> pt < sum_list (take (Suc i) ?e)"
    if "pt < sum_list ?e" for pt
  proof -
    from pick_loop_total[OF that] obtain j where j: "pick_loop ?e 0 pt = Some j" by blast
    then have "fst (weighted_pick (\<lambda>_ r. (pt, r)) ws ()) = Some j"
      using ws by (simp add: weighted_pick_def)
    then show ?thesis using j pick_loop_Some[of ?e 0 pt i] i by auto
  qed
  then have "{pt. pt < sum_list ?e \<and> fst (weighted_pick (\<lambda>_ r. (pt, r)) ws ()) = Some i}
      = {sum_list (take i ?e) ..< sum_list (take (Suc i) ?e)}"
    using le by fastforce
  then show ?thesis using step assms by (simp add: effective_weights_def)
qed

theorem weighted_pick_distribution_witness:
  "card {pt. pt < sum_list (effective_weights [0, 9]) \<and>
     fst (weighted_pick (\<lambda>_ r. (pt, r)) [0, 9] ()) = Some 0} = 1"
  using weighted_pick_distribution[of 0 "[0, 9]"] by simp

end
