(* ===== verification/Round_Robin.thy ===== *)
theory Round_Robin
  imports Prelude "HOL-Library.Word"
begin

section \<open>Round robin cursors\<close>

text \<open>
  Two components of the program hand out turns from a wrapping 64-bit cursor kept in shared
  state: the planner, one cursor for each model, and the key selector, one for each channel.
  What they share is stated once: advancing the state increments the cursor. From that
  alone, as many consecutive turns as there are slots visit every slot exactly once, except
  at the one point of \<open>2^64\<close> turns where the cursor wraps around.
\<close>

locale round_robin_cursor =
  fixes cursor :: "'s \<Rightarrow> 64 word" and advance :: "'s \<Rightarrow> 's"
  assumes cursor_advance: "cursor (advance s) = cursor s + 1"
begin

lemma cursor_iterate: "cursor ((advance ^^ i) s) = cursor s + of_nat i"
  by (induction i) (simp_all add: cursor_advance)

lemma unat_cursor_iterate:
  assumes "unat (cursor s) + n \<le> 2 ^ 64" and "i < n"
  shows "unat (cursor ((advance ^^ i) s)) = unat (cursor s) + i"
proof -
  have "unat (cursor s) + i < 2 ^ 64" using assms by simp
  then show ?thesis
    by (simp add: cursor_iterate unat_word_ariths unat_of_nat take_bit_nat_eq_self)
qed

lemma turns_rotate:
  assumes "unat (cursor s) + length xs \<le> 2 ^ 64"
  shows "map (\<lambda>i. xs ! (unat (cursor ((advance ^^ i) s)) mod length xs)) [0..<length xs]
       = rotate (unat (cursor s)) xs"
  by (rule nth_equalityI) (simp_all add: nth_rotate unat_cursor_iterate[OF assms])

lemma turns_fair:
  assumes "unat (cursor s) + length xs \<le> 2 ^ 64"
  shows "mset (map (\<lambda>i. xs ! (unat (cursor ((advance ^^ i) s)) mod length xs)) [0..<length xs]) = mset xs"
  unfolding turns_rotate[OF assms] by (rule mset_rotate)

end

end
