(* ===== verification/Plan.thy ===== *)
theory Plan
  imports Channel Routing Round_Robin "HOL-Library.List_Lexorder" "HOL-Library.Char_ord"
begin

section \<open>Route planning\<close>

text \<open>
  \<open>crates/refract-router/src/plan.rs\<close>: which endpoints can serve a request and in what
  order they are tried. The planner's cursor table, shared behind a mutex in the code, is a
  map that \<open>order_candidates\<close> takes and returns, like the state of the random number
  generator; holding the lock for one lookup and increment makes the two atomic.
\<close>

record candidate =
  ca_channel :: channel
  ca_endpoint :: channel_endpoint
  ca_model :: model_entry
  ca_rank :: rank_key

definition ca_id :: "candidate \<Rightarrow> channel_id" where
  "ca_id c = ch_id (ca_channel c)"

definition ca_protocol :: "candidate \<Rightarrow> protocol" where
  "ca_protocol c = ep_protocol (ca_endpoint c)"

definition needs_transcode :: "candidate \<Rightarrow> protocol \<Rightarrow> bool" where
  "needs_transcode c inbound = (inbound \<noteq> ca_protocol c)"

definition ca_address :: "candidate \<Rightarrow> upstream_address" where
  "ca_address c = effective_address (ca_channel c) (ca_endpoint c)"

definition ca_credential :: "candidate \<Rightarrow> credential" where
  "ca_credential c = effective_credential (ca_channel c) (ca_endpoint c)"

definition ca_upstream_model :: "candidate \<Rightarrow> string" where
  "ca_upstream_model c = upstream_name (ca_model c)"

definition ca_proxy :: "candidate \<Rightarrow> string option" where
  "ca_proxy c = ch_proxy (ca_channel c)"

record route =
  ro_inbound :: protocol
  ro_model :: string
  ro_attempts :: "candidate list"
  ro_attempt_cap :: nat
  ro_max_upstream_calls :: nat
  ro_identity :: "64 word option"

definition route_primary :: "route \<Rightarrow> candidate option" where
  "route_primary ro = (case ro_attempts ro of [] \<Rightarrow> None | c # _ \<Rightarrow> Some c)"

text \<open>The first candidate of the channel moves to the front; \<open>False\<close> when it has none.\<close>

definition pin_channel :: "channel_id \<Rightarrow> route \<Rightarrow> bool \<times> route" where
  "pin_channel cid ro = (
     case position (\<lambda>c. ca_id c = cid) (ro_attempts ro) of
       None \<Rightarrow> (False, ro)
     | Some pos \<Rightarrow>
         (True, if pos = 0 then ro
                else let cs = ro_attempts ro in
                  ro\<lparr>ro_attempts := cs ! pos # take pos cs @ drop (Suc pos) cs\<rparr>))"

definition pinned_only :: "route \<Rightarrow> route" where
  "pinned_only ro = ro\<lparr>ro_attempts := take 1 (ro_attempts ro), ro_attempt_cap := 1\<rparr>"

subsection \<open>Collecting the candidates\<close>

definition endpoint_candidate ::
  "channel \<Rightarrow> string \<Rightarrow> protocol \<Rightarrow> channel_endpoint \<Rightarrow> candidate option"
where
  "endpoint_candidate c model inbound e = (
     if \<not> ep_enabled e then None
     else case find_model e model of
       None \<Rightarrow> None
     | Some entry \<Rightarrow>
         if \<not> can_serve (ep_transcode e) inbound (ep_protocol e) then None
         else Some \<lparr>ca_channel = c, ca_endpoint = e, ca_model = entry,
                ca_rank = \<lparr>rk_native = (inbound = ep_protocol e), rk_priority = ch_priority c,
                            rk_endpoint_order = ep_order e\<rparr>\<rparr>)"

definition collect_channel :: "string \<Rightarrow> protocol \<Rightarrow> channel \<Rightarrow> candidate list" where
  "collect_channel model inbound c = (
     if \<not> ch_enabled c then []
     else List.map_filter (endpoint_candidate c model inbound) (ch_endpoints c))"

definition collect :: "channel list \<Rightarrow> string \<Rightarrow> protocol \<Rightarrow> candidate list" where
  "collect channels model inbound = concat (map (collect_channel model inbound) channels)"

subsection \<open>Ordering\<close>

text \<open>\<open>sort_by_key\<close> before the removal of a channel's other endpoints.\<close>

definition channel_key :: "candidate \<Rightarrow> int \<times> bool \<times> nat" where
  "channel_key c = (ca_id c, \<not> rk_native (ca_rank c), rk_endpoint_order (ca_rank c))"

text \<open>Descending tiers, then ascending channel id, as one ascending key.\<close>

definition tier_key :: "bool \<Rightarrow> candidate \<Rightarrow> int \<times> int \<times> int \<times> int" where
  "tier_key nf c = (case tier nf (ca_rank c) of (n, p, ord) \<Rightarrow> (- n, - p, - ord, ca_id c))"

definition prepare :: "routing_policy \<Rightarrow> candidate list \<Rightarrow> candidate list" where
  "prepare pol cs = (
     let by_channel = sort_key channel_key cs;
         kept = (if rp_retry_same_channel pol then by_channel else dedup_by ca_id by_channel)
     in sort_key (tier_key (rp_native_first pol)) kept)"

function draw_by_weight :: "'r rng \<Rightarrow> candidate list \<Rightarrow> 'r \<Rightarrow> candidate list \<times> 'r" where
  "draw_by_weight rnd pool r = (
     if pool = [] then ([], r)
     else
       let (pick, r1) = weighted_pick rnd (map (\<lambda>c. ch_weight (ca_channel c)) pool) r;
           idx = (case pick of Some i \<Rightarrow> i | None \<Rightarrow> 0);
           (rest, r2) = draw_by_weight rnd (swap_remove idx pool) r1
       in (pool ! idx # rest, r2))"
  by pat_completeness auto
termination
  by (relation "measure (\<lambda>(rnd, pool, r). length pool)") auto

declare draw_by_weight.simps [simp del]

definition arrange_tier ::
  "selection_mode \<Rightarrow> 64 word option \<Rightarrow> 'r rng \<Rightarrow> candidate list \<Rightarrow> 'r \<Rightarrow> candidate list \<times> 'r"
where
  "arrange_tier mode seq rnd cs r = (case mode of
     First \<Rightarrow> (cs, r)
   | RoundRobin \<Rightarrow>
       (if length cs > 1
        then (rotate_left (unat (case seq of Some s \<Rightarrow> s | None \<Rightarrow> 0) mod length cs) cs, r)
        else (cs, r))
   | WeightedRandom \<Rightarrow> draw_by_weight rnd cs r)"

text \<open>The loop over the tiers, for any arrangement inside a tier.\<close>

function layered ::
  "(candidate list \<Rightarrow> 'r \<Rightarrow> candidate list \<times> 'r) \<Rightarrow> bool \<Rightarrow> candidate list \<Rightarrow> 'r
   \<Rightarrow> candidate list \<times> 'r"
where
  "layered arrange nf [] r = ([], r)"
| "layered arrange nf (h # cs) r = (
     let same = (\<lambda>c. same_tier nf (ca_rank c) (ca_rank h));
         (front, r1) = arrange (h # takeWhile same cs) r;
         (later, r2) = layered arrange nf (dropWhile same cs) r1
     in (front @ later, r2))"
  by pat_completeness auto
termination
  by (relation "measure (\<lambda>(arrange, nf, cs, r). length cs)")
     (auto intro: le_imp_less_Suc length_dropWhile_le)

declare layered.simps(2) [simp del]

type_synonym cursors = "string \<rightharpoonup> 64 word"

definition next_round_robin ::
  "selection_mode \<Rightarrow> string \<Rightarrow> cursors \<Rightarrow> 64 word option \<times> cursors"
where
  "next_round_robin mode model cur = (
     if mode = RoundRobin then
       let seq = (case cur model of Some s \<Rightarrow> s | None \<Rightarrow> 0) in (Some seq, cur(model \<mapsto> seq + 1))
     else (None, cur))"

definition order_candidates ::
  "routing_policy \<Rightarrow> 'r rng \<Rightarrow> candidate list \<Rightarrow> string \<Rightarrow> cursors \<Rightarrow> 'r
   \<Rightarrow> candidate list \<times> cursors \<times> 'r"
where
  "order_candidates pol rnd cs model cur r = (
     if cs = [] then ([], cur, r)
     else
       let (seq, cur') = next_round_robin (rp_selection pol) model cur;
           (out, r') = layered (arrange_tier (rp_selection pol) seq rnd) (rp_native_first pol)
                         (prepare pol cs) r
       in (out, cur', r'))"

definition usize_max :: nat where
  "usize_max = 2 ^ 64 - 1"

definition plan ::
  "routing_policy \<Rightarrow> 'r rng \<Rightarrow> channel list \<Rightarrow> string \<Rightarrow> protocol \<Rightarrow> cursors \<Rightarrow> 'r
   \<Rightarrow> route \<times> cursors \<times> 'r"
where
  "plan pol rnd channels model inbound cur r = (
     let (attempts, cur', r') =
           order_candidates pol rnd (collect channels model inbound) model cur r
     in (\<lparr>ro_inbound = inbound, ro_model = model, ro_attempts = attempts,
          ro_attempt_cap = (if rp_max_attempts pol = 0 then usize_max else rp_max_attempts pol),
          ro_max_upstream_calls = rp_max_upstream_calls pol, ro_identity = None\<rparr>, cur', r'))"

definition visible_models :: "channel list \<Rightarrow> string list" where
  "visible_models channels = sort (foldl push_new []
     (concat (map (\<lambda>c. if ch_enabled c
        then concat (map (\<lambda>e. if ep_enabled e then map me_name (ep_models e) else [])
                     (ch_endpoints c))
        else []) channels)))"

datatype diagnosis = Routable | UnknownModel | ProtocolNotPermitted protocol_set

text \<open>One endpoint of the diagnosis: the flag and the set it accumulates.\<close>

definition diagnose_endpoint ::
  "string \<Rightarrow> channel_endpoint \<Rightarrow> bool \<times> protocol_set \<Rightarrow> bool \<times> protocol_set"
where
  "diagnose_endpoint model e acc = (
     if \<not> ep_enabled e \<or> find_model e model = None then acc
     else (True, fold (\<lambda>p s. if can_serve (ep_transcode e) p (ep_protocol e)
                           then pset_insert p s else s) all_protocols (snd acc)))"

definition diagnose_channel ::
  "string \<Rightarrow> channel \<Rightarrow> bool \<times> protocol_set \<Rightarrow> bool \<times> protocol_set"
where
  "diagnose_channel model c acc =
     (if \<not> ch_enabled c then acc else fold (diagnose_endpoint model) (ch_endpoints c) acc)"

definition diagnose :: "channel list \<Rightarrow> string \<Rightarrow> protocol \<Rightarrow> diagnosis" where
  "diagnose channels model inbound = (
     let (exists_model, available) = fold (diagnose_channel model) channels (False, pset_empty)
     in if \<not> exists_model then UnknownModel
        else if pset_contains available inbound then Routable
        else ProtocolNotPermitted available)"

subsection \<open>Arrangements that keep their tier\<close>

text \<open>
  What the loop over the tiers relies on: an arrangement permutes the tier it is given.
  From that alone the loop permutes the whole list and keeps the tiers in order.
\<close>

text \<open>Induction over the tiers of a list.\<close>

lemma tier_induct [case_names Nil Cons]:
  assumes "P []"
    and "\<And>h cs. P (dropWhile (\<lambda>c. same_tier nf (ca_rank c) (ca_rank h)) cs) \<Longrightarrow> P (h # cs)"
  shows "P cs"
proof (induction cs rule: length_induct)
  case (1 cs)
  show ?case
  proof (cases cs)
    case Nil
    with assms(1) show ?thesis by simp
  next
    case (Cons h t)
    have "length (dropWhile (\<lambda>c. same_tier nf (ca_rank c) (ca_rank h)) t) < length cs"
      using Cons by (simp add: le_imp_less_Suc length_dropWhile_le)
    with 1 have "P (dropWhile (\<lambda>c. same_tier nf (ca_rank c) (ca_rank h)) t)" by blast
    with assms(2) Cons show ?thesis by simp
  qed
qed

locale tier_arranger =
  fixes arrange :: "candidate list \<Rightarrow> 'r \<Rightarrow> candidate list \<times> 'r"
  assumes arrange_mset: "mset (fst (arrange cs r)) = mset cs"
begin

lemma arrange_set: "set (fst (arrange cs r)) = set cs"
  by (metis arrange_mset set_mset_mset)

lemma layered_mset: "mset (fst (layered arrange nf cs r)) = mset cs"
proof (induction cs arbitrary: r rule: tier_induct[where nf = nf])
  case (Cons h cs)
  let ?same = "\<lambda>c. same_tier nf (ca_rank c) (ca_rank h)"
  obtain front r1 where f: "arrange (h # takeWhile ?same cs) r = (front, r1)" by fastforce
  obtain later r2 where b: "layered arrange nf (dropWhile ?same cs) r1 = (later, r2)" by fastforce
  have "mset front = mset (h # takeWhile ?same cs)"
    using arrange_mset[of "h # takeWhile ?same cs" r] f by simp
  moreover have "mset later = mset (dropWhile ?same cs)"
    using Cons.IH[of r1] b by simp
  moreover have "mset cs = mset (takeWhile ?same cs) + mset (dropWhile ?same cs)"
    by (metis mset_append takeWhile_dropWhile_id)
  ultimately show ?case using f b by (simp add: layered.simps(2) Let_def)
qed simp

lemma layered_set: "set (fst (layered arrange nf cs r)) = set cs"
  by (metis layered_mset set_mset_mset)

text \<open>The first attempt is the first of the arrangement of the first tier.\<close>

lemma layered_head:
  assumes "cs \<noteq> []"
  shows "hd (fst (layered arrange nf cs r)) =
     hd (fst (arrange (takeWhile (\<lambda>c. same_tier nf (ca_rank c) (ca_rank (hd cs))) cs) r))"
proof -
  obtain h t where cs: "cs = h # t" using assms by (cases cs) auto
  let ?same = "\<lambda>c. same_tier nf (ca_rank c) (ca_rank h)"
  obtain front r1 where f: "arrange (h # takeWhile ?same t) r = (front, r1)" by fastforce
  have "front \<noteq> []" using arrange_mset[of "h # takeWhile ?same t" r] f by auto
  then show ?thesis using cs f
    by (simp add: layered.simps(2) Let_def same_tier_layer split: prod.split)
qed

lemma layered_sorted:
  assumes "sorted_wrt (\<lambda>a b. layer nf (ca_rank b) \<le> layer nf (ca_rank a)) cs"
  shows "sorted_wrt (\<lambda>a b. layer nf (ca_rank b) \<le> layer nf (ca_rank a)) (fst (layered arrange nf cs r))"
  using assms
proof (induction cs arbitrary: r rule: tier_induct[where nf = nf])
  case (Cons h cs)
  let ?R = "\<lambda>a b. layer nf (ca_rank b) \<le> layer nf (ca_rank a)"
  let ?same = "\<lambda>c. same_tier nf (ca_rank c) (ca_rank h)"
  obtain front r1 where f: "arrange (h # takeWhile ?same cs) r = (front, r1)" by fastforce
  obtain later r2 where b: "layered arrange nf (dropWhile ?same cs) r1 = (later, r2)" by fastforce
  have sets: "set front = set (h # takeWhile ?same cs)" "set later = set (dropWhile ?same cs)"
    using arrange_set[of "h # takeWhile ?same cs" r] f layered_set[of nf "dropWhile ?same cs" r1] b
    by auto
  have top: "layer nf (ca_rank x) = layer nf (ca_rank h)" if "x \<in> set front" for x
    using that sets by (auto simp: same_tier_layer dest: set_takeWhileD)
  have low: "layer nf (ca_rank x) \<le> layer nf (ca_rank h)" if "x \<in> set later" for x
    using that sets Cons.prems by (auto dest: set_dropWhileD)
  have "sorted_wrt ?R front"
    using top by (auto simp: sorted_wrt_iff_nth_less)
  moreover have "sorted_wrt ?R later"
  proof -
    have "sorted_wrt ?R (dropWhile ?same cs)" using Cons.prems
      by (metis (no_types, lifting) sorted_wrt.simps(2) sorted_wrt_append takeWhile_dropWhile_id)
    then show ?thesis using Cons.IH[of r1] b by simp
  qed
  ultimately have "sorted_wrt ?R (front @ later)"
    using top low by (auto simp: sorted_wrt_append)
  then show ?case using f b by (simp add: layered.simps(2) Let_def)
qed simp

end

lemma draw_by_weight_mset: "mset (fst (draw_by_weight rnd pool r)) = mset pool"
proof (induction "length pool" arbitrary: pool r)
  case 0
  then show ?case by (simp add: draw_by_weight.simps)
next
  case (Suc n)
  then have ne: "pool \<noteq> []" by auto
  obtain i r1 where pick: "weighted_pick rnd (map (\<lambda>c. ch_weight (ca_channel c)) pool) r = (Some i, r1)"
    and i: "i < length pool"
    using weighted_pick_range[of "map (\<lambda>c. ch_weight (ca_channel c)) pool" rnd r] ne by auto
  obtain rest r2 where rest: "draw_by_weight rnd (swap_remove i pool) r1 = (rest, r2)" by fastforce
  have "mset (fst (draw_by_weight rnd (swap_remove i pool) r1)) = mset (swap_remove i pool)"
    using Suc by simp
  with mset_swap_remove[OF i] ne pick rest show ?case
    by (simp add: draw_by_weight.simps[of rnd pool r])
qed

interpretation arranger: tier_arranger "arrange_tier mode seq rnd" for mode seq rnd
  by unfold_locales (auto simp: arrange_tier_def draw_by_weight_mset split: selection_mode.split)

subsection \<open>What is collected\<close>

lemma endpoint_candidate_Some:
  "endpoint_candidate c model inbound e = Some k \<longleftrightarrow>
   ep_enabled e \<and> can_serve (ep_transcode e) inbound (ep_protocol e) \<and>
   (\<exists>m. find_model e model = Some m \<and>
     k = \<lparr>ca_channel = c, ca_endpoint = e, ca_model = m,
          ca_rank = \<lparr>rk_native = (inbound = ep_protocol e), rk_priority = ch_priority c,
                      rk_endpoint_order = ep_order e\<rparr>\<rparr>)"
  by (auto simp: endpoint_candidate_def split: option.splits)

lemma map_filter_set: "y \<in> set (List.map_filter f xs) \<longleftrightarrow> (\<exists>x \<in> set xs. f x = Some y)"
  by (induction xs) (auto simp: map_filter_simps split: option.splits)

lemma in_collect:
  "k \<in> set (collect channels model inbound) \<longleftrightarrow>
   (\<exists>c \<in> set channels. ch_enabled c \<and>
     (\<exists>e \<in> set (ch_endpoints c). endpoint_candidate c model inbound e = Some k))"
  by (auto simp: collect_def collect_channel_def map_filter_set)

text \<open>\<open>C1\<close>. A candidate is collected exactly when its channel and its endpoint are enabled,
  the endpoint lists the requested model and either speaks the inbound protocol or has it
  switched on for transcoding; it carries that model's entry and its rank.\<close>

theorem collect_iff:
  "k \<in> set (collect channels model inbound) \<longleftrightarrow>
     ca_channel k \<in> set channels \<and> ca_endpoint k \<in> set (ch_endpoints (ca_channel k))
   \<and> ch_enabled (ca_channel k) \<and> ep_enabled (ca_endpoint k)
   \<and> find_model (ca_endpoint k) model = Some (ca_model k)
   \<and> (ca_protocol k = inbound
        \<or> (tp_enabled (ep_transcode (ca_endpoint k))
           \<and> pset_contains (tp_accepted (ep_transcode (ca_endpoint k))) inbound))
   \<and> ca_rank k = \<lparr>rk_native = (ca_protocol k = inbound),
        rk_priority = ch_priority (ca_channel k), rk_endpoint_order = ep_order (ca_endpoint k)\<rparr>"
  by (cases k) (auto simp: in_collect endpoint_candidate_Some can_serve_def ca_protocol_def)

subsection \<open>What the order keeps\<close>

lemma prepare_subset: "set (prepare pol cs) \<subseteq> set cs"
  using set_dedup_by_subset[of ca_id "sort_key channel_key cs"]
  by (auto simp: prepare_def Let_def)

lemma sorted_wrt_channel_key:
  "sorted_wrt (\<lambda>a b. channel_key a \<le> channel_key b) (sort_key channel_key cs)"
  using sorted_sort_key[of channel_key cs] by (simp add: sorted_wrt_map)

lemma sorted_ids: "sorted (map ca_id (sort_key channel_key cs))"
proof -
  have "sorted_wrt (\<lambda>a b. ca_id a \<le> ca_id b) (sort_key channel_key cs)"
    using sorted_wrt_channel_key[of cs]
    by (rule sorted_wrt_mono_rel[rotated]) (auto simp: channel_key_def less_eq_prod_def less_prod_def)
  then show ?thesis by (simp add: sorted_wrt_map)
qed

lemma prepare_ids: "ca_id ` set (prepare pol cs) = ca_id ` set cs"
  by (simp add: prepare_def Let_def dedup_by_keys)

lemma prepare_distinct:
  assumes "\<not> rp_retry_same_channel pol"
  shows "distinct (map ca_id (prepare pol cs))"
proof -
  have "mset (map ca_id (prepare pol cs)) = mset (map ca_id (dedup_by ca_id (sort_key channel_key cs)))"
    using assms by (simp add: prepare_def Let_def)
  then show ?thesis
    using dedup_by_distinct[OF sorted_ids] mset_eq_imp_distinct_iff by blast
qed

lemma prepare_best:
  assumes "\<not> rp_retry_same_channel pol" and "a \<in> set (prepare pol cs)"
    and "b \<in> set cs" and "ca_id b = ca_id a"
  shows "channel_key a \<le> channel_key b"
proof (rule dedup_by_first[OF sorted_ids sorted_wrt_channel_key])
  show "a \<in> set (dedup_by ca_id (sort_key channel_key cs))"
    using assms(1,2) by (simp add: prepare_def Let_def)
qed (use assms in auto)

lemma prepare_layers:
  "sorted_wrt (\<lambda>a b. layer (rp_native_first pol) (ca_rank b) \<le> layer (rp_native_first pol) (ca_rank a))
     (prepare pol cs)"
proof -
  let ?key = "tier_key (rp_native_first pol)"
  have "sorted (map ?key (prepare pol cs))" by (simp add: prepare_def Let_def)
  then have "sorted_wrt (\<lambda>a b. ?key a \<le> ?key b) (prepare pol cs)" by (simp add: sorted_wrt_map)
  then show ?thesis
    by (rule sorted_wrt_mono_rel[rotated])
       (auto simp: tier_key_def tier_eq_layer less_eq_prod_def less_prod_def)
qed

lemma prepare_Nil [simp]: "prepare pol cs = [] \<longleftrightarrow> cs = []"
proof
  assume "prepare pol cs = []"
  then have "ca_id ` set cs = {}" using prepare_ids[of pol cs] by simp
  then show "cs = []" by simp
qed (simp add: prepare_def)

text \<open>The attempts are a permutation of the prepared list, in order of the layers.\<close>

lemma order_candidates_mset:
  "mset (fst (order_candidates pol rnd cs model cur r)) = mset (prepare pol cs)"
proof (cases "cs = []")
  case True
  then show ?thesis by (simp add: order_candidates_def prepare_def)
next
  case False
  obtain seq cur' where nr: "next_round_robin (rp_selection pol) model cur = (seq, cur')" by fastforce
  obtain out r' where out: "layered (arrange_tier (rp_selection pol) seq rnd) (rp_native_first pol)
      (prepare pol cs) r = (out, r')" by fastforce
  then show ?thesis
    using False nr arranger.layered_mset[of "rp_selection pol" seq rnd "rp_native_first pol" "prepare pol cs" r]
    by (simp add: order_candidates_def)
qed

lemma order_candidates_set:
  "set (fst (order_candidates pol rnd cs model cur r)) = set (prepare pol cs)"
  by (metis order_candidates_mset set_mset_mset)

lemma order_candidates_layers:
  "sorted_wrt (\<lambda>a b. layer (rp_native_first pol) (ca_rank b) \<le> layer (rp_native_first pol) (ca_rank a))
     (fst (order_candidates pol rnd cs model cur r))"
proof (cases "cs = []")
  case False
  obtain seq cur' where nr: "next_round_robin (rp_selection pol) model cur = (seq, cur')" by fastforce
  obtain out r' where out: "layered (arrange_tier (rp_selection pol) seq rnd) (rp_native_first pol)
      (prepare pol cs) r = (out, r')" by fastforce
  then show ?thesis
    using False nr arranger.layered_sorted[OF prepare_layers[of pol cs], of "rp_selection pol" seq rnd r]
    by (simp add: order_candidates_def)
qed (simp add: order_candidates_def)

abbreviation planned :: "route \<times> cursors \<times> 'r \<Rightarrow> candidate list" where
  "planned p \<equiv> ro_attempts (fst p)"

lemma planned_eq:
  "planned (plan pol rnd chans model inbound cur r) =
   fst (order_candidates pol rnd (collect chans model inbound) model cur r)"
  by (simp add: plan_def split: prod.split)

lemma planned_set:
  "set (planned (plan pol rnd chans model inbound cur r)) =
   set (prepare pol (collect chans model inbound))"
  by (simp add: planned_eq order_candidates_set)

text \<open>Without retries inside a channel the plan tries every channel that has a
  candidate, and each exactly once, through the best of the channel's candidates: a native
  endpoint before a transcoding one, then the smallest order. This holds for every
  selection mode and every random sequence.\<close>

theorem plan_one_per_channel:
  assumes "\<not> rp_retry_same_channel pol"
  shows "let cs = collect chans model inbound;
             att = planned (plan pol rnd chans model inbound cur r)
         in distinct (map ca_id att) \<and> ca_id ` set att = ca_id ` set cs \<and> set att \<subseteq> set cs
          \<and> (\<forall>a \<in> set att. \<forall>b \<in> set cs. ca_id b = ca_id a \<longrightarrow>
               (rk_native (ca_rank b) \<longrightarrow> rk_native (ca_rank a))
             \<and> (rk_native (ca_rank a) = rk_native (ca_rank b) \<longrightarrow>
                  rk_endpoint_order (ca_rank a) \<le> rk_endpoint_order (ca_rank b)))"
proof -
  let ?cs = "collect chans model inbound"
  let ?att = "planned (plan pol rnd chans model inbound cur r)"
  have "mset (map ca_id ?att) = mset (map ca_id (prepare pol ?cs))"
    by (simp add: planned_eq order_candidates_mset)
  with prepare_distinct[OF assms] have "distinct (map ca_id ?att)"
    using mset_eq_imp_distinct_iff by blast
  moreover have "(rk_native (ca_rank b) \<longrightarrow> rk_native (ca_rank a))
      \<and> (rk_native (ca_rank a) = rk_native (ca_rank b) \<longrightarrow>
           rk_endpoint_order (ca_rank a) \<le> rk_endpoint_order (ca_rank b))"
    if "a \<in> set ?att" "b \<in> set ?cs" "ca_id b = ca_id a" for a b
    using prepare_best[OF assms, of a ?cs b] that
    by (auto simp: planned_set channel_key_def less_eq_prod_def less_prod_def)
  ultimately show ?thesis
    using prepare_subset[of pol ?cs] prepare_ids[of pol ?cs] by (simp add: planned_set)
qed

text \<open>The attempts go down the layers of the policy: with native-first on no
  transcoding endpoint is tried before a native one, whatever the priorities, and among
  equally native ones, or with native-first off among all, priorities never increase.\<close>

theorem plan_layers_descend:
  assumes "att = planned (plan pol rnd chans model inbound cur r)" and "i < j" and "j < length att"
  shows "(rp_native_first pol \<and> rk_native (ca_rank (att ! j)) \<longrightarrow> rk_native (ca_rank (att ! i)))
       \<and> ((rp_native_first pol \<longrightarrow> rk_native (ca_rank (att ! i)) = rk_native (ca_rank (att ! j))) \<longrightarrow>
            rk_priority (ca_rank (att ! j)) \<le> rk_priority (ca_rank (att ! i)))"
proof -
  have "layer (rp_native_first pol) (ca_rank (att ! j)) \<le> layer (rp_native_first pol) (ca_rank (att ! i))"
    using order_candidates_layers[of pol rnd "collect chans model inbound" model cur r] assms
    by (simp add: planned_eq sorted_wrt_iff_nth_less)
  then show ?thesis by (auto simp: layer_def tier_def less_eq_prod_def split: if_splits)
qed

text \<open>\<open>C2\<close>. With retries inside a channel nothing is dropped either: the plan is a
  permutation of the collected candidates.\<close>

theorem plan_permutes_candidates:
  assumes "rp_retry_same_channel pol"
  shows "mset (planned (plan pol rnd chans model inbound cur r)) = mset (collect chans model inbound)"
  using assms by (simp add: planned_eq order_candidates_mset prepare_def Let_def)

subsection \<open>Round robin\<close>

text \<open>The tier the first attempt is taken from.\<close>

definition top_tier :: "routing_policy \<Rightarrow> candidate list \<Rightarrow> candidate list" where
  "top_tier pol cs = takeWhile
     (\<lambda>c. same_tier (rp_native_first pol) (ca_rank c) (ca_rank (hd (prepare pol cs)))) (prepare pol cs)"

text \<open>The first attempts of \<open>n\<close> requests for one model, one after the other.\<close>

fun first_attempts ::
  "routing_policy \<Rightarrow> 'r rng \<Rightarrow> candidate list \<Rightarrow> string \<Rightarrow> nat \<Rightarrow> cursors \<Rightarrow> 'r \<Rightarrow> candidate list"
where
  "first_attempts pol rnd cs model 0 cur r = []"
| "first_attempts pol rnd cs model (Suc n) cur r =
     (let (out, cur', r') = order_candidates pol rnd cs model cur r
      in hd out # first_attempts pol rnd cs model n cur' r')"

definition cursor_of :: "cursors \<Rightarrow> string \<Rightarrow> 64 word" where
  "cursor_of cur model = (case cur model of Some s \<Rightarrow> s | None \<Rightarrow> 0)"

definition model_turns :: "string \<Rightarrow> cursors \<Rightarrow> cursors" where
  "model_turns model cur = snd (next_round_robin RoundRobin model cur)"

interpretation turn: round_robin_cursor "\<lambda>cur. cursor_of cur model" "model_turns model" for model
  by unfold_locales (simp add: cursor_of_def model_turns_def next_round_robin_def Let_def)

lemma top_tier_nonempty: "cs \<noteq> [] \<Longrightarrow> top_tier pol cs \<noteq> []"
  by (cases "prepare pol cs") (auto simp: top_tier_def same_tier_layer dest: prepare_Nil[THEN iffD1])

lemma order_round_robin:
  assumes "rp_selection pol = RoundRobin" and "cs \<noteq> []"
  obtains out r' where
    "order_candidates pol rnd cs model cur r = (out, cur(model \<mapsto> cursor_of cur model + 1), r')"
    and "hd out = top_tier pol cs ! (unat (cursor_of cur model) mod length (top_tier pol cs))"
proof -
  let ?seq = "cursor_of cur model"
  let ?arr = "arrange_tier RoundRobin (Some ?seq) rnd"
  have pne: "prepare pol cs \<noteq> []" using assms(2) by simp
  obtain out r' where out: "layered ?arr (rp_native_first pol) (prepare pol cs) r = (out, r')"
    by fastforce
  have ord: "order_candidates pol rnd cs model cur r = (out, cur(model \<mapsto> ?seq + 1), r')"
    using assms out by (simp add: order_candidates_def next_round_robin_def cursor_of_def Let_def)
  have "hd out = hd (fst (?arr (top_tier pol cs) r))"
    using arranger.layered_head[OF pne, of RoundRobin "Some ?seq" rnd "rp_native_first pol" r] out
    by (simp add: top_tier_def)
  also have "\<dots> = top_tier pol cs ! (unat ?seq mod length (top_tier pol cs))"
  proof (cases "1 < length (top_tier pol cs)")
    case True
    then have "0 < length (top_tier pol cs)" by linarith
    then have "unat ?seq mod length (top_tier pol cs) < length (top_tier pol cs)"
      by (rule mod_less_divisor)
    then show ?thesis using True by (simp add: arrange_tier_def hd_rotate_left)
  next
    case False
    then have "length (top_tier pol cs) = 1"
      using top_tier_nonempty[OF assms(2), of pol] by (cases "top_tier pol cs") auto
    then show ?thesis using top_tier_nonempty[OF assms(2), of pol]
      by (simp add: arrange_tier_def hd_conv_nth)
  qed
  finally show thesis using that ord by blast
qed

lemma first_attempts_round_robin:
  assumes "rp_selection pol = RoundRobin" and "cs \<noteq> []"
  shows "first_attempts pol rnd cs model n cur r =
    map (\<lambda>i. top_tier pol cs ! (unat (cursor_of cur model + of_nat i) mod length (top_tier pol cs))) [0..<n]"
proof (induction n arbitrary: cur r)
  case (Suc n)
  obtain out r' where
    ord: "order_candidates pol rnd cs model cur r = (out, cur(model \<mapsto> cursor_of cur model + 1), r')"
    and hd: "hd out = top_tier pol cs ! (unat (cursor_of cur model) mod length (top_tier pol cs))"
    using order_round_robin[OF assms] by metis
  have "cursor_of (cur(model \<mapsto> cursor_of cur model + 1)) model = cursor_of cur model + 1"
    by (simp add: cursor_of_def)
  then show ?case using ord hd Suc
    by (simp add: upt_conv_Cons map_Suc_upt[symmetric] comp_def algebra_simps del: upt_Suc)
qed simp

text \<open>\<open>C3\<close>. Round robin is fair: over as many consecutive requests as the top tier has
  candidates, each of them is tried first exactly once. The hypothesis excludes the one
  point in \<open>2^64\<close> requests where the cursor wraps around.\<close>

theorem round_robin_fair:
  assumes "rp_selection pol = RoundRobin" and "cs \<noteq> []"
    and "unat (cursor_of cur model) + length (top_tier pol cs) \<le> 2 ^ 64"
  shows "mset (first_attempts pol rnd cs model (length (top_tier pol cs)) cur r) = mset (top_tier pol cs)"
proof -
  have "first_attempts pol rnd cs model (length (top_tier pol cs)) cur r = map (\<lambda>i. top_tier pol cs !
      (unat (cursor_of ((model_turns model ^^ i) cur) model) mod length (top_tier pol cs)))
      [0..<length (top_tier pol cs)]"
    by (simp add: first_attempts_round_robin[OF assms(1,2)] turn.cursor_iterate)
  then show ?thesis using turn.turns_fair[OF assms(3)] by simp
qed

subsection \<open>Pinning\<close>

text \<open>Pinning a channel succeeds exactly when the route has a candidate of it; then
  that candidate is tried first and no candidate is lost or repeated, and restricting the
  route to the pin leaves that single candidate. Otherwise the route is unchanged.\<close>

theorem pin_channel_correct:
  "case pin_channel cid ro of (found, ro') \<Rightarrow>
     (found \<longleftrightarrow> cid \<in> ca_id ` set (ro_attempts ro))
   \<and> mset (ro_attempts ro') = mset (ro_attempts ro)
   \<and> (if found then ca_id (hd (ro_attempts ro')) = cid
        \<and> ro_attempts (pinned_only ro') = [hd (ro_attempts ro')] else ro' = ro)"
proof (cases "position (\<lambda>c. ca_id c = cid) (ro_attempts ro)")
  case None
  moreover from None have "cid \<notin> ca_id ` set (ro_attempts ro)" by auto
  ultimately show ?thesis by (simp add: pin_channel_def del: position_None)
next
  case (Some pos)
  let ?cs = "ro_attempts ro"
  have pos: "pos < length ?cs" and id: "ca_id (?cs ! pos) = cid"
    using Some by (auto simp: position_Some)
  have split: "?cs = take pos ?cs @ ?cs ! pos # drop (Suc pos) ?cs"
    using pos by (rule id_take_nth_drop)
  then have "mset ?cs = mset (?cs ! pos # take pos ?cs @ drop (Suc pos) ?cs)"
    by (metis mset.simps(2) mset_append union_mset_add_mset_right)
  moreover have "cid \<in> ca_id ` set ?cs" using pos id by force
  moreover have "?cs \<noteq> []" using pos by auto
  ultimately show ?thesis using Some id
    by (cases "pos = 0") (auto simp: pin_channel_def pinned_only_def Let_def hd_conv_nth take_Suc)
qed

subsection \<open>Diagnosis and the visible models\<close>

lemma fold_diagnose_endpoint:
  "(fst (fold (diagnose_endpoint model) es acc) \<longleftrightarrow>
      fst acc \<or> (\<exists>e \<in> set es. ep_enabled e \<and> find_model e model \<noteq> None))
   \<and> (pset_contains (snd (fold (diagnose_endpoint model) es acc)) p \<longleftrightarrow>
      pset_contains (snd acc) p \<or> (\<exists>e \<in> set es. ep_enabled e \<and> find_model e model \<noteq> None
         \<and> can_serve (ep_transcode e) p (ep_protocol e)))"
  by (induction es arbitrary: acc) (auto simp: diagnose_endpoint_def pset.mem_fold_ins_if)

lemma fold_diagnose_channel:
  "(fst (fold (diagnose_channel model) cs acc) \<longleftrightarrow>
      fst acc \<or> (\<exists>c \<in> set cs. ch_enabled c
         \<and> (\<exists>e \<in> set (ch_endpoints c). ep_enabled e \<and> find_model e model \<noteq> None)))
   \<and> (pset_contains (snd (fold (diagnose_channel model) cs acc)) p \<longleftrightarrow>
      pset_contains (snd acc) p \<or> (\<exists>c \<in> set cs. ch_enabled c
         \<and> (\<exists>e \<in> set (ch_endpoints c). ep_enabled e \<and> find_model e model \<noteq> None
              \<and> can_serve (ep_transcode e) p (ep_protocol e))))"
proof (induction cs arbitrary: acc)
  case (Cons c cs)
  show ?case
    using Cons.IH[of "diagnose_channel model c acc"]
      fold_diagnose_endpoint[of model "ch_endpoints c" acc p]
    by (auto simp: diagnose_channel_def)
qed simp

lemma collect_nonempty:
  "collect chans model p \<noteq> [] \<longleftrightarrow> (\<exists>c \<in> set chans. ch_enabled c
     \<and> (\<exists>e \<in> set (ch_endpoints c). ep_enabled e \<and> find_model e model \<noteq> None
          \<and> can_serve (ep_transcode e) p (ep_protocol e)))"
proof -
  have "collect chans model p \<noteq> [] \<longleftrightarrow> (\<exists>k. k \<in> set (collect chans model p))"
    by (metis all_not_in_conv set_empty)
  then show ?thesis by (auto simp: in_collect endpoint_candidate_Some)
qed

text \<open>The diagnosis agrees with the planner: it reports a route exactly when a
  candidate is collected for the inbound protocol, an unknown model exactly when no
  protocol has one, and a refused protocol together with the set of the protocols that do.\<close>

theorem diagnose_agrees_with_collect:
  "(diagnose chans model inbound = Routable \<longleftrightarrow> collect chans model inbound \<noteq> [])
 \<and> (diagnose chans model inbound = UnknownModel \<longleftrightarrow> (\<forall>p. collect chans model p = []))
 \<and> (case diagnose chans model inbound of
      ProtocolNotPermitted av \<Rightarrow> (\<forall>p. pset_contains av p \<longleftrightarrow> collect chans model p \<noteq> [])
    | _ \<Rightarrow> True)"
proof -
  obtain ex av where acc: "fold (diagnose_channel model) chans (False, pset_empty) = (ex, av)"
    by fastforce
  have av: "pset_contains av p \<longleftrightarrow> collect chans model p \<noteq> []" for p
    using fold_diagnose_channel[of model chans "(False, pset_empty)" p] acc
    by (simp add: collect_nonempty pset.mem_empty)
  have ex: "ex \<longleftrightarrow> (\<exists>p. collect chans model p \<noteq> [])"
  proof -
    have "ex \<longleftrightarrow> (\<exists>c \<in> set chans. ch_enabled c
        \<and> (\<exists>e \<in> set (ch_endpoints c). ep_enabled e \<and> find_model e model \<noteq> None))"
      using fold_diagnose_channel[of model chans "(False, pset_empty)"] acc by simp
    moreover have "can_serve (ep_transcode e) (ep_protocol e) (ep_protocol e)" for e
      by (simp add: can_serve_def)
    ultimately show ?thesis unfolding collect_nonempty by blast
  qed
  show ?thesis using av ex acc by (auto simp: diagnose_def)
qed

lemma set_foldl_push_new: "set (foldl push_new out ns) = set out \<union> set ns"
  by (induction ns arbitrary: out) (auto simp: push_new_def)

lemma distinct_foldl_push_new: "distinct out \<Longrightarrow> distinct (foldl push_new out ns)"
  by (induction ns arbitrary: out) (auto simp: push_new_def)

text \<open>The advertised model list is sorted, has no duplicates, and lists exactly the
  models some protocol can be routed for: no advertised model ends in an empty plan and no
  routable model is missing.\<close>

theorem visible_models_routable:
  "sorted (visible_models chans) \<and> distinct (visible_models chans)
 \<and> (n \<in> set (visible_models chans) \<longleftrightarrow> (\<exists>p. collect chans n p \<noteq> []))"
proof -
  have "n \<in> set (visible_models chans) \<longleftrightarrow> (\<exists>c \<in> set chans. ch_enabled c
      \<and> (\<exists>e \<in> set (ch_endpoints c). ep_enabled e \<and> (\<exists>m \<in> set (ep_models e). me_name m = n)))"
    by (force simp: visible_models_def set_foldl_push_new split: if_splits)
  also have "\<dots> \<longleftrightarrow> (\<exists>c \<in> set chans. ch_enabled c
      \<and> (\<exists>e \<in> set (ch_endpoints c). ep_enabled e \<and> find_model e n \<noteq> None))"
    by (simp add: find_model_None)
  also have "\<dots> \<longleftrightarrow> (\<exists>p. collect chans n p \<noteq> [])"
    unfolding collect_nonempty by (metis can_serve_def)
  finally show ?thesis by (simp add: visible_models_def distinct_foldl_push_new)
qed

subsection \<open>Witnesses\<close>

definition zero_rng :: "unit rng" where
  "zero_rng n r = (0, r)"

definition chat_channel :: channel where
  "chat_channel = sample_channel\<lparr>ch_id := 8, ch_kind := Single Chat, ch_priority := 5,
     ch_endpoints := [(endpoint_new Chat)\<lparr>ep_models := [plain_model ''m'']\<rparr>]\<rparr>"

definition chat_candidate :: "channel \<Rightarrow> candidate" where
  "chat_candidate c = \<lparr>ca_channel = c, ca_endpoint = hd (ch_endpoints c),
     ca_model = plain_model ''m'',
     ca_rank = \<lparr>rk_native = True, rk_priority = ch_priority c, rk_endpoint_order = 0\<rparr>\<rparr>"

lemma sample_collect:
  "collect [sample_channel, chat_channel] ''m'' Chat = [chat_candidate sample_channel, chat_candidate chat_channel]"
  by (simp add: collect_def collect_channel_def sample_channel_def chat_channel_def chat_candidate_def
      endpoint_candidate_def map_filter_simps endpoint_new_def find_model_def plain_model_def
      can_serve_def transcode_disabled_def pset.mem_empty)

theorem plan_one_per_channel_witness:
  "distinct (map ca_id (planned (plan default_policy zero_rng [sample_channel, chat_channel] ''m'' Chat Map.empty ())))"
  using plan_one_per_channel[of default_policy "[sample_channel, chat_channel]" "''m''" Chat zero_rng Map.empty "()"]
  by (simp add: default_policy_def Let_def)

lemma sample_ids:
  "ca_id (chat_candidate sample_channel) = 7" "ca_id (chat_candidate chat_channel) = 8"
  "ca_rank (chat_candidate sample_channel) = \<lparr>rk_native = True, rk_priority = 0, rk_endpoint_order = 0\<rparr>"
  "ca_rank (chat_candidate chat_channel) = \<lparr>rk_native = True, rk_priority = 5, rk_endpoint_order = 0\<rparr>"
  by (simp_all add: ca_id_def chat_candidate_def sample_channel_def chat_channel_def)

lemma sample_plan:
  "planned (plan (default_policy\<lparr>rp_selection := First\<rparr>) zero_rng [sample_channel, chat_channel] ''m'' Chat Map.empty ())
   = [chat_candidate chat_channel, chat_candidate sample_channel]"
  by (simp add: planned_eq order_candidates_def sample_collect prepare_def default_policy_def Let_def
      channel_key_def tier_key_def tier_def sample_ids next_round_robin_def layered.simps(2)
      same_tier_def arrange_tier_def less_eq_prod_def less_prod_def)

theorem plan_layers_descend_witness:
  "rk_priority (ca_rank (chat_candidate sample_channel)) \<le> rk_priority (ca_rank (chat_candidate chat_channel))"
proof -
  have "(0::nat) < 1" and "(1::nat) < length [chat_candidate chat_channel, chat_candidate sample_channel]"
    by simp_all
  from plan_layers_descend[OF sample_plan[symmetric] this] show ?thesis
    by (simp add: default_policy_def sample_ids)
qed

theorem plan_permutes_candidates_witness:
  "mset (planned (plan (default_policy\<lparr>rp_retry_same_channel := True\<rparr>) zero_rng
     [sample_channel, chat_channel] ''m'' Chat Map.empty ()))
   = {#chat_candidate sample_channel, chat_candidate chat_channel#}"
  using plan_permutes_candidates[of "default_policy\<lparr>rp_retry_same_channel := True\<rparr>" zero_rng
      "[sample_channel, chat_channel]" "''m''" Chat Map.empty "()"]
  by (simp add: default_policy_def sample_collect)

lemma sample_top_tier:
  "top_tier (default_policy\<lparr>rp_selection := RoundRobin\<rparr>)
     [chat_candidate sample_channel, chat_candidate (chat_channel\<lparr>ch_priority := 0\<rparr>)]
   = [chat_candidate sample_channel, chat_candidate (chat_channel\<lparr>ch_priority := 0\<rparr>)]"
  by (simp add: top_tier_def prepare_def default_policy_def Let_def channel_key_def tier_key_def
      tier_def same_tier_def chat_candidate_def ca_id_def sample_channel_def chat_channel_def
      less_eq_prod_def less_prod_def)

theorem round_robin_fair_witness:
  "mset (first_attempts (default_policy\<lparr>rp_selection := RoundRobin\<rparr>) zero_rng
     [chat_candidate sample_channel, chat_candidate (chat_channel\<lparr>ch_priority := 0\<rparr>)] ''m'' (Suc (Suc 0)) Map.empty ())
   = {#chat_candidate sample_channel, chat_candidate (chat_channel\<lparr>ch_priority := 0\<rparr>)#}"
  using round_robin_fair[of "default_policy\<lparr>rp_selection := RoundRobin\<rparr>"
      "[chat_candidate sample_channel, chat_candidate (chat_channel\<lparr>ch_priority := 0\<rparr>)]"
      Map.empty "''m''" zero_rng "()"]
  by (simp add: sample_top_tier cursor_of_def del: first_attempts.simps)

end
