(* ===== verification/Keys.thy ===== *)
theory Keys
  imports Channel Round_Robin Routing
begin

section \<open>Key pools: selection, rotation and sticky bindings\<close>

text \<open>
  \<open>crates/refract-router/src/keys.rs\<close>. The selector is the state shared by all requests: a
  round robin cursor for each channel, and the sticky bindings of a channel and an identity
  to an index of the pool. A rotator belongs to one request: it starts at the index the
  selector gives, moves on after a failure of the key, and commits the key that worked.
  The random choice is the generator of \<open>Routing\<close>.
\<close>

subsection \<open>The selector\<close>

record key_selector =
  se_cursors :: "channel_id \<rightharpoonup> 64 word"
  se_sticky :: "channel_id \<times> 64 word \<rightharpoonup> nat"

definition new_selector :: key_selector where
  "new_selector = \<lparr>se_cursors = Map.empty, se_sticky = Map.empty\<rparr>"

definition forget_keys :: "channel_id \<Rightarrow> key_selector \<Rightarrow> key_selector" where
  "forget_keys cid s = s\<lparr>se_cursors := (se_cursors s)(cid := None),
     se_sticky := (\<lambda>k. if fst k = cid then None else se_sticky s k)\<rparr>"

definition key_cursor :: "channel_id \<Rightarrow> key_selector \<Rightarrow> 64 word" where
  "key_cursor cid s = (case se_cursors s cid of Some c \<Rightarrow> c | None \<Rightarrow> 0)"

definition next_cursor :: "channel_id \<Rightarrow> nat \<Rightarrow> key_selector \<Rightarrow> nat \<times> key_selector" where
  "next_cursor cid n s = (
     let cursor = key_cursor cid s
     in (unat cursor mod n, s\<lparr>se_cursors := (se_cursors s)(cid \<mapsto> cursor + 1)\<rparr>))"

definition first_index ::
  "'r rng \<Rightarrow> channel_id \<Rightarrow> key_pool \<Rightarrow> 64 word option \<Rightarrow> key_selector \<Rightarrow> 'r
   \<Rightarrow> nat \<times> key_selector \<times> 'r"
where
  "first_index rnd cid pool identity s r = (case strategy pool of
     Sticky \<Rightarrow>
       (case Option.bind identity (\<lambda>who. se_sticky s (cid, who)) of
          Some b \<Rightarrow>
            if b < pool_len pool then (b, s, r)
            else
              let s1 = s\<lparr>se_sticky := (se_sticky s)((cid, the identity) := None)\<rparr>;
                  (i, s2) = next_cursor cid (pool_len pool) s1
              in (i, s2, r)
        | None \<Rightarrow> let (i, s1) = next_cursor cid (pool_len pool) s in (i, s1, r))
   | RandomKeys \<Rightarrow> let (i, r1) = rnd (pool_len pool) r in (i, s, r1)
   | RoundRobinKeys \<Rightarrow> let (i, s1) = next_cursor cid (pool_len pool) s in (i, s1, r))"

definition commit_sticky ::
  "channel_id \<Rightarrow> 64 word option \<Rightarrow> nat \<Rightarrow> key_selector \<Rightarrow> key_selector"
where
  "commit_sticky cid identity index s = (case identity of
     Some who \<Rightarrow> s\<lparr>se_sticky := (se_sticky s)((cid, who) \<mapsto> index)\<rparr>
   | None \<Rightarrow> s)"

subsection \<open>The rotator of a request\<close>

record key_rotator =
  kr_channel :: channel_id
  kr_pool :: key_pool
  kr_identity :: "64 word option"
  kr_index :: nat
  kr_tried :: nat
  kr_exhausted :: bool

definition start ::
  "'r rng \<Rightarrow> channel_id \<Rightarrow> key_pool \<Rightarrow> 64 word option \<Rightarrow> key_selector \<Rightarrow> 'r
   \<Rightarrow> key_rotator \<times> key_selector \<times> 'r"
where
  "start rnd cid pool identity s r = (
     let (i, s', r') = first_index rnd cid pool identity s r
     in (\<lparr>kr_channel = cid, kr_pool = pool, kr_identity = identity, kr_index = i,
          kr_tried = 1, kr_exhausted = False\<rparr>, s', r'))"

definition current_key :: "key_rotator \<Rightarrow> credential" where
  "current_key k = key_at (kr_pool k) (kr_index k)"

definition key_hint :: "key_rotator \<Rightarrow> string" where
  "key_hint k = masked (current_key k)"

definition rotate_key :: "error_kind \<Rightarrow> key_rotator \<Rightarrow> bool \<times> key_rotator" where
  "rotate_key kind k = (
     if kr_exhausted k then (False, k)
     else if \<not> is_key_failure kind then (False, k)
     else if is_single (kr_pool k) \<or> pool_len (kr_pool k) < 2 then (False, k\<lparr>kr_exhausted := True\<rparr>)
     else if kr_tried k \<ge> pool_len (kr_pool k) then (False, k\<lparr>kr_exhausted := True\<rparr>)
     else (True, k\<lparr>kr_index := (kr_index k + 1) mod pool_len (kr_pool k),
                   kr_tried := kr_tried k + 1\<rparr>))"

definition exhausted_error :: "key_rotator \<Rightarrow> gateway_error \<Rightarrow> gateway_error" where
  "exhausted_error k last_error = (
     if \<not> kr_exhausted k \<or> pool_len (kr_pool k) < 2 then last_error
     else (gateway_error_new (ge_kind last_error)
            (''all '' @ nat_to_string (pool_len (kr_pool k))
             @ '' keys in channel credential pool failed: '' @ ge_message last_error))
          \<lparr>ge_retry_after := ge_retry_after last_error\<rparr>)"

definition commit_key :: "key_rotator \<Rightarrow> key_selector \<Rightarrow> key_selector" where
  "commit_key k s = (if strategy (kr_pool k) = Sticky
     then commit_sticky (kr_channel k) (kr_identity k) (kr_index k) s else s)"

subsection \<open>Bounds\<close>

text \<open>What the code relies on of \<open>random_range(0..n)\<close>.\<close>

definition rng_in_range :: "'r rng \<Rightarrow> bool" where
  "rng_in_range rnd \<longleftrightarrow> (\<forall>n r. 0 < n \<longrightarrow> fst (rnd n r) < n)"

lemma next_cursor_bound: "0 < n \<Longrightarrow> fst (next_cursor cid n s) < n"
  by (simp add: next_cursor_def Let_def)

lemma first_index_bound:
  assumes "rng_in_range rnd"
  shows "fst (first_index rnd cid pool identity s r) < pool_len pool"
proof -
  have "fst (rnd (pool_len pool) r) < pool_len pool"
    using assms by (simp add: rng_in_range_def)
  then show ?thesis
    by (simp add: first_index_def Let_def case_prod_beta next_cursor_bound
        split: key_strategy.split option.split)
qed

definition rotator_ok :: "key_rotator \<Rightarrow> bool" where
  "rotator_ok k \<longleftrightarrow> kr_index k < pool_len (kr_pool k) \<and> 1 \<le> kr_tried k
     \<and> kr_tried k \<le> pool_len (kr_pool k)"

lemma start_ok: "rng_in_range rnd \<Longrightarrow> rotator_ok (fst (start rnd cid pool identity s r))"
  using first_index_bound[of rnd cid pool identity s r]
  by (auto simp: start_def rotator_ok_def Let_def Suc_le_eq split: prod.split)

lemma rotate_key_ok: "rotator_ok k \<Longrightarrow> rotator_ok (snd (rotate_key kind k))"
  by (auto simp: rotate_key_def rotator_ok_def)

lemma rotate_key_other_failure: "\<not> is_key_failure kind \<Longrightarrow> rotate_key kind k = (False, k)"
  by (simp add: rotate_key_def)

subsection \<open>A request with failing keys\<close>

text \<open>The keys one request presents while its attempts fail with the given kinds.\<close>

fun rotation :: "error_kind list \<Rightarrow> key_rotator \<Rightarrow> credential list \<times> key_rotator" where
  "rotation [] k = ([current_key k], k)"
| "rotation (f # fs) k = (case rotate_key f k of
     (True, k') \<Rightarrow> (current_key k # fst (rotation fs k'), snd (rotation fs k'))
   | (False, k') \<Rightarrow> ([current_key k], k'))"

lemma key_at_mod: "key_at pool (i mod pool_len pool + j) = key_at pool (i + j)"
  by (simp add: key_at_nth mod_add_left_eq)

lemma is_single_len: "is_single pool \<Longrightarrow> pool_len pool = 1"
  by (cases pool) auto

lemma rotation_all_fail:
  assumes "rotator_ok k" and "\<not> kr_exhausted k" and "\<forall>f \<in> set fs. is_key_failure f"
    and "pool_len (kr_pool k) < length fs + kr_tried k"
  shows "fst (rotation fs k) = map (\<lambda>i. key_at (kr_pool k) (kr_index k + i))
            [0..<Suc (pool_len (kr_pool k) - kr_tried k)]
       \<and> kr_exhausted (snd (rotation fs k))"
  using assms
proof (induction fs arbitrary: k)
  case Nil
  then show ?case by (simp add: rotator_ok_def)
next
  case (Cons f fs)
  let ?p = "kr_pool k"
  have f: "is_key_failure f" using Cons.prems by simp
  show ?case
  proof (cases "kr_tried k < pool_len ?p")
    case False
    then have "kr_tried k = pool_len ?p" using Cons.prems(1) by (simp add: rotator_ok_def)
    moreover have "rotate_key f k = (False, k\<lparr>kr_exhausted := True\<rparr>)"
      using f Cons.prems False by (simp add: rotate_key_def)
    ultimately show ?thesis by (simp add: current_key_def)
  next
    case True
    then have two: "\<not> is_single ?p" "\<not> pool_len ?p < 2"
      using Cons.prems(1) is_single_len[of ?p] by (auto simp: rotator_ok_def)
    define k' where "k' = k\<lparr>kr_index := (kr_index k + 1) mod pool_len ?p, kr_tried := kr_tried k + 1\<rparr>"
    have rot: "rotate_key f k = (True, k')"
      using f Cons.prems True two by (simp add: rotate_key_def k'_def)
    have "rotator_ok k'" using rotate_key_ok[OF Cons.prems(1), of f] rot by simp
    moreover have "pool_len ?p - kr_tried k = Suc (pool_len ?p - Suc (kr_tried k))"
      using True by simp
    ultimately show ?thesis
      using Cons.IH[of k'] Cons.prems rot key_at_mod[of ?p "Suc (kr_index k)"]
      by (simp add: k'_def current_key_def map_upt_Suc del: upt_Suc)
  qed
qed

lemma rotation_presents_all:
  assumes "rng_in_range rnd" and "\<forall>f \<in> set fs. is_key_failure f" and "pool_len pool \<le> length fs"
    and "k = fst (start rnd cid pool identity s r)"
  shows "mset (fst (rotation fs k)) = mset (pool_keys pool) \<and> kr_exhausted (snd (rotation fs k))"
proof -
  have k: "kr_pool k = pool" "kr_tried k = 1" "\<not> kr_exhausted k" "rotator_ok k"
    using assms(4) start_ok[OF assms(1), of cid pool identity s r]
    by (simp_all add: start_def Let_def case_prod_beta)
  have "fst (rotation fs k) = map (\<lambda>i. key_at pool (kr_index k + i)) [0..<pool_len pool]"
    and ex: "kr_exhausted (snd (rotation fs k))"
    using rotation_all_fail[OF k(4,3) assms(2)] k assms(3) by (auto simp: Suc_diff_Suc)
  then have "fst (rotation fs k) = rotate (kr_index k) (pool_keys pool)"
    by (intro nth_equalityI) (simp_all add: nth_rotate key_at_nth)
  then show ?thesis using ex by (simp add: mset_rotate)
qed

text \<open>\<open>C4\<close>. Before a request gives a channel up because of its keys, it has presented every key
  of the pool exactly once, wherever the selection started; the rotator then reports the pool
  as exhausted. The hypothesis on the generator is the documented range of \<open>random_range\<close>.\<close>

theorem rotation_tries_each_key_once:
  assumes "rng_in_range rnd" and "\<forall>f \<in> set fs. is_key_failure f" and "pool_len pool \<le> length fs"
    and "k = fst (start rnd cid pool identity s r)"
  shows "mset (fst (rotation fs k)) = mset (pool_keys pool) \<and> kr_exhausted (snd (rotation fs k))"
  by (rule rotation_presents_all[OF assms])

subsection \<open>Consecutive requests\<close>

interpretation key_turns: round_robin_cursor "key_cursor cid" "\<lambda>s. snd (next_cursor cid n s)" for cid n
  by unfold_locales (simp add: key_cursor_def next_cursor_def Let_def)

text \<open>The first keys of \<open>n\<close> requests to one channel, one after the other.\<close>

fun first_keys ::
  "'r rng \<Rightarrow> channel_id \<Rightarrow> key_pool \<Rightarrow> 64 word option \<Rightarrow> nat \<Rightarrow> key_selector \<Rightarrow> 'r \<Rightarrow> credential list"
where
  "first_keys rnd cid pool identity 0 s r = []"
| "first_keys rnd cid pool identity (Suc n) s r =
     (let (k, s', r') = start rnd cid pool identity s r
      in current_key k # first_keys rnd cid pool identity n s' r')"

lemma first_keys_turns:
  assumes "strategy pool = RoundRobinKeys"
  shows "first_keys rnd cid pool identity n s r = map (\<lambda>i. pool_keys pool !
     (unat (key_cursor cid (((\<lambda>s. snd (next_cursor cid (pool_len pool) s)) ^^ i) s)) mod pool_len pool)) [0..<n]"
proof (induction n arbitrary: s r)
  case (Suc n)
  let ?adv = "\<lambda>s. snd (next_cursor cid (pool_len pool) s)"
  have "start rnd cid pool identity s r =
     (\<lparr>kr_channel = cid, kr_pool = pool, kr_identity = identity,
       kr_index = unat (key_cursor cid s) mod pool_len pool, kr_tried = 1, kr_exhausted = False\<rparr>, ?adv s, r)"
    using assms by (simp add: start_def first_index_def next_cursor_def Let_def)
  then show ?case
    by (simp add: Suc map_upt_Suc funpow_swap1 current_key_def key_at_nth del: upt_Suc funpow.simps
        add: funpow_0 funpow_Suc_right)
qed simp

text \<open>Round robin spreads the load: as many consecutive requests to a channel as its
  pool has keys start with each key exactly once, whatever their identities and whatever the
  cursor stands at, short of its wrap-around at \<open>2^64\<close>.\<close>

theorem key_round_robin_fair:
  assumes "strategy pool = RoundRobinKeys" and "unat (key_cursor cid s) + pool_len pool \<le> 2 ^ 64"
  shows "mset (first_keys rnd cid pool identity (pool_len pool) s r) = mset (pool_keys pool)"
  using key_turns.turns_fair[of cid s "pool_keys pool" "pool_len pool"] assms(2)
  by (simp add: first_keys_turns[OF assms(1)])

subsection \<open>Sticky bindings under interleaving requests\<close>

datatype selector_op =
    StartOp channel_id key_pool "64 word option"
  | CommitOp key_rotator
  | ForgetOp channel_id

fun run_selector_op :: "'r rng \<Rightarrow> selector_op \<Rightarrow> key_selector \<times> 'r \<Rightarrow> key_selector \<times> 'r" where
  "run_selector_op rnd (StartOp cid pool who) (s, r) = snd (start rnd cid pool who s r)"
| "run_selector_op rnd (CommitOp k) (s, r) = (commit_key k s, r)"
| "run_selector_op rnd (ForgetOp cid) (s, r) = (forget_keys cid s, r)"

text \<open>The operations of other requests that leave the binding of a channel and an identity to
  the index \<open>i\<close> alone: everything but deleting the channel, committing another index under
  the same binding, and starting on a pool that has shrunk below \<open>i\<close>.\<close>

fun keeps_binding :: "channel_id \<Rightarrow> 64 word \<Rightarrow> nat \<Rightarrow> selector_op \<Rightarrow> bool" where
  "keeps_binding cid who i (StartOp c pool w) =
     (c = cid \<and> w = Some who \<and> strategy pool = Sticky \<longrightarrow> i < pool_len pool)"
| "keeps_binding cid who i (CommitOp k) =
     (kr_channel k = cid \<and> kr_identity k = Some who \<and> strategy (kr_pool k) = Sticky \<longrightarrow> kr_index k = i)"
| "keeps_binding cid who i (ForgetOp c) = (c \<noteq> cid)"

lemma se_sticky_next_cursor [simp]: "se_sticky (snd (next_cursor cid n s)) = se_sticky s"
  by (simp add: next_cursor_def Let_def)

lemma run_selector_op_binding:
  assumes "se_sticky (fst st) (cid, who) = Some i" and "keeps_binding cid who i op"
  shows "se_sticky (fst (run_selector_op rnd op st)) (cid, who) = Some i"
proof (cases op)
  case (StartOp c pool w)
  then show ?thesis using assms
    by (cases st; cases "Option.bind w (\<lambda>who. se_sticky (fst st) (c, who))"; cases w)
       (auto simp: start_def first_index_def Let_def case_prod_beta split: key_strategy.split)
next
  case (CommitOp k)
  then show ?thesis using assms
    by (cases st) (auto simp: commit_key_def commit_sticky_def split: option.split)
next
  case (ForgetOp c)
  then show ?thesis using assms by (cases st) (auto simp: forget_keys_def)
qed

lemma run_selector_ops_binding:
  "se_sticky (fst st) (cid, who) = Some i \<Longrightarrow> \<forall>op \<in> set ops. keeps_binding cid who i op \<Longrightarrow>
   se_sticky (fst (fold (run_selector_op rnd) ops st)) (cid, who) = Some i"
  by (induction ops arbitrary: st) (auto simp: run_selector_op_binding)

text \<open>A sticky binding is stable under concurrency: the key an identity's request
  succeeded with is the first key of its next request, however many other requests start and
  commit in between.\<close>

theorem sticky_key_is_reused:
  assumes "strategy (kr_pool k) = Sticky" and "kr_identity k = Some who"
    and "kr_index k < pool_len (kr_pool k)"
    and "\<forall>op \<in> set ops. keeps_binding (kr_channel k) who (kr_index k) op"
    and "(s', r') = fold (run_selector_op rnd) ops (commit_key k s, r)"
  shows "current_key (fst (start rnd (kr_channel k) (kr_pool k) (Some who) s' r')) = current_key k"
proof -
  have "se_sticky (fst (commit_key k s, r)) (kr_channel k, who) = Some (kr_index k)"
    using assms(1,2) by (simp add: commit_key_def commit_sticky_def)
  then have "se_sticky s' (kr_channel k, who) = Some (kr_index k)"
    using run_selector_ops_binding[OF _ assms(4), of "(commit_key k s, r)" rnd]
    by (metis assms(5) fst_conv)
  then show ?thesis
    using assms(1,3) by (simp add: start_def first_index_def current_key_def)
qed

subsection \<open>Witnesses\<close>

definition low_rng :: "unit rng" where
  "low_rng n r = (0, r)"

lemma low_rng_in_range: "rng_in_range low_rng"
  by (simp add: rng_in_range_def low_rng_def)

theorem rotation_tries_each_key_once_witness:
  "mset (fst (rotation [RateLimited, RateLimited]
      (fst (start low_rng 7 (Pool ''a'' [''b''] RoundRobinKeys) None new_selector ())))) = {#''a'', ''b''#}"
  using rotation_tries_each_key_once[OF low_rng_in_range, of "[RateLimited, RateLimited]"
      "Pool ''a'' [''b''] RoundRobinKeys" _ 7 None new_selector "()"]
  by (simp add: is_key_failure_def del: rotation.simps)

theorem key_round_robin_fair_witness:
  "mset (first_keys low_rng 7 (Pool ''a'' [''b''] RoundRobinKeys) None (Suc (Suc 0)) new_selector ())
   = {#''a'', ''b''#}"
  using key_round_robin_fair[of "Pool ''a'' [''b''] RoundRobinKeys" 7 new_selector low_rng None "()"]
  by (simp add: key_cursor_def new_selector_def del: first_keys.simps)

definition sticky_rotator :: key_rotator where
  "sticky_rotator = \<lparr>kr_channel = 7, kr_pool = Pool ''a'' [''b''] Sticky, kr_identity = Some 3,
     kr_index = 1, kr_tried = 2, kr_exhausted = False\<rparr>"

theorem sticky_key_is_reused_witness:
  "current_key (fst (start low_rng 7 (Pool ''a'' [''b''] Sticky) (Some 3)
     (fst (fold (run_selector_op low_rng) [StartOp 7 (Pool ''a'' [''b''] Sticky) (Some 4), ForgetOp 8]
        (commit_key sticky_rotator new_selector, ()))) ())) = ''b''"
proof -
  let ?ops = "[StartOp 7 (Pool ''a'' [''b''] Sticky) (Some 4), ForgetOp 8]"
  let ?st = "fold (run_selector_op low_rng) ?ops (commit_key sticky_rotator new_selector, ())"
  have st: "(fst ?st, ()) = ?st" by (simp only: prod_eq_iff) simp
  have "current_key (fst (start low_rng (kr_channel sticky_rotator) (kr_pool sticky_rotator) (Some 3)
      (fst ?st) ())) = current_key sticky_rotator"
    by (rule sticky_key_is_reused[OF _ _ _ _ st]) (simp_all add: sticky_rotator_def)
  then show ?thesis by (simp add: sticky_rotator_def current_key_def del: fold_simps)
qed

end
