(* ===== verification/Health.thy ===== *)
theory Health
  imports Channel Gateway_Error
begin

section \<open>Endpoint health and the circuit breaker\<close>

text \<open>
  \<open>crates/refract-store/src/health_repo.rs\<close>. The table \<open>channel_health\<close> is a map from a channel
  and a protocol to a row; each SQL statement of the code is the update of that map it
  stands for. Beside it the repository keeps the suspension cache the request path reads.
  Instants are nanoseconds; SQLite's \<open>datetime('now')\<close> has whole seconds. An operation is
  given the time it runs at and whether the database fails: \<open>Tx_Fails\<close> is a statement or
  commit that fails (the transaction has no effect), \<open>Read_Fails\<close> a failure of the read
  that follows the commit.
\<close>

type_synonym instant = int

type_synonym endpoint_key = "channel_id \<times> protocol"

definition sql_now :: "instant \<Rightarrow> instant" where
  "sql_now now = (now div 10 ^ 9) * 10 ^ 9"

subsection \<open>Breaker policy\<close>

record breaker_policy =
  bp_failure_threshold :: nat
  bp_base_cooldown_secs :: nat
  bp_max_cooldown_secs :: nat

definition default_breaker :: breaker_policy where
  "default_breaker = \<lparr>bp_failure_threshold = 5, bp_base_cooldown_secs = 30, bp_max_cooldown_secs = 900\<rparr>"

definition max_failure_threshold :: nat where "max_failure_threshold = 1000"
definition max_cooldown_secs :: nat where "max_cooldown_secs = 86400"

datatype breaker_error = ThresholdTooLarge | BaseOutOfRange | MaxOutOfRange

definition validate_breaker :: "breaker_policy \<Rightarrow> breaker_error + unit" where
  "validate_breaker p = (
     if bp_failure_threshold p > max_failure_threshold then Inl ThresholdTooLarge
     else if bp_base_cooldown_secs p = 0 \<or> bp_base_cooldown_secs p > max_cooldown_secs
       then Inl BaseOutOfRange
     else if bp_max_cooldown_secs p < bp_base_cooldown_secs p
          \<or> bp_max_cooldown_secs p > max_cooldown_secs then Inl MaxOutOfRange
     else Inr ())"

definition u64_saturated :: nat where
  "u64_saturated = 2 ^ 64 - 1"

definition cooldown_for :: "breaker_policy \<Rightarrow> nat \<Rightarrow> duration" where
  "cooldown_for p fails = (
     if bp_failure_threshold p = 0 \<or> fails < bp_failure_threshold p then 0
     else let over = fails - bp_failure_threshold p;
              factor = 2 ^ min over 16
          in from_secs (min (min u64_saturated (bp_base_cooldown_secs p * factor))
                            (bp_max_cooldown_secs p)))"

subsection \<open>Rows, the repository and its cache\<close>

record health_row =
  hr_consecutive_fails :: nat
  hr_total_requests :: nat
  hr_total_failures :: nat
  hr_last_success_at :: "instant option"
  hr_last_failure_at :: "instant option"
  hr_last_error :: "string option"
  hr_suspended_until :: "instant option"
  hr_avg_latency_ms :: nat

record endpoint_health =
  eh_channel_id :: channel_id
  eh_protocol :: protocol
  eh_consecutive_fails :: nat
  eh_total_requests :: nat
  eh_total_failures :: nat
  eh_last_success_at :: "instant option"
  eh_last_failure_at :: "instant option"
  eh_last_error :: "string option"
  eh_suspended_until :: "instant option"
  eh_avg_latency_ms :: nat

definition is_suspended_at :: "endpoint_health \<Rightarrow> instant \<Rightarrow> bool" where
  "is_suspended_at h now = (case eh_suspended_until h of Some t \<Rightarrow> t > now | None \<Rightarrow> False)"

text \<open>The counters are cast to \<open>u32\<close> and \<open>u64\<close> as the row is read.\<close>

definition row_to_health :: "endpoint_key \<Rightarrow> health_row \<Rightarrow> endpoint_health" where
  "row_to_health k r = \<lparr>eh_channel_id = fst k, eh_protocol = snd k,
     eh_consecutive_fails = hr_consecutive_fails r mod 2 ^ 32,
     eh_total_requests = hr_total_requests r, eh_total_failures = hr_total_failures r,
     eh_last_success_at = hr_last_success_at r, eh_last_failure_at = hr_last_failure_at r,
     eh_last_error = hr_last_error r, eh_suspended_until = hr_suspended_until r,
     eh_avg_latency_ms = hr_avg_latency_ms r\<rparr>"

record health_repo =
  hp_policy :: breaker_policy
  hp_rows :: "endpoint_key \<rightharpoonup> health_row"
  hp_cache :: "endpoint_key \<rightharpoonup> instant"

datatype db_outcome = Db_Ok | Tx_Fails | Read_Fails

datatype store_error = Sql_Error | Row_Not_Found

definition set_policy :: "breaker_policy \<Rightarrow> health_repo \<Rightarrow> health_repo" where
  "set_policy p s = s\<lparr>hp_policy := p\<rparr>"

text \<open>The filter of the code's reads: an instant that is not in the future counts as none.\<close>

definition pending :: "instant \<Rightarrow> instant option \<Rightarrow> instant option" where
  "pending now t = (case t of Some u \<Rightarrow> if u > now then Some u else None | None \<Rightarrow> None)"

definition warm_cache :: "instant \<Rightarrow> health_repo \<Rightarrow> health_repo" where
  "warm_cache now s = s\<lparr>hp_cache := (\<lambda>k. case hp_rows s k of
     Some r \<Rightarrow> pending now (hr_suspended_until r) | None \<Rightarrow> None)\<rparr>"

definition suspended_until :: "endpoint_key \<Rightarrow> instant \<Rightarrow> health_repo \<Rightarrow> instant option \<times> health_repo" where
  "suspended_until k now s = (case hp_cache s k of
     Some t \<Rightarrow> if t > now then (Some t, s) else (None, s\<lparr>hp_cache := (hp_cache s)(k := None)\<rparr>)
   | None \<Rightarrow> (None, s))"

definition cache_suspension ::
  "endpoint_key \<Rightarrow> instant option \<Rightarrow> instant \<Rightarrow> health_repo \<Rightarrow> health_repo"
where
  "cache_suspension k t now s = s\<lparr>hp_cache := (hp_cache s)(k := pending now t)\<rparr>"

text \<open>
  The moving average of SQL: \<open>avg * 0.75 + new * 0.25\<close> in floating point, cast to an integer.
  For latencies below \<open>2^50\<close> milliseconds the floating-point value is exact, so the cast is
  this division.
\<close>

definition ewma :: "nat \<Rightarrow> nat \<Rightarrow> nat" where
  "ewma avg latency = (if avg = 0 then latency else (3 * avg + latency) div 4)"

definition record_success ::
  "endpoint_key \<Rightarrow> nat \<Rightarrow> db_outcome \<Rightarrow> instant \<Rightarrow> health_repo \<Rightarrow> (store_error + bool) \<times> health_repo"
where
  "record_success k latency db now s0 = (
     let (until, s) = suspended_until k now s0
     in if db = Tx_Fails then (Inl Sql_Error, s)
        else
          let row = (case hp_rows s k of
                None \<Rightarrow> \<lparr>hr_consecutive_fails = 0, hr_total_requests = 1, hr_total_failures = 0,
                  hr_last_success_at = Some (sql_now now), hr_last_failure_at = None,
                  hr_last_error = None, hr_suspended_until = None, hr_avg_latency_ms = latency\<rparr>
              | Some r \<Rightarrow> r\<lparr>hr_consecutive_fails := 0, hr_total_requests := hr_total_requests r + 1,
                  hr_last_success_at := Some (sql_now now), hr_suspended_until := None,
                  hr_avg_latency_ms := ewma (hr_avg_latency_ms r) latency\<rparr>)
          in (Inr (until \<noteq> None),
              cache_suspension k None now (s\<lparr>hp_rows := (hp_rows s)(k \<mapsto> row)\<rparr>)))"

definition max_error_len :: nat where "max_error_len = 500"

definition truncate_error :: "string \<Rightarrow> string" where
  "truncate_error e = (let t = trim e in
     if length (chars t) \<le> max_error_len then t else concat (take max_error_len (chars t)))"

definition get_health :: "endpoint_key \<Rightarrow> health_repo \<Rightarrow> endpoint_health option" where
  "get_health k s = map_option (row_to_health k) (hp_rows s k)"

text \<open>\<open>Duration::from_std\<close> refuses more than \<open>i64::MAX\<close> milliseconds.\<close>

definition from_std :: "duration \<Rightarrow> duration option" where
  "from_std d = (if d \<le> (2 ^ 63 - 1) * 10 ^ 6 then Some d else None)"

definition suspension_after ::
  "breaker_policy \<Rightarrow> nat \<Rightarrow> duration option \<Rightarrow> instant \<Rightarrow> instant option"
where
  "suspension_after p fails retry_after now = (
     let d = cooldown_for p (fails mod 2 ^ 32);
         breaker_until = (if d > 0 then Some (now + int d) else None);
         hold_until = map_option (\<lambda>h. now + int h) (Option.bind retry_after from_std)
     in case (breaker_until, hold_until) of
          (Some a, Some b) \<Rightarrow> Some (max a b)
        | (None, b) \<Rightarrow> b
        | (a, None) \<Rightarrow> a)"

text \<open>\<open>now\<close> is read inside the transaction, \<open>later\<close> as the cache is written.\<close>

definition record_failure ::
  "endpoint_key \<Rightarrow> string \<Rightarrow> duration option \<Rightarrow> db_outcome \<Rightarrow> instant \<Rightarrow> instant \<Rightarrow> health_repo
   \<Rightarrow> (store_error + endpoint_health) \<times> health_repo"
where
  "record_failure k err retry_after db now later s = (
     if db = Tx_Fails then (Inl Sql_Error, s)
     else
       let row = (case hp_rows s k of
             None \<Rightarrow> \<lparr>hr_consecutive_fails = 1, hr_total_requests = 1, hr_total_failures = 1,
               hr_last_success_at = None, hr_last_failure_at = Some (sql_now now),
               hr_last_error = Some (truncate_error err), hr_suspended_until = None,
               hr_avg_latency_ms = 0\<rparr>
           | Some r \<Rightarrow> r\<lparr>hr_consecutive_fails := hr_consecutive_fails r + 1,
               hr_total_requests := hr_total_requests r + 1,
               hr_total_failures := hr_total_failures r + 1,
               hr_last_failure_at := Some (sql_now now),
               hr_last_error := Some (truncate_error err)\<rparr>);
           t = suspension_after (hp_policy s) (hr_consecutive_fails row) retry_after now;
           row' = (case t of Some u \<Rightarrow> row\<lparr>hr_suspended_until := Some u\<rparr> | None \<Rightarrow> row);
           s1 = s\<lparr>hp_rows := (hp_rows s)(k \<mapsto> row')\<rparr>;
           s2 = (if t \<noteq> None then cache_suspension k t later s1 else s1)
       in if db = Read_Fails then (Inl Sql_Error, s2)
          else case get_health k s2 of Some h \<Rightarrow> (Inr h, s2) | None \<Rightarrow> (Inl Row_Not_Found, s2))"

definition reset_health ::
  "endpoint_key \<Rightarrow> db_outcome \<Rightarrow> instant \<Rightarrow> health_repo \<Rightarrow> (store_error + unit) \<times> health_repo"
where
  "reset_health k db now s = (
     if db = Tx_Fails then (Inl Sql_Error, s)
     else (Inr (), cache_suspension k None now
       (s\<lparr>hp_rows := (hp_rows s)(k := map_option
          (\<lambda>r. r\<lparr>hr_consecutive_fails := 0, hr_suspended_until := None\<rparr>) (hp_rows s k))\<rparr>)))"

definition clear_counters :: "db_outcome \<Rightarrow> health_repo \<Rightarrow> (store_error + unit) \<times> health_repo" where
  "clear_counters db s = (
     if db = Tx_Fails then (Inl Sql_Error, s)
     else (Inr (), s\<lparr>hp_rows := (\<lambda>k. map_option
       (\<lambda>r. r\<lparr>hr_total_requests := 0, hr_total_failures := 0, hr_avg_latency_ms := 0\<rparr>)
       (hp_rows s k))\<rparr>))"

subsection \<open>Cooldowns\<close>

lemma validate_breaker_Inr:
  "validate_breaker p = Inr () \<longleftrightarrow>
     bp_failure_threshold p \<le> max_failure_threshold \<and> 0 < bp_base_cooldown_secs p
   \<and> bp_base_cooldown_secs p \<le> bp_max_cooldown_secs p \<and> bp_max_cooldown_secs p \<le> max_cooldown_secs"
  by (auto simp: validate_breaker_def)

lemma from_secs_pos [simp]: "0 < from_secs n \<longleftrightarrow> 0 < n"
  by (simp add: from_secs_def)

lemma cooldown_open:
  assumes "0 < bp_failure_threshold p" and "bp_failure_threshold p \<le> n"
    and "bp_max_cooldown_secs p \<le> max_cooldown_secs"
  shows "cooldown_for p n = from_secs (min (bp_base_cooldown_secs p * 2 ^ min (n - bp_failure_threshold p) 16)
     (bp_max_cooldown_secs p))"
  using assms by (simp add: cooldown_for_def Let_def u64_saturated_def max_cooldown_secs_def min_def)

text \<open>The cooldown of an accepted policy: none below the threshold or with the breaker
  off, then between the base and the maximum, never shorter for more failures, and doubled
  by each failure beyond the threshold until the maximum (after at most sixteen doublings).\<close>

theorem cooldown_bounds:
  assumes "validate_breaker p = Inr ()"
  shows "(cooldown_for p n = 0 \<longleftrightarrow> bp_failure_threshold p = 0 \<or> n < bp_failure_threshold p)
     \<and> cooldown_for p n \<le> from_secs (bp_max_cooldown_secs p)
     \<and> (if bp_failure_threshold p = 0 \<or> n < bp_failure_threshold p then True
        else from_secs (bp_base_cooldown_secs p) \<le> cooldown_for p n)
     \<and> (m \<le> n \<longrightarrow> cooldown_for p m \<le> cooldown_for p n)"
proof -
  let ?th = "bp_failure_threshold p" and ?b = "bp_base_cooldown_secs p" and ?x = "bp_max_cooldown_secs p"
  have p: "0 < ?b" "?b \<le> ?x" "?x \<le> max_cooldown_secs"
    using assms by (simp_all add: validate_breaker_Inr)
  have off: "cooldown_for p k = 0" if "?th = 0 \<or> k < ?th" for k
    using that by (simp add: cooldown_for_def)
  have on: "cooldown_for p k = from_secs (min (?b * 2 ^ min (k - ?th) 16) ?x)"
    if "\<not> (?th = 0 \<or> k < ?th)" for k
    using that p cooldown_open[of p k] by simp
  have base: "?b \<le> ?b * 2 ^ j" for j by simp
  have low: "from_secs ?b \<le> cooldown_for p k" if "\<not> (?th = 0 \<or> k < ?th)" for k
    using on[OF that] p base by simp
  have zero: "cooldown_for p n = 0 \<longleftrightarrow> ?th = 0 \<or> n < ?th"
    using off[of n] low[of n] p(1) from_secs_pos[of ?b] by fastforce
  have mono: "cooldown_for p m \<le> cooldown_for p n" if "m \<le> n"
  proof (cases "?th = 0 \<or> m < ?th")
    case False
    with that have n: "\<not> (?th = 0 \<or> n < ?th)" by linarith
    have "?b * 2 ^ min (m - ?th) 16 \<le> ?b * 2 ^ min (n - ?th) 16"
      using that by (intro mult_le_mono2 power_increasing) auto
    then show ?thesis unfolding on[OF False] on[OF n] from_secs_le by (rule min.mono) simp
  qed (simp add: off)
  have "cooldown_for p n \<le> from_secs ?x" using off[of n] on[of n] by (cases "?th = 0 \<or> n < ?th") auto
  with zero low mono show ?thesis by auto
qed

subsection \<open>The cache agrees with the table\<close>

definition table_suspension :: "health_repo \<Rightarrow> endpoint_key \<Rightarrow> instant option" where
  "table_suspension s k = Option.bind (hp_rows s k) hr_suspended_until"

definition coherent :: "instant \<Rightarrow> health_repo \<Rightarrow> bool" where
  "coherent now s \<longleftrightarrow> (\<forall>k. pending now (hp_cache s k) = pending now (table_suspension s k))"

lemma pending_later:
  "pending t a = pending t b \<Longrightarrow> t \<le> t' \<Longrightarrow> pending t' a = pending t' b"
  by (auto simp: pending_def split: option.splits if_splits)

lemma pending_pending: "t \<le> t' \<Longrightarrow> pending t' (pending t a) = pending t' a"
  by (auto simp: pending_def split: option.splits)

lemma pending_None [simp]: "pending t None = None"
  by (simp add: pending_def)

lemma coherent_later: "coherent t s \<Longrightarrow> t \<le> t' \<Longrightarrow> coherent t' s"
  unfolding coherent_def using pending_later by blast

lemma suspended_until_fst: "fst (suspended_until k now s) = pending now (hp_cache s k)"
  by (simp add: suspended_until_def pending_def split: option.split)

lemma suspended_until_state:
  "hp_rows (snd (suspended_until k now s)) = hp_rows s"
  "hp_policy (snd (suspended_until k now s)) = hp_policy s"
  "pending now (hp_cache (snd (suspended_until k now s)) k') = pending now (hp_cache s k')"
  by (auto simp: suspended_until_def pending_def split: option.split)

lemma suspended_until_coherent: "coherent now s \<Longrightarrow> coherent now (snd (suspended_until k now s))"
  by (simp add: coherent_def table_suspension_def suspended_until_state)

lemma warm_cache_coherent: "coherent now (warm_cache now s)"
  by (auto simp: coherent_def warm_cache_def table_suspension_def pending_pending split: option.split)

lemma cache_suspension_coherent:
  assumes "coherent now s" and "now \<le> later" and "hr_suspended_until r = t"
  shows "coherent later (cache_suspension k t later (s\<lparr>hp_rows := (hp_rows s)(k \<mapsto> r)\<rparr>))"
  using assms coherent_later[OF assms(1,2)]
  by (simp add: coherent_def cache_suspension_def table_suspension_def pending_pending)

lemma record_success_coherent:
  assumes "coherent now s"
  shows "coherent now (snd (record_success k latency db now s))"
  using cache_suspension_coherent[OF suspended_until_coherent[OF assms] order_refl]
    suspended_until_coherent[OF assms]
  by (simp add: record_success_def Let_def case_prod_beta split: option.split)

lemma record_failure_coherent:
  assumes "coherent now s" and "now \<le> later"
  shows "coherent later (snd (record_failure k err ra db now later s))"
proof (cases "db = Tx_Fails")
  case True
  then show ?thesis using coherent_later[OF assms] by (simp add: record_failure_def)
next
  case False
  have keep: "coherent later (s\<lparr>hp_rows := (hp_rows s)(k \<mapsto> r)\<rparr>)"
    if "hr_suspended_until r = table_suspension s k" for r
    using that coherent_later[OF assms] by (simp add: coherent_def table_suspension_def)
  show ?thesis using False keep cache_suspension_coherent[OF assms]
    by (auto simp: record_failure_def Let_def table_suspension_def
        split: option.split db_outcome.split)
qed

lemma reset_health_coherent:
  assumes "coherent now s"
  shows "coherent now (snd (reset_health k db now s))"
  using assms by (cases "hp_rows s k")
    (auto simp: reset_health_def coherent_def cache_suspension_def table_suspension_def)

lemma clear_counters_coherent:
  assumes "coherent now s"
  shows "coherent now (snd (clear_counters db s))"
proof -
  have "table_suspension (snd (clear_counters db s)) k = table_suspension s k" for k
    by (simp add: clear_counters_def table_suspension_def Option.bind_map_option comp_def)
  then show ?thesis using assms by (simp add: coherent_def clear_counters_def)
qed

datatype health_op =
    Succeed endpoint_key nat db_outcome
  | Fail endpoint_key string "duration option" db_outcome
  | Reset endpoint_key db_outcome
  | Clear_Counters db_outcome
  | Set_Policy breaker_policy
  | Ask endpoint_key

text \<open>An operation with the times it reads the clock at.\<close>

fun health_step :: "health_op \<times> instant \<times> instant \<Rightarrow> health_repo \<Rightarrow> health_repo" where
  "health_step (Succeed k latency db, now, later) s = snd (record_success k latency db now s)"
| "health_step (Fail k err ra db, now, later) s = snd (record_failure k err ra db now later s)"
| "health_step (Reset k db, now, later) s = snd (reset_health k db now s)"
| "health_step (Clear_Counters db, now, later) s = snd (clear_counters db s)"
| "health_step (Set_Policy p, now, later) s = set_policy p s"
| "health_step (Ask k, now, later) s = snd (suspended_until k now s)"

fun timeline :: "instant \<Rightarrow> (health_op \<times> instant \<times> instant) list \<Rightarrow> instant \<Rightarrow> bool" where
  "timeline t [] t' = (t \<le> t')"
| "timeline t ((op, now, later) # ops) t' = (t \<le> now \<and> now \<le> later \<and> timeline later ops t')"

lemma health_step_coherent:
  assumes "coherent t s" and "t \<le> now" and "now \<le> later"
  shows "coherent later (health_step (op, now, later) s)"
proof -
  have c: "coherent now s" by (rule coherent_later[OF assms(1,2)])
  have p: "coherent now (set_policy p s)" for p
    using c by (simp add: set_policy_def coherent_def table_suspension_def)
  show ?thesis
    by (cases op)
       (simp_all add: coherent_later[OF record_success_coherent[OF c] assms(3)]
          record_failure_coherent[OF c assms(3)] coherent_later[OF reset_health_coherent[OF c] assms(3)]
          coherent_later[OF clear_counters_coherent[OF c] assms(3)] coherent_later[OF p assms(3)]
          coherent_later[OF suspended_until_coherent[OF c] assms(3)])
qed

lemma health_run_coherent:
  "coherent t s \<Longrightarrow> timeline t ops t' \<Longrightarrow> coherent t' (fold health_step ops s)"
proof (induction ops arbitrary: t s)
  case (Cons o' ops)
  then show ?case by (cases o') (auto intro: Cons.IH[OF health_step_coherent])
qed (auto intro: coherent_later)

text \<open>\<open>C34\<close>. Once the cache is warmed, what the request path reads from memory is what the
  database holds: after any sequence of successes, failures, resets and policy changes, with
  any of them failing in the database, the cache answers for every endpoint with the
  persisted suspension if it lies in the future, and with none otherwise.\<close>

theorem cache_matches_table:
  assumes "timeline t ops t'"
  shows "fst (suspended_until k t' (fold health_step ops (warm_cache t s))) =
     pending t' (table_suspension (fold health_step ops (warm_cache t s)) k)"
  using health_run_coherent[OF warm_cache_coherent assms]
  unfolding suspended_until_fst coherent_def by blast

subsection \<open>Opening and closing the breaker\<close>

text \<open>Failures of one endpoint one after the other, each with its time.\<close>

fun failure_run ::
  "endpoint_key \<Rightarrow> (string \<times> duration option \<times> instant) list \<Rightarrow> health_repo \<Rightarrow> health_repo"
where
  "failure_run k [] s = s"
| "failure_run k ((err, ra, now) # es) s =
     failure_run k es (snd (record_failure k err ra Db_Ok now now s))"

definition fails_of :: "health_repo \<Rightarrow> endpoint_key \<Rightarrow> nat" where
  "fails_of s k = (case hp_rows s k of Some r \<Rightarrow> hr_consecutive_fails r | None \<Rightarrow> 0)"

lemma record_failure_row:
  "fails_of (snd (record_failure k err ra Db_Ok now later s)) k = Suc (fails_of s k)"
  "hp_policy (snd (record_failure k err ra Db_Ok now later s)) = hp_policy s"
  by (auto simp: record_failure_def fails_of_def Let_def get_health_def cache_suspension_def
      split: option.split)

lemma record_failure_cache:
  "hp_cache (snd (record_failure k err ra Db_Ok now later s)) k =
     (case suspension_after (hp_policy s) (Suc (fails_of s k)) ra now of
        Some u \<Rightarrow> pending later (Some u) | None \<Rightarrow> hp_cache s k)"
  by (auto simp: record_failure_def fails_of_def Let_def get_health_def cache_suspension_def
      split: option.split)

lemma failure_run_props:
  "fails_of (failure_run k es s) k = fails_of s k + length es"
  "hp_policy (failure_run k es s) = hp_policy s"
  by (induction k es s rule: failure_run.induct) (simp_all add: record_failure_row)

lemma failure_run_append:
  "failure_run k (es @ es') s = failure_run k es' (failure_run k es s)"
  by (induction k es s rule: failure_run.induct) simp_all

lemma suspension_after_ge:
  "0 < cooldown_for p (n mod 2 ^ 32) \<Longrightarrow>
   \<exists>u. suspension_after p n ra now = Some u \<and> now + int (cooldown_for p (n mod 2 ^ 32)) \<le> u"
  by (cases "Option.bind ra from_std") (auto simp: suspension_after_def Let_def)

text \<open>\<open>C35\<close>. The breaker opens: with an enabled, accepted policy, once an endpoint has failed at
  least as often in a row as the threshold, it is suspended right after the last failure
  and stays so at least for the cooldown of that number of failures; one success closes it
  at once and sets the count back to zero.\<close>

theorem breaker_opens_and_closes:
  assumes "validate_breaker (hp_policy s) = Inr ()" and "0 < bp_failure_threshold (hp_policy s)"
    and "bp_failure_threshold (hp_policy s) \<le> fails_of s k + length (es @ [(err, ra, now)])"
    and "fails_of s k + length (es @ [(err, ra, now)]) < 2 ^ 32"
    and "t < now + int (cooldown_for (hp_policy s) (fails_of s k + length (es @ [(err, ra, now)])))"
    and "s' = failure_run k (es @ [(err, ra, now)]) s"
  shows "fst (suspended_until k t s') \<noteq> None
     \<and> fst (suspended_until k t (snd (record_success k latency Db_Ok t s'))) = None
     \<and> fails_of (snd (record_success k latency Db_Ok t s')) k = 0"
proof -
  let ?s1 = "failure_run k es s" and ?n = "fails_of s k + length (es @ [(err, ra, now)])"
  have n: "Suc (fails_of ?s1 k) = ?n" "?n mod 2 ^ 32 = ?n"
    using assms(4) by (simp_all add: failure_run_props)
  have "0 < cooldown_for (hp_policy s) ?n"
    using cooldown_bounds[OF assms(1), of ?n 0] assms(2,3) by fastforce
  then obtain u where u: "suspension_after (hp_policy s) ?n ra now = Some u"
      "now + int (cooldown_for (hp_policy s) ?n) \<le> u"
    using suspension_after_ge[of "hp_policy s" ?n ra now] n(2) by auto
  have "0 < int (cooldown_for (hp_policy s) ?n)" using \<open>0 < cooldown_for (hp_policy s) ?n\<close> by simp
  then have "now < u" and "t < u" using u(2) assms(5) by linarith+
  moreover have "hp_cache s' k = pending now (Some u)"
    unfolding assms(6) failure_run_append
    using record_failure_cache[of k err ra now now ?s1] u(1) n(1) by (simp add: failure_run_props)
  ultimately have "fst (suspended_until k t s') \<noteq> None"
    by (simp add: suspended_until_fst pending_def)
  then show ?thesis
    by (auto simp: record_success_def Let_def case_prod_beta suspended_until_fst cache_suspension_def
        fails_of_def suspended_until_state split: option.split)
qed

text \<open>Below the threshold the breaker stays closed: failures without a wait announced by
  the upstream suspend no endpoint.\<close>

theorem breaker_stays_closed:
  assumes "\<forall>(err, ra, now) \<in> set es. ra = None" and "hp_cache s k = None"
    and "fails_of s k + length es < bp_failure_threshold (hp_policy s)"
    and "bp_failure_threshold (hp_policy s) < 2 ^ 32"
  shows "fst (suspended_until k t (failure_run k es s)) = None"
proof -
  have "hp_cache (failure_run k es s) k = None"
    using assms
  proof (induction k es s rule: failure_run.induct)
    case (2 k err ra now es s)
    have "suspension_after (hp_policy s) (Suc (fails_of s k)) ra now = None"
      using 2(2,4,5) by (simp add: suspension_after_def cooldown_for_def)
    then have "hp_cache (snd (record_failure k err ra Db_Ok now now s)) k = None"
      using record_failure_cache[of k err ra now now s] 2(3) by simp
    then show ?case using 2 by (simp add: record_failure_row)
  qed simp
  then show ?thesis by (simp add: suspended_until_fst)
qed

text \<open>An announced wait is honoured: after a failure that carries one, the endpoint is
  suspended for at least that long, whatever the breaker's threshold.\<close>

theorem retry_after_is_honoured:
  assumes "d \<le> from_secs 3600" and "now \<le> t" and "t < now + int d"
  shows "fst (suspended_until k t (snd (record_failure k err (Some d) Db_Ok now now s))) \<noteq> None"
proof -
  have "from_std d = Some d" using assms(1) by (simp add: from_std_def from_secs_def)
  then have "\<exists>u. suspension_after (hp_policy s) (Suc (fails_of s k)) (Some d) now = Some u \<and> now + int d \<le> u"
    by (auto simp: suspension_after_def Let_def)
  then obtain u where u: "suspension_after (hp_policy s) (Suc (fails_of s k)) (Some d) now = Some u"
      "now + int d \<le> u" by blast
  with assms have "t < u" "now < u" by linarith+
  then show ?thesis
    using record_failure_cache[of k err "Some d" now now s] u
    by (simp add: suspended_until_fst pending_def)
qed

subsection \<open>Two divergences\<close>

definition empty_repo :: health_repo where
  "empty_repo = \<lparr>hp_policy = default_breaker, hp_rows = Map.empty, hp_cache = Map.empty\<rparr>"

text \<open>
  The snapshot a failure returns keeps a suspension that has already run out, because only a
  new suspension overwrites the column. The executor reports it as the endpoint being
  suspended after the failure; it is not, neither by the snapshot's own test nor in the cache.
\<close>

theorem stale_suspension_reported:
  "case record_failure (1, Chat) ''boom'' None Db_Ok (int (from_secs 100)) (int (from_secs 100))
       (snd (record_failure (1, Chat) ''busy'' (Some (from_secs 5)) Db_Ok 0 0 empty_repo)) of
     (Inr h, s) \<Rightarrow> eh_suspended_until h = Some (int (from_secs 5))
        \<and> \<not> is_suspended_at h (int (from_secs 100))
        \<and> fst (suspended_until (1, Chat) (int (from_secs 100)) s) = None
   | (Inl _, _) \<Rightarrow> False"
  by (simp add: record_failure_def empty_repo_def Let_def suspension_after_def cooldown_for_def
      default_breaker_def from_std_def from_secs_def get_health_def row_to_health_def
      cache_suspension_def pending_def is_suspended_at_def suspended_until_def)

text \<open>
  A second failure with a shorter announced wait replaces a longer one that still runs: the
  endpoint is offered again after one second although the upstream asked for an hour.
\<close>

theorem shorter_wait_replaces_longer:
  "fst (suspended_until (1, Chat) (int (from_secs 2))
     (failure_run (1, Chat) [(''busy'', Some (from_secs 3600), 0), (''busy'', Some (from_secs 1), 0)] empty_repo)) = None"
  by (simp add: record_failure_def empty_repo_def Let_def suspension_after_def cooldown_for_def
      default_breaker_def from_std_def from_secs_def get_health_def row_to_health_def
      cache_suspension_def pending_def suspended_until_def)

subsection \<open>Witnesses\<close>

lemma default_breaker_valid: "validate_breaker default_breaker = Inr ()"
  by (simp add: validate_breaker_Inr default_breaker_def max_failure_threshold_def max_cooldown_secs_def)

theorem cooldown_bounds_witness: "cooldown_for default_breaker 7 \<le> from_secs 900"
  using cooldown_bounds[OF default_breaker_valid, of 7 5] by (simp add: default_breaker_def)

theorem cache_matches_table_witness:
  "fst (suspended_until (1, Chat) 1
     (fold health_step [(Fail (1, Chat) ''busy'' (Some (from_secs 5)) Db_Ok, 0, 0)] (warm_cache 0 empty_repo)))
   = Some (int (from_secs 5))"
proof -
  have "timeline 0 [(Fail (1, Chat) ''busy'' (Some (from_secs 5)) Db_Ok, 0, 0)] 1" by simp
  from cache_matches_table[OF this, of "(1, Chat)" empty_repo] show ?thesis
    by (simp add: record_failure_def empty_repo_def Let_def suspension_after_def cooldown_for_def
        default_breaker_def from_std_def from_secs_def get_health_def row_to_health_def warm_cache_def
        cache_suspension_def pending_def table_suspension_def)
qed

theorem breaker_opens_and_closes_witness:
  "fst (suspended_until (1, Chat) 10 (failure_run (1, Chat)
     ([(''e'', None, 1), (''e'', None, 2), (''e'', None, 3), (''e'', None, 4)] @ [(''e'', None, 5)]) empty_repo)) \<noteq> None"
proof -
  have e: "hp_policy empty_repo = default_breaker" "fails_of empty_repo (1, Chat) = 0"
    by (simp_all add: empty_repo_def fails_of_def)
  have c: "cooldown_for default_breaker (Suc (Suc (Suc (Suc (Suc 0))))) = 30000000000"
    by (simp add: cooldown_for_def default_breaker_def Let_def u64_saturated_def from_secs_def)
  have th: "bp_failure_threshold default_breaker = 5" by (simp add: default_breaker_def)
  show ?thesis
    using breaker_opens_and_closes[of empty_repo "(1, Chat)"
        "[(''e'', None, 1), (''e'', None, 2), (''e'', None, 3), (''e'', None, 4)]" "''e''" None 5 10 _ 0, OF _ _ _ _ _ refl]
      default_breaker_valid
    by (simp add: e c th del: failure_run.simps append.simps)
qed

theorem breaker_stays_closed_witness:
  "fst (suspended_until (1, Chat) 2 (failure_run (1, Chat) [(''e'', None, 1)] empty_repo)) = None"
  using breaker_stays_closed[of "[(''e'', None, 1)]" empty_repo "(1, Chat)" 2]
  by (simp add: empty_repo_def fails_of_def default_breaker_def del: failure_run.simps)

theorem retry_after_is_honoured_witness:
  "fst (suspended_until (1, Chat) 7 (snd (record_failure (1, Chat) ''e'' (Some (from_secs 5)) Db_Ok 0 0 empty_repo))) \<noteq> None"
  using retry_after_is_honoured[of "from_secs 5" 0 7 "(1, Chat)" "''e''" empty_repo]
  by (simp add: from_secs_def)

end
