(* ===== verification/Affinity_Config.thy ===== *)
theory Affinity_Config
  imports Rust_Str
begin

section \<open>Affinity configuration\<close>

text \<open>
  \<open>crates/refract-core/src/affinity.rs\<close>: the settings of the channel affinity and their
  validation, with the parenthesis count that stands in for a regular-expression parser
  when the settings are saved. Error reasons carry the values the messages are built from.
\<close>

definition default_affinity_ttl_secs :: nat where "default_affinity_ttl_secs = 1800"
definition default_affinity_max_entries :: nat where "default_affinity_max_entries = 100000"
definition max_affinity_ttl_secs :: nat where "max_affinity_ttl_secs = 7 * 24 * 3600"
definition max_value_regex_len :: nat where "max_value_regex_len = 512"

datatype affinity_key_source = ApiKeyId | HeaderSource string | BodySource string

record affinity_rule =
  ar_name :: string
  ar_model_regex :: string
  ar_path_regex :: string
  ar_sources :: "affinity_key_source list"
  ar_value_regex :: string
  ar_ttl_secs :: "nat option"
  ar_include_model :: bool
  ar_skip_retry_on_failure :: bool

record affinity_settings =
  as_enabled :: bool
  as_switch_on_success :: bool
  as_keep_on_channel_disabled :: bool
  as_max_entries :: nat
  as_default_ttl_secs :: nat
  as_rules :: "affinity_rule list"

definition default_affinity_settings :: affinity_settings where
  "default_affinity_settings = \<lparr>as_enabled = False, as_switch_on_success = True,
     as_keep_on_channel_disabled = False, as_max_entries = default_affinity_max_entries,
     as_default_ttl_secs = default_affinity_ttl_secs, as_rules = []\<rparr>"

datatype regex_reason = UnmatchedAt nat | UnclosedDepth int

datatype affinity_error =
    EmptyRuleName
  | DuplicateRuleName string
  | NoSources string
  | InvalidRegex string string regex_reason
  | ValueRegexTooLong string
  | InvalidHeaderName string
  | InvalidBodyPath string string
  | TtlOutOfRange string
  | DefaultTtlOutOfRange
  | MaxEntriesZero

text \<open>The loop over the bytes: current index and depth. A pattern is far shorter than
  \<open>i32::MAX\<close>, so the depth is an \<open>int\<close>.\<close>

fun regex_lite_loop :: "string \<Rightarrow> nat \<Rightarrow> int \<Rightarrow> regex_reason + unit" where
  "regex_lite_loop [] i depth = (if depth \<noteq> 0 then Inl (UnclosedDepth depth) else Inr ())"
| "regex_lite_loop (b # bs) i depth =
     (if b = CHR ''('' then regex_lite_loop bs (Suc i) (depth + 1)
      else if b = CHR '')'' then
        (if depth - 1 < 0 then Inl (UnmatchedAt i) else regex_lite_loop bs (Suc i) (depth - 1))
      else regex_lite_loop bs (Suc i) depth)"

definition regex_syntax_lite :: "string \<Rightarrow> regex_reason + unit" where
  "regex_syntax_lite pattern = regex_lite_loop pattern 0 0"

definition check_regex :: "string \<Rightarrow> string \<Rightarrow> string \<Rightarrow> affinity_error + unit" where
  "check_regex rule val field = (
     if val = [] then Inr ()
     else case regex_syntax_lite val of
       Inl reason \<Rightarrow> Inl (InvalidRegex rule (field @ '': '' @ val) reason)
     | Inr _ \<Rightarrow> Inr ())"

definition validate_source :: "string \<Rightarrow> affinity_key_source \<Rightarrow> affinity_error + unit" where
  "validate_source name src = (case src of
     ApiKeyId \<Rightarrow> Inr ()
   | HeaderSource header \<Rightarrow>
       ensure (trim header \<noteq> [] \<and>
           list_all (\<lambda>b. is_ascii_graphic b \<and> b \<noteq> CHR '':'') (trim header))
         (InvalidHeaderName name)
   | BodySource path \<Rightarrow>
       ensure (path = [] \<or> prefix ''/'' path) (InvalidBodyPath name path))"

text \<open>A rule's validation threads the set of names seen so far.\<close>

definition validate_rule ::
  "affinity_rule \<Rightarrow> string list \<Rightarrow> affinity_error + string list"
where
  "validate_rule r seen = (
     let name = trim (ar_name r) in
     if name = [] then Inl EmptyRuleName
     else if name \<in> set seen then Inl (DuplicateRuleName name)
     else if ar_sources r = [] then Inl (NoSources name)
     else rbind (check_regex name (ar_model_regex r) ''model_regex'') (\<lambda>_.
          rbind (check_regex name (ar_path_regex r) ''path_regex'') (\<lambda>_.
            if max_value_regex_len < length (chars (ar_value_regex r)) then Inl (ValueRegexTooLong name)
            else rbind (check_regex name (ar_value_regex r) ''value_regex'') (\<lambda>_.
                 rbind (each_ok (validate_source name) (ar_sources r)) (\<lambda>_.
                   case ar_ttl_secs r of
                     Some ttl \<Rightarrow> if 1 \<le> ttl \<and> ttl \<le> max_affinity_ttl_secs then Inr (name # seen)
                                 else Inl (TtlOutOfRange name)
                   | None \<Rightarrow> Inr (name # seen))))))"

fun validate_rules :: "affinity_rule list \<Rightarrow> string list \<Rightarrow> affinity_error + unit" where
  "validate_rules [] seen = Inr ()"
| "validate_rules (r # rs) seen = rbind (validate_rule r seen) (validate_rules rs)"

definition validate_affinity :: "affinity_settings \<Rightarrow> affinity_error + unit" where
  "validate_affinity s = (
     if as_max_entries s = 0 then Inl MaxEntriesZero
     else if \<not> (1 \<le> as_default_ttl_secs s \<and> as_default_ttl_secs s \<le> max_affinity_ttl_secs)
       then Inl DefaultTtlOutOfRange
     else validate_rules (as_rules s) [])"

definition effective_ttl_secs :: "affinity_rule \<Rightarrow> nat \<Rightarrow> nat" where
  "effective_ttl_secs r d = max (case ar_ttl_secs r of Some t \<Rightarrow> t | None \<Rightarrow> d) 1"

subsection \<open>What the parenthesis check decides\<close>

definition depth_of :: "string \<Rightarrow> int" where
  "depth_of s = int (count_list s (CHR ''('')) - int (count_list s (CHR '')''))"

text \<open>Balanced: no prefix closes more than it opens and the whole closes all it opens.\<close>

definition balanced :: "string \<Rightarrow> bool" where
  "balanced s \<longleftrightarrow> depth_of s = 0 \<and> (\<forall>p. prefix p s \<longrightarrow> 0 \<le> depth_of p)"

lemma depth_of_Nil [simp]: "depth_of [] = 0"
  by (simp add: depth_of_def)

lemma depth_of_Cons:
  "depth_of (b # s) = (if b = CHR ''('' then 1 else if b = CHR '')'' then -1 else 0) + depth_of s"
  by (simp add: depth_of_def)

lemma all_prefix_Cons:
  "(\<forall>p. prefix p (b # s) \<longrightarrow> P p) \<longleftrightarrow> P [] \<and> (\<forall>p. prefix p s \<longrightarrow> P (b # p))"
  by (auto simp: prefix_Cons)

lemma regex_lite_loop_Inr:
  assumes "0 \<le> d"
  shows "regex_lite_loop s i d = Inr () \<longleftrightarrow>
    d + depth_of s = 0 \<and> (\<forall>p. prefix p s \<longrightarrow> 0 \<le> d + depth_of p)"
  using assms
proof (induction s arbitrary: i d)
  case (Cons b s)
  consider "b = CHR ''(''" | "b = CHR '')''" | "b \<noteq> CHR ''(''" "b \<noteq> CHR '')''" by blast
  then show ?case
  proof cases
    case 1
    with Cons show ?thesis by (simp add: all_prefix_Cons depth_of_Cons algebra_simps)
  next
    case 2
    show ?thesis
    proof (cases "d = 0")
      case True
      then have "\<not> (\<forall>p. prefix p (b # s) \<longrightarrow> 0 \<le> d + depth_of p)"
        using 2 by (auto simp: all_prefix_Cons depth_of_Cons intro!: exI[of _ "[]"])
      with 2 True show ?thesis by simp
    next
      case False
      with 2 Cons show ?thesis by (simp add: all_prefix_Cons depth_of_Cons algebra_simps)
    qed
  next
    case 3
    with Cons show ?thesis by (simp add: all_prefix_Cons depth_of_Cons)
  qed
qed auto

text \<open>The check run when affinity rules are saved accepts exactly the patterns whose
  parentheses are balanced as raw bytes: it never looks at escapes or character classes.\<close>

theorem regex_syntax_lite_iff: "regex_syntax_lite s = Inr () \<longleftrightarrow> balanced s"
  by (simp add: regex_syntax_lite_def regex_lite_loop_Inr balanced_def)

text \<open>A rule whose pattern matches a literal opening parenthesis.\<close>

definition paren_rule :: affinity_rule where
  "paren_rule = \<lparr>ar_name = ''r'', ar_model_regex = [CHR 0x5C] @ ''('', ar_path_regex = [],
     ar_sources = [ApiKeyId], ar_value_regex = [], ar_ttl_secs = None, ar_include_model = True,
     ar_skip_retry_on_failure = False\<rparr>"

lemma trim_r: "trim ''r'' = ''r''"
  by code_simp

lemmas affinity_config_eval =
  validate_affinity_def default_affinity_settings_def default_affinity_max_entries_def
  default_affinity_ttl_secs_def max_affinity_ttl_secs_def max_value_regex_len_def
  validate_rule_def check_regex_def regex_syntax_lite_def validate_source_def paren_rule_def
  trim_r Let_def

text \<open>So a pattern that matches a literal parenthesis, such as an escaped one, cannot
  be saved: an affinity configuration whose only rule uses it is rejected.\<close>

theorem escaped_paren_rejected:
  "validate_affinity (default_affinity_settings\<lparr>as_rules := [paren_rule]\<rparr>) =
   Inl (InvalidRegex ''r'' (''model_regex: '' @ [CHR 0x5C] @ ''('') (UnclosedDepth 1))"
  by (simp add: affinity_config_eval)

subsection \<open>What valid settings guarantee\<close>

lemma validate_rule_Inr:
  assumes "validate_rule r seen = Inr seen'"
  shows "seen' = trim (ar_name r) # seen \<and> trim (ar_name r) \<notin> set seen \<and> trim (ar_name r) \<noteq> []
       \<and> ar_sources r \<noteq> [] \<and> (\<forall>t. ar_ttl_secs r = Some t \<longrightarrow> 1 \<le> t \<and> t \<le> max_affinity_ttl_secs)"
  using assms
  by (auto simp: validate_rule_def Let_def rbind_Inr split: if_splits option.splits)

lemma validate_rules_Inr:
  assumes "validate_rules rs seen = Inr u"
  shows "distinct (map (trim \<circ> ar_name) rs) \<and> (\<forall>r \<in> set rs. trim (ar_name r) \<notin> set seen
      \<and> trim (ar_name r) \<noteq> [] \<and> ar_sources r \<noteq> []
      \<and> (\<forall>t. ar_ttl_secs r = Some t \<longrightarrow> 1 \<le> t \<and> t \<le> max_affinity_ttl_secs))"
  using assms
proof (induction rs arbitrary: seen)
  case (Cons r rs)
  then obtain seen' where r: "validate_rule r seen = Inr seen'"
    and rs: "validate_rules rs seen' = Inr u"
    by (auto simp: rbind_Inr)
  note R = validate_rule_Inr[OF r]
  from Cons.IH[OF rs] R show ?case by fastforce
qed simp

text \<open>Settings that pass the validation have rules with distinct, non-empty names, so
  a cache key names one rule; every binding's lifetime is between one second and a week;
  and the cache has room for at least one entry.\<close>

theorem validated_affinity_settings:
  assumes "validate_affinity s = Inr ()"
  shows "distinct (map (trim \<circ> ar_name) (as_rules s))
       \<and> 1 \<le> as_max_entries s
       \<and> (\<forall>r \<in> set (as_rules s). trim (ar_name r) \<noteq> [] \<and> ar_sources r \<noteq> []
            \<and> 1 \<le> effective_ttl_secs r (as_default_ttl_secs s)
            \<and> effective_ttl_secs r (as_default_ttl_secs s) \<le> max_affinity_ttl_secs)"
proof -
  from assms have me: "1 \<le> as_max_entries s"
    and ttl: "1 \<le> as_default_ttl_secs s \<and> as_default_ttl_secs s \<le> max_affinity_ttl_secs"
    and rs: "validate_rules (as_rules s) [] = Inr ()"
    by (auto simp: validate_affinity_def split: if_splits)
  from validate_rules_Inr[OF rs] me ttl show ?thesis
    by (auto simp: effective_ttl_secs_def split: option.splits)
qed

theorem validated_affinity_settings_witness:
  "1 \<le> effective_ttl_secs (paren_rule\<lparr>ar_model_regex := ''claude''\<rparr>) default_affinity_ttl_secs"
proof -
  let ?s = "default_affinity_settings\<lparr>as_rules := [paren_rule\<lparr>ar_model_regex := ''claude''\<rparr>]\<rparr>"
  have "validate_affinity ?s = Inr ()" by (simp add: affinity_config_eval)
  from validated_affinity_settings[OF this] show ?thesis
    by (simp add: default_affinity_settings_def)
qed

end
