(* ===== verification/Affinity_Engine.thy ===== *)
theory Affinity_Engine
  imports Affinity_Config Channel
begin

section \<open>The affinity engine\<close>

text \<open>
  \<open>crates/refract-router/src/affinity.rs\<close>: bindings of a client identity to a channel, with a
  time to live and a capacity. The regular expressions, the JSON pointer lookup and the
  printing of JSON numbers are library code and come in as a record of functions. Time is a
  number of nanoseconds, one reading for each operation; the table is an association list in the order an iteration would
  visit it, which decides between entries last used at the same time.
\<close>

record 're affinity_lib =
  fl_compile :: "string \<Rightarrow> 're option"
  fl_is_match :: "'re \<Rightarrow> string \<Rightarrow> bool"
  fl_pointer :: "json \<Rightarrow> string \<Rightarrow> json option"
  fl_number :: "jnum \<Rightarrow> string"

record 're compiled_rule =
  cr_name :: string
  cr_model_re :: "'re option"
  cr_path_re :: "'re option"
  cr_sources :: "affinity_key_source list"
  cr_value_re :: "'re option"
  cr_ttl_secs :: nat
  cr_include_model :: bool
  cr_skip_retry_on_failure :: bool

record affinity_entry =
  en_channel_id :: channel_id
  en_expires_at :: nat
  en_last_used :: nat

record affinity_stats =
  st_hits :: nat
  st_misses :: nat
  st_records :: nat
  st_forgets :: nat
  st_evictions :: nat
  st_entries :: nat

record 're affinity_engine =
  ae_enabled :: bool
  ae_switch_on_success :: bool
  ae_keep_on_channel_disabled :: bool
  ae_rules :: "'re compiled_rule list"
  ae_max_entries :: nat
  ae_entries :: "(string \<times> affinity_entry) list"
  ae_stats :: affinity_stats

record affinity_context =
  ac_model :: string
  ac_path :: string
  ac_api_key_id :: "nat option"
  ac_headers :: "(string \<times> string) list"
  ac_body :: "json option"

record affinity_decision =
  ad_rule_name :: string
  ad_cache_key :: string
  ad_binding :: "channel_id option"
  ad_skip_retry_on_failure :: bool
  ad_ttl_secs :: nat

definition engine_new :: "'re affinity_engine" where
  "engine_new = \<lparr>ae_enabled = False, ae_switch_on_success = False,
     ae_keep_on_channel_disabled = False, ae_rules = [], ae_max_entries = 0, ae_entries = [],
     ae_stats = \<lparr>st_hits = 0, st_misses = 0, st_records = 0, st_forgets = 0, st_evictions = 0,
       st_entries = 0\<rparr>\<rparr>"

subsection \<open>Loading the rules\<close>

text \<open>\<open>None\<close> when the expression does not compile, \<open>Some None\<close> for an empty one.\<close>

definition compile_opt :: "'re affinity_lib \<Rightarrow> string \<Rightarrow> 're option option" where
  "compile_opt lib s = (if s = [] then Some None else map_option Some (fl_compile lib s))"

definition compile_rule :: "'re affinity_lib \<Rightarrow> nat \<Rightarrow> affinity_rule \<Rightarrow> 're compiled_rule option" where
  "compile_rule lib default_ttl r =
     Option.bind (compile_opt lib (ar_model_regex r)) (\<lambda>model_re.
     Option.bind (compile_opt lib (ar_path_regex r)) (\<lambda>path_re.
     Option.bind (compile_opt lib (ar_value_regex r)) (\<lambda>value_re.
       Some \<lparr>cr_name = ar_name r, cr_model_re = model_re, cr_path_re = path_re,
         cr_sources = ar_sources r, cr_value_re = value_re,
         cr_ttl_secs = effective_ttl_secs r default_ttl,
         cr_include_model = ar_include_model r,
         cr_skip_retry_on_failure = ar_skip_retry_on_failure r\<rparr>)))"

definition load_settings :: "'re affinity_lib \<Rightarrow> affinity_settings \<Rightarrow> 're affinity_engine \<Rightarrow> 're affinity_engine" where
  "load_settings lib s e = e\<lparr>ae_enabled := as_enabled s,
     ae_switch_on_success := as_switch_on_success s,
     ae_keep_on_channel_disabled := as_keep_on_channel_disabled s,
     ae_max_entries := as_max_entries s,
     ae_rules := List.map_filter (compile_rule lib (as_default_ttl_secs s)) (as_rules s)\<rparr>"

definition is_active :: "'re affinity_engine \<Rightarrow> bool" where
  "is_active e \<longleftrightarrow> ae_enabled e \<and> ae_rules e \<noteq> []"

definition is_body_source :: "affinity_key_source \<Rightarrow> bool" where
  "is_body_source s = (case s of BodySource _ \<Rightarrow> True | _ \<Rightarrow> False)"

definition needs_body :: "'re affinity_engine \<Rightarrow> bool" where
  "needs_body e \<longleftrightarrow> ae_enabled e \<and> list_ex (\<lambda>r. list_ex is_body_source (cr_sources r)) (ae_rules e)"

subsection \<open>Extracting the identity\<close>

definition header_to_str :: "string \<Rightarrow> string option" where
  "header_to_str v = (if list_all (\<lambda>c. (32 \<le> byte c \<and> byte c < 127) \<or> byte c = 9) v then Some v else None)"

definition bool_to_string :: "bool \<Rightarrow> string" where
  "bool_to_string b = (if b then ''true'' else ''false'')"

definition json_pointer_scalar :: "'re affinity_lib \<Rightarrow> json \<Rightarrow> string \<Rightarrow> string option" where
  "json_pointer_scalar lib body pointer = (
     if pointer = [] then None
     else case fl_pointer lib body pointer of
       Some (JStr s) \<Rightarrow> if s \<noteq> [] then Some s else None
     | Some (JNum n) \<Rightarrow> Some (fl_number lib n)
     | Some (JBool b) \<Rightarrow> Some (bool_to_string b)
     | _ \<Rightarrow> None)"

definition source_value :: "'re affinity_lib \<Rightarrow> affinity_context \<Rightarrow> affinity_key_source \<Rightarrow> string option" where
  "source_value lib ctx s = (case s of
     ApiKeyId \<Rightarrow> map_option nat_to_string (ac_api_key_id ctx)
   | HeaderSource name \<Rightarrow>
       (case Option.bind (map_of (ac_headers ctx) (to_ascii_lowercase name)) header_to_str of
          Some v \<Rightarrow> if v \<noteq> [] then Some v else None
        | None \<Rightarrow> None)
   | BodySource path \<Rightarrow> Option.bind (ac_body ctx) (\<lambda>b. json_pointer_scalar lib b path))"

fun extract_value :: "'re affinity_lib \<Rightarrow> affinity_context \<Rightarrow> affinity_key_source list \<Rightarrow> string option" where
  "extract_value lib ctx [] = None"
| "extract_value lib ctx (s # ss) = (case source_value lib ctx s of
     Some v \<Rightarrow> Some v | None \<Rightarrow> extract_value lib ctx ss)"

definition NUL :: char where "NUL = CHR 0x00"

definition build_cache_key :: "string \<Rightarrow> bool \<Rightarrow> string \<Rightarrow> string \<Rightarrow> string" where
  "build_cache_key rule_name include_model model value =
     (if include_model then rule_name @ [NUL] @ model @ [NUL] @ value
      else rule_name @ [NUL, NUL] @ value)"

definition re_allows :: "'re affinity_lib \<Rightarrow> 're option \<Rightarrow> string \<Rightarrow> bool" where
  "re_allows lib re s = (case re of Some r \<Rightarrow> fl_is_match lib r s | None \<Rightarrow> True)"

text \<open>What a matching rule yields: a decision without a binding yet.\<close>

definition match_rule :: "'re affinity_lib \<Rightarrow> affinity_context \<Rightarrow> 're compiled_rule \<Rightarrow> affinity_decision option" where
  "match_rule lib ctx r = (
     if \<not> re_allows lib (cr_model_re r) (ac_model ctx) then None
     else if \<not> re_allows lib (cr_path_re r) (ac_path ctx) then None
     else case extract_value lib ctx (cr_sources r) of
       None \<Rightarrow> None
     | Some v \<Rightarrow>
         if \<not> re_allows lib (cr_value_re r) v then None
         else Some \<lparr>ad_rule_name = cr_name r,
           ad_cache_key = build_cache_key (cr_name r) (cr_include_model r) (ac_model ctx) v,
           ad_binding = None, ad_skip_retry_on_failure = cr_skip_retry_on_failure r,
           ad_ttl_secs = cr_ttl_secs r\<rparr>)"

fun find_match :: "'re affinity_lib \<Rightarrow> affinity_context \<Rightarrow> 're compiled_rule list \<Rightarrow> affinity_decision option" where
  "find_match lib ctx [] = None"
| "find_match lib ctx (r # rs) = (case match_rule lib ctx r of
     Some d \<Rightarrow> Some d | None \<Rightarrow> find_match lib ctx rs)"

subsection \<open>Resolving, recording and forgetting\<close>

definition ttl_end :: "nat \<Rightarrow> nat \<Rightarrow> nat" where
  "ttl_end now ttl_secs = now + ttl_secs * 10 ^ 9"

definition resolve_affinity ::
  "'re affinity_lib \<Rightarrow> affinity_context \<Rightarrow> nat \<Rightarrow> 're affinity_engine
   \<Rightarrow> affinity_decision option \<times> 're affinity_engine"
where
  "resolve_affinity lib ctx now e = (
     if \<not> ae_enabled e then (None, e)
     else case find_match lib ctx (ae_rules e) of
       None \<Rightarrow> (None, e)
     | Some d \<Rightarrow>
         (case map_of (ae_entries e) (ad_cache_key d) of
            Some en \<Rightarrow>
              if en_expires_at en > now then
                (Some (d\<lparr>ad_binding := Some (en_channel_id en)\<rparr>),
                 e\<lparr>ae_stats := (ae_stats e)\<lparr>st_hits := st_hits (ae_stats e) + 1\<rparr>,
                   ae_entries := al_put (ad_cache_key d)
                     (en\<lparr>en_last_used := now, en_expires_at := ttl_end now (ad_ttl_secs d)\<rparr>)
                     (ae_entries e)\<rparr>)
              else
                (Some d, e\<lparr>ae_entries := al_del (ad_cache_key d) (ae_entries e),
                   ae_stats := (ae_stats e)\<lparr>st_evictions := st_evictions (ae_stats e) + 1,
                     st_misses := st_misses (ae_stats e) + 1\<rparr>\<rparr>)
          | None \<Rightarrow>
              (Some d, e\<lparr>ae_stats := (ae_stats e)\<lparr>st_misses := st_misses (ae_stats e) + 1\<rparr>\<rparr>)))"

definition drop_expired :: "nat \<Rightarrow> 're affinity_engine \<Rightarrow> 're affinity_engine" where
  "drop_expired now e = (
     let kept = filter (\<lambda>(_, en). en_expires_at en > now) (ae_entries e)
     in e\<lparr>ae_entries := kept, ae_stats := (ae_stats e)\<lparr>st_evictions :=
          st_evictions (ae_stats e) + (length (ae_entries e) - length kept)\<rparr>\<rparr>)"

text \<open>\<open>min_by_key\<close>: the first of the entries with the smallest key.\<close>

fun oldest_entry :: "(string \<times> affinity_entry) list \<Rightarrow> (string \<times> affinity_entry) option" where
  "oldest_entry [] = None"
| "oldest_entry (x # xs) = (case oldest_entry xs of
     None \<Rightarrow> Some x
   | Some y \<Rightarrow> if en_last_used (snd x) \<le> en_last_used (snd y) then Some x else Some y)"

definition evict_expired_or_oldest :: "nat \<Rightarrow> 're affinity_engine \<Rightarrow> 're affinity_engine" where
  "evict_expired_or_oldest now e0 = (
     let e = drop_expired now e0
     in if length (ae_entries e) \<ge> ae_max_entries e then
          (case oldest_entry (ae_entries e) of
             Some (k, _) \<Rightarrow> e\<lparr>ae_entries := al_del k (ae_entries e),
               ae_stats := (ae_stats e)\<lparr>st_evictions := st_evictions (ae_stats e) + 1\<rparr>\<rparr>
           | None \<Rightarrow> e)
        else e)"

definition record_affinity ::
  "affinity_decision \<Rightarrow> channel_id \<Rightarrow> nat \<Rightarrow> 're affinity_engine \<Rightarrow> 're affinity_engine"
where
  "record_affinity d winner now e = (
     let bound = map_option en_channel_id (map_of (ae_entries e) (ad_cache_key d))
     in if (case bound of Some c \<Rightarrow> c \<noteq> winner \<and> \<not> ae_switch_on_success e | None \<Rightarrow> False) then e
        else
          let e1 = (if length (ae_entries e) \<ge> ae_max_entries e then evict_expired_or_oldest now e else e)
          in e1\<lparr>ae_entries := al_put (ad_cache_key d)
                 \<lparr>en_channel_id = winner, en_expires_at = ttl_end now (ad_ttl_secs d),
                  en_last_used = now\<rparr> (ae_entries e1),
               ae_stats := (ae_stats e1)\<lparr>st_records := st_records (ae_stats e1) + 1\<rparr>\<rparr>)"

definition forget_binding :: "string \<Rightarrow> 're affinity_engine \<Rightarrow> 're affinity_engine" where
  "forget_binding k e = (if map_of (ae_entries e) k \<noteq> None
     then e\<lparr>ae_entries := al_del k (ae_entries e),
            ae_stats := (ae_stats e)\<lparr>st_forgets := st_forgets (ae_stats e) + 1\<rparr>\<rparr>
     else e)"

definition forget_if_bound_to :: "string \<Rightarrow> channel_id \<Rightarrow> 're affinity_engine \<Rightarrow> 're affinity_engine" where
  "forget_if_bound_to k cid e = (case map_of (ae_entries e) k of
     Some en \<Rightarrow> if en_channel_id en = cid then forget_binding k e else e
   | None \<Rightarrow> e)"

definition forget_affinity_channel :: "channel_id \<Rightarrow> 're affinity_engine \<Rightarrow> 're affinity_engine" where
  "forget_affinity_channel cid e = (
     let kept = filter (\<lambda>(_, en). en_channel_id en \<noteq> cid) (ae_entries e)
     in e\<lparr>ae_entries := kept, ae_stats := (ae_stats e)\<lparr>st_forgets :=
          st_forgets (ae_stats e) + (length (ae_entries e) - length kept)\<rparr>\<rparr>)"

definition clear_affinity :: "'re affinity_engine \<Rightarrow> nat \<times> 're affinity_engine" where
  "clear_affinity e = (length (ae_entries e),
     e\<lparr>ae_entries := [], ae_stats := (ae_stats e)\<lparr>st_forgets :=
       st_forgets (ae_stats e) + length (ae_entries e)\<rparr>\<rparr>)"

definition affinity_stats_snapshot :: "nat \<Rightarrow> 're affinity_engine \<Rightarrow> affinity_stats \<times> 're affinity_engine" where
  "affinity_stats_snapshot now e = (
     let e1 = drop_expired now e;
         st = (ae_stats e1)\<lparr>st_entries := length (ae_entries e1)\<rparr>
     in (st, e1\<lparr>ae_stats := st\<rparr>))"

subsection \<open>Operations in sequence\<close>

datatype affinity_op =
    Resolve affinity_context
  | Record affinity_decision channel_id
  | Forget string
  | Forget_If string channel_id
  | Forget_Channel channel_id
  | Clear
  | Snapshot
  | Load affinity_settings

fun affinity_step :: "'re affinity_lib \<Rightarrow> affinity_op \<times> nat \<Rightarrow> 're affinity_engine \<Rightarrow> 're affinity_engine" where
  "affinity_step lib (Resolve ctx, now) e = snd (resolve_affinity lib ctx now e)"
| "affinity_step lib (Record d w, now) e = record_affinity d w now e"
| "affinity_step lib (Forget k, now) e = forget_binding k e"
| "affinity_step lib (Forget_If k c, now) e = forget_if_bound_to k c e"
| "affinity_step lib (Forget_Channel c, now) e = forget_affinity_channel c e"
| "affinity_step lib (Clear, now) e = snd (clear_affinity e)"
| "affinity_step lib (Snapshot, now) e = snd (affinity_stats_snapshot now e)"
| "affinity_step lib (Load s, now) e = load_settings lib s e"

definition engine_ok :: "nat \<Rightarrow> 're affinity_engine \<Rightarrow> bool" where
  "engine_ok n e \<longleftrightarrow> distinct (map fst (ae_entries e)) \<and> ae_max_entries e = n \<and> length (ae_entries e) \<le> n"

lemma drop_expired_props:
  "ae_max_entries (drop_expired now e) = ae_max_entries e"
  "set (ae_entries (drop_expired now e)) \<subseteq> set (ae_entries e)"
  "length (ae_entries (drop_expired now e)) \<le> length (ae_entries e)"
  "distinct (map fst (ae_entries e)) \<Longrightarrow> distinct (map fst (ae_entries (drop_expired now e)))"
  by (auto simp: drop_expired_def Let_def)

lemma oldest_entry_None [simp]: "oldest_entry xs = None \<longleftrightarrow> xs = []"
  by (cases xs) (auto split: option.split)

lemma oldest_entry_mem: "oldest_entry xs = Some x \<Longrightarrow> x \<in> set xs"
  by (induction xs arbitrary: x) (auto split: option.splits if_splits)

text \<open>Eviction makes room for one entry.\<close>

lemma evict_props:
  assumes "distinct (map fst (ae_entries e))"
  shows "distinct (map fst (ae_entries (evict_expired_or_oldest now e)))"
    and "ae_max_entries (evict_expired_or_oldest now e) = ae_max_entries e"
    and "set (ae_entries (evict_expired_or_oldest now e)) \<subseteq> set (ae_entries e)"
    and "length (ae_entries e) \<le> ae_max_entries e \<Longrightarrow> 0 < ae_max_entries e \<Longrightarrow>
      length (ae_entries (evict_expired_or_oldest now e)) < ae_max_entries e"
proof -
  let ?d = "drop_expired now e"
  have d: "distinct (map fst (ae_entries ?d))" using assms by (rule drop_expired_props(4))
  have shorter: "length (al_del k (ae_entries ?d)) < length (ae_entries ?d)"
    if "(k, en) \<in> set (ae_entries ?d)" for k en
  proof -
    have "map_of (ae_entries ?d) k \<noteq> None" using weak_map_of_SomeI[OF that] by simp
    moreover have "ae_entries ?d \<noteq> []" using that by auto
    ultimately show ?thesis using length_al_del[OF d, of k] by simp
  qed
  show "distinct (map fst (ae_entries (evict_expired_or_oldest now e)))"
    and "ae_max_entries (evict_expired_or_oldest now e) = ae_max_entries e"
    using d by (auto simp: evict_expired_or_oldest_def Let_def drop_expired_props split: option.split)
  show "set (ae_entries (evict_expired_or_oldest now e)) \<subseteq> set (ae_entries e)"
    using drop_expired_props(2)[where now = now and e = e]
    by (auto simp: evict_expired_or_oldest_def Let_def set_al_del split: option.split)
  show "length (ae_entries (evict_expired_or_oldest now e)) < ae_max_entries e"
    if "length (ae_entries e) \<le> ae_max_entries e" "0 < ae_max_entries e"
    using that shorter drop_expired_props(3)[where now = now and e = e]
    by (force simp: evict_expired_or_oldest_def Let_def drop_expired_props(1)
        dest!: oldest_entry_mem split: option.split)
qed

lemma record_ok:
  assumes "engine_ok n e" and "0 < n"
  shows "engine_ok n (record_affinity d w now e)"
proof -
  define e1 where "e1 = (if length (ae_entries e) \<ge> ae_max_entries e then evict_expired_or_oldest now e else e)"
  have dist: "distinct (map fst (ae_entries e))" and max: "ae_max_entries e = n"
    and len: "length (ae_entries e) \<le> n" using assms(1) by (simp_all add: engine_ok_def)
  have "distinct (map fst (ae_entries e1))" "ae_max_entries e1 = n" "length (ae_entries e1) < n"
    using evict_props[OF dist] dist max len assms(2) by (auto simp: e1_def)
  then have "engine_ok n (e1\<lparr>ae_entries := al_put k v (ae_entries e1), ae_stats := st\<rparr>)" for k v st
    by (simp add: engine_ok_def length_al_put)
  then show ?thesis using assms(1)
    by (simp add: record_affinity_def Let_def e1_def[symmetric])
qed

lemma length_al_put_present: "map_of m k = Some v \<Longrightarrow> length (al_put k v' m) = length m"
  by (simp add: length_al_put)

lemma resolve_ok: "engine_ok n e \<Longrightarrow> engine_ok n (snd (resolve_affinity lib ctx now e))"
  by (auto simp: resolve_affinity_def engine_ok_def length_al_put_present intro: le_trans[OF length_al_del_le]
      split: option.split)

lemma forget_binding_ok: "engine_ok n e \<Longrightarrow> engine_ok n (forget_binding k e)"
  by (auto simp: forget_binding_def engine_ok_def intro: le_trans[OF length_al_del_le])

lemma forget_if_ok: "engine_ok n e \<Longrightarrow> engine_ok n (forget_if_bound_to k c e)"
  by (simp add: forget_if_bound_to_def forget_binding_ok split: option.split)

lemma clear_ok: "engine_ok n e \<Longrightarrow> engine_ok n (snd (clear_affinity e))"
  by (simp add: clear_affinity_def engine_ok_def)

lemma affinity_step_ok:
  assumes "engine_ok n e" and "0 < n" and "case op of Load s \<Rightarrow> as_max_entries s = n | _ \<Rightarrow> True"
  shows "engine_ok n (affinity_step lib (op, now) e)"
proof (cases op)
  case (Forget_Channel c)
  then show ?thesis using assms(1)
    by (auto simp: forget_affinity_channel_def engine_ok_def Let_def intro: le_trans[OF length_filter_le])
next
  case Snapshot
  then show ?thesis using assms(1) drop_expired_props[where now = now and e = e]
    by (auto simp: affinity_stats_snapshot_def engine_ok_def Let_def)
next
  case (Load s)
  then show ?thesis using assms(1,3) by (simp add: load_settings_def engine_ok_def)
qed (use assms in \<open>simp_all add: record_ok resolve_ok forget_binding_ok forget_if_ok clear_ok\<close>)

text \<open>The binding table stays within its capacity: whatever is resolved, recorded,
  forgotten or cleared, and however the rules are reloaded with the same limit, it never
  holds more entries than the configured maximum, and one entry for each identity.\<close>

theorem affinity_capacity:
  assumes "engine_ok n e" and "0 < n"
    and "\<forall>(op, now) \<in> set ops. case op of Load s \<Rightarrow> as_max_entries s = n | _ \<Rightarrow> True"
  shows "length (ae_entries (fold (affinity_step lib) ops e)) \<le> n
     \<and> distinct (map fst (ae_entries (fold (affinity_step lib) ops e)))"
proof -
  have "engine_ok n (fold (affinity_step lib) ops e)"
    using assms(1,3)
  proof (induction ops arbitrary: e)
    case (Cons op ops)
    obtain o' now where op: "op = (o', now)" by (cases op)
    have "engine_ok n (affinity_step lib op e)"
      using affinity_step_ok[OF Cons.prems(1) assms(2)] Cons.prems(2) op by simp
    then show ?case using Cons.IH Cons.prems(2) by simp
  qed simp
  then show ?thesis by (simp add: engine_ok_def)
qed

subsection \<open>Bindings are followed\<close>

lemma map_of_evict:
  "map_of (ae_entries (record_affinity d w now e)) (ad_cache_key d) =
     (if (case map_of (ae_entries e) (ad_cache_key d) of
            Some en \<Rightarrow> en_channel_id en \<noteq> w \<and> \<not> ae_switch_on_success e | None \<Rightarrow> False)
      then map_of (ae_entries e) (ad_cache_key d)
      else Some \<lparr>en_channel_id = w, en_expires_at = ttl_end now (ad_ttl_secs d), en_last_used = now\<rparr>)"
  by (simp add: record_affinity_def Let_def split: option.split)

lemma record_keeps_config:
  "ae_enabled (record_affinity d w now e) = ae_enabled e"
  "ae_rules (record_affinity d w now e) = ae_rules e"
  by (simp_all add: record_affinity_def Let_def evict_expired_or_oldest_def drop_expired_def
      split: option.split)

lemma resolve_decision:
  assumes "resolve_affinity lib ctx now e = (Some d, e')"
  shows "ae_enabled e" and "\<exists>d0. find_match lib ctx (ae_rules e) = Some d0
    \<and> ad_cache_key d0 = ad_cache_key d \<and> ad_ttl_secs d0 = ad_ttl_secs d"
  using assms by (auto simp: resolve_affinity_def split: if_splits option.splits)


definition no_binding_to :: "channel_id \<Rightarrow> 're affinity_engine \<Rightarrow> bool" where
  "no_binding_to c e \<longleftrightarrow> (\<forall>(k, en) \<in> set (ae_entries e). en_channel_id en \<noteq> c)"

lemma no_binding_subset:
  "no_binding_to c e \<Longrightarrow> set (ae_entries e') \<subseteq> set (ae_entries e) \<Longrightarrow> no_binding_to c e'"
  by (auto simp: no_binding_to_def)

lemma set_al_put: "set (al_put k v m) \<subseteq> insert (k, v) (set m)"
  by (auto simp: al_put_def split: if_splits)

lemma affinity_step_no_binding:
  assumes "no_binding_to c e" and "case op of Record _ w \<Rightarrow> w \<noteq> c | _ \<Rightarrow> True"
    and "distinct (map fst (ae_entries e))"
  shows "no_binding_to c (affinity_step lib (op, now) e)"
proof (cases op)
  case (Resolve ctx)
  show ?thesis
  proof (cases "find_match lib ctx (ae_rules e)")
    case (Some d)
    have "en_channel_id en \<noteq> c" if "map_of (ae_entries e) (ad_cache_key d) = Some en" for en
      using that assms(1) by (auto simp: no_binding_to_def dest!: map_of_SomeD)
    then show ?thesis using Resolve Some assms(1) set_al_put set_al_del
      by (fastforce simp: resolve_affinity_def no_binding_to_def split: option.split)
  qed (use Resolve assms(1) in \<open>simp add: resolve_affinity_def\<close>)
next
  case (Record d w)
  define e1 where "e1 = (if length (ae_entries e) \<ge> ae_max_entries e then evict_expired_or_oldest now e else e)"
  have "no_binding_to c e1"
    using assms(1) evict_props(3)[OF assms(3)] by (auto simp: e1_def intro: no_binding_subset)
  then have "no_binding_to c (e1\<lparr>ae_entries := al_put k v (ae_entries e1), ae_stats := st\<rparr>)"
    if "en_channel_id v \<noteq> c" for k v st
    using that set_al_put by (fastforce simp: no_binding_to_def)
  then show ?thesis using Record assms(1,2)
    by (simp add: record_affinity_def Let_def e1_def[symmetric])
next
  case Snapshot
  then show ?thesis
    using assms(1) drop_expired_props(2)[where now = now and e = e]
    by (auto simp: affinity_stats_snapshot_def Let_def no_binding_to_def)
qed (use assms(1) in \<open>auto simp: no_binding_to_def forget_binding_def forget_if_bound_to_def set_al_del
  forget_affinity_channel_def clear_affinity_def load_settings_def Let_def split: option.split\<close>)

lemma affinity_step_distinct:
  assumes "distinct (map fst (ae_entries e))"
  shows "distinct (map fst (ae_entries (affinity_step lib (op, now) e)))"
proof (cases op)
  case (Record d w)
  then show ?thesis using assms evict_props(1)[OF assms] by (simp add: record_affinity_def Let_def)
next
  case Snapshot
  then show ?thesis using drop_expired_props(4)[OF assms] by (simp add: affinity_stats_snapshot_def Let_def)
qed (use assms in \<open>simp_all add: resolve_affinity_def forget_binding_def forget_if_bound_to_def
  forget_affinity_channel_def clear_affinity_def load_settings_def Let_def split: option.split\<close>)

lemma find_match_unbound: "find_match lib ctx rs = Some d \<Longrightarrow> ad_binding d = None"
  by (induction rs) (auto simp: match_rule_def split: option.splits if_splits)

lemma resolve_binding_mem:
  assumes "fst (resolve_affinity lib ctx now e) = Some d" and "ad_binding d = Some c"
  shows "\<exists>x \<in> set (ae_entries e). en_channel_id (snd x) = c"
  using assms
  by (force simp: resolve_affinity_def find_match_unbound split: if_splits option.splits dest!: map_of_SomeD)

lemma affinity_run_no_binding:
  assumes "distinct (map fst (ae_entries e))" and "no_binding_to c e"
    and "\<forall>(op, now) \<in> set ops. case op of Record _ w \<Rightarrow> w \<noteq> c | _ \<Rightarrow> True"
  shows "no_binding_to c (fold (affinity_step lib) ops e)"
  using assms
proof (induction ops arbitrary: e)
  case (Cons op ops)
  obtain o' now where op: "op = (o', now)" by (cases op)
  have "no_binding_to c (affinity_step lib op e)"
    using affinity_step_no_binding[OF Cons.prems(2) _ Cons.prems(1)] Cons.prems(3) op by simp
  then show ?case
    using Cons.IH affinity_step_distinct[OF Cons.prems(1)] Cons.prems(3) op by simp
qed simp

text \<open>After a channel is deleted no request is pinned to it any more: until some request
  records it again, no resolution gives that channel, whatever else happens in between.\<close>

theorem deleted_channel_never_resolved:
  assumes "distinct (map fst (ae_entries e))"
    and "\<forall>(op, now) \<in> set ops. case op of Record _ w \<Rightarrow> w \<noteq> c | _ \<Rightarrow> True"
    and "fst (resolve_affinity lib ctx now (fold (affinity_step lib) ops (forget_affinity_channel c e))) = Some d"
  shows "ad_binding d \<noteq> Some c"
proof
  assume "ad_binding d = Some c"
  then have "\<exists>x \<in> set (ae_entries (fold (affinity_step lib) ops (forget_affinity_channel c e))).
      en_channel_id (snd x) = c"
    by (rule resolve_binding_mem[OF assms(3)])
  moreover have "no_binding_to c (fold (affinity_step lib) ops (forget_affinity_channel c e))"
    by (rule affinity_run_no_binding[OF _ _ assms(2)])
       (use assms(1) in \<open>auto simp: no_binding_to_def forget_affinity_channel_def Let_def\<close>)
  ultimately show False by (auto simp: no_binding_to_def)
qed

subsection \<open>Witnesses and two divergences\<close>

definition plain_affinity_lib :: "string affinity_lib" where
  "plain_affinity_lib = \<lparr>fl_compile = Some, fl_is_match = contains_sub,
     fl_pointer = (\<lambda>v p. case p of [] \<Rightarrow> Some v | _ # k \<Rightarrow> jget k v), fl_number = (\<lambda>n. ''0'')\<rparr>"

definition key_rule :: affinity_rule where
  "key_rule = \<lparr>ar_name = ''r'', ar_model_regex = [], ar_path_regex = [], ar_sources = [ApiKeyId],
     ar_value_regex = [], ar_ttl_secs = Some 60, ar_include_model = False,
     ar_skip_retry_on_failure = False\<rparr>"

definition small_engine :: "string affinity_engine" where
  "small_engine = load_settings plain_affinity_lib
     (default_affinity_settings\<lparr>as_enabled := True, as_max_entries := 2, as_rules := [key_rule]\<rparr>) engine_new"

definition key_context :: affinity_context where
  "key_context = \<lparr>ac_model = ''m'', ac_path = ''/v1'', ac_api_key_id = Some 7, ac_headers = [], ac_body = None\<rparr>"

definition key_decision :: "string \<Rightarrow> affinity_decision" where
  "key_decision k = \<lparr>ad_rule_name = ''r'', ad_cache_key = k, ad_binding = None,
     ad_skip_retry_on_failure = False, ad_ttl_secs = 60\<rparr>"

lemma small_engine_ok: "engine_ok 2 small_engine"
  by (simp add: engine_ok_def small_engine_def load_settings_def engine_new_def)

lemma small_engine_rules:
  "ae_enabled small_engine" "ae_entries small_engine = []" "ae_max_entries small_engine = 2"
  "ae_switch_on_success small_engine"
  "find_match plain_affinity_lib key_context (ae_rules small_engine) =
     Some (key_decision (build_cache_key ''r'' False ''m'' ''7''))"
proof -
  have "nat_to_string 7 = ''7''" by code_simp
  then show "find_match plain_affinity_lib key_context (ae_rules small_engine) =
     Some (key_decision (build_cache_key ''r'' False ''m'' ''7''))"
    by (simp add: small_engine_def load_settings_def default_affinity_settings_def engine_new_def
        key_rule_def map_filter_simps compile_rule_def compile_opt_def effective_ttl_secs_def
        match_rule_def re_allows_def source_value_def key_context_def key_decision_def)
qed (simp_all add: small_engine_def load_settings_def default_affinity_settings_def engine_new_def)

theorem affinity_capacity_witness:
  "length (ae_entries (fold (affinity_step plain_affinity_lib)
     [(Record (key_decision ''a'') 1, 0), (Record (key_decision ''b'') 1, 1), (Record (key_decision ''c'') 1, 2)]
     small_engine)) \<le> 2"
  using affinity_capacity[OF small_engine_ok, of
      "[(Record (key_decision ''a'') 1, 0), (Record (key_decision ''b'') 1, 1), (Record (key_decision ''c'') 1, 2)]"
      plain_affinity_lib] by simp


theorem deleted_channel_never_resolved_witness:
  "ad_binding (key_decision (build_cache_key ''r'' False ''m'' ''7'')) \<noteq> Some 3"
  by (rule deleted_channel_never_resolved[of small_engine "[]" 3 plain_affinity_lib key_context 0])
     (simp_all add: small_engine_rules forget_affinity_channel_def resolve_affinity_def)

text \<open>Refreshing a binding of a full table evicts another one although nothing is added.\<close>

theorem refresh_evicts_other_binding:
  "map fst (ae_entries (fold (affinity_step plain_affinity_lib)
     [(Record (key_decision ''a'') 1, 0), (Record (key_decision ''b'') 1, 1), (Record (key_decision ''b'') 1, 2)]
     small_engine)) = [''b'']"
  by (simp add: record_affinity_def small_engine_rules Let_def al_put_def al_del_def
      evict_expired_or_oldest_def drop_expired_def key_decision_def ttl_end_def)

text \<open>Lowering the limit has no effect on the entries there are: a new binding evicts one entry
  and takes its place, so the table stays above the limit.\<close>

theorem lowered_limit_is_not_enforced:
  "length (ae_entries (fold (affinity_step plain_affinity_lib)
     [(Record (key_decision ''a'') 1, 0), (Record (key_decision ''b'') 1, 1),
      (Load (default_affinity_settings\<lparr>as_max_entries := 1\<rparr>), 2),
      (Record (key_decision ''c'') 1, 3), (Record (key_decision ''d'') 1, 4)] small_engine)) = 2"
  by (simp add: record_affinity_def small_engine_rules Let_def al_put_def al_del_def
      evict_expired_or_oldest_def drop_expired_def key_decision_def ttl_end_def load_settings_def)

end
