(* ===== verification/Sse.thy ===== *)
theory Sse
  imports Prelude Rust_Str
begin

section \<open>Server-sent events\<close>

text \<open>
  The frame renderer and the incremental parser of \<open>crates/refract-protocol/src/stream.rs\<close>.
  The parser's buffer is bytes: a character may be split between two chunks. An error carries
  the offending line; the code formats it into the message of an upstream error.
\<close>

definition LF :: char where "LF = CHR 0x0A"
definition CR :: char where "CR = CHR 0x0D"

record sse_frame =
  sf_event :: "string option"
  sf_data :: string

definition data_frame :: "string \<Rightarrow> sse_frame" where
  "data_frame d = \<lparr>sf_event = None, sf_data = d\<rparr>"

definition named_frame :: "string \<Rightarrow> string \<Rightarrow> sse_frame" where
  "named_frame e d = \<lparr>sf_event = Some e, sf_data = d\<rparr>"

definition render :: "sse_frame \<Rightarrow> string" where
  "render f = (case sf_event f of Some e \<Rightarrow> ''event: '' @ e @ [LF] | None \<Rightarrow> [])
     @ concat (map (\<lambda>line. ''data: '' @ line @ [LF]) (split_on LF (sf_data f))) @ [LF]"

record sse_parser =
  sp_buffer :: string
  sp_event :: "string option"
  sp_data :: "string list"

datatype sse_error = Invalid_Utf8 string

definition parser_new :: sse_parser where
  "parser_new = \<lparr>sp_buffer = [], sp_event = None, sp_data = []\<rparr>"

definition flush :: "sse_parser \<Rightarrow> sse_frame option \<times> sse_parser" where
  "flush p = (if sp_data p = [] \<and> sp_event p = None then (None, p)
     else (Some \<lparr>sf_event = sp_event p, sf_data = join [LF] (sp_data p)\<rparr>,
           p\<lparr>sp_event := None, sp_data := []\<rparr>))"

definition strip_cr :: "string \<Rightarrow> string" where
  "strip_cr l = (if l \<noteq> [] \<and> last l = CR then butlast l else l)"

text \<open>One complete line: the frame it completes, if any, and the parser after it.\<close>

definition parse_field :: "string \<Rightarrow> sse_parser \<Rightarrow> sse_parser" where
  "parse_field line p = (
     let (field, value) = (case split_once (CHR '':'') line of
           Some (f, v) \<Rightarrow> (f, case strip_prefix '' '' v of Some w \<Rightarrow> w | None \<Rightarrow> v)
         | None \<Rightarrow> (line, []))
     in if field = ''event'' then p\<lparr>sp_event := Some value\<rparr>
        else if field = ''data'' then p\<lparr>sp_data := sp_data p @ [value]\<rparr>
        else p)"

definition parse_line :: "string \<Rightarrow> sse_parser \<Rightarrow> sse_frame option \<times> sse_parser" where
  "parse_line line p = (
     if line = [] then flush p
     else if hd line = CHR '':'' then (None, p)
     else (None, parse_field line p))"

text \<open>The loop over the complete lines of the buffer; the frames found so far are lost when a
  line is not valid UTF-8, but the consumed lines stay consumed.\<close>

function feed_loop :: "sse_parser \<Rightarrow> sse_frame list \<Rightarrow> (sse_error + sse_frame list) \<times> sse_parser" where
  "feed_loop p frames = (
     case position (\<lambda>b. b = LF) (sp_buffer p) of
       None \<Rightarrow> (Inr frames, p)
     | Some pos \<Rightarrow>
         let line = strip_cr (take pos (sp_buffer p));
             p1 = p\<lparr>sp_buffer := drop (Suc pos) (sp_buffer p)\<rparr>
         in if \<not> utf8_valid line then (Inl (Invalid_Utf8 line), p1)
            else (case parse_line line p1 of (frame, p2) \<Rightarrow>
              feed_loop (p2\<lparr>sp_buffer := sp_buffer p1\<rparr>) (frames @ (case frame of Some f \<Rightarrow> [f] | None \<Rightarrow> []))))"
  by pat_completeness auto
termination
  by (relation "measure (\<lambda>(p, frames). length (sp_buffer p))") (auto simp: position_Some)

declare feed_loop.simps [simp del]

definition feed_bytes :: "string \<Rightarrow> sse_parser \<Rightarrow> (sse_error + sse_frame list) \<times> sse_parser" where
  "feed_bytes chunk p = feed_loop (p\<lparr>sp_buffer := sp_buffer p @ chunk\<rparr>) []"

definition finish_bytes :: "sse_parser \<Rightarrow> (sse_error + sse_frame option) \<times> sse_parser" where
  "finish_bytes p = (
     if sp_buffer p \<noteq> [] then
       (if \<not> utf8_valid (sp_buffer p) then (Inl (Invalid_Utf8 (sp_buffer p)), p\<lparr>sp_buffer := []\<rparr>)
        else
          let p1 = p\<lparr>sp_buffer := []\<rparr>;
              p2 = (case strip_prefix ''data:'' (trim (sp_buffer p)) of
                  Some v \<Rightarrow> p1\<lparr>sp_data := sp_data p1 @ [trim_start v]\<rparr> | None \<Rightarrow> p1);
              (frame, p3) = flush p2
          in (Inr frame, p3))
     else let (frame, p1) = flush p in (Inr frame, p1))"

subsection \<open>Chunk boundaries do not matter\<close>

lemma parse_line_buffer [simp]: "sp_buffer (snd (parse_line l p)) = sp_buffer p"
  by (simp add: parse_line_def parse_field_def flush_def split: prod.split)

lemma parse_line_other_buffer:
  "parse_line l (p\<lparr>sp_buffer := b\<rparr>) = (fst (parse_line l p), (snd (parse_line l p))\<lparr>sp_buffer := b\<rparr>)"
  by (simp add: parse_line_def parse_field_def flush_def Let_def split: prod.split)

lemma position_append:
  "position P xs = Some i \<Longrightarrow> position P (xs @ ys) = Some i"
  by (induction xs arbitrary: i) (auto split: if_splits)

lemma position_append_None:
  "position P xs = None \<Longrightarrow> position P (xs @ ys) = map_option ((+) (length xs)) (position P ys)"
  by (induction xs) (auto simp: option.map_comp comp_def option.map_ident simp del: position_None
      cong: option.map_cong)

text \<open>One turn of the loop, as equations.\<close>

lemma feed_loop_stop: "LF \<notin> set (sp_buffer p) \<Longrightarrow> feed_loop p frames = (Inr frames, p)"
  by (subst feed_loop.simps) (auto simp: option.case_eq_if)

lemma feed_loop_line:
  assumes "LF \<notin> set l"
  shows "feed_loop (p\<lparr>sp_buffer := l @ LF # rest\<rparr>) frames =
     (if \<not> utf8_valid (strip_cr l) then (Inl (Invalid_Utf8 (strip_cr l)), p\<lparr>sp_buffer := rest\<rparr>)
      else feed_loop ((snd (parse_line (strip_cr l) p))\<lparr>sp_buffer := rest\<rparr>)
        (frames @ (case fst (parse_line (strip_cr l) p) of Some f \<Rightarrow> [f] | None \<Rightarrow> [])))"
proof -
  have "position (\<lambda>b. b = LF) l = None" using assms by auto
  then have pos: "position (\<lambda>b. b = LF) (l @ LF # rest) = Some (length l)"
    by (simp add: position_append_None del: position_None)
  show ?thesis
    by (subst feed_loop.simps) (simp add: pos Let_def parse_line_other_buffer case_prod_beta)
qed

text \<open>A buffer is either short of a line or starts with one.\<close>

lemma buffer_cases:
  obtains (short) "LF \<notin> set b" | (line) l rest where "b = l @ LF # rest" and "LF \<notin> set l"
  using split_list_first[of LF b] by blast

lemma feed_loop_append:
  "feed_loop (p\<lparr>sp_buffer := b @ c\<rparr>) frames =
     (case feed_loop (p\<lparr>sp_buffer := b\<rparr>) frames of
        (Inr gs, p') \<Rightarrow> feed_loop (p'\<lparr>sp_buffer := sp_buffer p' @ c\<rparr>) gs
      | (Inl e, p') \<Rightarrow> (Inl e, p'\<lparr>sp_buffer := sp_buffer p' @ c\<rparr>))"
proof (induction "length b" arbitrary: b p frames rule: less_induct)
  case less
  show ?case
  proof (cases b rule: buffer_cases)
    case short
    then show ?thesis by (simp add: feed_loop_stop)
  next
    case (line l rest)
    then have "length rest < length b" by simp
    note IH = less.hyps[OF this]
    show ?thesis using line(2) unfolding line(1)
      by (simp add: feed_loop_line IH)
  qed
qed

fun feed_chunks :: "string list \<Rightarrow> sse_parser \<Rightarrow> (sse_error + sse_frame list) \<times> sse_parser" where
  "feed_chunks [] p = (Inr [], p)"
| "feed_chunks (c # cs) p = (case feed_bytes c p of
     (Inl e, p') \<Rightarrow> (Inl e, p')
   | (Inr fs, p') \<Rightarrow> (case feed_chunks cs p' of
       (Inl e, p'') \<Rightarrow> (Inl e, p'') | (Inr gs, p'') \<Rightarrow> (Inr (fs @ gs), p'')))"

text \<open>The frames found so far are only carried along.\<close>

lemma feed_loop_frames:
  "feed_loop (p\<lparr>sp_buffer := b\<rparr>) frames = (case feed_loop (p\<lparr>sp_buffer := b\<rparr>) [] of
     (Inr gs, p') \<Rightarrow> (Inr (frames @ gs), p') | (Inl e, p') \<Rightarrow> (Inl e, p'))"
proof (induction "length b" arbitrary: b p frames rule: less_induct)
  case less
  show ?case
  proof (cases b rule: buffer_cases)
    case short
    then show ?thesis by (simp add: feed_loop_stop)
  next
    case (line l rest)
    define q where "q = snd (parse_line (strip_cr l) p)"
    define new where "new = (case fst (parse_line (strip_cr l) p) of Some f \<Rightarrow> [f] | None \<Rightarrow> [])"
    have "length rest < length b" using line(1) by simp
    note IH = less.hyps[OF this]
    obtain r q' where r: "feed_loop (q\<lparr>sp_buffer := rest\<rparr>) [] = (r, q')" by fastforce
    have step: "feed_loop (p\<lparr>sp_buffer := b\<rparr>) fs =
        (if utf8_valid (strip_cr l) then feed_loop (q\<lparr>sp_buffer := rest\<rparr>) (fs @ new)
         else (Inl (Invalid_Utf8 (strip_cr l)), p\<lparr>sp_buffer := rest\<rparr>))" for fs
      unfolding line(1) feed_loop_line[OF line(2)] q_def new_def by simp
    show ?thesis
      using IH[of q "frames @ new"] IH[of q new] unfolding step r by (cases r) auto
  qed
qed

lemma feed_bytes_append:
  "feed_bytes (a @ c) p = (case feed_bytes a p of
     (Inr fs, p') \<Rightarrow> (case feed_bytes c p' of (Inr gs, p'') \<Rightarrow> (Inr (fs @ gs), p'') | (Inl e, p'') \<Rightarrow> (Inl e, p''))
   | (Inl e, p') \<Rightarrow> (Inl e, p'\<lparr>sp_buffer := sp_buffer p' @ c\<rparr>))"
proof -
  have "feed_bytes (a @ c) p = feed_loop (p\<lparr>sp_buffer := (sp_buffer p @ a) @ c\<rparr>) []"
    by (simp add: feed_bytes_def)
  also have "\<dots> = (case feed_bytes a p of
       (Inr fs, p') \<Rightarrow> feed_loop (p'\<lparr>sp_buffer := sp_buffer p' @ c\<rparr>) fs
     | (Inl e, p') \<Rightarrow> (Inl e, p'\<lparr>sp_buffer := sp_buffer p' @ c\<rparr>))"
    unfolding feed_bytes_def[of a] by (rule feed_loop_append)
  also have "\<dots> = (case feed_bytes a p of
     (Inr fs, p') \<Rightarrow> (case feed_bytes c p' of (Inr gs, p'') \<Rightarrow> (Inr (fs @ gs), p'') | (Inl e, p'') \<Rightarrow> (Inl e, p''))
   | (Inl e, p') \<Rightarrow> (Inl e, p'\<lparr>sp_buffer := sp_buffer p' @ c\<rparr>))"
  proof -
    obtain r p' where r: "feed_bytes a p = (r, p')" by fastforce
    show ?thesis unfolding r
    proof (cases r)
      case (Inr fs)
      have "feed_loop (p'\<lparr>sp_buffer := sp_buffer p' @ c\<rparr>) fs = (case feed_bytes c p' of
          (Inr gs, p'') \<Rightarrow> (Inr (fs @ gs), p'') | (Inl e, p'') \<Rightarrow> (Inl e, p''))"
        unfolding feed_bytes_def by (rule feed_loop_frames)
      then show "(case (r, p') of
       (Inr fs, p') \<Rightarrow> feed_loop (p'\<lparr>sp_buffer := sp_buffer p' @ c\<rparr>) fs
     | (Inl e, p') \<Rightarrow> (Inl e, p'\<lparr>sp_buffer := sp_buffer p' @ c\<rparr>)) = (case (r, p') of
     (Inr fs, p') \<Rightarrow> (case feed_bytes c p' of (Inr gs, p'') \<Rightarrow> (Inr (fs @ gs), p'') | (Inl e, p'') \<Rightarrow> (Inl e, p''))
   | (Inl e, p') \<Rightarrow> (Inl e, p'\<lparr>sp_buffer := sp_buffer p' @ c\<rparr>))" using Inr by simp
    qed simp
  qed
  finally show ?thesis .
qed

lemma feed_loop_clean:
  "feed_loop p frames = (Inr fs, p') \<Longrightarrow> LF \<notin> set (sp_buffer p')"
proof (induction "length (sp_buffer p)" arbitrary: p frames rule: less_induct)
  case less
  show ?case
  proof (cases "sp_buffer p" rule: buffer_cases)
    case short
    then show ?thesis using less.prems by (simp add: feed_loop_stop)
  next
    case (line l rest)
    have p: "p\<lparr>sp_buffer := l @ LF # rest\<rparr> = p" using line(1) by simp
    have "feed_loop ((snd (parse_line (strip_cr l) p))\<lparr>sp_buffer := rest\<rparr>)
        (frames @ (case fst (parse_line (strip_cr l) p) of Some f \<Rightarrow> [f] | None \<Rightarrow> [])) = (Inr fs, p')"
      using less.prems p feed_loop_line[OF line(2), where p = p and rest = rest and frames = frames]
      by (simp split: if_splits)
    moreover have "length rest < length (sp_buffer p)" using line(1) by simp
    ultimately show ?thesis
      using less.hyps[of "(snd (parse_line (strip_cr l) p))\<lparr>sp_buffer := rest\<rparr>"] by simp
  qed
qed

lemma feed_bytes_nothing: "LF \<notin> set (sp_buffer p) \<Longrightarrow> feed_bytes [] p = (Inr [], p)"
  by (simp add: feed_bytes_def feed_loop_stop)

lemma feed_chunks_concat:
  "LF \<notin> set (sp_buffer p) \<Longrightarrow>
   (case feed_bytes (concat cs) p of
      (Inr fs, p') \<Rightarrow> feed_chunks cs p = (Inr fs, p')
    | (Inl e, _) \<Rightarrow> fst (feed_chunks cs p) = Inl e)"
proof (induction cs arbitrary: p)
  case (Cons c cs)
  obtain r p1 where r: "feed_bytes c p = (r, p1)" by fastforce
  show ?case
  proof (cases r)
    case (Inr fs)
    have "LF \<notin> set (sp_buffer p1)" using feed_loop_clean r Inr by (metis feed_bytes_def)
    then have "(case feed_bytes (concat cs) p1 of
      (Inr fs, p') \<Rightarrow> feed_chunks cs p1 = (Inr fs, p')
    | (Inl e, _) \<Rightarrow> fst (feed_chunks cs p1) = Inl e)" by (rule Cons.IH)
    then show ?thesis using r Inr
      by (cases "feed_bytes (concat cs) p1"; cases "fst (feed_bytes (concat cs) p1)";
          cases "feed_chunks cs p1") (auto simp: feed_bytes_append)
  qed (simp add: feed_bytes_append r)
qed (simp add: feed_bytes_nothing)

text \<open>\<open>C37\<close>. The parser does not depend on how the network cuts the stream: over any chunks, even
  in the middle of a line or of a character, it yields the frames and ends in the state of
  one feed of all the bytes, and it fails exactly when that feed fails, on the same line.\<close>

theorem chunk_boundaries_irrelevant:
  "case feed_bytes (concat cs) parser_new of
     (Inr fs, p) \<Rightarrow> feed_chunks cs parser_new = (Inr fs, p)
   | (Inl e, _) \<Rightarrow> fst (feed_chunks cs parser_new) = Inl e"
  by (rule feed_chunks_concat) (simp add: parser_new_def)

subsection \<open>Rendered frames are read back\<close>

definition field_ok :: "string \<Rightarrow> bool" where
  "field_ok v \<longleftrightarrow> (v = [] \<or> last v \<noteq> CR)"

definition frame_ok :: "sse_frame \<Rightarrow> bool" where
  "frame_ok f \<longleftrightarrow> utf8_valid (sf_data f) \<and> list_all field_ok (split_on LF (sf_data f))
     \<and> (case sf_event f of Some e \<Rightarrow> utf8_valid e \<and> LF \<notin> set e \<and> field_ok e | None \<Rightarrow> True)"

lemma LF_ascii: "byte LF < 0x80"
  by (simp add: LF_def byte_def)

lemma strip_cr_field:
  "field_ok v \<Longrightarrow> strip_cr (pre @ CHR '' '' # v) = pre @ CHR '' '' # v"
  by (auto simp: strip_cr_def field_ok_def CR_def)

lemma parse_event_line: "parse_line (''event: '' @ v) p = (None, p\<lparr>sp_event := Some v\<rparr>)"
  by (simp add: parse_line_def parse_field_def split_once_def strip_prefix_def)

lemma parse_data_line: "parse_line (''data: '' @ v) p = (None, p\<lparr>sp_data := sp_data p @ [v]\<rparr>)"
  by (simp add: parse_line_def parse_field_def split_once_def strip_prefix_def)

lemma strip_cr_named:
  assumes "field_ok v"
  shows "strip_cr (''event: '' @ v) = ''event: '' @ v" "strip_cr (''data: '' @ v) = ''data: '' @ v"
  using strip_cr_field[OF assms, of "''event:''"] strip_cr_field[OF assms, of "''data:''"] by simp_all

lemma utf8_valid_named:
  assumes "utf8_valid v"
  shows "utf8_valid (''event: '' @ v)" "utf8_valid (''data: '' @ v)"
  using assms by (simp_all add: byte_def)

lemma feed_event_line:
  assumes "utf8_valid v" and "LF \<notin> set v" and "field_ok v"
  shows "feed_loop (p\<lparr>sp_buffer := ''event: '' @ v @ LF # rest\<rparr>) frames =
         feed_loop (p\<lparr>sp_event := Some v, sp_buffer := rest\<rparr>) frames"
proof -
  have "LF \<notin> set (''event: '' @ v)" using assms(2) by (simp add: LF_def)
  from feed_loop_line[OF this, where p = p and rest = rest and frames = frames] show ?thesis
    using utf8_valid_named(1)[OF assms(1)]
    by (simp only: strip_cr_named(1)[OF assms(3)] parse_event_line) simp
qed

lemma feed_data_lines:
  assumes "\<forall>v \<in> set vs. utf8_valid v \<and> LF \<notin> set v \<and> field_ok v"
  shows "feed_loop (p\<lparr>sp_buffer := concat (map (\<lambda>v. ''data: '' @ v @ [LF]) vs) @ rest\<rparr>) frames =
         feed_loop (p\<lparr>sp_data := sp_data p @ vs, sp_buffer := rest\<rparr>) frames"
  using assms
proof (induction vs arbitrary: p)
  case (Cons v vs)
  let ?rest = "concat (map (\<lambda>v. ''data: '' @ v @ [LF]) vs) @ rest"
  have "LF \<notin> set (''data: '' @ v)" using Cons.prems by (simp add: LF_def)
  from feed_loop_line[OF this, where p = p and rest = ?rest and frames = frames]
  have "feed_loop (p\<lparr>sp_buffer := (''data: '' @ v) @ LF # ?rest\<rparr>) frames =
      feed_loop (p\<lparr>sp_data := sp_data p @ [v], sp_buffer := ?rest\<rparr>) frames"
    using utf8_valid_named(2)[of v] Cons.prems
    by (simp only: strip_cr_named(2)[of v] parse_data_line list.set_intros ball_simps) simp
  then show ?case using Cons.IH[of "p\<lparr>sp_data := sp_data p @ [v]\<rparr>"] Cons.prems by simp
qed simp

lemma cleared_fields: "sp_event p = None \<Longrightarrow> p\<lparr>sp_event := None\<rparr> = p" "sp_data p = [] \<Longrightarrow> p\<lparr>sp_data := []\<rparr> = p"
  by (cases p; simp)+

lemma feed_rendered:
  assumes "frame_ok f" and "sp_event p = None" and "sp_data p = []"
  shows "feed_loop (p\<lparr>sp_buffer := render f @ rest\<rparr>) frames =
         feed_loop (p\<lparr>sp_buffer := rest\<rparr>) (frames @ [f])"
proof -
  let ?vs = "split_on LF (sf_data f)"
  let ?lines = "concat (map (\<lambda>v. ''data: '' @ v @ [LF]) ?vs)"
  have vs: "\<forall>v \<in> set ?vs. utf8_valid v \<and> LF \<notin> set v \<and> field_ok v"
    using assms(1) utf8_valid_split_on[OF LF_ascii] split_on_no_sep
    by (auto simp: frame_ok_def list_all_iff)
  have ev: "feed_loop (p\<lparr>sp_buffer := render f @ rest\<rparr>) frames =
      feed_loop (p\<lparr>sp_event := sf_event f, sp_buffer := ?lines @ LF # rest\<rparr>) frames"
  proof (cases "sf_event f")
    case None
    then show ?thesis using cleared_fields(1)[OF assms(2)] by (simp add: render_def)
  next
    case (Some e)
    then show ?thesis using assms(1) feed_event_line[of e, where p = p and rest = "?lines @ LF # rest" and frames = frames]
      by (simp add: render_def frame_ok_def)
  qed
  have "feed_loop (p\<lparr>sp_event := sf_event f, sp_buffer := ?lines @ LF # rest\<rparr>) frames =
      feed_loop (p\<lparr>sp_event := sf_event f, sp_data := ?vs, sp_buffer := [] @ LF # rest\<rparr>) frames"
    using feed_data_lines[OF vs, where p = "p\<lparr>sp_event := sf_event f\<rparr>" and rest = "LF # rest"
        and frames = frames] assms(3) by simp
  also have "\<dots> = feed_loop (p\<lparr>sp_buffer := rest\<rparr>) (frames @ [f])"
    using feed_loop_line[where l = "[]" and p = "p\<lparr>sp_event := sf_event f, sp_data := ?vs\<rparr>"
        and rest = rest and frames = frames] assms(2,3)
    by (cases p; cases f) (simp add: strip_cr_def parse_line_def flush_def join_split_on)
  finally show ?thesis using ev by simp
qed

lemma feed_rendered_all:
  assumes "list_all frame_ok fs" and "sp_event p = None" and "sp_data p = []"
  shows "feed_loop (p\<lparr>sp_buffer := concat (map render fs) @ rest\<rparr>) frames =
         feed_loop (p\<lparr>sp_buffer := rest\<rparr>) (frames @ fs)"
  using assms by (induction fs arbitrary: frames) (simp_all add: feed_rendered)

text \<open>\<open>C36\<close>. What the gateway renders is what a client's parser reads, however the network cuts
  it: the frames come back unchanged, line breaks in the data included, and the parser is
  left empty. The frames are valid UTF-8, an event name has no line break, and no line ends
  in a carriage return, which the parser takes as part of the line ending.\<close>

theorem render_parse_roundtrip:
  assumes "list_all frame_ok fs" and "concat cs = concat (map render fs)"
  shows "feed_chunks cs parser_new = (Inr fs, parser_new)"
proof -
  have "feed_bytes (concat cs) parser_new = (Inr fs, parser_new)"
    using feed_rendered_all[OF assms(1), of parser_new "[]" "[]"] assms(2)
    by (simp add: feed_bytes_def parser_new_def feed_loop_stop)
  then show ?thesis using feed_chunks_concat[of parser_new cs] by (simp add: parser_new_def)
qed

text \<open>
  Two limits of the parser. The frames a chunk completed before a line that is not valid
  UTF-8 are lost with it, so whether a client still gets them depends on the chunks; and the
  rest of a stream without a final line break is trimmed and read as a data line only, so a
  last line with an event name is dropped.
\<close>

theorem invalid_line_loses_frames:
  "fst (feed_bytes (''data: a'' @ [LF, LF, CHR 0xFF, LF]) parser_new) = Inl (Invalid_Utf8 [CHR 0xFF])"
  "fst (feed_bytes (''data: a'' @ [LF, LF]) parser_new) = Inr [data_frame ''a'']"
  by code_simp+

theorem unfinished_event_name_dropped:
  "fst (finish_bytes (snd (feed_bytes ''event: done'' parser_new))) = Inr None"
  "fst (feed_bytes (''event: done'' @ [LF, LF]) parser_new) = Inr [named_frame ''done'' []]"
  by code_simp+

theorem render_parse_roundtrip_witness:
  "feed_chunks [''event: e'' @ [LF] @ ''da'', ''ta: '' @ [CHR 0xC3], [CHR 0xA9, LF] @ ''data: '' @ [LF, LF]] parser_new
   = (Inr [named_frame ''e'' [CHR 0xC3, CHR 0xA9, LF]], parser_new)"
proof -
  have "list_all frame_ok [named_frame ''e'' [CHR 0xC3, CHR 0xA9, LF]]" by code_simp
  moreover have "concat [''event: e'' @ [LF] @ ''da'', ''ta: '' @ [CHR 0xC3], [CHR 0xA9, LF] @ ''data: '' @ [LF, LF]]
      = concat (map render [named_frame ''e'' [CHR 0xC3, CHR 0xA9, LF]])" by code_simp
  ultimately show ?thesis by (rule render_parse_roundtrip)
qed

end
