(* ===== verification/Ir.thy ===== *)
theory Ir
  imports Json Protocol
begin

section \<open>The unified representation\<close>

text \<open>
  \<open>crates/refract-protocol/src/ir.rs\<close>: what requests and responses of the four protocols are
  converted to and from. Unsigned 64-bit counters are natural numbers with their saturation
  written out; the thinking budget is computed on 32-bit words, where the code's
  multiplication can wrap. The base64 encoder is a parameter.
\<close>

datatype role = System | User | Assistant | Tool

datatype media_source = Url string | Base64 string | FileId string | TextSource string

text \<open>\<open>Extensions\<close> is a \<open>BTreeMap\<close>: its entries are kept in the order of their keys.\<close>

type_synonym extensions = "(string \<times> json) list"

subsection \<open>Data URIs\<close>

definition parse_data_uri :: "string \<Rightarrow> media_source \<times> string option" where
  "parse_data_uri raw = (
     case Option.bind (strip_prefix ''data:'' raw) (split_once (CHR '','')) of
       Some (meta, payload) \<Rightarrow>
         (let first = hd (split_on (CHR '';'') meta);
              mime = (if first = [] then None else Some first)
          in if contains_sub ''base64'' meta then (Base64 payload, mime) else (Url raw, None))
     | None \<Rightarrow> (Url raw, None))"

fun to_data_uri :: "(string \<Rightarrow> string) \<Rightarrow> media_source \<Rightarrow> string option \<Rightarrow> string" where
  "to_data_uri b64 (Url u) mime = u"
| "to_data_uri b64 (Base64 payload) mime =
     ''data:'' @ (case mime of Some m \<Rightarrow> m | None \<Rightarrow> ''application/octet-stream'') @ '';base64,'' @ payload"
| "to_data_uri b64 (FileId i) mime = i"
| "to_data_uri b64 (TextSource t) mime =
     ''data:'' @ (case mime of Some m \<Rightarrow> m | None \<Rightarrow> ''text/plain'') @ '';base64,'' @ b64 t"

subsection \<open>Content, messages, requests and responses\<close>

datatype content_part =
    TextPart string
  | ImagePart media_source "string option" "string option"
  | AudioPart media_source "string option"
  | FilePart media_source "string option" "string option"
  | ThinkingPart string "string option"
  | RedactedThinking string
  | ToolUsePart string string json "string option"
  | ToolResult string "string option" "content_part list" bool
  | RefusalPart string
  | Opaque string json

fun as_text :: "content_part \<Rightarrow> string option" where
  "as_text (TextPart t) = Some t"
| "as_text _ = None"

record message =
  msg_role :: role
  msg_content :: "content_part list"
  msg_name :: "string option"

definition message_new :: "role \<Rightarrow> content_part list \<Rightarrow> message" where
  "message_new r c = \<lparr>msg_role = r, msg_content = c, msg_name = None\<rparr>"

text \<open>The concatenated text parts, as the loops of \<open>text_content\<close> and \<open>text\<close> build them.\<close>

fun text_of_parts :: "content_part list \<Rightarrow> string" where
  "text_of_parts [] = []"
| "text_of_parts (p # ps) = (case p of TextPart t \<Rightarrow> t @ text_of_parts ps | _ \<Rightarrow> text_of_parts ps)"

definition text_content :: "message \<Rightarrow> string" where
  "text_content m = text_of_parts (msg_content m)"

definition is_plain_text :: "message \<Rightarrow> bool" where
  "is_plain_text m \<longleftrightarrow> msg_content m \<noteq> []
     \<and> list_all (\<lambda>p. case p of TextPart _ \<Rightarrow> True | _ \<Rightarrow> False) (msg_content m)"

record tool_def =
  td_name :: string
  td_description :: "string option"
  td_parameters :: json
  td_strict :: "bool option"

datatype tool_choice = Unspecified | AutoChoice | Required | NoTool | NamedTool string

record sampling =
  sa_temperature :: "f64 option"
  sa_top_p :: "f64 option"
  sa_top_k :: "32 word option"
  sa_frequency_penalty :: "f64 option"
  sa_presence_penalty :: "f64 option"
  sa_stop :: "string list"
  sa_seed :: "64 word option"
  sa_candidate_count :: "32 word option"

record reasoning_config =
  rc_effort :: "string option"
  rc_budget_tokens :: "32 word option"
  rc_include_thoughts :: "bool option"

definition output_ceiling :: "32 word option \<Rightarrow> 32 word" where
  "output_ceiling max_output = (case max_output of Some n \<Rightarrow> n | None \<Rightarrow> 32000)"

definition budget_or_from_effort :: "32 word option \<Rightarrow> reasoning_config \<Rightarrow> 32 word option" where
  "budget_or_from_effort max_output c = (
     case rc_budget_tokens c of Some b \<Rightarrow> Some b
     | None \<Rightarrow> (case rc_effort c of None \<Rightarrow> None
     | Some effort \<Rightarrow>
         let ceiling = output_ceiling max_output in
         if ceiling \<le> 1024 then None
         else
           let budget = (if effort = ''low'' then Some (ceiling div 5)
                 else if effort = ''medium'' then Some (ceiling div 2)
                 else if effort = ''high'' then Some (ceiling * 4 div 5) else None)
           in map_option (\<lambda>b. min (max b 1024) (ceiling - 1)) budget))"

text \<open>
  The code divides as \<open>f64\<close> and compares with 0.65 and 0.35. Both operands are below \<open>2^32\<close>,
  so the quotient differs from 13/20 and 7/20 by nothing or by more than the rounding error,
  and the comparisons are the integer ones written here.
\<close>

definition effort_or_from_budget :: "32 word option \<Rightarrow> reasoning_config \<Rightarrow> string option" where
  "effort_or_from_budget max_output c = (
     case rc_effort c of
       Some e \<Rightarrow> Some (if e = ''minimal'' \<or> e = ''none'' then ''minimal''
                       else if e = ''low'' then ''low''
                       else if e = ''high'' then ''high'' else ''medium'')
     | None \<Rightarrow> map_option (\<lambda>b.
         let ceiling = max 1 (unat (output_ceiling max_output))
         in if 20 * unat b \<ge> 13 * ceiling then ''high''
            else if 20 * unat b \<ge> 7 * ceiling then ''medium'' else ''low'')
         (rc_budget_tokens c))"

datatype response_format = TextFormat | JsonObjectFormat | JsonSchemaFormat string json bool

record unified_request =
  ur_model :: string
  ur_system :: "content_part list"
  ur_messages :: "message list"
  ur_tools :: "tool_def list"
  ur_tool_choice :: tool_choice
  ur_parallel_tool_calls :: "bool option"
  ur_sampling :: sampling
  ur_max_output_tokens :: "32 word option"
  ur_stream :: bool
  ur_stream_include_usage :: bool
  ur_reasoning :: "reasoning_config option"
  ur_response_format :: "response_format option"
  ur_user :: "string option"
  ur_extensions :: extensions

fun system_text_from :: "string \<Rightarrow> content_part list \<Rightarrow> string" where
  "system_text_from out [] = out"
| "system_text_from out (p # ps) = (case p of
     TextPart t \<Rightarrow> system_text_from ((if out = [] then out else out @ [CHR 0x0A]) @ t) ps
   | _ \<Rightarrow> system_text_from out ps)"

definition system_text :: "unified_request \<Rightarrow> string" where
  "system_text r = system_text_from [] (ur_system r)"

definition sampling_default :: sampling where
  "sampling_default = \<lparr>sa_temperature = None, sa_top_p = None, sa_top_k = None,
     sa_frequency_penalty = None, sa_presence_penalty = None, sa_stop = [], sa_seed = None,
     sa_candidate_count = None\<rparr>"

definition request_new :: "string \<Rightarrow> message list \<Rightarrow> unified_request" where
  "request_new model ms = \<lparr>ur_model = model, ur_system = [], ur_messages = ms, ur_tools = [],
     ur_tool_choice = Unspecified, ur_parallel_tool_calls = None, ur_sampling = sampling_default,
     ur_max_output_tokens = None, ur_stream = False, ur_stream_include_usage = False,
     ur_reasoning = None, ur_response_format = None, ur_user = None, ur_extensions = []\<rparr>"

definition req_extension :: "unified_request \<Rightarrow> string \<Rightarrow> json option" where
  "req_extension r k = map_of (ur_extensions r) k"

definition set_extension :: "string \<Rightarrow> json \<Rightarrow> unified_request \<Rightarrow> unified_request" where
  "set_extension k v r = r\<lparr>ur_extensions := btree_insert k v (ur_extensions r)\<rparr>"

datatype stop_reason =
  Stop | MaxTokens | StopSequence | ToolUseStop | ContentFilter | RefusalStop | PauseTurn | OtherStop

record usage =
  us_input_tokens :: nat
  us_output_tokens :: nat
  us_cached_input_tokens :: nat
  us_cache_write_tokens :: nat
  us_reasoning_tokens :: nat

definition usage_default :: usage where
  "usage_default = \<lparr>us_input_tokens = 0, us_output_tokens = 0, us_cached_input_tokens = 0,
     us_cache_write_tokens = 0, us_reasoning_tokens = 0\<rparr>"

definition sat_add :: "nat \<Rightarrow> nat \<Rightarrow> nat" where
  "sat_add a b = min (2 ^ 64 - 1) (a + b)"

text \<open>The sum wraps in a release build (the build profile leaves overflow checks off).\<close>

definition usage_total :: "usage \<Rightarrow> nat" where
  "usage_total u = (us_input_tokens u + us_output_tokens u) mod 2 ^ 64"

definition usage_is_empty :: "usage \<Rightarrow> bool" where
  "usage_is_empty u \<longleftrightarrow> us_input_tokens u = 0 \<and> us_output_tokens u = 0"

definition billing_normalized :: "protocol \<Rightarrow> usage \<Rightarrow> usage" where
  "billing_normalized upstream u = (if upstream = Messages
     then u\<lparr>us_input_tokens := sat_add (sat_add (us_input_tokens u) (us_cached_input_tokens u))
                                     (us_cache_write_tokens u)\<rparr>
     else u)"

definition merge_max :: "usage \<Rightarrow> usage \<Rightarrow> usage" where
  "merge_max u v = \<lparr>us_input_tokens = max (us_input_tokens u) (us_input_tokens v),
     us_output_tokens = max (us_output_tokens u) (us_output_tokens v),
     us_cached_input_tokens = max (us_cached_input_tokens u) (us_cached_input_tokens v),
     us_cache_write_tokens = max (us_cache_write_tokens u) (us_cache_write_tokens v),
     us_reasoning_tokens = max (us_reasoning_tokens u) (us_reasoning_tokens v)\<rparr>"

definition merge_sum :: "usage \<Rightarrow> usage \<Rightarrow> usage" where
  "merge_sum u v = \<lparr>us_input_tokens = sat_add (us_input_tokens u) (us_input_tokens v),
     us_output_tokens = sat_add (us_output_tokens u) (us_output_tokens v),
     us_cached_input_tokens = sat_add (us_cached_input_tokens u) (us_cached_input_tokens v),
     us_cache_write_tokens = sat_add (us_cache_write_tokens u) (us_cache_write_tokens v),
     us_reasoning_tokens = sat_add (us_reasoning_tokens u) (us_reasoning_tokens v)\<rparr>"

record unified_response =
  rs_id :: string
  rs_model :: string
  rs_created :: int
  rs_content :: "content_part list"
  rs_stop_reason :: "stop_reason option"
  rs_stop_sequence :: "string option"
  rs_usage :: usage
  rs_extensions :: extensions

definition response_new :: "string \<Rightarrow> string \<Rightarrow> int \<Rightarrow> unified_response" where
  "response_new i model now = \<lparr>rs_id = i, rs_model = model, rs_created = now, rs_content = [],
     rs_stop_reason = None, rs_stop_sequence = None, rs_usage = usage_default, rs_extensions = []\<rparr>"

definition response_text :: "unified_response \<Rightarrow> string" where
  "response_text r = text_of_parts (rs_content r)"

fun tool_uses_of :: "content_part list \<Rightarrow> (string \<times> string \<times> json) list" where
  "tool_uses_of [] = []"
| "tool_uses_of (p # ps) = (case p of
     ToolUsePart i n v _ \<Rightarrow> (i, n, v) # tool_uses_of ps | _ \<Rightarrow> tool_uses_of ps)"

subsection \<open>Usage\<close>

lemma merge_max_commute: "merge_max u v = merge_max v u"
  by (simp add: merge_max_def max.commute)

lemma merge_max_assoc: "merge_max (merge_max u v) w = merge_max u (merge_max v w)"
  by (simp add: merge_max_def max.assoc)

lemma merge_max_idem: "merge_max u u = u"
  by (simp add: merge_max_def)

lemma merge_max_default: "merge_max usage_default u = u"
  by (simp add: merge_max_def usage_default_def)

lemma merge_max_upper:
  "us_input_tokens u \<le> us_input_tokens (merge_max u v)"
  "us_output_tokens u \<le> us_output_tokens (merge_max u v)"
  by (simp_all add: merge_max_def)

subsection \<open>Data URIs round-trip\<close>

lemma split_once_hit: "c \<notin> set a \<Longrightarrow> split_once c (a @ c # b) = Some (a, b)"
  by (auto simp: split_once_def takeWhile_append dropWhile_append)

lemma split_on_hit: "c \<notin> set a \<Longrightarrow> split_on c (a @ c # b) = a # split_on c b"
  by (induction a) auto

text \<open>Inline media survives the conversion: a base64 payload with a media type written as
  a data URI is read back as the same payload and media type.\<close>

theorem data_uri_roundtrip:
  assumes "m \<noteq> []" and "CHR '','' \<notin> set m" and "CHR '';'' \<notin> set m"
  shows "parse_data_uri (to_data_uri b64 (Base64 payload) (Some m)) = (Base64 payload, Some m)"
proof -
  let ?meta = "m @ CHR '';'' # ''base64''"
  have "CHR '','' \<notin> set ?meta" using assms(2) by simp
  then have "split_once (CHR '','') (?meta @ CHR '','' # payload) = Some (?meta, payload)"
    by (rule split_once_hit)
  moreover have "strip_prefix ''data:'' (to_data_uri b64 (Base64 payload) (Some m))
      = Some (?meta @ CHR '','' # payload)"
    by (simp add: strip_prefix_def)
  moreover have "contains_sub ''base64'' ?meta"
    unfolding contains_sub_iff by (rule exI[of _ "m @ '';''"], rule exI[of _ "[]"]) simp
  moreover have "split_on (CHR '';'') ?meta = m # split_on (CHR '';'') ''base64''"
    using assms(3) by (rule split_on_hit)
  ultimately show ?thesis using assms(1) unfolding parse_data_uri_def by simp
qed

subsection \<open>Thinking budgets\<close>

definition effort_config :: "string \<Rightarrow> reasoning_config" where
  "effort_config e = \<lparr>rc_effort = Some e, rc_budget_tokens = None, rc_include_thoughts = None\<rparr>"

definition budget_config :: "32 word \<Rightarrow> reasoning_config" where
  "budget_config b = \<lparr>rc_effort = None, rc_budget_tokens = Some b, rc_include_thoughts = None\<rparr>"

text \<open>A budget derived from an effort is one the upstream accepts: at least 1024 and below
  the output limit, for every limit of 32 bits (the wrap-around included).\<close>

theorem derived_budget_valid:
  assumes "rc_budget_tokens c = None" and "budget_or_from_effort max_output c = Some b"
  shows "1024 \<le> b \<and> b < output_ceiling max_output"
proof -
  let ?n = "output_ceiling max_output"
  obtain x where n: "\<not> ?n \<le> 1024" and b: "b = min (max x 1024) (?n - 1)"
    using assms by (auto simp: budget_or_from_effort_def Let_def split: option.splits if_splits)
  have "1024 < ?n" using n by simp
  then have "?n - 1 < ?n" and "1024 \<le> ?n - 1"
    by unat_arith+
  then show ?thesis unfolding b by (auto simp: min_def max_def)
qed

lemma unat_min_max:
  "unat (min a b :: 32 word) = min (unat a) (unat b)" "unat (max a b :: 32 word) = max (unat a) (unat b)"
  by (simp_all add: min_def max_def word_le_nat_alt)

lemma unat_budget:
  assumes "5120 \<le> unat (n :: 32 word)" and "1024 \<le> unat x" and "unat x < unat n"
  shows "min (max x 1024) (n - 1) = x"
proof -
  have "1024 \<le> x" using assms(2) by (simp add: word_le_nat_alt)
  moreover have "x \<le> n - 1" using assms(3) by unat_arith
  ultimately show ?thesis by (simp add: max_def min_def)
qed

text \<open>The two notations of thinking agree: for an output limit large enough that the
  smallest budget does not interfere and small enough that the multiplication does not wrap,
  turning an effort into a budget and the budget into an effort gives the effort back.\<close>

theorem effort_roundtrip:
  assumes "5120 \<le> unat n" and "unat n < 2 ^ 30" and "e \<in> {''low'', ''medium'', ''high''}"
  shows "Option.bind (budget_or_from_effort (Some n) (effort_config e))
           (\<lambda>b. effort_or_from_budget (Some n) (budget_config b)) = Some e"
proof -
  have big: "\<not> n \<le> 1024" using assms(1) by (simp add: word_le_nat_alt)
  have u: "unat (n div 5) = unat n div 5" "unat (n div 2) = unat n div 2"
    by (simp_all add: unat_div)
  have "unat (n * 4) = unat n * 4" using assms(2) by (simp add: unat_word_ariths)
  then have u4: "unat (n * 4 div 5) = unat n * 4 div 5" by (simp add: unat_div)
  have low: "min (max (n div 5) 1024) (n - 1) = n div 5"
    and medium: "min (max (n div 2) 1024) (n - 1) = n div 2"
    and high: "min (max (n * 4 div 5) 1024) (n - 1) = n * 4 div 5"
    using assms(1) by (auto intro!: unat_budget simp: u u4)
  show ?thesis using assms big
    by (auto simp: budget_or_from_effort_def effort_or_from_budget_def effort_config_def
        budget_config_def output_ceiling_def Let_def low medium high u u4)
qed

text \<open>Beyond that limit the multiplication wraps: the highest effort then gets the smallest
  budget, below that of the lower efforts.\<close>

theorem high_effort_wraps:
  "budget_or_from_effort (Some (2 ^ 30)) (effort_config ''high'') = Some 1024"
  "budget_or_from_effort (Some (2 ^ 30)) (effort_config ''low'') = Some 214748364"
  by (simp_all add: budget_or_from_effort_def effort_config_def output_ceiling_def)

subsection \<open>Witnesses\<close>

theorem data_uri_roundtrip_witness:
  "parse_data_uri (to_data_uri (\<lambda>t. t) (Base64 ''QUJD'') (Some ''image/png'')) = (Base64 ''QUJD'', Some ''image/png'')"
  by (rule data_uri_roundtrip) simp_all

theorem derived_budget_valid_witness: "(1024 :: 32 word) \<le> 16000 \<and> (16000 :: 32 word) < 32000"
proof -
  have "budget_or_from_effort None (effort_config ''medium'') = Some 16000"
    by (simp add: budget_or_from_effort_def effort_config_def output_ceiling_def)
  from derived_budget_valid[OF _ this] show ?thesis by (simp add: effort_config_def output_ceiling_def)
qed

theorem effort_roundtrip_witness:
  "Option.bind (budget_or_from_effort (Some 8000) (effort_config ''high''))
     (\<lambda>b. effort_or_from_budget (Some 8000) (budget_config b)) = Some ''high''"
  by (rule effort_roundtrip) simp_all

end
