(* ===== verification/Stream_Agg.thy ===== *)
theory Stream_Agg
  imports Prelude Ir
begin

section \<open>Stream events and their aggregation\<close>

text \<open>
  The event model and \<open>StreamAggregator\<close> of \<open>crates/refract-protocol/src/stream.rs\<close>: a
  stream of events is folded into content blocks, filed under their index and kind. The JSON
  parser that reads the collected tool arguments is a parameter.
\<close>

datatype part_kind = KText | KThinking | KToolUse | KRefusal

datatype stream_event =
    Start string string "usage option"
  | ContentStart nat part_kind
  | TextDelta nat string
  | ThinkingDelta nat string
  | ThinkingSignature nat string
  | RefusalDelta nat string
  | ToolCallStart nat string string "string option"
  | ToolCallArgsDelta nat string
  | ContentStop nat
  | UsageEvent usage
  | StopEvent stop_reason "string option"
  | Done
  | ErrorEvent string string
  | Ping

fun is_terminal :: "stream_event \<Rightarrow> bool" where
  "is_terminal Done = True"
| "is_terminal (ErrorEvent _ _) = True"
| "is_terminal _ = False"

fun event_index :: "stream_event \<Rightarrow> nat option" where
  "event_index (ContentStart i _) = Some i"
| "event_index (TextDelta i _) = Some i"
| "event_index (ThinkingDelta i _) = Some i"
| "event_index (ThinkingSignature i _) = Some i"
| "event_index (RefusalDelta i _) = Some i"
| "event_index (ToolCallStart i _ _ _) = Some i"
| "event_index (ToolCallArgsDelta i _) = Some i"
| "event_index (ContentStop i) = Some i"
| "event_index _ = None"

datatype block_accum =
    TextBlock string
  | ThinkingBlock string "string option"
  | ToolUseBlock string string string "string option"
  | RefusalBlock string

record aggregator =
  sg_id :: string
  sg_model :: string
  sg_stop_reason :: "stop_reason option"
  sg_stop_sequence :: "string option"
  sg_usage :: usage
  sg_blocks :: "(nat \<times> block_accum) list"

definition aggregator_new :: aggregator where
  "aggregator_new = \<lparr>sg_id = [], sg_model = [], sg_stop_reason = None, sg_stop_sequence = None,
     sg_usage = usage_default, sg_blocks = []\<rparr>"

fun fresh_block :: "part_kind \<Rightarrow> block_accum" where
  "fresh_block KText = TextBlock []"
| "fresh_block KThinking = ThinkingBlock [] None"
| "fresh_block KToolUse = ToolUseBlock [] [] [] None"
| "fresh_block KRefusal = RefusalBlock []"

fun matches_kind :: "block_accum \<Rightarrow> part_kind \<Rightarrow> bool" where
  "matches_kind (TextBlock _) k = (k = KText)"
| "matches_kind (ThinkingBlock _ _) k = (k = KThinking)"
| "matches_kind (ToolUseBlock _ _ _ _) k = (k = KToolUse)"
| "matches_kind (RefusalBlock _) k = (k = KRefusal)"

definition find_block :: "nat \<Rightarrow> part_kind \<Rightarrow> (nat \<times> block_accum) list \<Rightarrow> nat option" where
  "find_block i k bs = position (\<lambda>(j, b). j = i \<and> matches_kind b k) bs"

definition set_block :: "nat \<Rightarrow> part_kind \<Rightarrow> (nat \<times> block_accum) list \<Rightarrow> (nat \<times> block_accum) list" where
  "set_block i k bs = (if find_block i k bs = None then bs @ [(i, fresh_block k)] else bs)"

text \<open>\<open>ensure\<close> returns a reference into the list; here it takes the update made through it.\<close>

definition ensure_block ::
  "nat \<Rightarrow> part_kind \<Rightarrow> (block_accum \<Rightarrow> block_accum) \<Rightarrow> (nat \<times> block_accum) list \<Rightarrow> (nat \<times> block_accum) list"
where
  "ensure_block i k upd bs = (case find_block i k bs of
     Some pos \<Rightarrow> bs[pos := (fst (bs ! pos), upd (snd (bs ! pos)))]
   | None \<Rightarrow> bs @ [(i, upd (fresh_block k))])"

fun push_text :: "string \<Rightarrow> block_accum \<Rightarrow> block_accum" where
  "push_text t (TextBlock b) = TextBlock (b @ t)"
| "push_text t b = b"

fun push_thinking :: "string \<Rightarrow> block_accum \<Rightarrow> block_accum" where
  "push_thinking t (ThinkingBlock b s) = ThinkingBlock (b @ t) s"
| "push_thinking t b = b"

fun set_signature :: "string \<Rightarrow> block_accum \<Rightarrow> block_accum" where
  "set_signature s (ThinkingBlock b _) = ThinkingBlock b (Some s)"
| "set_signature s b = b"

fun push_refusal :: "string \<Rightarrow> block_accum \<Rightarrow> block_accum" where
  "push_refusal t (RefusalBlock b) = RefusalBlock (b @ t)"
| "push_refusal t b = b"

fun set_tool :: "string \<Rightarrow> string \<Rightarrow> string option \<Rightarrow> block_accum \<Rightarrow> block_accum" where
  "set_tool i n s (ToolUseBlock i0 n0 a s0) =
     ToolUseBlock (if i \<noteq> [] then i else i0) (if n \<noteq> [] then n else n0) a (if s \<noteq> None then s else s0)"
| "set_tool i n s b = b"

fun push_args :: "string \<Rightarrow> block_accum \<Rightarrow> block_accum" where
  "push_args f (ToolUseBlock i n a s) = ToolUseBlock i n (a @ f) s"
| "push_args f b = b"

fun absorb :: "stream_event \<Rightarrow> aggregator \<Rightarrow> aggregator" where
  "absorb (Start i m u) g = (let g1 = g\<lparr>sg_id := i, sg_model := m\<rparr> in
     case u of Some v \<Rightarrow> g1\<lparr>sg_usage := merge_max (sg_usage g1) v\<rparr> | None \<Rightarrow> g1)"
| "absorb (ContentStart i k) g = g\<lparr>sg_blocks := set_block i k (sg_blocks g)\<rparr>"
| "absorb (TextDelta i t) g = g\<lparr>sg_blocks := ensure_block i KText (push_text t) (sg_blocks g)\<rparr>"
| "absorb (ThinkingDelta i t) g =
     g\<lparr>sg_blocks := ensure_block i KThinking (push_thinking t) (sg_blocks g)\<rparr>"
| "absorb (ThinkingSignature i s) g =
     g\<lparr>sg_blocks := ensure_block i KThinking (set_signature s) (sg_blocks g)\<rparr>"
| "absorb (RefusalDelta i t) g =
     g\<lparr>sg_blocks := ensure_block i KRefusal (push_refusal t) (sg_blocks g)\<rparr>"
| "absorb (ToolCallStart i c n s) g =
     g\<lparr>sg_blocks := ensure_block i KToolUse (set_tool c n s) (sg_blocks g)\<rparr>"
| "absorb (ToolCallArgsDelta i f) g =
     g\<lparr>sg_blocks := ensure_block i KToolUse (push_args f) (sg_blocks g)\<rparr>"
| "absorb (UsageEvent u) g = g\<lparr>sg_usage := merge_max (sg_usage g) u\<rparr>"
| "absorb (StopEvent r q) g = (let g1 = g\<lparr>sg_stop_reason := Some r\<rparr> in
     if q \<noteq> None then g1\<lparr>sg_stop_sequence := q\<rparr> else g1)"
| "absorb (ContentStop _) g = g"
| "absorb Done g = g"
| "absorb Ping g = g"
| "absorb (ErrorEvent _ _) g = g"

fun block_content :: "(string \<Rightarrow> json option) \<Rightarrow> block_accum \<Rightarrow> content_part list" where
  "block_content parse_json (TextBlock t) = (if t = [] then [] else [TextPart t])"
| "block_content parse_json (ThinkingBlock t s) = (if t = [] \<and> s = None then [] else [ThinkingPart t s])"
| "block_content parse_json (ToolUseBlock i n a s) =
     [ToolUsePart i n (if trim a = [] then JObj []
        else (case parse_json a of Some v \<Rightarrow> v | None \<Rightarrow> JStr a)) s]"
| "block_content parse_json (RefusalBlock t) = (if t = [] then [] else [RefusalPart t])"

definition into_content :: "(string \<Rightarrow> json option) \<Rightarrow> aggregator \<Rightarrow> content_part list" where
  "into_content parse_json g = concat (map (\<lambda>(_, b). block_content parse_json b) (sort_key fst (sg_blocks g)))"

fun preview_block :: "block_accum \<Rightarrow> string" where
  "preview_block (TextBlock t) = t"
| "preview_block (ThinkingBlock t _) = ''[thinking]'' @ [CHR 0x0A] @ t"
| "preview_block (RefusalBlock t) = ''[refusal]'' @ [CHR 0x0A] @ t"
| "preview_block (ToolUseBlock _ n a _) = ''[tool_call '' @ n @ '']'' @ [CHR 0x0A] @ a"

definition text_preview :: "aggregator \<Rightarrow> string" where
  "text_preview g = fold (\<lambda>(_, b) out.
     (if out = [] then [] else out @ [CHR 0x0A, CHR 0x0A]) @ preview_block b) (sg_blocks g) []"

subsection \<open>Blocks by index and kind\<close>

text \<open>The block filed under an index and a kind, and what an event does to it.\<close>

fun kind_of :: "block_accum \<Rightarrow> part_kind" where
  "kind_of (TextBlock _) = KText"
| "kind_of (ThinkingBlock _ _) = KThinking"
| "kind_of (ToolUseBlock _ _ _ _) = KToolUse"
| "kind_of (RefusalBlock _) = KRefusal"

definition block_key :: "nat \<times> block_accum \<Rightarrow> nat \<times> part_kind" where
  "block_key e = (fst e, kind_of (snd e))"

definition block_at :: "aggregator \<Rightarrow> nat \<Rightarrow> part_kind \<Rightarrow> block_accum option" where
  "block_at g i k = map_of (map (\<lambda>e. (block_key e, snd e)) (sg_blocks g)) (i, k)"

fun event_key :: "stream_event \<Rightarrow> (nat \<times> part_kind) option" where
  "event_key (ContentStart i k) = Some (i, k)"
| "event_key (TextDelta i _) = Some (i, KText)"
| "event_key (ThinkingDelta i _) = Some (i, KThinking)"
| "event_key (ThinkingSignature i _) = Some (i, KThinking)"
| "event_key (RefusalDelta i _) = Some (i, KRefusal)"
| "event_key (ToolCallStart i _ _ _) = Some (i, KToolUse)"
| "event_key (ToolCallArgsDelta i _) = Some (i, KToolUse)"
| "event_key _ = None"

fun event_update :: "stream_event \<Rightarrow> block_accum \<Rightarrow> block_accum" where
  "event_update (TextDelta _ t) = push_text t"
| "event_update (ThinkingDelta _ t) = push_thinking t"
| "event_update (ThinkingSignature _ s) = set_signature s"
| "event_update (RefusalDelta _ t) = push_refusal t"
| "event_update (ToolCallStart _ c n s) = set_tool c n s"
| "event_update (ToolCallArgsDelta _ f) = push_args f"
| "event_update _ = (\<lambda>b. b)"

lemma matches_kind_of: "matches_kind b k \<longleftrightarrow> kind_of b = k"
  by (cases b) auto

lemma kind_of_fresh [simp]: "kind_of (fresh_block k) = k"
  by (cases k) auto

lemma kind_of_event_update [simp]: "kind_of (event_update e b) = kind_of b"
  by (cases e; cases b) auto

definition blocks_ok :: "aggregator \<Rightarrow> bool" where
  "blocks_ok g \<longleftrightarrow> distinct (map block_key (sg_blocks g))"

lemma position_map_of:
  "(case position (\<lambda>e. f e = x) xs of Some p \<Rightarrow> Some (g (xs ! p)) | None \<Rightarrow> None) =
   map_of (map (\<lambda>e. (f e, g e)) xs) x"
  by (induction xs) (auto simp del: position_None split: option.split_asm option.split)

lemma find_block_key: "find_block i k bs = position (\<lambda>e. block_key e = (i, k)) bs"
  unfolding find_block_def block_key_def matches_kind_of
  by (rule arg_cong[where f = "\<lambda>q. position q bs"]) auto

lemma map_of_upd_pos:
  assumes "position (\<lambda>e. f e = x) xs = Some p" and "f v = x" and "distinct (map f xs)"
  shows "map_of (map (\<lambda>e. (f e, h e)) (xs[p := v])) = (map_of (map (\<lambda>e. (f e, h e)) xs))(x \<mapsto> h v)"
  using assms
proof (induction xs arbitrary: p)
  case (Cons a xs)
  show ?case
  proof (cases "f a = x")
    case True
    then show ?thesis using Cons.prems by (auto simp: fun_eq_iff)
  next
    case False
    then obtain q where "position (\<lambda>e. f e = x) xs = Some q" "p = Suc q"
      using Cons.prems(1) by auto
    then show ?thesis using Cons False by (auto simp: fun_eq_iff)
  qed
qed simp

lemma map_f_upd_pos:
  "position (\<lambda>e. f e = x) xs = Some p \<Longrightarrow> f v = x \<Longrightarrow> map f (xs[p := v]) = map f xs"
  by (induction xs arbitrary: p) (auto split: if_splits)

lemma absorb_blocks:
  "sg_blocks (absorb e g) = (case event_key e of
     None \<Rightarrow> sg_blocks g
   | Some (i, k) \<Rightarrow> ensure_block i k (event_update e) (sg_blocks g))"
proof -
  have "set_block i k bs = ensure_block i k (\<lambda>b. b) bs" for i k bs
    by (simp add: set_block_def ensure_block_def split: option.split)
  then show ?thesis by (cases e) (auto simp: Let_def split: option.split)
qed

lemma ensure_block_ok:
  assumes "distinct (map block_key bs)" and "\<And>b. kind_of (upd b) = kind_of b"
  shows "distinct (map block_key (ensure_block i k upd bs))"
    and "map_of (map (\<lambda>e. (block_key e, snd e)) (ensure_block i k upd bs)) =
      (map_of (map (\<lambda>e. (block_key e, snd e)) bs))((i, k) \<mapsto>
         upd (case map_of (map (\<lambda>e. (block_key e, snd e)) bs) (i, k) of
                Some b \<Rightarrow> b | None \<Rightarrow> fresh_block k))"
proof -
  have look: "map_of (map (\<lambda>e. (block_key e, snd e)) bs) (i, k) =
      (case find_block i k bs of Some p \<Rightarrow> Some (snd (bs ! p)) | None \<Rightarrow> None)"
    unfolding find_block_key position_map_of[symmetric] ..
  show "distinct (map block_key (ensure_block i k upd bs))"
  proof (cases "find_block i k bs")
    case None
    then have "(i, k) \<notin> set (map block_key bs)" by (auto simp: find_block_key)
    then show ?thesis using None assms by (simp add: ensure_block_def block_key_def comp_def)
  next
    case (Some p)
    then have "block_key (bs ! p) = (i, k)" by (simp add: find_block_key position_Some)
    then have "map block_key (ensure_block i k upd bs) = map block_key bs"
      using Some assms(2) map_f_upd_pos[of block_key "(i, k)" bs p]
      by (simp add: ensure_block_def find_block_key) (simp add: block_key_def)
    then show ?thesis using assms(1) by simp
  qed
  show "map_of (map (\<lambda>e. (block_key e, snd e)) (ensure_block i k upd bs)) =
      (map_of (map (\<lambda>e. (block_key e, snd e)) bs))((i, k) \<mapsto>
         upd (case map_of (map (\<lambda>e. (block_key e, snd e)) bs) (i, k) of
                Some b \<Rightarrow> b | None \<Rightarrow> fresh_block k))"
  proof (cases "find_block i k bs")
    case None
    then show ?thesis using look assms(2)
      by (auto simp: ensure_block_def block_key_def map_add_def fun_eq_iff split: option.split)
  next
    case (Some p)
    then have p: "position (\<lambda>e. block_key e = (i, k)) bs = Some p" by (simp add: find_block_key)
    then have "block_key (bs ! p) = (i, k)" by (simp add: position_Some)
    then have "block_key (fst (bs ! p), upd (snd (bs ! p))) = (i, k)"
      using assms(2) by (simp add: block_key_def)
    from map_of_upd_pos[OF p this assms(1), where h = snd] show ?thesis
      using look Some by (simp add: ensure_block_def)
  qed
qed

lemma absorb_ok: "blocks_ok g \<Longrightarrow> blocks_ok (absorb e g)"
  by (auto simp: blocks_ok_def absorb_blocks ensure_block_ok split: option.split)

lemma absorb_block_at:
  assumes "blocks_ok g"
  shows "block_at (absorb e g) i k = (if event_key e = Some (i, k)
     then Some (event_update e (case block_at g i k of Some b \<Rightarrow> b | None \<Rightarrow> fresh_block k))
     else block_at g i k)"
  using ensure_block_ok(2)[of "sg_blocks g" "event_update e"] assms
  by (auto simp: block_at_def absorb_blocks blocks_ok_def split: option.split)

lemma fold_absorb_ok: "blocks_ok g \<Longrightarrow> blocks_ok (fold absorb es g)"
  by (induction es arbitrary: g) (auto simp: absorb_ok)

lemma new_ok: "blocks_ok aggregator_new"
  by (simp add: blocks_ok_def aggregator_new_def)

lemma fold_absorb_block_at:
  "blocks_ok g \<Longrightarrow> block_at (fold absorb es g) i k =
     (let mine = filter (\<lambda>e. event_key e = Some (i, k)) es
      in if mine = [] then block_at g i k
         else Some (fold event_update mine (case block_at g i k of Some b \<Rightarrow> b | None \<Rightarrow> fresh_block k)))"
  by (induction es arbitrary: g) (auto simp: absorb_ok absorb_block_at Let_def)

lemma block_at_new [simp]: "block_at aggregator_new i k = None"
  by (simp add: block_at_def aggregator_new_def)

text \<open>The aggregate of a stream is independent of how blocks interleave: the block of an
  index and a kind is the result of exactly the events of that index and kind, in their
  order, and it exists when there is such an event. In particular reasoning and text that
  share an index do not displace each other.\<close>

theorem aggregation_by_index_and_kind:
  "block_at (fold absorb es aggregator_new) i k =
     (let mine = filter (\<lambda>e. event_key e = Some (i, k)) es
      in if mine = [] then None else Some (fold event_update mine (fresh_block k)))"
  by (simp add: fold_absorb_block_at[OF new_ok] Let_def)

subsection \<open>The text of the aggregate\<close>

fun text_deltas :: "nat \<Rightarrow> stream_event list \<Rightarrow> string" where
  "text_deltas i [] = []"
| "text_deltas i (TextDelta j t # es) = (if i = j then t @ text_deltas i es else text_deltas i es)"
| "text_deltas i (_ # es) = text_deltas i es"

lemma fold_text_updates:
  "fold event_update (filter (\<lambda>e. event_key e = Some (i, KText)) es) (TextBlock b) = TextBlock (b @ text_deltas i es)"
  by (induction i es arbitrary: b rule: text_deltas.induct) auto

lemma text_block_at:
  "block_at (fold absorb es aggregator_new) i KText =
     (if \<exists>e \<in> set es. event_key e = Some (i, KText) then Some (TextBlock (text_deltas i es)) else None)"
  using fold_text_updates[of i es "[]"]
  by (auto simp: fold_absorb_block_at[OF new_ok] Let_def filter_empty_conv)

definition text_blocks :: "aggregator \<Rightarrow> (nat \<times> block_accum) list" where
  "text_blocks g = filter (\<lambda>e. kind_of (snd e) = KText) (sort_key fst (sg_blocks g))"

fun block_text :: "block_accum \<Rightarrow> string" where
  "block_text (TextBlock t) = t"
| "block_text _ = []"

lemma text_of_parts_append [simp]: "text_of_parts (a @ b) = text_of_parts a @ text_of_parts b"
  by (induction a) (auto split: content_part.split)

lemma text_of_parts_content:
  "text_of_parts (concat (map (\<lambda>(_, b). block_content pj b) bs)) =
   concat (map (\<lambda>e. block_text (snd e)) (filter (\<lambda>e. kind_of (snd e) = KText) bs))"
proof (induction bs)
  case (Cons e bs)
  obtain i b where "e = (i, b)" by (cases e) auto
  then show ?case using Cons by (cases b) auto
qed simp

lemma block_at_iff:
  assumes "blocks_ok g"
  shows "block_at g i k = Some b \<longleftrightarrow> (i, b) \<in> set (sg_blocks g) \<and> kind_of b = k"
proof -
  have "distinct (map fst (map (\<lambda>e. (block_key e, snd e)) (sg_blocks g)))"
    using assms by (simp add: blocks_ok_def comp_def)
  from map_of_eq_Some_iff[OF this] show ?thesis
    unfolding block_at_def by (auto simp: block_key_def intro: rev_image_eqI)
qed

lemma distinct_text_indices:
  assumes "distinct (map block_key bs)"
  shows "distinct (map fst (filter (\<lambda>e. kind_of (snd e) = k) bs))"
  using assms by (induction bs) (auto simp: block_key_def)

lemma text_blocks_props:
  assumes "blocks_ok g"
  shows "sorted (map fst (text_blocks g))" and "distinct (map fst (text_blocks g))"
    and "set (text_blocks g) = {e \<in> set (sg_blocks g). kind_of (snd e) = KText}"
proof -
  have "mset (map block_key (sort_key fst (sg_blocks g))) = mset (map block_key (sg_blocks g))" by simp
  then have "distinct (map block_key (sort_key fst (sg_blocks g)))"
    using assms unfolding blocks_ok_def by (metis mset_eq_imp_distinct_iff)
  then show "distinct (map fst (text_blocks g))"
    unfolding text_blocks_def by (rule distinct_text_indices)
  show "sorted (map fst (text_blocks g))" by (simp add: text_blocks_def sorted_filter)
  show "set (text_blocks g) = {e \<in> set (sg_blocks g). kind_of (snd e) = KText}"
    by (auto simp: text_blocks_def)
qed

text \<open>The text of the aggregated response is the text that was streamed: the blocks in
  ascending order of their index, each the concatenation of its deltas. Nothing else of the
  stream (reasoning, tool calls, repeated starts, missing starts) adds to it or removes from
  it.\<close>

theorem aggregated_text_is_streamed_text:
  "text_of_parts (into_content pj (fold absorb es aggregator_new)) =
   concat (map (\<lambda>i. text_deltas i es)
     (sorted_list_of_set {i. \<exists>e \<in> set es. event_key e = Some (i, KText)}))"
proof -
  let ?g = "fold absorb es aggregator_new" and ?ix = "{i. \<exists>e \<in> set es. event_key e = Some (i, KText)}"
  have ok: "blocks_ok ?g" by (rule fold_absorb_ok[OF new_ok])
  have mem: "(i, b) \<in> set (text_blocks ?g) \<longleftrightarrow> i \<in> ?ix \<and> b = TextBlock (text_deltas i es)" for i b
  proof -
    have "(i, b) \<in> set (text_blocks ?g) \<longleftrightarrow> block_at ?g i KText = Some b"
      by (auto simp: text_blocks_props(3)[OF ok] block_at_iff[OF ok])
    then show ?thesis by (auto simp: text_block_at)
  qed
  have "set (map fst (text_blocks ?g)) = ?ix" (is "?fs = _")
  proof (intro set_eqI iffI)
    fix i
    assume "i \<in> ?fs"
    then obtain b where "(i, b) \<in> set (text_blocks ?g)" by auto
    then show "i \<in> ?ix" unfolding mem ..
  next
    fix i
    assume "i \<in> ?ix"
    then have "(i, TextBlock (text_deltas i es)) \<in> set (text_blocks ?g)" unfolding mem by simp
    then show "i \<in> ?fs" by force
  qed
  then have "finite ?ix" and "set (sorted_list_of_set ?ix) = set (map fst (text_blocks ?g))"
    by (metis finite_set, metis finite_set set_sorted_list_of_set)
  then have ix: "sorted_list_of_set ?ix = map fst (text_blocks ?g)"
    by (intro sorted_distinct_set_unique text_blocks_props(1,2)[OF ok]) simp_all
  have "text_of_parts (into_content pj ?g) = concat (map (\<lambda>e. block_text (snd e)) (text_blocks ?g))"
    unfolding into_content_def text_of_parts_content text_blocks_def ..
  also have "\<dots> = concat (map (\<lambda>e. text_deltas (fst e) es) (text_blocks ?g))"
    using mem by (intro arg_cong[where f = concat] map_cong) auto
  finally show ?thesis unfolding ix by (simp add: comp_def)
qed

subsection \<open>Usage\<close>

fun usage_of_event :: "stream_event \<Rightarrow> usage" where
  "usage_of_event (Start _ _ (Some u)) = u"
| "usage_of_event (UsageEvent u) = u"
| "usage_of_event _ = usage_default"

lemma absorb_usage: "sg_usage (absorb e g) = merge_max (usage_of_event e) (sg_usage g)"
  by (cases e rule: usage_of_event.cases) (auto simp: Let_def merge_max_default merge_max_commute)

lemma fold_absorb_usage:
  "sg_usage (fold absorb es g) = fold (\<lambda>e. merge_max (usage_of_event e)) es (sg_usage g)"
  by (induction es arbitrary: g) (simp_all add: absorb_usage)

text \<open>Usage is not counted twice: the usage of a stream depends neither on the order of its
  usage reports nor on how often the same report is repeated.\<close>

theorem stream_usage_order_independent:
  assumes "mset es = mset es'"
  shows "sg_usage (fold absorb es g) = sg_usage (fold absorb es' g)
     \<and> sg_usage (fold absorb (es @ [e, e]) g) = sg_usage (fold absorb (es @ [e]) g)"
proof -
  have "fold (\<lambda>e. merge_max (usage_of_event e)) es = fold (\<lambda>e. merge_max (usage_of_event e)) es'"
    by (rule fold_multiset_equiv[OF _ assms]) (auto simp: fun_eq_iff merge_max_def max.left_commute)
  then show ?thesis
    by (simp add: fold_absorb_usage absorb_usage merge_max_assoc[symmetric] merge_max_idem)
qed

theorem stream_usage_order_independent_witness:
  "sg_usage (fold absorb [UsageEvent usage_default, Done] aggregator_new)
   = sg_usage (fold absorb [Done, UsageEvent usage_default] aggregator_new)"
  using stream_usage_order_independent[of "[UsageEvent usage_default, Done]"
      "[Done, UsageEvent usage_default]" aggregator_new Done] by simp

end
