(* ===== verification/Rate_Limit.thy ===== *)
theory Rate_Limit
  imports Prelude
begin

section \<open>Rate limiting\<close>

text \<open>
  \<open>crates/refract-api/src/rate.rs\<close>: the limiter for each gateway key (requests and tokens
  per minute) and the limiter for each client address. Both keep a table of windows of one
  minute that is pruned when it grows, so old windows vanish at arbitrary points. The
  interface \<open>minute_table\<close> states what both promise, and the refinement is proved once: on a
  clock that does not go back, the decisions are those of a limiter that remembers the whole
  history and counts the events of the same key in the same minute.
  A table is an association list; counters are unbounded except where the code saturates.
\<close>

subsection \<open>Windows\<close>

record window =
  w_minute :: nat
  w_requests :: nat
  w_tokens :: nat

record ip_window =
  iw_minute :: nat
  iw_requests :: nat

datatype rate_dimension = Requests | Tokens

record rate_exceeded =
  rx_dimension :: rate_dimension
  rx_retry_after_secs :: nat

fun describe_dimension :: "rate_dimension \<Rightarrow> string" where
  "describe_dimension Requests = ''requests per minute (RPM)''"
| "describe_dimension Tokens = ''tokens per minute (TPM)''"

definition global_window_key :: int where
  "global_window_key = 0"

definition max_windows :: nat where
  "max_windows = 10000"

definition u64_max :: nat where
  "u64_max = 2 ^ 64 - 1"

definition prune_stale_windows :: "(int \<times> window) list \<Rightarrow> nat \<Rightarrow> (int \<times> window) list" where
  "prune_stale_windows ws minute = (if length ws > max_windows
     then filter (\<lambda>(_, w). w_minute w = minute) ws else ws)"

text \<open>Pruning, the entry of the key, and its reset when it belongs to another minute.\<close>

definition enter_window :: "int \<Rightarrow> nat \<Rightarrow> (int \<times> window) list \<Rightarrow> window \<times> (int \<times> window) list" where
  "enter_window key minute ws0 = (
     let ws = prune_stale_windows ws0 minute;
         fresh = \<lparr>w_minute = minute, w_requests = 0, w_tokens = 0\<rparr>;
         w0 = (case map_of ws key of Some w \<Rightarrow> w | None \<Rightarrow> fresh);
         w = (if w_minute w0 \<noteq> minute then fresh else w0)
     in (w, al_put key w ws))"

definition admit_at ::
  "int \<Rightarrow> int \<Rightarrow> int \<Rightarrow> nat \<Rightarrow> (int \<times> window) list \<Rightarrow> (rate_exceeded + unit) \<times> (int \<times> window) list"
where
  "admit_at key rpm tpm now ws0 = (
     let minute = now div 60;
         retry_after = 60 - now mod 60;
         (w, ws) = enter_window key minute ws0
     in if rpm > 0 \<and> int (w_requests w) \<ge> rpm
        then (Inl \<lparr>rx_dimension = Requests, rx_retry_after_secs = retry_after\<rparr>, ws)
        else if tpm > 0 \<and> int (w_tokens w) \<ge> tpm
        then (Inl \<lparr>rx_dimension = Tokens, rx_retry_after_secs = retry_after\<rparr>, ws)
        else (Inr (), al_put key (w\<lparr>w_requests := w_requests w + 1\<rparr>) ws))"

definition admit ::
  "int \<Rightarrow> int \<Rightarrow> int \<Rightarrow> nat \<Rightarrow> (int \<times> window) list \<Rightarrow> (rate_exceeded + unit) \<times> (int \<times> window) list"
where
  "admit key rpm tpm now ws =
     (if rpm \<le> 0 \<and> tpm \<le> 0 then (Inr (), ws) else admit_at key rpm tpm now ws)"

definition add_tokens_at :: "int \<Rightarrow> nat \<Rightarrow> nat \<Rightarrow> (int \<times> window) list \<Rightarrow> (int \<times> window) list" where
  "add_tokens_at key tokens now ws0 = (
     let (w, ws) = enter_window key (now div 60) ws0
     in al_put key (w\<lparr>w_tokens := min u64_max (w_tokens w + tokens)\<rparr>) ws)"

definition add_tokens :: "int \<Rightarrow> nat \<Rightarrow> nat \<Rightarrow> (int \<times> window) list \<Rightarrow> (int \<times> window) list" where
  "add_tokens key tokens now ws = (if tokens = 0 then ws else add_tokens_at key tokens now ws)"

definition ip_admit ::
  "'ip \<Rightarrow> nat \<Rightarrow> nat \<Rightarrow> ('ip \<times> ip_window) list \<Rightarrow> (rate_exceeded + unit) \<times> ('ip \<times> ip_window) list"
where
  "ip_admit ip rpm now ws0 = (
     if rpm = 0 then (Inr (), ws0)
     else
       let minute = now div 60;
           retry_after = 60 - now mod 60;
           ws1 = (if length ws0 > 10000 then filter (\<lambda>(_, w). iw_minute w = minute) ws0 else ws0);
           fresh = \<lparr>iw_minute = minute, iw_requests = 0\<rparr>;
           w0 = (case map_of ws1 ip of Some w \<Rightarrow> w | None \<Rightarrow> fresh);
           w = (if iw_minute w0 \<noteq> minute then fresh else w0);
           ws = al_put ip w ws1
       in if iw_requests w \<ge> rpm
          then (Inl \<lparr>rx_dimension = Requests, rx_retry_after_secs = retry_after\<rparr>, ws)
          else (Inr (), al_put ip (w\<lparr>iw_requests := iw_requests w + 1\<rparr>) ws))"

subsection \<open>Histories of events\<close>

fun run_table ::
  "('k \<Rightarrow> 'e \<Rightarrow> nat \<Rightarrow> 's \<Rightarrow> 'd \<times> 's) \<Rightarrow> ('k \<times> 'e \<times> nat) list \<Rightarrow> 's \<Rightarrow> 'd list \<times> 's"
where
  "run_table step [] s = ([], s)"
| "run_table step ((k, e, now) # es) s =
     (let (d, s1) = step k e now s; (ds, s2) = run_table step es s1 in (d # ds, s2))"

text \<open>What a history of events amounts to for one key in one minute.\<close>

definition history_usage ::
  "'c \<Rightarrow> ('e \<Rightarrow> 'c \<Rightarrow> 'c) \<Rightarrow> ('k \<times> 'e \<times> nat) list \<Rightarrow> 'k \<Rightarrow> nat \<Rightarrow> 'c"
where
  "history_usage zero effect h k m =
     fold (\<lambda>(_, e, _). effect e) (filter (\<lambda>(k', _, now). k' = k \<and> now div 60 = m) h) zero"

text \<open>The decisions of a limiter that remembers everything.\<close>

fun ideal_run ::
  "'c \<Rightarrow> ('e \<Rightarrow> nat \<Rightarrow> 'c \<Rightarrow> 'd) \<Rightarrow> ('e \<Rightarrow> 'c \<Rightarrow> 'c) \<Rightarrow> ('k \<times> 'e \<times> nat) list
   \<Rightarrow> ('k \<times> 'e \<times> nat) list \<Rightarrow> 'd list"
where
  "ideal_run zero decide effect h [] = []"
| "ideal_run zero decide effect h ((k, e, now) # es) =
     decide e now (history_usage zero effect h k (now div 60))
     # ideal_run zero decide effect (h @ [(k, e, now)]) es"

lemma history_usage_snoc:
  "history_usage zero effect (h @ [(k, e, now)]) k' m =
     (if k' = k \<and> m = now div 60 then effect e (history_usage zero effect h k' m)
      else history_usage zero effect h k' m)"
  by (auto simp: history_usage_def)

subsection \<open>The interface: usage by minute\<close>

text \<open>
  \<open>usage s k m\<close> is what the table has counted for the key \<open>k\<close> in the minute \<open>m\<close>. An event is
  decided on the usage of its own minute, changes it by \<open>effect\<close>, leaves the usage of other
  keys in that minute alone, and never makes up usage in a later minute.
\<close>

locale minute_table =
  fixes step :: "'k \<Rightarrow> 'e \<Rightarrow> nat \<Rightarrow> 's \<Rightarrow> 'd \<times> 's"
    and empty_table :: 's
    and table_ok :: "'s \<Rightarrow> bool"
    and usage :: "'s \<Rightarrow> 'k \<Rightarrow> nat \<Rightarrow> 'c"
    and zero_usage :: 'c
    and decide :: "'e \<Rightarrow> nat \<Rightarrow> 'c \<Rightarrow> 'd"
    and effect :: "'e \<Rightarrow> 'c \<Rightarrow> 'c"
  assumes empty_ok: "table_ok empty_table"
    and empty_usage: "usage empty_table k m = zero_usage"
    and step_ok: "table_ok s \<Longrightarrow> table_ok (snd (step k e now s))"
    and step_decision: "table_ok s \<Longrightarrow> fst (step k e now s) = decide e now (usage s k (now div 60))"
    and step_usage: "table_ok s \<Longrightarrow>
      usage (snd (step k e now s)) k (now div 60) = effect e (usage s k (now div 60))"
    and step_other: "table_ok s \<Longrightarrow> k' \<noteq> k \<Longrightarrow>
      usage (snd (step k e now s)) k' (now div 60) = usage s k' (now div 60)"
    and step_future: "table_ok s \<Longrightarrow> now div 60 < m \<Longrightarrow> usage s k' m = zero_usage \<Longrightarrow>
      usage (snd (step k e now s)) k' m = zero_usage"
begin

abbreviation past :: "('k \<times> 'e \<times> nat) list \<Rightarrow> 'k \<Rightarrow> nat \<Rightarrow> 'c" where
  "past \<equiv> history_usage zero_usage effect"

definition simulates :: "nat \<Rightarrow> 's \<Rightarrow> ('k \<times> 'e \<times> nat) list \<Rightarrow> bool" where
  "simulates m0 s h \<longleftrightarrow> table_ok s \<and> (\<forall>k. \<forall>m \<ge> m0. usage s k m = past h k m)
     \<and> (\<forall>k. \<forall>m > m0. past h k m = zero_usage)"

lemma simulates_later: "simulates m0 s h \<Longrightarrow> m0 \<le> m1 \<Longrightarrow> simulates m1 s h"
  by (simp add: simulates_def)

lemma simulates_step:
  assumes "simulates (now div 60) s h"
  shows "simulates (now div 60) (snd (step k e now s)) (h @ [(k, e, now)])"
proof -
  let ?m = "now div 60" and ?s = "snd (step k e now s)"
  have ok: "table_ok s" using assms by (simp add: simulates_def)
  have later: "past h k' m = zero_usage" "usage s k' m = zero_usage" if "?m < m" for k' m
    using assms that by (simp_all add: simulates_def)
  have here: "usage s k' ?m = past h k' ?m" for k'
    using assms by (simp add: simulates_def)
  have "usage ?s k' m = past (h @ [(k, e, now)]) k' m" if "?m \<le> m" for k' m
  proof (cases "?m = m")
    case True
    then show ?thesis
      using here step_usage[OF ok, of k e now] step_other[OF ok, of k' k e now]
      by (cases "k' = k") (auto simp: history_usage_snoc)
  next
    case False
    with that have "?m < m" by simp
    then show ?thesis using later step_future[OF ok] by (simp add: history_usage_snoc)
  qed
  then show ?thesis
    using later step_ok[OF ok] by (simp add: simulates_def history_usage_snoc)
qed

lemma run_table_ideal:
  assumes "simulates m0 s h" and "sorted (map (\<lambda>(_, _, now). now) es)"
    and "\<forall>(_, _, now) \<in> set es. m0 \<le> now div 60"
  shows "fst (run_table step es s) = ideal_run zero_usage decide effect h es"
  using assms
proof (induction es arbitrary: m0 s h)
  case (Cons ev es)
  obtain k e now where ev: "ev = (k, e, now)" by (cases ev) auto
  have sim: "simulates (now div 60) s h"
    using Cons.prems(1,3) ev by (auto intro: simulates_later)
  then have d: "fst (step k e now s) = decide e now (past h k (now div 60))"
    by (simp add: simulates_def step_decision)
  have "\<forall>(_, _, later) \<in> set es. now div 60 \<le> later div 60"
    using Cons.prems(2) ev by (auto intro: div_le_mono)
  then have "fst (run_table step es (snd (step k e now s))) = ideal_run zero_usage decide effect (h @ [(k, e, now)]) es"
    using Cons.IH[OF simulates_step[OF sim]] Cons.prems(2) ev by auto
  then show ?case using ev d by (simp add: Let_def case_prod_beta)
qed simp

lemma run_table_refines:
  "sorted (map (\<lambda>(_, _, now). now) es) \<Longrightarrow> fst (run_table step es empty_table) = ideal_run zero_usage decide effect [] es"
  using run_table_ideal[of 0 empty_table "[]" es]
  by (auto simp: simulates_def empty_ok empty_usage history_usage_def)

end

subsection \<open>The two limiters provide it\<close>

datatype limit_event = Admit int int | Spend nat

definition key_step ::
  "int \<Rightarrow> limit_event \<Rightarrow> nat \<Rightarrow> (int \<times> window) list \<Rightarrow> (rate_exceeded + unit) \<times> (int \<times> window) list"
where
  "key_step key e now ws = (case e of
     Admit rpm tpm \<Rightarrow> admit key rpm tpm now ws
   | Spend n \<Rightarrow> (Inr (), add_tokens key n now ws))"

definition key_usage :: "(int \<times> window) list \<Rightarrow> int \<Rightarrow> nat \<Rightarrow> nat \<times> nat" where
  "key_usage ws key m = (case map_of ws key of
     Some w \<Rightarrow> if w_minute w = m then (w_requests w, w_tokens w) else (0, 0)
   | None \<Rightarrow> (0, 0))"

text \<open>The stated policy: no limit for a value of zero or less; requests are checked before
  tokens; an admitted request counts one; a rejection names the rest of the minute.\<close>

fun key_decide :: "limit_event \<Rightarrow> nat \<Rightarrow> nat \<times> nat \<Rightarrow> rate_exceeded + unit" where
  "key_decide (Spend n) now used = Inr ()"
| "key_decide (Admit rpm tpm) now (reqs, toks) = (
     if rpm > 0 \<and> rpm \<le> int reqs
     then Inl \<lparr>rx_dimension = Requests, rx_retry_after_secs = 60 - now mod 60\<rparr>
     else if tpm > 0 \<and> tpm \<le> int toks
     then Inl \<lparr>rx_dimension = Tokens, rx_retry_after_secs = 60 - now mod 60\<rparr>
     else Inr ())"

fun key_effect :: "limit_event \<Rightarrow> nat \<times> nat \<Rightarrow> nat \<times> nat" where
  "key_effect (Spend n) (reqs, toks) = (reqs, if n = 0 then toks else min u64_max (toks + n))"
| "key_effect (Admit rpm tpm) (reqs, toks) = (
     if rpm \<le> 0 \<and> tpm \<le> 0 then (reqs, toks)
     else if (rpm > 0 \<and> rpm \<le> int reqs) \<or> (tpm > 0 \<and> tpm \<le> int toks) then (reqs, toks)
     else (Suc reqs, toks))"

definition key_table_ok :: "(int \<times> window) list \<Rightarrow> bool" where
  "key_table_ok ws \<longleftrightarrow> distinct (map fst ws)"

lemma key_usage_put:
  "key_usage (al_put key w ws) k m =
     (if k = key then (if w_minute w = m then (w_requests w, w_tokens w) else (0, 0))
      else key_usage ws k m)"
  by (simp add: key_usage_def)

lemma prune_ok: "key_table_ok ws \<Longrightarrow> key_table_ok (prune_stale_windows ws m)"
  by (simp add: prune_stale_windows_def key_table_ok_def)

lemma prune_usage:
  assumes "key_table_ok ws"
  shows "key_usage (prune_stale_windows ws m) k m' =
     (if map_of (prune_stale_windows ws m) k = None \<and> m' \<noteq> m then (0, 0) else key_usage ws k m')"
  using assms map_of_filter_value[of ws "\<lambda>w. w_minute w = m" k]
  by (cases "map_of ws k")
     (simp_all add: prune_stale_windows_def key_table_ok_def key_usage_def
        del: map_of_eq_Some_iff map_of_eq_None_iff)

lemma enter_window_props:
  assumes "key_table_ok ws" and "enter_window key m ws = (w, ws')"
  shows "key_table_ok ws'" and "w_minute w = m"
    and "(w_requests w, w_tokens w) = key_usage ws key m"
    and "k' \<noteq> key \<Longrightarrow> key_usage ws' k' m = key_usage ws k' m"
    and "m < m' \<Longrightarrow> key_usage ws k' m' = (0, 0) \<Longrightarrow> key_usage ws' k' m' = (0, 0)"
proof -
  let ?ws = "prune_stale_windows ws m"
  have ws': "ws' = al_put key w ?ws" and w: "w_minute w = m"
    and u: "(w_requests w, w_tokens w) = key_usage ?ws key m"
    using assms(2) by (auto simp: enter_window_def Let_def key_usage_def split: option.splits)
  show "key_table_ok ws'" using prune_ok[OF assms(1), of m] ws' by (simp add: key_table_ok_def)
  show "w_minute w = m" by (rule w)
  show "(w_requests w, w_tokens w) = key_usage ws key m"
    using u prune_usage[OF assms(1)] by simp
  show "k' \<noteq> key \<Longrightarrow> key_usage ws' k' m = key_usage ws k' m"
    using prune_usage[OF assms(1)] by (simp add: ws' key_usage_put)
  show "m < m' \<Longrightarrow> key_usage ws k' m' = (0, 0) \<Longrightarrow> key_usage ws' k' m' = (0, 0)"
    using prune_usage[OF assms(1)] w by (simp add: ws' key_usage_put)
qed

lemma put_ok: "key_table_ok ws \<Longrightarrow> key_table_ok (al_put k w ws)"
  by (simp add: key_table_ok_def)

text \<open>Each event enters the window of its minute and stores it back with other counters.\<close>

lemma key_step_shape:
  assumes "key_table_ok ws"
  obtains (idle) "key_step key e now ws = (key_decide e now (key_usage ws key (now div 60)), ws)"
      and "key_effect e (key_usage ws key (now div 60)) = key_usage ws key (now div 60)"
  | (enter) w ws1 w' where "enter_window key (now div 60) ws = (w, ws1)" and "w_minute w' = now div 60"
      and "key_step key e now ws = (key_decide e now (w_requests w, w_tokens w), ws1)
         \<and> (w_requests w, w_tokens w) = (w_requests w', w_tokens w')
         \<or> key_step key e now ws = (key_decide e now (w_requests w, w_tokens w), al_put key w' ws1)"
      and "(w_requests w', w_tokens w') = key_effect e (w_requests w, w_tokens w)"
proof (cases e)
  case (Admit rpm tpm)
  obtain reqs toks where u: "key_usage ws key (now div 60) = (reqs, toks)" by fastforce
  obtain w ws1 where ew: "enter_window key (now div 60) ws = (w, ws1)" by fastforce
  have wm: "w_minute w = now div 60" by (rule enter_window_props(2)[OF assms ew])
  consider "rpm \<le> 0 \<and> tpm \<le> 0"
    | "\<not> (rpm \<le> 0 \<and> tpm \<le> 0)" "(rpm > 0 \<and> rpm \<le> int (w_requests w)) \<or> (tpm > 0 \<and> tpm \<le> int (w_tokens w))"
    | "\<not> (rpm \<le> 0 \<and> tpm \<le> 0)" "\<not> ((rpm > 0 \<and> rpm \<le> int (w_requests w)) \<or> (tpm > 0 \<and> tpm \<le> int (w_tokens w)))"
    by blast
  then show thesis
  proof cases
    case 1
    then show ?thesis using u Admit by (intro idle) (auto simp: key_step_def admit_def)
  next
    case 2
    then show ?thesis using Admit ew wm
      by (intro enter[of w ws1 w]) (auto simp: key_step_def admit_def admit_at_def Let_def)
  next
    case 3
    then show ?thesis using Admit ew wm
      by (intro enter[of w ws1 "w\<lparr>w_requests := w_requests w + 1\<rparr>"])
         (auto simp: key_step_def admit_def admit_at_def Let_def)
  qed
next
  case (Spend n)
  obtain reqs toks where u: "key_usage ws key (now div 60) = (reqs, toks)" by fastforce
  obtain w ws1 where ew: "enter_window key (now div 60) ws = (w, ws1)" by fastforce
  have wm: "w_minute w = now div 60" by (rule enter_window_props(2)[OF assms ew])
  show thesis
  proof (cases "n = 0")
    case True
    then show ?thesis using u Spend by (intro idle) (simp_all add: key_step_def add_tokens_def)
  next
    case False
    then show ?thesis using Spend ew wm
      by (intro enter[of w ws1 "w\<lparr>w_tokens := min u64_max (w_tokens w + n)\<rparr>"])
         (simp_all add: key_step_def add_tokens_def add_tokens_at_def)
  qed
qed

lemma key_table_usage_same:
  "key_table_ok ws \<Longrightarrow> enter_window key m ws = (w, ws1) \<Longrightarrow> key_usage ws1 key m = (w_requests w, w_tokens w)"
  by (auto simp: enter_window_def Let_def key_usage_put)

interpretation key_table: minute_table key_step "[]" key_table_ok key_usage "(0, 0)" key_decide key_effect
proof (unfold_locales, goal_cases)
  case (3 s k e now)
  then show ?case
    by (cases rule: key_step_shape[OF 3, of k e now])
       (auto simp: put_ok dest: enter_window_props(1))
next
  case (4 s k e now)
  then show ?case
    by (cases rule: key_step_shape[OF 4, of k e now])
       (auto dest: enter_window_props(3))
next
  case (5 s k e now)
  then show ?case
    by (cases rule: key_step_shape[OF 5, of k e now])
       (auto simp: key_usage_put key_table_usage_same enter_window_props(3)[symmetric])
next
  case (6 s k' k e now)
  then show ?case
    by (cases rule: key_step_shape[OF 6(1), of k e now])
       (auto simp: key_usage_put enter_window_props(4))
next
  case (7 s now m k' k e)
  then show ?case
    by (cases rule: key_step_shape[OF 7(1), of k e now])
       (auto simp: key_usage_put enter_window_props(5))
qed (simp_all add: key_table_ok_def key_usage_def)

text \<open>The limiter for client addresses; an event is its limit.\<close>

definition ip_step ::
  "'ip \<Rightarrow> nat \<Rightarrow> nat \<Rightarrow> ('ip \<times> ip_window) list \<Rightarrow> (rate_exceeded + unit) \<times> ('ip \<times> ip_window) list"
where
  "ip_step ip rpm now ws = ip_admit ip rpm now ws"

definition ip_usage :: "('ip \<times> ip_window) list \<Rightarrow> 'ip \<Rightarrow> nat \<Rightarrow> nat" where
  "ip_usage ws ip m = (case map_of ws ip of
     Some w \<Rightarrow> if iw_minute w = m then iw_requests w else 0
   | None \<Rightarrow> 0)"

definition ip_decide :: "nat \<Rightarrow> nat \<Rightarrow> nat \<Rightarrow> rate_exceeded + unit" where
  "ip_decide rpm now reqs = (if rpm > 0 \<and> rpm \<le> reqs
     then Inl \<lparr>rx_dimension = Requests, rx_retry_after_secs = 60 - now mod 60\<rparr> else Inr ())"

definition ip_effect :: "nat \<Rightarrow> nat \<Rightarrow> nat" where
  "ip_effect rpm reqs = (if rpm = 0 \<or> rpm \<le> reqs then reqs else Suc reqs)"

definition ip_table_ok :: "('ip \<times> ip_window) list \<Rightarrow> bool" where
  "ip_table_ok ws \<longleftrightarrow> distinct (map fst ws)"

definition ip_prune :: "('ip \<times> ip_window) list \<Rightarrow> nat \<Rightarrow> ('ip \<times> ip_window) list" where
  "ip_prune ws m = (if length ws > 10000 then filter (\<lambda>(_, w). iw_minute w = m) ws else ws)"

lemma ip_usage_put:
  "ip_usage (al_put ip w ws) k m =
     (if k = ip then (if iw_minute w = m then iw_requests w else 0) else ip_usage ws k m)"
  by (simp add: ip_usage_def)

lemma ip_prune_usage:
  assumes "ip_table_ok ws"
  shows "ip_usage (ip_prune ws m) k m' =
     (if map_of (ip_prune ws m) k = None \<and> m' \<noteq> m then 0 else ip_usage ws k m')"
  using assms map_of_filter_value[of ws "\<lambda>w. iw_minute w = m" k]
  by (cases "map_of ws k")
     (simp_all add: ip_prune_def ip_table_ok_def ip_usage_def
        del: map_of_eq_Some_iff map_of_eq_None_iff)

lemma ip_step_shape:
  assumes "0 < rpm"
  obtains w where "iw_minute w = now div 60"
    and "ip_step ip rpm now ws =
      (ip_decide rpm now (ip_usage (ip_prune ws (now div 60)) ip (now div 60)),
       if rpm \<le> ip_usage (ip_prune ws (now div 60)) ip (now div 60) then al_put ip w (ip_prune ws (now div 60))
       else al_put ip (w\<lparr>iw_requests := Suc (iw_requests w)\<rparr>) (al_put ip w (ip_prune ws (now div 60))))"
    and "iw_requests w = ip_usage (ip_prune ws (now div 60)) ip (now div 60)"
proof -
  let ?m = "now div 60" and ?ws = "ip_prune ws (now div 60)"
  let ?fresh = "\<lparr>iw_minute = ?m, iw_requests = 0\<rparr>"
  let ?w0 = "case map_of ?ws ip of Some w \<Rightarrow> w | None \<Rightarrow> ?fresh"
  let ?w = "if iw_minute ?w0 \<noteq> ?m then ?fresh else ?w0"
  have m: "iw_minute ?w = ?m" by simp
  have u: "iw_requests ?w = ip_usage ?ws ip ?m"
    by (simp add: ip_usage_def split: option.split)
  have eq: "ip_step ip rpm now ws = (if iw_requests ?w \<ge> rpm
      then (Inl \<lparr>rx_dimension = Requests, rx_retry_after_secs = 60 - now mod 60\<rparr>, al_put ip ?w ?ws)
      else (Inr (), al_put ip (?w\<lparr>iw_requests := iw_requests ?w + 1\<rparr>) (al_put ip ?w ?ws)))"
    using assms unfolding ip_step_def ip_admit_def ip_prune_def Let_def by simp
  show thesis
  proof (rule that[OF m _ u])
    show "ip_step ip rpm now ws = (ip_decide rpm now (ip_usage ?ws ip ?m),
        if rpm \<le> ip_usage ?ws ip ?m then al_put ip ?w ?ws
        else al_put ip (?w\<lparr>iw_requests := Suc (iw_requests ?w)\<rparr>) (al_put ip ?w ?ws))"
      unfolding eq u using assms by (simp add: ip_decide_def)
  qed
qed

lemma ip_table_ok_put: "ip_table_ok ws \<Longrightarrow> ip_table_ok (al_put ip w (ip_prune ws m))"
  by (simp add: ip_table_ok_def ip_prune_def)

lemma ip_step_idle: "ip_step ip 0 now ws = (Inr (), ws)"
  by (simp add: ip_step_def ip_admit_def)

interpretation ip_table: minute_table ip_step "[]" ip_table_ok ip_usage 0 ip_decide ip_effect
proof (unfold_locales, goal_cases)
  case (3 s k e now)
  show ?case
  proof (cases "e = 0")
    case False
    then have "0 < e" by simp
    then show ?thesis using 3
      by (cases rule: ip_step_shape[of e now k s]) (auto simp: ip_table_ok_def ip_prune_def)
  qed (use 3 in \<open>simp add: ip_step_idle\<close>)
next
  case (4 s k e now)
  show ?case
  proof (cases "e = 0")
    case False
    then have "0 < e" by simp
    then show ?thesis using 4
      by (cases rule: ip_step_shape[of e now k s]) (auto simp: ip_decide_def ip_prune_usage)
  qed (simp add: ip_step_idle ip_decide_def)
next
  case (5 s k e now)
  show ?case
  proof (cases "e = 0")
    case False
    then have "0 < e" by simp
    then show ?thesis using 5
      by (cases rule: ip_step_shape[of e now k s]) (auto simp: ip_effect_def ip_prune_usage ip_usage_put)
  qed (use 5 in \<open>simp add: ip_step_idle ip_effect_def\<close>)
next
  case (6 s k' k e now)
  show ?case
  proof (cases "e = 0")
    case False
    then have "0 < e" by simp
    then show ?thesis using 6
      by (cases rule: ip_step_shape[of e now k s]) (auto simp: ip_prune_usage ip_usage_put)
  qed (use 6 in \<open>simp add: ip_step_idle ip_effect_def\<close>)
next
  case (7 s now m k' k e)
  show ?case
  proof (cases "e = 0")
    case False
    then have "0 < e" by simp
    then show ?thesis using 7
      by (cases rule: ip_step_shape[of e now k s]) (auto simp: ip_prune_usage ip_usage_put)
  qed (use 7 in \<open>simp add: ip_step_idle ip_effect_def\<close>)
qed (simp_all add: ip_table_ok_def ip_usage_def)

subsection \<open>What the limiters guarantee\<close>

text \<open>\<open>C39\<close>. The key limiter implements its policy: on a clock that does not go back, every
  request is decided by exactly the requests and tokens that the same key had in the same
  minute. Neither the pruning of the table, nor the shared map, nor other keys interfere.\<close>

theorem rate_limiter_refines_history:
  assumes "sorted (map (\<lambda>(_, _, now). now) es)"
  shows "fst (run_table key_step es []) = ideal_run (0, 0) key_decide key_effect [] es"
  using assms by (rule key_table.run_table_refines)

text \<open>The address limiter implements the same policy for its request limit.\<close>

theorem ip_limiter_refines_history:
  assumes "sorted (map (\<lambda>(_, _, now). now) es)"
  shows "fst (run_table ip_step es []) = ideal_run 0 ip_decide ip_effect [] es"
  using assms by (rule ip_table.run_table_refines)

text \<open>The admitted requests of a key in a minute, and the bound on them.\<close>

fun admitted :: "int \<Rightarrow> nat \<Rightarrow> (int \<times> limit_event \<times> nat) list \<Rightarrow> (rate_exceeded + unit) list \<Rightarrow> nat" where
  "admitted key m ((k, Admit rpm tpm, now) # es) (d # ds) =
     (if k = key \<and> now div 60 = m \<and> d = Inr () then 1 else 0) + admitted key m es ds"
| "admitted key m ((k, Spend n, now) # es) (d # ds) = admitted key m es ds"
| "admitted key m _ _ = 0"

lemma ideal_admitted_bound:
  assumes "\<forall>(k, e, now) \<in> set es. k = key \<longrightarrow> (case e of Admit rpm _ \<Rightarrow> 0 < rpm \<and> rpm \<le> int n | Spend _ \<Rightarrow> True)"
    and "fst (history_usage (0, 0) key_effect h key m) \<le> n"
  shows "fst (history_usage (0, 0) key_effect h key m)
     + admitted key m es (ideal_run (0, 0) key_decide key_effect h es) \<le> n"
  using assms
proof (induction es arbitrary: h)
  case (Cons ev es)
  obtain k e now where ev: "ev = (k, e, now)" by (cases ev) auto
  obtain reqs toks where u: "history_usage (0, 0) key_effect h key m = (reqs, toks)" by fastforce
  have IH: "fst (history_usage (0, 0) key_effect (h @ [ev]) key m) \<le> n \<Longrightarrow>
     fst (history_usage (0, 0) key_effect (h @ [ev]) key m)
     + admitted key m es (ideal_run (0, 0) key_decide key_effect (h @ [ev]) es) \<le> n"
    using Cons.IH[of "h @ [ev]"] Cons.prems(1) by simp
  show ?case
  proof (cases "k = key \<and> now div 60 = m")
    case True
    then show ?thesis using IH Cons.prems u ev
      by (cases e) (auto simp: history_usage_snoc split: if_splits)
  next
    case False
    then show ?thesis using IH Cons.prems u ev
      by (cases e) (auto simp: history_usage_snoc)
  qed
qed simp

text \<open>\<open>C40\<close>. A key whose requests carry a limit of at most \<open>n\<close> per minute is never admitted more
  than \<open>n\<close> times in one minute, whatever the other keys do and however the requests, the
  token bookings and the prunings interleave.\<close>

theorem at_most_rpm_admitted:
  assumes "sorted (map (\<lambda>(_, _, now). now) es)"
    and "\<forall>(k, e, now) \<in> set es. k = key \<longrightarrow> (case e of Admit rpm _ \<Rightarrow> 0 < rpm \<and> rpm \<le> int n | Spend _ \<Rightarrow> True)"
  shows "admitted key m es (fst (run_table key_step es [])) \<le> n"
  using ideal_admitted_bound[OF assms(2), of "[]" m] key_table.run_table_refines[OF assms(1)]
  by (simp add: history_usage_def)

text \<open>A rejected request is told when to come back: the wait is between one and sixty
  seconds and ends exactly when the next minute starts. A rejection changes no usage.\<close>

theorem rejection_waits_for_next_minute:
  assumes "key_table_ok ws" and "key_step key (Admit rpm tpm) now ws = (Inl x, ws')"
  shows "1 \<le> rx_retry_after_secs x \<and> rx_retry_after_secs x \<le> 60
     \<and> (now + rx_retry_after_secs x) div 60 = Suc (now div 60)
     \<and> (now + rx_retry_after_secs x) mod 60 = 0
     \<and> key_usage ws' key (now div 60) = key_usage ws key (now div 60)"
proof -
  obtain reqs toks where u: "key_usage ws key (now div 60) = (reqs, toks)" by fastforce
  have d: "key_decide (Admit rpm tpm) now (reqs, toks) = Inl x"
    using key_table.step_decision[OF assms(1), of key "Admit rpm tpm" now] assms(2) u by simp
  then have x: "rx_retry_after_secs x = 60 - now mod 60" by (auto split: if_splits)
  have "key_effect (Admit rpm tpm) (reqs, toks) = (reqs, toks)" using d by (auto split: if_splits)
  then have "key_usage ws' key (now div 60) = key_usage ws key (now div 60)"
    using key_table.step_usage[OF assms(1), of key "Admit rpm tpm" now] assms(2) u by simp
  moreover have "now + (60 - now mod 60) = 60 * Suc (now div 60)"
    by presburger
  ultimately show ?thesis using mod_less_divisor[of 60 now] unfolding x by simp
qed

subsection \<open>Witnesses\<close>

theorem rate_limiter_refines_history_witness:
  "fst (run_table key_step [(1, Admit 1 0, 5), (1, Admit 1 0, 59), (1, Admit 1 0, 60)] []) =
   [Inr (), Inl \<lparr>rx_dimension = Requests, rx_retry_after_secs = 1\<rparr>, Inr ()]"
  using rate_limiter_refines_history[of "[(1, Admit 1 0, 5), (1, Admit 1 0, 59), (1, Admit 1 0, 60)]"]
  by (simp add: history_usage_def del: run_table.simps)

theorem ip_limiter_refines_history_witness:
  "fst (run_table ip_step [(''a'', 1, 5), (''a'', 1, 59), (''b'', 1, 59)] []) =
   [Inr (), Inl \<lparr>rx_dimension = Requests, rx_retry_after_secs = 1\<rparr>, Inr ()]"
  using ip_limiter_refines_history[of "[(''a'', 1, 5), (''a'', 1, 59), (''b'', 1, 59)]"]
  by (simp add: history_usage_def ip_decide_def ip_effect_def del: run_table.simps)

theorem at_most_rpm_admitted_witness:
  "admitted 1 0 [(1, Admit 1 0, 5), (1, Admit 1 0, 59)]
     (fst (run_table key_step [(1, Admit 1 0, 5), (1, Admit 1 0, 59)] [])) \<le> 1"
  using at_most_rpm_admitted[of "[(1, Admit 1 0, 5), (1, Admit 1 0, 59)]" 1 1 0]
  by (simp del: run_table.simps admitted.simps)

theorem rejection_waits_for_next_minute_witness:
  "(59 + rx_retry_after_secs \<lparr>rx_dimension = Requests, rx_retry_after_secs = 1\<rparr>) div 60 = (1::nat)"
proof -
  define ws where "ws = [(1::int, \<lparr>w_minute = 0, w_requests = 1, w_tokens = 0\<rparr>)]"
  have "key_table_ok ws" by (simp add: ws_def key_table_ok_def)
  moreover have "key_step 1 (Admit 1 0) 59 ws =
      (Inl \<lparr>rx_dimension = Requests, rx_retry_after_secs = 1\<rparr>, ws)"
    by (simp add: ws_def key_step_def admit_def admit_at_def enter_window_def Let_def
        prune_stale_windows_def max_windows_def al_put_def)
  ultimately show ?thesis
    using rejection_waits_for_next_minute[of ws 1 1 0 59] by simp
qed

end
