(* ===== verification/Upstream_Client.thy ===== *)
theory Upstream_Client
  imports Address Channel Gateway_Error
begin

section \<open>The upstream client\<close>

text \<open>
  \<open>crates/refract-upstream/src/client.rs\<close>: how a request that routing has decided on becomes an
  HTTP call, which connection pool carries it, and how the answer is read and its errors are
  classified. The HTTP library, the URL and JSON libraries are the record \<open>http_lib\<close> of
  functions; the network and the clock are in the world it threads.
\<close>

subsection \<open>Configuration and requests\<close>

record client_config =
  uc_timeout :: duration
  uc_connect_timeout :: duration
  uc_stream_idle :: duration
  uc_pool_max_idle :: nat
  uc_pool_idle :: duration
  uc_proxy :: "string option"
  uc_user_agent :: string

definition default_client_config :: "string \<Rightarrow> client_config" where
  "default_client_config version = \<lparr>uc_timeout = from_secs 300, uc_connect_timeout = from_secs 10,
     uc_stream_idle = from_secs 120, uc_pool_max_idle = 32, uc_pool_idle = from_secs 90,
     uc_proxy = None, uc_user_agent = ''refract/'' @ version\<rparr>"

record upstream_request =
  rq_protocol :: protocol
  rq_address :: upstream_address
  rq_credential :: credential
  rq_model :: string
  rq_action :: action
  rq_body :: "json option"
  rq_raw_body :: "string option"
  rq_raw_content_type :: "string option"
  rq_extra_headers :: "(string \<times> string) list"
  rq_proxy :: "string option"
  rq_timeout :: "duration option"

definition post_request ::
  "protocol \<Rightarrow> upstream_address \<Rightarrow> credential \<Rightarrow> string \<Rightarrow> action \<Rightarrow> json \<Rightarrow> upstream_request"
where
  "post_request p a c m act b = \<lparr>rq_protocol = p, rq_address = a, rq_credential = c, rq_model = m,
     rq_action = act, rq_body = Some b, rq_raw_body = None, rq_raw_content_type = None,
     rq_extra_headers = [], rq_proxy = None, rq_timeout = None\<rparr>"

definition post_raw_request ::
  "protocol \<Rightarrow> upstream_address \<Rightarrow> credential \<Rightarrow> string \<Rightarrow> action \<Rightarrow> string \<Rightarrow> upstream_request"
where
  "post_raw_request p a c m act b = \<lparr>rq_protocol = p, rq_address = a, rq_credential = c, rq_model = m,
     rq_action = act, rq_body = None, rq_raw_body = Some b, rq_raw_content_type = None,
     rq_extra_headers = [], rq_proxy = None, rq_timeout = None\<rparr>"

definition list_models_request :: "protocol \<Rightarrow> upstream_address \<Rightarrow> credential \<Rightarrow> upstream_request" where
  "list_models_request p a c = \<lparr>rq_protocol = p, rq_address = a, rq_credential = c, rq_model = [],
     rq_action = ListModels, rq_body = None, rq_raw_body = None, rq_raw_content_type = None,
     rq_extra_headers = [], rq_proxy = None, rq_timeout = None\<rparr>"

text \<open>A header map: lower-case names with their values, the first entry of a name is its value.\<close>

type_synonym header_map = "(string \<times> string) list"

record upstream_response =
  rp_status :: nat
  rp_body :: json
  rp_headers :: header_map
  rp_first_byte_to_end :: duration

record raw_response =
  rw_status :: nat
  rw_body :: string
  rw_headers :: header_map
  rw_first_byte_to_end :: duration

subsection \<open>The libraries\<close>

datatype http_method = GET | POST

datatype http_content = No_Content | Json_Content json | Raw_Content string string

text \<open>
  The calls made on the request builder: \<open>headers\<close> sets the authentication headers,
  every \<open>header\<close> appends one more.
\<close>

record 'u http_request =
  hq_method :: http_method
  hq_url :: 'u
  hq_auth :: header_map
  hq_timeout :: "duration option"
  hq_appended :: "(string \<times> string) list"
  hq_content :: http_content

record transport_error =
  te_is_timeout :: bool
  te_text :: string

text \<open>An answer: its head, and the pieces of its body with the times they arrive at.\<close>

record http_response =
  re_status :: nat
  re_headers :: header_map
  re_chunks :: "(int \<times> (transport_error + string)) list"
  re_end :: int

record ('u, 'e, 'p, 'c, 'w) http_lib =
  hl_url :: "('u, 'e) url_lib"
  hl_url_error :: "'e \<Rightarrow> string"
  hl_proxy :: "string \<Rightarrow> string + 'p"
  hl_client :: "client_config \<Rightarrow> 'p option \<Rightarrow> string + 'c"
  hl_header_name :: "string \<Rightarrow> bool"
  hl_header_value :: "string \<Rightarrow> bool"
  hl_to_str :: "string \<Rightarrow> string option"
  hl_parse_json :: "string \<Rightarrow> string + json"
  hl_lossy :: "string \<Rightarrow> string"
  hl_debug :: "string \<Rightarrow> string"
  hl_send :: "'c \<Rightarrow> 'u http_request \<Rightarrow> duration option \<Rightarrow> 'w \<Rightarrow> (transport_error + http_response) option \<times> 'w"

subsection \<open>Errors\<close>

definition classify_transport_error :: "transport_error \<Rightarrow> string \<Rightarrow> gateway_error" where
  "classify_transport_error e ctx = gateway_error_new (if te_is_timeout e then Timeout else UpstreamError)
     (ctx @ '': '' @ te_text e)"

definition status_kind :: "nat \<Rightarrow> error_kind" where
  "status_kind s = (
     if s = 401 then Unauthenticated else if s = 403 then PermissionDenied
     else if s = 404 then NotFound else if s = 413 then PayloadTooLarge
     else if s = 429 then RateLimited else if s = 408 \<or> s = 504 then Timeout
     else if s = 400 \<or> s = 422 then InvalidRequest else UpstreamError)"

text \<open>\<open>Value::pointer\<close> on the paths the code uses.\<close>

fun json_path :: "string list \<Rightarrow> json \<Rightarrow> json option" where
  "json_path [] v = Some v"
| "json_path (k # ks) v = Option.bind (jget k v) (json_path ks)"

definition message_paths :: "string list list" where
  "message_paths = [[''error'', ''message''], [''error''], [''message''], [''detail''], [''error_msg'']]"

fun first_message :: "json option list \<Rightarrow> string option" where
  "first_message [] = None"
| "first_message (Some (JStr s) # vs) = (if trim s \<noteq> [] then Some s else first_message vs)"
| "first_message (_ # vs) = first_message vs"

definition extract_error_message :: "(string \<Rightarrow> string + json) \<Rightarrow> string \<Rightarrow> string option" where
  "extract_error_message parse body = (case parse body of
     Inl _ \<Rightarrow> None
   | Inr (JArr []) \<Rightarrow> None
   | Inr (JArr (v # _)) \<Rightarrow> first_message (map (\<lambda>p. json_path p v) message_paths)
   | Inr v \<Rightarrow> first_message (map (\<lambda>p. json_path p v) message_paths))"

definition snippet :: "(string \<Rightarrow> string) \<Rightarrow> string \<Rightarrow> string" where
  "snippet lossy body = (
     let cs = chars (trim (lossy body))
     in if length cs \<le> 2048 then trim (lossy body) else concat (take 2048 cs))"

definition upstream_status_error :: "('u, 'e, 'p, 'c, 'w) http_lib \<Rightarrow> nat \<Rightarrow> string \<Rightarrow> gateway_error" where
  "upstream_status_error L status body = (
     let detail = (case extract_error_message (hl_parse_json L) body of Some m \<Rightarrow> m
           | None \<Rightarrow> ''upstream returned HTTP '' @ nat_to_string status)
     in with_upstream status (snippet (hl_lossy L) body) (gateway_error_new (status_kind status) detail))"

text \<open>\<open>str::parse::<u64>\<close>: an optional plus sign and digits, in range.\<close>

definition is_digit :: "char \<Rightarrow> bool" where
  "is_digit c \<longleftrightarrow> 48 \<le> byte c \<and> byte c \<le> 57"

definition parse_u64 :: "string \<Rightarrow> nat option" where
  "parse_u64 s = (
     let ds = (case s of c # t \<Rightarrow> if c = CHR ''+'' then t else s | [] \<Rightarrow> [])
     in if ds = [] \<or> \<not> list_all is_digit ds then None
        else let n = foldl (\<lambda>n c. 10 * n + (byte c - 48)) 0 ds
             in if n < 2 ^ 64 then Some n else None)"

definition parse_retry_after :: "(string \<Rightarrow> string option) \<Rightarrow> header_map \<Rightarrow> duration option" where
  "parse_retry_after to_str hs =
     Option.bind (map_of hs ''retry-after'') (\<lambda>v.
     Option.bind (to_str v) (\<lambda>s.
     map_option (\<lambda>secs. min (from_secs secs) (from_secs 3600)) (parse_u64 (trim s))))"

definition attach_retry_after :: "gateway_error \<Rightarrow> duration option \<Rightarrow> gateway_error" where
  "attach_retry_after e wait = (case wait of Some d \<Rightarrow> with_retry_after d e | None \<Rightarrow> e)"

subsection \<open>Authentication headers\<close>

definition anthropic_version :: string where
  "anthropic_version = ''2023-06-01''"

definition auth_headers :: "(string \<Rightarrow> bool) \<Rightarrow> protocol \<Rightarrow> credential \<Rightarrow> gateway_error + header_map" where
  "auth_headers value_ok p credential = (
     if cred_is_empty credential then
       Inl (with_protocol p (gateway_error_new Configuration
         ''upstream credential is empty; set an API key on the channel or endpoint''))
     else
       let rendered = (case protocol_auth p of Bearer \<Rightarrow> ''Bearer '' @ credential
             | AnthropicApiKey \<Rightarrow> credential | GoogleApiKey \<Rightarrow> credential)
       in if \<not> value_ok rendered then
            Inl (with_protocol p (gateway_error_new Configuration
              ''upstream credential contains characters that cannot be sent in a header''))
          else Inr (case protocol_auth p of
              Bearer \<Rightarrow> [(''authorization'', rendered)]
            | AnthropicApiKey \<Rightarrow> [(''x-api-key'', rendered), (''anthropic-version'', anthropic_version)]
            | GoogleApiKey \<Rightarrow> [(''x-goog-api-key'', rendered)]))"

subsection \<open>The connection pools\<close>

text \<open>
  The default pool, and the pools of the channels' proxies in the order in which the
  concurrent map iterates them; where a new entry goes in that order is the map's own.
\<close>

record 'c upstream_client =
  ut_http :: 'c
  ut_proxy_clients :: "(string \<times> 'c) list"
  ut_config :: client_config

definition max_proxy_clients :: nat where
  "max_proxy_clients = 32"

definition build_http_client ::
  "('u, 'e, 'p, 'c, 'w) http_lib \<Rightarrow> client_config \<Rightarrow> string option \<Rightarrow> gateway_error + 'c"
where
  "build_http_client L cfg proxy = (
     case (case proxy of
             None \<Rightarrow> Inr None
           | Some px \<Rightarrow> (case hl_proxy L px of
               Inl e \<Rightarrow> Inl (gateway_error_new Configuration
                 (''invalid upstream proxy '' @ hl_debug L px @ '': '' @ e))
             | Inr p \<Rightarrow> Inr (Some p))) of
       Inl e \<Rightarrow> Inl e
     | Inr p \<Rightarrow> (case hl_client L cfg p of
           Inl e \<Rightarrow> Inl (gateway_error_new Configuration (''failed to build upstream http client: '' @ e))
         | Inr c \<Rightarrow> Inr c))"

definition new_client ::
  "('u, 'e, 'p, 'c, 'w) http_lib \<Rightarrow> client_config \<Rightarrow> gateway_error + 'c upstream_client"
where
  "new_client L cfg = rbind (build_http_client L cfg (uc_proxy cfg)) (\<lambda>c.
     Inr \<lparr>ut_http = c, ut_proxy_clients = [], ut_config = cfg\<rparr>)"

text \<open>\<open>place\<close> is the position the map gives a new key.\<close>

definition http_for ::
  "('u, 'e, 'p, 'c, 'w) http_lib \<Rightarrow> (string \<Rightarrow> nat) \<Rightarrow> string option \<Rightarrow> 'c upstream_client
   \<Rightarrow> (gateway_error + 'c) \<times> 'c upstream_client"
where
  "http_for L place proxy ut = (case trimmed proxy of
     None \<Rightarrow> (Inr (ut_http ut), ut)
   | Some px \<Rightarrow>
       if map_option trim (uc_proxy (ut_config ut)) = Some px then (Inr (ut_http ut), ut)
       else case map_of (ut_proxy_clients ut) px of
         Some c \<Rightarrow> (Inr c, ut)
       | None \<Rightarrow>
           (case build_http_client L (ut_config ut) (Some px) of
              Inl e \<Rightarrow> (Inl e, ut)
            | Inr c \<Rightarrow>
                let pools = (if length (ut_proxy_clients ut) \<ge> max_proxy_clients
                      then tl (ut_proxy_clients ut) else ut_proxy_clients ut)
                in (Inr c, ut\<lparr>ut_proxy_clients :=
                      take (place px) pools @ (px, c) # drop (place px) pools\<rparr>)))"

subsection \<open>Sending\<close>

definition address_error_text :: "('e \<Rightarrow> string) \<Rightarrow> 'e address_error \<Rightarrow> string" where
  "address_error_text url_text e = (case e of
     MissingBaseUrl \<Rightarrow> ''unofficial address requires a base_url''
   | MissingFullAddress \<Rightarrow> ''full_address mode requires base_url to hold the complete URL''
   | InvalidUrl url src \<Rightarrow> ''invalid upstream url `'' @ url @ ''`: '' @ url_text src
   | ProtocolMismatch path p \<Rightarrow> ''path `'' @ path @ ''` does not look like a '' @ protocol_str p
       @ '' endpoint; enable full_address to bypass this check'')"

fun add_headers ::
  "('u, 'e, 'p, 'c, 'w) http_lib \<Rightarrow> (string \<times> string) list \<Rightarrow> 'u http_request \<Rightarrow> gateway_error + 'u http_request"
where
  "add_headers L [] hq = Inr hq"
| "add_headers L ((name, value) # hs) hq = (
     if \<not> hl_header_name L name then
       Inl (gateway_error_new Configuration (''invalid upstream header name '' @ hl_debug L name))
     else if \<not> hl_header_value L value then
       Inl (gateway_error_new Configuration (''invalid value for upstream header '' @ hl_debug L name))
     else add_headers L hs (hq\<lparr>hq_appended := hq_appended hq @ [(name, value)]\<rparr>))"

definition build_request ::
  "('u, 'e, 'p, 'c, 'w) http_lib \<Rightarrow> client_config \<Rightarrow> 'u \<Rightarrow> upstream_request \<Rightarrow> gateway_error + 'u http_request"
where
  "build_request L cfg url rq =
     rbind (auth_headers (hl_header_value L) (rq_protocol rq) (rq_credential rq)) (\<lambda>auth.
     rbind (add_headers L (rq_extra_headers rq)
       \<lparr>hq_method = (if rq_body rq \<noteq> None \<or> rq_raw_body rq \<noteq> None then POST else GET), hq_url = url,
        hq_auth = auth,
        hq_timeout = (if rq_action rq = StreamAction then None
          else Some (case rq_timeout rq of Some d \<Rightarrow> d | None \<Rightarrow> uc_timeout cfg)),
        hq_appended = [], hq_content = No_Content\<rparr>) (\<lambda>hq.
     Inr (case rq_body rq of
            Some v \<Rightarrow> hq\<lparr>hq_content := Json_Content v\<rparr>
          | None \<Rightarrow> (case rq_raw_body rq of
              Some b \<Rightarrow> hq\<lparr>hq_content := Raw_Content
                (case rq_raw_content_type rq of Some ct \<Rightarrow> ct | None \<Rightarrow> ''application/json'') b\<rparr>
            | None \<Rightarrow> hq))))"

definition secs_at_least_one :: "duration \<Rightarrow> nat" where
  "secs_at_least_one d = max (d div 10 ^ 9) 1"

definition dispatch ::
  "('u, 'e, 'p, 'c, 'w) http_lib \<Rightarrow> (string \<Rightarrow> nat) \<Rightarrow> upstream_request \<Rightarrow> 'c upstream_client \<times> 'w
   \<Rightarrow> (gateway_error + http_response) \<times> ('c upstream_client \<times> 'w)"
where
  "dispatch L place rq st = (
     let (ut, w) = st in
     case resolve (hl_url L) (rq_address rq) (rq_protocol rq) (rq_action rq) (rq_model rq) of
       Inl e \<Rightarrow> (Inl (with_protocol (rq_protocol rq)
                  (gateway_error_new Configuration (address_error_text (hl_url_error L) e))), st)
     | Inr url \<Rightarrow>
       (case http_for L place (rq_proxy rq) ut of
          (Inl e, ut1) \<Rightarrow> (Inl e, (ut1, w))
        | (Inr c, ut1) \<Rightarrow>
          (case build_request L (ut_config ut) url rq of
             Inl e \<Rightarrow> (Inl e, (ut1, w))
           | Inr hq \<Rightarrow>
               let limit = (if rq_action rq = StreamAction then Some (uc_stream_idle (ut_config ut)) else None);
                   (r, w1) = hl_send L c hq limit w
               in (case r of
                     None \<Rightarrow> Inl (gateway_error_new Timeout (''upstream stalled before response headers for ''
                       @ nat_to_string (secs_at_least_one (uc_stream_idle (ut_config ut))) @ ''s''))
                   | Some (Inl e) \<Rightarrow> Inl (classify_transport_error e ''upstream request failed'')
                   | Some (Inr resp) \<Rightarrow> Inr resp, (ut1, w1)))))"

text \<open>The loop over the pieces of the body: the text, and when its first byte arrived.\<close>

fun read_chunks ::
  "(int \<times> (transport_error + string)) list \<Rightarrow> string \<Rightarrow> int option \<Rightarrow> gateway_error + string \<times> int option"
where
  "read_chunks [] body first = Inr (body, first)"
| "read_chunks ((t, Inl e) # cs) body first =
     Inl (classify_transport_error e ''failed to read upstream response body'')"
| "read_chunks ((t, Inr c) # cs) body first =
     read_chunks cs (body @ c) (if first = None \<and> c \<noteq> [] then Some t else first)"

definition is_success :: "nat \<Rightarrow> bool" where
  "is_success s \<longleftrightarrow> 200 \<le> s \<and> s < 300"

definition send_raw ::
  "('u, 'e, 'p, 'c, 'w) http_lib \<Rightarrow> (string \<Rightarrow> nat) \<Rightarrow> upstream_request \<Rightarrow> 'c upstream_client \<times> 'w
   \<Rightarrow> (gateway_error + raw_response) \<times> ('c upstream_client \<times> 'w)"
where
  "send_raw L place rq st = (case dispatch L place rq st of
     (Inl e, st1) \<Rightarrow> (Inl e, st1)
   | (Inr resp, st1) \<Rightarrow>
       (rbind (read_chunks (re_chunks resp) [] None) (\<lambda>(body, first).
          if \<not> is_success (re_status resp) then
            Inl (attach_retry_after (upstream_status_error L (re_status resp) body)
                   (parse_retry_after (hl_to_str L) (re_headers resp)))
          else Inr \<lparr>rw_status = re_status resp, rw_body = body, rw_headers = re_headers resp,
            rw_first_byte_to_end = (case first of None \<Rightarrow> 0 | Some t \<Rightarrow> nat (re_end resp - t))\<rparr>), st1))"

definition read_json :: "('u, 'e, 'p, 'c, 'w) http_lib \<Rightarrow> raw_response \<Rightarrow> gateway_error + upstream_response" where
  "read_json L raw = rbind
     (if rw_body raw = [] then Inr JNull
      else case hl_parse_json L (rw_body raw) of
        Inl e \<Rightarrow> Inl (with_upstream (rw_status raw) (snippet (hl_lossy L) (rw_body raw))
          (gateway_error_new UpstreamError (''upstream returned malformed JSON: '' @ e)))
      | Inr v \<Rightarrow> Inr v)
     (\<lambda>body. Inr \<lparr>rp_status = rw_status raw, rp_body = body, rp_headers = rw_headers raw,
        rp_first_byte_to_end = rw_first_byte_to_end raw\<rparr>)"

definition send ::
  "('u, 'e, 'p, 'c, 'w) http_lib \<Rightarrow> (string \<Rightarrow> nat) \<Rightarrow> upstream_request \<Rightarrow> 'c upstream_client \<times> 'w
   \<Rightarrow> (gateway_error + upstream_response) \<times> ('c upstream_client \<times> 'w)"
where
  "send L place rq st = (let (r, st1) = send_raw L place rq st in (rbind r (read_json L), st1))"

text \<open>\<open>response.bytes().await\<close>: all pieces, or the first error.\<close>

fun all_bytes :: "(int \<times> (transport_error + string)) list \<Rightarrow> transport_error + string" where
  "all_bytes [] = Inr []"
| "all_bytes ((_, Inl e) # cs) = Inl e"
| "all_bytes ((_, Inr c) # cs) = rbind (all_bytes cs) (\<lambda>rest. Inr (c @ rest))"

text \<open>The head of both streaming calls: an error answer is read at once, otherwise the
  body is handed on piece by piece.\<close>

definition open_stream ::
  "('u, 'e, 'p, 'c, 'w) http_lib \<Rightarrow> (string \<Rightarrow> nat) \<Rightarrow> upstream_request \<Rightarrow> 'c upstream_client \<times> 'w
   \<Rightarrow> (gateway_error + http_response) \<times> ('c upstream_client \<times> 'w)"
where
  "open_stream L place rq st = (case dispatch L place rq st of
     (Inl e, st1) \<Rightarrow> (Inl e, st1)
   | (Inr resp, st1) \<Rightarrow>
       (if \<not> is_success (re_status resp) then
          Inl (attach_retry_after
            (upstream_status_error L (re_status resp) (case all_bytes (re_chunks resp) of Inr b \<Rightarrow> b | Inl _ \<Rightarrow> []))
            (parse_retry_after (hl_to_str L) (re_headers resp)))
        else Inr resp, st1))"

subsection \<open>What an error says\<close>

lemma chars_prefix: "chars (concat (take n (chars s))) = take n (chars s)"
proof (induction s arbitrary: n rule: chars.induct)
  case (1 s)
  show ?case
  proof (cases "s = [] \<or> n = 0")
    case False
    then obtain m where n: "n = Suc m" by (cases n) auto
    let ?k = "char_len (hd s)"
    let ?rest = "concat (take m (chars (drop ?k s)))"
    have split: "take n (chars s) = take ?k s # take m (chars (drop ?k s))"
      using False n by (subst chars.simps) simp
    have "take ?k (take ?k s @ ?rest) = take ?k s \<and> drop ?k (take ?k s @ ?rest) = ?rest"
      by (cases "?k \<le> length s") auto
    moreover have "hd (take ?k s @ ?rest) = hd s" "take ?k s @ ?rest \<noteq> []"
      using False char_len_pos[of "hd s"] by (auto simp: hd_append simp del: char_len_pos)
    ultimately have "chars (take ?k s @ ?rest) = take ?k s # chars ?rest"
      by (subst chars.simps) simp
    then show ?thesis using 1[of m] False by (simp add: split)
  qed auto
qed

lemma snippet_chars: "length (chars (snippet lossy body)) \<le> 2048"
  by (simp add: snippet_def Let_def chars_prefix)

lemma parse_retry_after_bound: "parse_retry_after to_str hs = Some d \<Longrightarrow> d \<le> from_secs 3600"
  by (auto simp: parse_retry_after_def bind_eq_Some_conv)

lemma status_kind_retryable: "kind_retryable (status_kind s) \<longleftrightarrow> s \<notin> {400, 404, 413, 422}"
  by (auto simp: status_kind_def kind_retryable_def)


lemma read_chunks_Inr:
  "read_chunks cs body first = Inr (b, f) \<Longrightarrow> \<exists>ps. map snd cs = map Inr ps \<and> b = body @ concat ps"
proof (induction cs body first rule: read_chunks.induct)
  case (3 t c cs body first)
  then obtain ps where "map snd cs = map Inr ps" "b = (body @ c) @ concat ps" by fastforce
  then show ?case by (intro exI[of _ "c # ps"]) simp
qed auto

lemma read_chunks_Inl: "read_chunks cs body first = Inl e \<Longrightarrow> ge_retry_after e = None"
  by (induction cs body first rule: read_chunks.induct)
     (auto simp: classify_transport_error_def gateway_error_new_def)

lemma error_new_retry [simp]: "ge_retry_after (gateway_error_new k m) = None"
  by (simp add: gateway_error_new_def)

lemma error_with_retry [simp]:
  "ge_retry_after (with_protocol p e) = ge_retry_after e" "ge_retry_after (with_upstream s b e) = ge_retry_after e"
  by (simp_all add: with_protocol_def with_upstream_def)

lemma auth_headers_error: "auth_headers ok p cr = Inl e \<Longrightarrow> ge_retry_after e = None \<and> ge_kind e = Configuration"
  by (auto simp: auth_headers_def Let_def split: if_splits)

lemma http_client_error: "build_http_client L cfg px = Inl e \<Longrightarrow> ge_retry_after e = None \<and> ge_kind e = Configuration"
  by (auto simp: build_http_client_def split: option.splits sum.splits)

lemma http_for_error: "http_for L place px ut = (Inl e, ut1) \<Longrightarrow> ge_retry_after e = None \<and> ge_kind e = Configuration"
  by (auto simp: http_for_def Let_def dest: http_client_error split: option.splits sum.splits if_splits)

lemma add_headers_error: "add_headers L hs hq = Inl e \<Longrightarrow> ge_retry_after e = None \<and> ge_kind e = Configuration"
  by (induction L hs hq rule: add_headers.induct) (auto split: if_splits)

lemma build_request_error: "build_request L cfg url rq = Inl e \<Longrightarrow> ge_retry_after e = None \<and> ge_kind e = Configuration"
  by (auto simp: build_request_def rbind_def split: sum.splits dest: auth_headers_error add_headers_error)

lemma dispatch_error: "dispatch L place rq st = (Inl e, st1) \<Longrightarrow> ge_retry_after e = None"
  by (auto simp: dispatch_def Let_def classify_transport_error_def split: prod.splits sum.splits option.splits
      dest: http_for_error build_request_error)

text \<open>A call either yields a success status with the whole body, or an error whose waiting time is
  at most one hour, whatever the upstream's header asked for.\<close>

theorem send_raw_result:
  "case fst (send_raw L place rq st) of
     Inr raw \<Rightarrow> is_success (rw_status raw)
       \<and> (\<exists>resp ps. fst (dispatch L place rq st) = Inr resp \<and> map snd (re_chunks resp) = map Inr ps
            \<and> rw_body raw = concat ps \<and> rw_status raw = re_status resp \<and> rw_headers raw = re_headers resp)
   | Inl e \<Rightarrow> (case ge_retry_after e of Some d \<Rightarrow> d \<le> from_secs 3600 | None \<Rightarrow> True)"
proof -
  obtain r st1 where d: "dispatch L place rq st = (r, st1)" by (metis surj_pair)
  show ?thesis
  proof (cases r)
    case (Inl e)
    then show ?thesis using dispatch_error d by (fastforce simp: send_raw_def)
  next
    case (Inr resp)
    show ?thesis
    proof (cases "read_chunks (re_chunks resp) [] None")
      case (Inl e)
      from read_chunks_Inl[OF this]
      show ?thesis using d Inr Inl by (simp add: send_raw_def rbind_def)
    next
      case body: (Inr bf)
      obtain b f where bf: "bf = (b, f)" by fastforce
      obtain ps where "map snd (re_chunks resp) = map Inr ps" "b = concat ps"
        using read_chunks_Inr[of "re_chunks resp" "[]" None b f] body bf by auto
      then show ?thesis
        using d Inr body bf parse_retry_after_bound
        by (auto simp: send_raw_def rbind_def attach_retry_after_def with_retry_after_def
            upstream_status_error_def Let_def split: option.split)
    qed
  qed
qed

subsection \<open>The request that is sent\<close>

lemma add_headers_Inr:
  "add_headers L hs hq = Inr hq' \<longleftrightarrow>
     (\<forall>(n, v) \<in> set hs. hl_header_name L n \<and> hl_header_value L v) \<and> hq' = hq\<lparr>hq_appended := hq_appended hq @ hs\<rparr>"
  by (induction L hs hq rule: add_headers.induct) auto

text \<open>The header that carries the key of a protocol.\<close>

definition key_header :: "protocol \<Rightarrow> string" where
  "key_header p = (case protocol_auth p of Bearer \<Rightarrow> ''authorization'' | AnthropicApiKey \<Rightarrow> ''x-api-key''
     | GoogleApiKey \<Rightarrow> ''x-goog-api-key'')"

text \<open>What is put on the wire: the key in the one header of the upstream's protocol and nowhere
  else, every extra header in the given order behind it and none that the HTTP library would
  refuse, a body exactly when there is one, and an overall deadline unless the call streams.
  An unusable key or header is reported as a configuration error.\<close>

theorem request_on_the_wire:
  "case build_request L cfg url rq of
     Inr hq \<Rightarrow> (\<exists>k. map_of (hq_auth hq) (key_header (rq_protocol rq)) = Some k \<and> suffix (rq_credential rq) k)
       \<and> set (map fst (hq_auth hq)) \<subseteq> {key_header (rq_protocol rq), ''anthropic-version''}
       \<and> hq_appended hq = rq_extra_headers rq
       \<and> list_all (\<lambda>(n, v). hl_header_name L n \<and> hl_header_value L v) (rq_extra_headers rq)
       \<and> (hq_method hq = POST \<longleftrightarrow> hq_content hq \<noteq> No_Content)
       \<and> (hq_timeout hq = None \<longleftrightarrow> rq_action rq = StreamAction) \<and> hq_url hq = url
   | Inl e \<Rightarrow> ge_kind e = Configuration"
proof (cases "build_request L cfg url rq")
  case (Inl e)
  then show ?thesis using build_request_error[OF Inl] by simp
next
  case (Inr hq)
  then obtain auth where a: "auth_headers (hl_header_value L) (rq_protocol rq) (rq_credential rq) = Inr auth"
    by (auto simp: build_request_def rbind_def split: sum.splits)
  have "(\<exists>k. map_of auth (key_header (rq_protocol rq)) = Some k \<and> suffix (rq_credential rq) k)
      \<and> set (map fst auth) \<subseteq> {key_header (rq_protocol rq), ''anthropic-version''}"
    using a by (auto simp: auth_headers_def Let_def key_header_def suffix_def split: if_splits auth_scheme.splits)
  moreover have "hq_auth hq = auth \<and> hq_url hq = url \<and> hq_appended hq = rq_extra_headers rq
      \<and> hq_timeout hq = (if rq_action rq = StreamAction then None
          else Some (case rq_timeout rq of Some d \<Rightarrow> d | None \<Rightarrow> uc_timeout cfg))
      \<and> (hq_method hq = POST \<longleftrightarrow> hq_content hq \<noteq> No_Content)
      \<and> list_all (\<lambda>(n, v). hl_header_name L n \<and> hl_header_value L v) (rq_extra_headers rq)"
    using Inr a by (cases "rq_body rq"; cases "rq_raw_body rq")
      (auto simp: build_request_def rbind_def add_headers_Inr list_all_iff split: sum.splits)
  ultimately show ?thesis using Inr by simp
qed

subsection \<open>The pools\<close>

definition pools_ok :: "('u, 'e, 'p, 'c, 'w) http_lib \<Rightarrow> 'c upstream_client \<Rightarrow> bool" where
  "pools_ok L ut \<longleftrightarrow> length (ut_proxy_clients ut) \<le> max_proxy_clients
     \<and> distinct (map fst (ut_proxy_clients ut))
     \<and> build_http_client L (ut_config ut) (uc_proxy (ut_config ut)) = Inr (ut_http ut)
     \<and> (\<forall>(px, c) \<in> set (ut_proxy_clients ut). build_http_client L (ut_config ut) (Some px) = Inr c)"

lemma new_client_ok: "new_client L cfg = Inr ut \<Longrightarrow> pools_ok L ut \<and> ut_config ut = cfg"
  by (auto simp: new_client_def rbind_def pools_ok_def max_proxy_clients_def split: sum.splits)

lemma set_tl: "set (tl xs) \<subseteq> set xs"
  by (cases xs) auto

lemma distinct_insert_at:
  "distinct (take n xs @ x # drop n xs) \<longleftrightarrow> x \<notin> set xs \<and> distinct xs"
proof -
  have "mset (take n xs @ x # drop n xs) = mset (x # xs)"
    by simp (metis append_take_drop_id mset_append)
  then have "distinct (take n xs @ x # drop n xs) \<longleftrightarrow> distinct (x # xs)" by (rule mset_eq_imp_distinct_iff)
  then show ?thesis by simp
qed

lemma http_for_ok:
  assumes "pools_ok L ut" and "http_for L place proxy ut = (r, ut')"
  shows "pools_ok L ut' \<and> ut_config ut' = ut_config ut
    \<and> (case r of Inl e \<Rightarrow> ge_kind e = Configuration
       | Inr c \<Rightarrow> (case trimmed proxy of
           None \<Rightarrow> build_http_client L (ut_config ut) (uc_proxy (ut_config ut)) = Inr c
         | Some px \<Rightarrow> if map_option trim (uc_proxy (ut_config ut)) = Some px
             then build_http_client L (ut_config ut) (uc_proxy (ut_config ut)) = Inr c
             else build_http_client L (ut_config ut) (Some px) = Inr c))"
proof -
  let ?cs = "ut_proxy_clients ut"
  define pools where "pools = (if length ?cs \<ge> max_proxy_clients then tl ?cs else ?cs)"
  have pools: "length pools < max_proxy_clients" "distinct (map fst pools)" "set pools \<subseteq> set ?cs"
    using assms(1) set_tl[of ?cs]
    by (auto simp: pools_def pools_ok_def max_proxy_clients_def map_tl distinct_tl)
  have grow: "pools_ok L (ut\<lparr>ut_proxy_clients := take n pools @ (px, c) # drop n pools\<rparr>)"
    if "map_of ?cs px = None" and "build_http_client L (ut_config ut) (Some px) = Inr c" for px c n
  proof -
    have "px \<notin> fst ` set pools" using that(1) pools(3) by (auto simp: map_of_eq_None_iff)
    then have "distinct (map fst (take n pools @ (px, c) # drop n pools))"
      using pools(2) distinct_insert_at[of n "map fst pools" px] by (simp add: take_map drop_map)
    moreover have "set (take n pools @ (px, c) # drop n pools) = insert (px, c) (set pools)"
      by simp (metis append_take_drop_id set_append)
    moreover have "length (take n pools @ (px, c) # drop n pools) \<le> max_proxy_clients" using pools(1) by simp
    ultimately show ?thesis using assms(1) that(2) pools(3) unfolding pools_ok_def
      by (auto simp del: take_append set_append set_simps length_append)
  qed
  show ?thesis
  proof (cases "trimmed proxy")
    case None
    then show ?thesis using assms by (auto simp: http_for_def pools_ok_def)
  next
    case (Some px)
    show ?thesis
    proof (cases "map_option trim (uc_proxy (ut_config ut)) = Some px")
      case True
      then show ?thesis using assms Some by (auto simp: http_for_def pools_ok_def)
    next
      case other: False
      show ?thesis
      proof (cases "map_of ?cs px")
        case pooled: (Some c)
        have "http_for L place proxy ut = (Inr c, ut)"
          by (simp only: http_for_def Some option.case other if_False pooled)
        then show ?thesis using assms Some other map_of_SomeD[OF pooled] by (auto simp: pools_ok_def)
      next
        case None
        have new: "http_for L place proxy ut = (case build_http_client L (ut_config ut) (Some px) of
            Inl e \<Rightarrow> (Inl e, ut)
          | Inr c \<Rightarrow> (Inr c, ut\<lparr>ut_proxy_clients := take (place px) pools @ (px, c) # drop (place px) pools\<rparr>))"
          by (simp only: http_for_def Some option.case other if_False None pools_def Let_def)
        show ?thesis
        proof (cases "build_http_client L (ut_config ut) (Some px)")
          case (Inl e)
          with new have "r = Inl e" "ut' = ut" using assms(2) by simp_all
          then show ?thesis using assms(1) http_client_error[OF Inl] by simp
        next
          case (Inr c)
          with new have "r = Inr c"
            "ut' = ut\<lparr>ut_proxy_clients := take (place px) pools @ (px, c) # drop (place px) pools\<rparr>"
            using assms(2) by simp_all
          then show ?thesis using grow[OF None Inr] Some other Inr by auto
        qed
      qed
    qed
  qed
qed

lemma dispatch_pools:
  assumes "pools_ok L ut"
  shows "case dispatch L place rq (ut, w) of (_, (ut', _)) \<Rightarrow> pools_ok L ut' \<and> ut_config ut' = ut_config ut"
  using http_for_ok[OF assms] assms
  by (fastforce simp: dispatch_def Let_def split: sum.splits prod.splits option.splits)

text \<open>The calls of a running client, in any order and whatever comes of them.\<close>

definition client_call :: "('u, 'e, 'p, 'c, 'w) http_lib \<Rightarrow> (string \<Rightarrow> nat) \<Rightarrow> upstream_request
    \<Rightarrow> 'c upstream_client \<times> 'w \<Rightarrow> 'c upstream_client \<times> 'w" where
  "client_call L place rq st = snd (dispatch L place rq st)"

lemma client_calls_pools:
  "pools_ok L (fst st) \<Longrightarrow> pools_ok L (fst (fold (client_call L place) rqs st))
     \<and> ut_config (fst (fold (client_call L place) rqs st)) = ut_config (fst st)"
proof (induction rqs arbitrary: st)
  case (Cons rq rqs)
  have "pools_ok L (fst (client_call L place rq st)) \<and> ut_config (fst (client_call L place rq st)) = ut_config (fst st)"
    using dispatch_pools[OF Cons.prems, of place rq "snd st"]
    by (simp add: client_call_def case_prod_beta)
  then show ?case using Cons.IH by simp
qed simp

text \<open>\<open>C32\<close>. The proxy pools stay bounded and never mix: after any calls of a client there are at most 32
  of them, and the next call leaves through a connection pool built for its channel's own
  proxy (or the default pool when it names none or the same one), never through another's.\<close>

theorem proxy_pools_bounded_and_separate:
  assumes "new_client L cfg = Inr ut0" and "(ut, w') = fold (client_call L place) rqs (ut0, w)"
  shows "length (ut_proxy_clients ut) \<le> 32
    \<and> (case fst (http_for L place proxy ut) of
         Inr c \<Rightarrow> build_http_client L cfg (case trimmed proxy of
             None \<Rightarrow> uc_proxy cfg
           | Some px \<Rightarrow> if map_option trim (uc_proxy cfg) = Some px then uc_proxy cfg else Some px) = Inr c
       | Inl e \<Rightarrow> ge_kind e = Configuration)"
proof -
  have ok: "pools_ok L ut" "ut_config ut = cfg"
    using client_calls_pools[of L "(ut0, w)" place rqs] new_client_ok[OF assms(1)] assms(2)[symmetric] by auto
  then have "length (ut_proxy_clients ut) \<le> 32" by (simp add: pools_ok_def max_proxy_clients_def)
  moreover obtain r ut' where h: "http_for L place proxy ut = (r, ut')" by (metis surj_pair)
  ultimately show ?thesis using http_for_ok[OF ok(1) h] ok(2)
    by (auto split: sum.splits option.splits if_splits)
qed

subsection \<open>Witness\<close>

text \<open>A library whose proxies and clients are their names, and whose network answers 204.\<close>

definition plain_http_lib :: "(string \<times> string list, unit, string, string, unit) http_lib" where
  "plain_http_lib = \<lparr>hl_url = plain_url_lib, hl_url_error = (\<lambda>_. []), hl_proxy = Inr,
     hl_client = (\<lambda>_ p. Inr (case p of Some px \<Rightarrow> px | None \<Rightarrow> ''direct'')),
     hl_header_name = (\<lambda>_. True), hl_header_value = (\<lambda>_. True), hl_to_str = Some,
     hl_parse_json = (\<lambda>_. Inl ''no parser''), hl_lossy = (\<lambda>s. s), hl_debug = (\<lambda>s. s),
     hl_send = (\<lambda>_ _ _ w. (Some (Inr \<lparr>re_status = 204, re_headers = [], re_chunks = [], re_end = 0\<rparr>), w))\<rparr>"

definition proxied_request :: "string \<Rightarrow> upstream_request" where
  "proxied_request px = (list_models_request Chat relay_address ''sk'')\<lparr>rq_proxy := Some px\<rparr>"

theorem proxy_pools_bounded_and_separate_witness:
  "\<exists>ut w'. (ut, w') = fold (client_call plain_http_lib (\<lambda>_. 0)) [proxied_request ''a'', proxied_request ''b'']
       (\<lparr>ut_http = ''direct'', ut_proxy_clients = [], ut_config = default_client_config ''1''\<rparr>, ())
   \<and> length (ut_proxy_clients ut) \<le> 32"
proof -
  have new: "new_client plain_http_lib (default_client_config ''1'')
      = Inr \<lparr>ut_http = ''direct'', ut_proxy_clients = [], ut_config = default_client_config ''1''\<rparr>"
    by (simp add: new_client_def rbind_def build_http_client_def plain_http_lib_def default_client_config_def)
  obtain ut w' where run: "(ut, w') = fold (client_call plain_http_lib (\<lambda>_. 0))
      [proxied_request ''a'', proxied_request ''b'']
      (\<lparr>ut_http = ''direct'', ut_proxy_clients = [], ut_config = default_client_config ''1''\<rparr>, ())"
    by (metis surj_pair)
  from proxy_pools_bounded_and_separate[OF new run, of None]
  have "length (ut_proxy_clients ut) \<le> 32" by (rule conjunct1)
  with run show ?thesis by (intro exI conjI)
qed

end
