(* ===== verification/Exec_Body.thy ===== *)
theory Exec_Body
  imports Plan Upstream_Client Stream_Agg Sse
begin

section \<open>Request bodies and response checks of the executor\<close>

text \<open>
  The functions of \<open>crates/refract-router/src/executor.rs\<close> that prepare the bytes sent upstream
  and judge what comes back. The codecs (one of them for each protocol; a stream decoder is a
  function of the frames it has been given so far), the JSON library, the lossy UTF-8 conversion
  and the debug rendering of strings are a record of functions.
\<close>

record exec_lib =
  xl_encode_request :: "protocol \<Rightarrow> unified_request \<Rightarrow> gateway_error + json"
  xl_decode_request :: "protocol \<Rightarrow> json \<Rightarrow> gateway_error + unified_request"
  xl_decode_response :: "protocol \<Rightarrow> json \<Rightarrow> gateway_error + unified_response"
  xl_decode_frame :: "protocol \<Rightarrow> sse_frame list \<Rightarrow> sse_frame \<Rightarrow> gateway_error + stream_event list"
  xl_utf8_error :: "string \<Rightarrow> string"
  xl_parse_json :: "string \<Rightarrow> string + json"
  xl_print_json :: "json \<Rightarrow> string"
  xl_to_str :: "string \<Rightarrow> string option"
  xl_lossy :: "string \<Rightarrow> string"
  xl_debug :: "string \<Rightarrow> string"

subsection \<open>Preparing the body\<close>

datatype prepared_body = Raw_Body string | Owned_Raw string | Json_Body json

definition to_request :: "prepared_body \<Rightarrow> candidate \<Rightarrow> credential \<Rightarrow> action \<Rightarrow> upstream_request" where
  "to_request prepared c key act = (case prepared of
     Raw_Body b \<Rightarrow> post_raw_request (ca_protocol c) (ca_address c) key (ca_upstream_model c) act b
   | Owned_Raw b \<Rightarrow> post_raw_request (ca_protocol c) (ca_address c) key (ca_upstream_model c) act b
   | Json_Body v \<Rightarrow> post_request (ca_protocol c) (ca_address c) key (ca_upstream_model c) act v)"

definition rewrite_model :: "protocol \<Rightarrow> string \<Rightarrow> json \<Rightarrow> json" where
  "rewrite_model p upstream_model body = (
     if p = Gemini then body
     else case body of JObj m \<Rightarrow> JObj (map_insert ''model'' (JStr upstream_model) m) | v \<Rightarrow> v)"

definition merge_field :: "string \<times> json \<Rightarrow> jmap \<Rightarrow> jmap" where
  "merge_field kv m = (if is_null (snd kv) then map_remove (fst kv) m else map_insert (fst kv) (snd kv) m)"

definition merge_fields :: "jmap \<Rightarrow> jmap \<Rightarrow> jmap" where
  "merge_fields m fs = fold merge_field fs m"

definition apply_param_override :: "param_override option \<Rightarrow> protocol \<Rightarrow> json \<Rightarrow> json" where
  "apply_param_override po p body = (case po of
     None \<Rightarrow> body
   | Some ov \<Rightarrow> (case body of
       JObj m \<Rightarrow>
         let m1 = merge_fields m (po_common ov)
         in JObj (case map_of (po_protocols ov) p of Some grp \<Rightarrow> merge_fields m1 grp | None \<Rightarrow> m1)
     | v \<Rightarrow> v))"

definition param_override_touches :: "param_override option \<Rightarrow> protocol \<Rightarrow> bool" where
  "param_override_touches po p \<longleftrightarrow> (case po of
     None \<Rightarrow> False
   | Some ov \<Rightarrow> po_common ov \<noteq> [] \<or> (case map_of (po_protocols ov) p of
       Some grp \<Rightarrow> grp \<noteq> [] | None \<Rightarrow> False))"

definition encode_for ::
  "exec_lib \<Rightarrow> candidate \<Rightarrow> unified_request \<Rightarrow> gateway_error + json"
where
  "encode_for lib c ir = rbind (xl_encode_request lib (ca_protocol c) ir) (\<lambda>body.
     Inr (apply_param_override (ch_param_override (ca_channel c)) (ca_protocol c)
       (rewrite_model (ca_protocol c) (ca_upstream_model c) body)))"

definition prepare_native_body ::
  "exec_lib \<Rightarrow> candidate \<Rightarrow> route \<Rightarrow> string \<Rightarrow> gateway_error + prepared_body"
where
  "prepare_native_body lib c ro raw = (
     let p = ca_protocol c;
         rewrites_model = (p \<noteq> Gemini \<and> ca_upstream_model c \<noteq> ro_model ro);
         has_overrides = param_override_touches (ch_param_override (ca_channel c)) p
     in if \<not> rewrites_model \<and> \<not> has_overrides then Inr (Raw_Body raw)
        else case xl_parse_json lib raw of
          Inl err \<Rightarrow> Inl (ge_invalid_request (''malformed request body: '' @ err))
        | Inr body \<Rightarrow>
            Inr (Json_Body (apply_param_override (ch_param_override (ca_channel c)) p
              (if rewrites_model then rewrite_model p (ca_upstream_model c) body else body))))"

text \<open>\<open>windows(n).position(..)\<close>: the first occurrence of a byte sequence.\<close>

fun find_sub :: "string \<Rightarrow> string \<Rightarrow> nat option" where
  "find_sub p s = (if length s < length p then None
     else if take (length p) s = p then Some 0
     else (case s of [] \<Rightarrow> None | _ # t \<Rightarrow> map_option Suc (find_sub p t)))"

declare find_sub.simps [simp del]

definition CRLF :: string where "CRLF = [CHR 0x0D, CHR 0x0A]"

definition multipart_marker :: string where
  "multipart_marker = ''name='' @ [CHR 0x22] @ ''model'' @ [CHR 0x22]"

definition rewrite_multipart_model :: "string \<Rightarrow> string \<Rightarrow> string option" where
  "rewrite_multipart_model raw upstream_model =
     Option.bind (find_sub multipart_marker raw) (\<lambda>marker_at.
     Option.bind (find_sub (CRLF @ CRLF) (drop marker_at raw)) (\<lambda>rel.
       let value_start = marker_at + (rel + 4) in
       Option.bind (find_sub CRLF (drop value_start raw)) (\<lambda>value_len.
         Some (take value_start raw @ upstream_model @ drop (value_start + value_len) raw))))"

definition prepare_multipart_body :: "candidate \<Rightarrow> route \<Rightarrow> string \<Rightarrow> prepared_body" where
  "prepare_multipart_body c ro raw = (
     if ca_upstream_model c = ro_model ro then Raw_Body raw
     else case rewrite_multipart_model raw (ca_upstream_model c) of
       Some b \<Rightarrow> Owned_Raw b | None \<Rightarrow> Raw_Body raw)"

definition merged_headers :: "(string \<times> string) list \<Rightarrow> candidate \<Rightarrow> (string \<times> string) list" where
  "merged_headers forwarded c = forwarded @ ch_extra_headers (ca_channel c)"

definition decode_raw_request ::
  "exec_lib \<Rightarrow> protocol \<Rightarrow> string \<Rightarrow> string \<Rightarrow> bool \<Rightarrow> gateway_error + unified_request"
where
  "decode_raw_request lib p raw model stream = (
     case xl_parse_json lib raw of
       Inl err \<Rightarrow> Inl (ge_invalid_request (''malformed request body: '' @ err))
     | Inr v \<Rightarrow> rbind (xl_decode_request lib p v) (\<lambda>ir.
         Inr (ir\<lparr>ur_model := model, ur_stream := stream\<rparr>)))"

subsection \<open>Judging the answer\<close>

text \<open>\<open>char::is_control\<close> on a character in UTF-8: U+0000 to U+001F and U+007F to U+009F.\<close>

definition is_control_char :: "string \<Rightarrow> bool" where
  "is_control_char ch \<longleftrightarrow> (case ch of
     [c] \<Rightarrow> of_char c < (32 :: nat) \<or> of_char c = (127 :: nat)
   | [c, d] \<Rightarrow> c = CHR 0xC2 \<and> of_char d < (160 :: nat)
   | _ \<Rightarrow> False)"

definition response_preview :: "exec_lib \<Rightarrow> string \<Rightarrow> string" where
  "response_preview lib body = (
     if body = [] then ''<empty>''
     else
       let shown = concat (map (\<lambda>ch. if is_control_char ch then '' '' else ch)
             (chars (xl_lossy lib (take (min (length body) 160) body))))
       in if length body > 160 then shown @ [CHR 0xE2, CHR 0x80, CHR 0xA6] else shown)"

definition invalid_200_response :: "exec_lib \<Rightarrow> protocol \<Rightarrow> string \<Rightarrow> string \<Rightarrow> gateway_error" where
  "invalid_200_response lib p content_type body = (
     let preview = response_preview lib body
     in with_upstream 200 preview (with_protocol p (gateway_error_new InvalidUpstreamResponse
          (''upstream returned HTTP 200 with a response that does not match the configured `''
           @ protocol_str p @ ''` protocol (content-type: '' @ content_type
           @ ''; body preview: '' @ xl_debug lib preview @ '')''))))"

definition response_content_type :: "exec_lib \<Rightarrow> header_map \<Rightarrow> string" where
  "response_content_type lib hs =
     (case Option.bind (map_of hs ''content-type'') (xl_to_str lib) of Some ct \<Rightarrow> ct | None \<Rightarrow> ''unknown'')"

definition invalid_parsed_200_response :: "exec_lib \<Rightarrow> protocol \<Rightarrow> upstream_response \<Rightarrow> gateway_error" where
  "invalid_parsed_200_response lib p r =
     invalid_200_response lib p (response_content_type lib (rp_headers r)) (xl_print_json lib (rp_body r))"

definition strict_200_parse_error :: "exec_lib \<Rightarrow> bool \<Rightarrow> protocol \<Rightarrow> gateway_error \<Rightarrow> gateway_error" where
  "strict_200_parse_error lib enabled p e = (
     if enabled \<and> ge_upstream_status e = Some 200
     then invalid_200_response lib p ''unknown'' (case ge_upstream_body e of Some b \<Rightarrow> b | None \<Rightarrow> [])
     else e)"

fun part_is_empty :: "content_part \<Rightarrow> bool" where
  "part_is_empty (TextPart t) = (trim t = [])"
| "part_is_empty (ThinkingPart t _) = (trim t = [])"
| "part_is_empty (RefusalPart t) = (trim t = [])"
| "part_is_empty (RedactedThinking d) = (trim d = [])"
| "part_is_empty _ = False"

definition unified_response_is_empty :: "unified_response \<Rightarrow> bool" where
  "unified_response_is_empty r = list_all part_is_empty (rs_content r)"

definition should_retry_empty :: "empty_retry_policy \<Rightarrow> duration \<Rightarrow> nat \<Rightarrow> bool" where
  "should_retry_empty pol d retries \<longleftrightarrow> empty_retry_enabled pol \<and> retries < er_max_retries pol
     \<and> d \<le> from_secs (er_window_secs pol)"

record native_inspection =
  ni_usage :: usage
  ni_empty :: bool
  ni_protocol_standard :: bool

definition opt_not_null :: "json option \<Rightarrow> bool" where
  "opt_not_null v = (case v of Some x \<Rightarrow> \<not> is_null x | None \<Rightarrow> False)"

definition explicit_error :: "json \<Rightarrow> bool" where
  "explicit_error v \<longleftrightarrow> opt_not_null (jget ''error'' v)
     \<or> Option.bind (jget ''type'' v) as_str = Some ''error''
     \<or> Option.bind (jget ''type'' v) as_str = Some ''response.failed''
     \<or> Option.bind (Option.bind (jget ''response'' v) (jget ''status'')) as_str = Some ''failed''"

fun recognizable_generation :: "protocol \<Rightarrow> json \<Rightarrow> bool" where
  "recognizable_generation Chat v = (jget ''choices'' v \<noteq> None)"
| "recognizable_generation Responses v =
     (jget ''output'' v \<noteq> None \<or> Option.bind (jget ''response'' v) (jget ''output'') \<noteq> None)"
| "recognizable_generation Messages v = (jget ''content'' v \<noteq> None)"
| "recognizable_generation Gemini v = (jget ''candidates'' v \<noteq> None)"

definition inspect_native_response ::
  "exec_lib \<Rightarrow> protocol \<Rightarrow> bool \<Rightarrow> raw_response \<Rightarrow> gateway_error + native_inspection"
where
  "inspect_native_response lib p reject r = (
     if rw_body r = [] then
       Inr \<lparr>ni_usage = usage_default, ni_empty = True, ni_protocol_standard = False\<rparr>
     else case xl_parse_json lib (rw_body r) of
       Inl err \<Rightarrow>
         Inl (if reject \<and> rw_status r = 200 then invalid_200_response lib p (response_content_type lib (rw_headers r)) (rw_body r)
              else gateway_error_new UpstreamError (''upstream returned malformed JSON: '' @ err))
     | Inr v \<Rightarrow>
         let recognizable = recognizable_generation p v; decoded = xl_decode_response lib p v
         in if explicit_error v then
              Inl (case decoded of Inl e \<Rightarrow> e | Inr _ \<Rightarrow>
                gateway_error_new UpstreamError ''upstream returned an error envelope with HTTP 2xx'')
            else Inr (case decoded of
                Inr resp \<Rightarrow> \<lparr>ni_usage = rs_usage resp,
                  ni_empty = (recognizable \<and> unified_response_is_empty resp),
                  ni_protocol_standard = recognizable\<rparr>
              | Inl _ \<Rightarrow> \<lparr>ni_usage = usage_default, ni_empty = False, ni_protocol_standard = False\<rparr>))"

definition stream_error_kind :: "string \<Rightarrow> error_kind" where
  "stream_error_kind kind = (
     let lowered = to_ascii_lowercase kind in
     if contains_sub ''rate'' lowered \<or> contains_sub ''quota'' lowered then RateLimited
     else if contains_sub ''auth'' lowered then Unauthenticated
     else if contains_sub ''permission'' lowered \<or> contains_sub ''forbidden'' lowered then PermissionDenied
     else if contains_sub ''invalid'' lowered then InvalidRequest
     else UpstreamError)"

fun validate_stream_events :: "stream_event list \<Rightarrow> gateway_error + bool" where
  "validate_stream_events [] = Inr False"
| "validate_stream_events (e # es) = (case e of
     ErrorEvent m k \<Rightarrow> Inl (gateway_error_new (stream_error_kind k) m)
   | _ \<Rightarrow> rbind (validate_stream_events es) (\<lambda>b. Inr (e \<noteq> Ping \<or> b)))"

fun event_has_output :: "stream_event \<Rightarrow> bool" where
  "event_has_output (TextDelta _ t) = (trim t \<noteq> [])"
| "event_has_output (ThinkingDelta _ t) = (trim t \<noteq> [])"
| "event_has_output (RefusalDelta _ t) = (trim t \<noteq> [])"
| "event_has_output (ToolCallStart _ _ _ _) = True"
| "event_has_output (ToolCallArgsDelta _ f) = (trim f \<noteq> [])"
| "event_has_output _ = False"

definition stream_events_have_output :: "stream_event list \<Rightarrow> bool" where
  "stream_events_have_output es = list_ex event_has_output es"

subsection \<open>Parameter overrides\<close>

lemma map_of_merge_field:
  "distinct (map fst m) \<Longrightarrow> map_of (merge_field (k, v) m) = (map_of m)(k := if is_null v then None else Some v)"
  by (auto simp: merge_field_def map_of_map_remove)

lemma distinct_merge_field: "distinct (map fst m) \<Longrightarrow> distinct (map fst (merge_field kv m))"
  by (simp add: merge_field_def distinct_map_remove)

definition overridden :: "jmap \<Rightarrow> string \<Rightarrow> json option \<Rightarrow> json option" where
  "overridden fs k old = (case map_of fs k of Some v \<Rightarrow> if is_null v then None else Some v | None \<Rightarrow> old)"

lemma merge_fields_lookup:
  assumes "distinct (map fst m)" and "distinct (map fst fs)"
  shows "map_of (merge_fields m fs) k = overridden fs k (map_of m k)"
    and "distinct (map fst (merge_fields m fs))"
  using assms
proof (induction fs arbitrary: m)
  case (Cons f fs)
  obtain x v where f: "f = (x, v)" by (cases f)
  { case 1
    have "map_of fs x = None" using 1(2) f by (simp add: map_of_eq_None_iff)
    then show ?case
      using Cons.IH(1)[OF distinct_merge_field, of m f] 1 f
      by (auto simp: merge_fields_def overridden_def map_of_merge_field split: option.split)
  next
    case 2
    then show ?case using Cons.IH(2)[OF distinct_merge_field, of m f] by (simp add: merge_fields_def)
  }
qed (simp_all add: merge_fields_def overridden_def)

text \<open>A channel's parameter override decides each top-level field of the body: the group of
  the protocol spoken upstream wins over the common fields, these win over the client's
  body, a null removes the field, and fields that are not mentioned stay as they are.\<close>

theorem param_override_decides_fields:
  assumes "distinct (map fst m)" and "distinct (map fst (po_common ov))"
    and "case map_of (po_protocols ov) p of Some grp \<Rightarrow> distinct (map fst grp) | None \<Rightarrow> True"
  shows "jget k (apply_param_override (Some ov) p (JObj m)) =
     (case map_of (po_protocols ov) p of Some grp \<Rightarrow> overridden grp k | None \<Rightarrow> (\<lambda>v. v))
       (overridden (po_common ov) k (map_of m k))"
proof (cases "map_of (po_protocols ov) p")
  case None
  then show ?thesis using merge_fields_lookup(1)[OF assms(1,2)] by (simp add: apply_param_override_def)
next
  case (Some grp)
  then show ?thesis
    using assms(3) merge_fields_lookup[OF assms(1,2)]
      merge_fields_lookup(1)[OF merge_fields_lookup(2)[OF assms(1,2)], of grp k]
    by (simp add: apply_param_override_def)
qed

theorem param_override_decides_fields_witness:
  "jget ''a'' (apply_param_override (Some \<lparr>po_common = [(''a'', JNull)], po_protocols = [(Chat, [(''a'', JBool True)])]\<rparr>)
     Chat (JObj [(''a'', JStr ''x'')])) = Some (JBool True)"
  using param_override_decides_fields[of "[(''a'', JStr ''x'')]"
      "\<lparr>po_common = [(''a'', JNull)], po_protocols = [(Chat, [(''a'', JBool True)])]\<rparr>" Chat "''a''"]
  by (simp add: overridden_def is_null_def)

subsection \<open>Multipart bodies\<close>

lemma find_sub_Some:
  "find_sub p s = Some i \<Longrightarrow> (\<exists>rest. s = take i s @ p @ rest) \<and> i + length p \<le> length s
     \<and> (\<forall>j < i. take (length p) (drop j s) \<noteq> p)"
proof (induction s arbitrary: i)
  case Nil
  then show ?case by (subst (asm) find_sub.simps) (auto split: if_splits)
next
  case (Cons c s)
  show ?case
  proof (cases "take (length p) (c # s) = p")
    case True
    then have "i = 0" using Cons.prems by (subst (asm) find_sub.simps) (auto split: if_splits)
    moreover have "c # s = p @ drop (length p) (c # s)" using True by (metis append_take_drop_id)
    moreover have "length p \<le> length (c # s)" using Cons.prems by (subst (asm) find_sub.simps) (auto split: if_splits)
    ultimately show ?thesis by auto
  next
    case False
    then obtain j where j: "find_sub p s = Some j" "i = Suc j"
      using Cons.prems by (subst (asm) find_sub.simps) (auto split: if_splits)
    then obtain rest where "s = take j s @ p @ rest" using Cons.IH by blast
    then have "c # s = take i (c # s) @ p @ rest" using j(2) by simp
    moreover have "\<forall>m < i. take (length p) (drop m (c # s)) \<noteq> p"
      using Cons.IH[OF j(1)] False j(2) by (auto simp: less_Suc_eq_0_disj)
    ultimately show ?thesis using Cons.IH[OF j(1)] j(2) by auto
  qed
qed

lemma no_sub_before:
  assumes "\<forall>j < i. take (length p) (drop j s) \<noteq> p" and "p \<noteq> []"
  shows "\<not> contains_sub p (take i s)"
proof
  assume "contains_sub p (take i s)"
  then obtain u v where uv: "take i s = u @ p @ v" unfolding contains_sub_iff by blast
  have "length u + length p \<le> i" using uv by (metis length_append length_take min.cobounded2 le_add1 add.assoc order_trans)
  then have "length u < i" using assms(2) by (cases p) auto
  moreover have "s = u @ p @ v @ drop i s" using uv by (metis append.assoc append_take_drop_id)
  then have "take (length p) (drop (length u) s) = p" by (metis append_eq_conv_conj append_take_drop_id drop_append[of "length u" u] self_append_conv2 append.assoc)
  ultimately show False using assms(1) by blast
qed

text \<open>The multipart rewrite touches one thing: the value of the first field named model, from
  the blank line after its headers to the end of its line, becomes the upstream's model
  name; every other byte is kept.\<close>

theorem multipart_rewrite_only_model:
  assumes "rewrite_multipart_model raw m = Some out"
  shows "\<exists>pre val post. raw = pre @ val @ post \<and> out = pre @ m @ post
     \<and> contains_sub multipart_marker pre \<and> suffix (CRLF @ CRLF) pre
     \<and> \<not> contains_sub CRLF val \<and> prefix CRLF post"
proof -
  obtain a r l where a: "find_sub multipart_marker raw = Some a"
      and r: "find_sub (CRLF @ CRLF) (drop a raw) = Some r"
      and l: "find_sub CRLF (drop (a + (r + 4)) raw) = Some l"
      and out: "out = take (a + (r + 4)) raw @ m @ drop (a + (r + 4) + l) raw"
    using assms by (auto simp: rewrite_multipart_model_def Let_def bind_eq_Some_conv)
  let ?s = "a + (r + 4)"
  have len: "length (CRLF @ CRLF) = 4" by (simp add: CRLF_def)
  obtain ra where ra: "raw = take a raw @ multipart_marker @ ra" using find_sub_Some[OF a] by blast
  obtain rr where rr: "drop a raw = take r (drop a raw) @ (CRLF @ CRLF) @ rr" and rle: "r + 4 \<le> length (drop a raw)"
    using find_sub_Some[OF r] len by metis
  obtain rl where rl: "drop ?s raw = take l (drop ?s raw) @ CRLF @ rl"
    and nol: "\<forall>j < l. take (length CRLF) (drop j (drop ?s raw)) \<noteq> CRLF"
    using find_sub_Some[OF l] by blast
  let ?pre = "take ?s raw" and ?val = "take l (drop ?s raw)" and ?post = "drop (?s + l) raw"
  have raw: "raw = ?pre @ ?val @ ?post"
    by (metis add.commute append_take_drop_id drop_drop)
  have post: "?post = CRLF @ rl"
    using rl by (metis add.commute append_eq_conv_conj append_take_drop_id drop_drop same_append_eq)
  have pre: "?pre = take a raw @ take r (drop a raw) @ CRLF @ CRLF"
  proof -
    have "?pre = take a raw @ take (r + 4) (drop a raw)" by (simp add: take_add)
    moreover have "length (take r (drop a raw)) = r" using rle by simp
    then have "take (r + 4) (drop a raw) = take r (drop a raw) @ CRLF @ CRLF"
      using len by (subst rr) (simp add: CRLF_def)
    ultimately show ?thesis by simp
  qed
  have "length (multipart_marker) \<le> r"
  proof (rule ccontr)
    assume "\<not> length multipart_marker \<le> r"
    then have lt: "r < length multipart_marker" by simp
    have "length (take a raw) = a" using find_sub_Some[OF a] by simp
    then have da: "drop a raw = multipart_marker @ ra" by (subst ra) simp
    have "drop a raw ! r = CHR 0x0D"
      using rle by (subst rr) (simp add: nth_append CRLF_def)
    then have "CHR 0x0D \<in> set multipart_marker"
      using lt unfolding da by (metis nth_append nth_mem)
    then show False by (simp add: multipart_marker_def)
  qed
  moreover have "length (take a raw) = a" using find_sub_Some[OF a] by simp
  then have "drop a raw = multipart_marker @ ra" by (subst ra) simp
  ultimately have "?pre = take a raw @ multipart_marker @ take (r + 4 - length multipart_marker) ra"
    by (simp add: take_add)
  then have "contains_sub multipart_marker ?pre" unfolding contains_sub_iff by blast
  moreover have "suffix (CRLF @ CRLF) ?pre" unfolding pre suffix_def by auto
  moreover have "\<not> contains_sub CRLF ?val" using no_sub_before[OF nol] by (simp add: CRLF_def)
  moreover have "prefix CRLF ?post" unfolding post by simp
  ultimately show ?thesis using raw out by blast
qed

theorem multipart_rewrite_only_model_witness:
  "\<exists>pre val post. ''name='' @ [CHR 0x22] @ ''model'' @ [CHR 0x22] @ CRLF @ CRLF @ ''gpt'' @ CRLF = pre @ val @ post
     \<and> ''name='' @ [CHR 0x22] @ ''model'' @ [CHR 0x22] @ CRLF @ CRLF @ ''up'' @ CRLF = pre @ ''up'' @ post"
proof -
  have "rewrite_multipart_model (''name='' @ [CHR 0x22] @ ''model'' @ [CHR 0x22] @ CRLF @ CRLF @ ''gpt'' @ CRLF) ''up''
      = Some (''name='' @ [CHR 0x22] @ ''model'' @ [CHR 0x22] @ CRLF @ CRLF @ ''up'' @ CRLF)"
    by code_simp
  from multipart_rewrite_only_model[OF this] show ?thesis by blast
qed

end
