(* ===== verification/Preflight.thy ===== *)
theory Preflight
  imports Exec_Body Health
begin

section \<open>The preflight of a stream\<close>

text \<open>
  \<open>preflight_sse_stream\<close> and \<open>preflight_raw_stream\<close> of \<open>crates/refract-router/src/executor.rs\<close>: before a
  stream is handed to the client, its first pieces are read until they hold a valid event of the
  upstream's protocol, with the pieces kept for replay. A stream is the list of its items
  with the times they arrive at; \<open>None\<close> as its end is a stream that stays silent.
  Computation takes no time; when a deadline and an item are due at once, the scheduler
  chooses (\<open>tie\<close>).
\<close>

subsection \<open>Streams in time\<close>

record sse_event =
  sv_event :: string
  sv_data :: string

type_synonym 'a items = "(instant \<times> (gateway_error + 'a)) list"

record 'a timed_stream =
  ts_items :: "'a items"
  ts_end :: "instant option"

record sse_response =
  ss_status :: nat
  ss_headers :: header_map
  ss_stream :: "sse_event timed_stream"

record byte_response =
  bs_status :: nat
  bs_headers :: header_map
  bs_stream :: "string timed_stream"

datatype wait_result = Ready instant | Idle_Timeout instant | Deadline instant

text \<open>\<open>timeout(idle, stream.next())\<close>, alone or raced against \<open>sleep_until(deadline)\<close>.\<close>

definition await :: "duration \<Rightarrow> bool \<Rightarrow> instant \<Rightarrow> instant option \<Rightarrow> instant option \<Rightarrow> wait_result" where
  "await idle tie now deadline arrival = (
     let limit = now + int idle;
         (t, r) = (case arrival of
             Some a \<Rightarrow> if max now a \<le> limit then (max now a, Ready (max now a)) else (limit, Idle_Timeout limit)
           | None \<Rightarrow> (limit, Idle_Timeout limit))
     in case deadline of
          None \<Rightarrow> r
        | Some d \<Rightarrow> if max now d < t \<or> (max now d = t \<and> tie) then Deadline (max now d) else r)"

definition next_arrival :: "'a items \<Rightarrow> instant option \<Rightarrow> instant option" where
  "next_arrival items end_at = (case items of [] \<Rightarrow> end_at | (t, _) # _ \<Rightarrow> Some t)"

subsection \<open>What the two preflights share\<close>

definition preflight_limit :: nat where
  "preflight_limit = 1024 * 1024"

definition empty_window :: "empty_retry_policy \<Rightarrow> int" where
  "empty_window pol = int (from_secs (er_window_secs pol))"

definition idle_error :: gateway_error where
  "idle_error = gateway_error_new Timeout
     ''upstream did not produce a valid first stream event before the idle deadline''"

definition too_long_error :: gateway_error where
  "too_long_error = gateway_error_new UpstreamError
     ''upstream produced over 1 MiB before its first model output''"

definition no_event_error :: gateway_error where
  "no_event_error = gateway_error_new UpstreamError ''upstream stream ended before its first valid event''"

text \<open>The protocol, the retry policy and the strictness a preflight runs with.\<close>

record preflight_env =
  pe_lib :: exec_lib
  pe_protocol :: protocol
  pe_idle :: duration
  pe_policy :: empty_retry_policy
  pe_reject :: bool
  pe_content_type :: string
  pe_tie :: bool

text \<open>In strict mode an error becomes the report of a response off the protocol.\<close>

definition strict_error :: "preflight_env \<Rightarrow> string \<Rightarrow> gateway_error \<Rightarrow> gateway_error" where
  "strict_error P body e = (if pe_reject P
     then invalid_200_response (pe_lib P) (pe_protocol P) (pe_content_type P) body else e)"

text \<open>The window for empty answers is over: the loop's first test, and the deadline of its wait.\<close>

definition window_over :: "preflight_env \<Rightarrow> instant \<Rightarrow> instant option \<Rightarrow> bool \<Rightarrow> bool" where
  "window_over P now first saw \<longleftrightarrow> saw \<and> empty_retry_enabled (pe_policy P)
     \<and> (case first of Some f \<Rightarrow> now - f \<ge> empty_window (pe_policy P) | None \<Rightarrow> False)"

definition wait_deadline :: "preflight_env \<Rightarrow> instant option \<Rightarrow> bool \<Rightarrow> instant option" where
  "wait_deadline P first saw = (if saw \<and> empty_retry_enabled (pe_policy P)
     then map_option (\<lambda>f. f + empty_window (pe_policy P)) first else None)"

record 'a preflight_result =
  pr_prefix :: "'a list"
  pr_rest :: "'a items"
  pr_empty :: "duration option"
  pr_at :: instant

definition handed_on :: "'a list \<Rightarrow> 'a items \<Rightarrow> duration option \<Rightarrow> instant \<Rightarrow> 'a preflight_result" where
  "handed_on ps rest gap t = \<lparr>pr_prefix = ps, pr_rest = rest, pr_empty = gap, pr_at = t\<rparr>"

definition since :: "instant option \<Rightarrow> instant \<Rightarrow> duration" where
  "since first t = (case first of Some f \<Rightarrow> nat (t - f) | None \<Rightarrow> 0)"

subsection \<open>Parsed streams\<close>

text \<open>\<open>event: data\<close> lines of the events, cut to 160 bytes.\<close>

definition sse_response_preview :: "sse_event list \<Rightarrow> string" where
  "sse_response_preview evs =
     take 160 (concat (map (\<lambda>ev. sv_event ev @ '': '' @ sv_data ev @ [LF]) evs))"

definition frame_of :: "sse_event \<Rightarrow> sse_frame" where
  "frame_of ev = \<lparr>sf_event = (if sv_event ev \<noteq> [] then Some (sv_event ev) else None), sf_data = sv_data ev\<rparr>"

definition event_size :: "sse_event \<Rightarrow> nat" where
  "event_size ev = length (sv_event ev) + length (sv_data ev)"

text \<open>\<open>saturating_add\<close> on the byte count never saturates below the limit.\<close>

function preflight_sse ::
  "preflight_env \<Rightarrow> instant option \<Rightarrow> instant \<Rightarrow> sse_frame list \<Rightarrow> sse_event list \<Rightarrow> nat \<Rightarrow> instant option
   \<Rightarrow> bool \<Rightarrow> sse_event items \<Rightarrow> (gateway_error \<times> instant) + sse_event preflight_result"
where
  "preflight_sse P end_at now frames ps bytes first saw items = (
     if window_over P now first saw then Inr (handed_on ps items None now)
     else case await (pe_idle P) (pe_tie P) now (wait_deadline P first saw) (next_arrival items end_at) of
       Deadline t \<Rightarrow> Inr (handed_on ps items None t)
     | Idle_Timeout t \<Rightarrow> Inl (idle_error, t)
     | Ready t \<Rightarrow> (case items of
         [] \<Rightarrow> if \<not> saw then Inl (strict_error P (sse_response_preview ps) no_event_error, t)
              else Inr (handed_on ps [] (Some (since first t)) t)
       | (_, Inl e) # rest \<Rightarrow> Inl (e, t)
       | (_, Inr ev) # rest \<Rightarrow>
           let first1 = (case first of Some f \<Rightarrow> Some f | None \<Rightarrow> Some t);
               bytes1 = bytes + event_size ev
           in if bytes1 > preflight_limit then Inl (too_long_error, t)
              else case xl_decode_frame (pe_lib P) (pe_protocol P) frames (frame_of ev) of
                Inl e \<Rightarrow> Inl (strict_error P (sv_data ev) e, t)
              | Inr evs \<Rightarrow> (case validate_stream_events evs of
                  Inl e \<Rightarrow> Inl (e, t)
                | Inr meaningful \<Rightarrow>
                    if stream_events_have_output evs \<or> (meaningful \<and> \<not> empty_retry_enabled (pe_policy P))
                    then Inr (handed_on (ps @ [ev]) rest None t)
                    else preflight_sse P end_at t (frames @ [frame_of ev]) (ps @ [ev]) bytes1 first1
                           (saw \<or> meaningful) rest)))"
  by pat_completeness auto
termination preflight_sse
  by (relation "measure (\<lambda>(P, end_at, now, frames, ps, bytes, first, saw, items). length items)") auto

declare preflight_sse.simps [simp del]

definition preflight_sse_stream ::
  "preflight_env \<Rightarrow> instant \<Rightarrow> sse_event timed_stream \<Rightarrow> (gateway_error \<times> instant) + sse_event preflight_result"
where
  "preflight_sse_stream P now st = preflight_sse P (ts_end st) now [] [] 0 None False (ts_items st)"

subsection \<open>Byte streams\<close>

definition byte_stream_preview :: "string list \<Rightarrow> string" where
  "byte_stream_preview chunks = take 160 (concat chunks)"

definition utf8_gateway_error :: "preflight_env \<Rightarrow> sse_error \<Rightarrow> gateway_error" where
  "utf8_gateway_error P e = (case e of Invalid_Utf8 line \<Rightarrow>
     gateway_error_new UpstreamError (''upstream SSE contains invalid UTF-8: '' @ xl_utf8_error (pe_lib P) line))"

text \<open>The loop over the frames a chunk completes: \<open>None\<close> hands the stream on.\<close>

fun scan_frames ::
  "preflight_env \<Rightarrow> string \<Rightarrow> sse_frame list \<Rightarrow> bool \<Rightarrow> sse_frame list \<Rightarrow> gateway_error + (sse_frame list \<times> bool) option"
where
  "scan_frames P preview frames saw [] = Inr (Some (frames, saw))"
| "scan_frames P preview frames saw (f # fs) = (
     case xl_decode_frame (pe_lib P) (pe_protocol P) frames f of
       Inl e \<Rightarrow> Inl (strict_error P preview e)
     | Inr evs \<Rightarrow> (case validate_stream_events evs of
         Inl e \<Rightarrow> Inl e
       | Inr meaningful \<Rightarrow>
           if stream_events_have_output evs \<or> (meaningful \<and> \<not> empty_retry_enabled (pe_policy P))
           then Inr None
           else scan_frames P preview (frames @ [f]) (saw \<or> meaningful) fs))"

text \<open>The end of the stream: what is left in the parser may still be a frame.\<close>

definition raw_end ::
  "preflight_env \<Rightarrow> sse_parser \<Rightarrow> sse_frame list \<Rightarrow> string list \<Rightarrow> instant option \<Rightarrow> bool \<Rightarrow> instant
   \<Rightarrow> (gateway_error \<times> instant) + string preflight_result"
where
  "raw_end P parser frames ps first saw t = (
     let preview = byte_stream_preview ps in
     case fst (finish_bytes parser) of
       Inl e \<Rightarrow> Inl (strict_error P preview (utf8_gateway_error P e), t)
     | Inr final \<Rightarrow>
         (case (case final of
                  None \<Rightarrow> Inr (False, saw)
                | Some f \<Rightarrow> (case xl_decode_frame (pe_lib P) (pe_protocol P) frames f of
                    Inl e \<Rightarrow> Inl (strict_error P preview e)
                  | Inr evs \<Rightarrow> rbind (validate_stream_events evs) (\<lambda>meaningful.
                      Inr (stream_events_have_output evs, saw \<or> meaningful)))) of
            Inl e \<Rightarrow> Inl (e, t)
          | Inr (True, _) \<Rightarrow> Inr (handed_on ps [] None t)
          | Inr (False, saw1) \<Rightarrow>
              if \<not> saw1 then Inl (strict_error P preview no_event_error, t)
              else Inr (handed_on ps [] (Some (since first t)) t)))"

function preflight_raw ::
  "preflight_env \<Rightarrow> instant option \<Rightarrow> instant \<Rightarrow> sse_parser \<Rightarrow> sse_frame list \<Rightarrow> string list \<Rightarrow> nat
   \<Rightarrow> instant option \<Rightarrow> bool \<Rightarrow> string items \<Rightarrow> (gateway_error \<times> instant) + string preflight_result"
where
  "preflight_raw P end_at now parser frames ps bytes first saw items = (
     if window_over P now first saw then Inr (handed_on ps items None now)
     else case await (pe_idle P) (pe_tie P) now (wait_deadline P first saw) (next_arrival items end_at) of
       Deadline t \<Rightarrow> Inr (handed_on ps items None t)
     | Idle_Timeout t \<Rightarrow> Inl (idle_error, t)
     | Ready t \<Rightarrow> (case items of
         [] \<Rightarrow> raw_end P parser frames ps first saw t
       | (_, Inl e) # rest \<Rightarrow> Inl (e, t)
       | (_, Inr chunk) # rest \<Rightarrow>
           let first1 = (if first = None \<and> chunk \<noteq> [] then Some t else first);
               bytes1 = bytes + length chunk
           in if bytes1 > preflight_limit then Inl (too_long_error, t)
              else
                let ps1 = ps @ [chunk]; preview = byte_stream_preview ps1;
                    (fed, parser1) = feed_bytes chunk parser
                in case fed of
                  Inl e \<Rightarrow> Inl (strict_error P preview (utf8_gateway_error P e), t)
                | Inr fs \<Rightarrow> (case scan_frames P preview frames saw fs of
                    Inl e \<Rightarrow> Inl (e, t)
                  | Inr None \<Rightarrow> Inr (handed_on ps1 rest None t)
                  | Inr (Some (frames1, saw1)) \<Rightarrow>
                      preflight_raw P end_at t parser1 frames1 ps1 bytes1 first1 saw1 rest)))"
  by pat_completeness auto
termination preflight_raw
  by (relation "measure (\<lambda>(P, end_at, now, parser, frames, ps, bytes, first, saw, items). length items)") auto

declare preflight_raw.simps [simp del]

definition preflight_raw_stream ::
  "preflight_env \<Rightarrow> instant \<Rightarrow> string timed_stream \<Rightarrow> (gateway_error \<times> instant) + string preflight_result"
where
  "preflight_raw_stream P now st = preflight_raw P (ts_end st) now parser_new [] [] 0 None False (ts_items st)"

subsection \<open>Nothing is lost, little is held back\<close>

definition replays :: "'a items \<Rightarrow> 'a list \<Rightarrow> 'a preflight_result \<Rightarrow> bool" where
  "replays items ps r \<longleftrightarrow> map Inr ps @ map snd items = map Inr (pr_prefix r) @ map snd (pr_rest r)"

lemma preflight_sse_replay:
  assumes "preflight_sse P end_at now frames ps bytes first saw items = Inr r"
  shows "replays items ps r"
  using assms
proof (induction items arbitrary: now frames ps bytes first saw)
  case Nil
  then show ?case
    by (subst (asm) preflight_sse.simps) (auto simp: replays_def handed_on_def split: wait_result.splits if_splits)
next
  case (Cons it items)
  have IH: "preflight_sse P end_at t fr (ps @ [ev]) b f s items = Inr r \<Longrightarrow>
      map Inr ps @ Inr ev # map snd items = map Inr (pr_prefix r) @ map snd (pr_rest r)" for t fr b f s ev
    using Cons.IH by (fastforce simp: replays_def)
  show ?case using Cons.prems
    by (subst (asm) preflight_sse.simps)
       (auto simp: Let_def replays_def handed_on_def
          split: wait_result.splits prod.splits sum.splits if_splits dest!: IH)
qed

lemma preflight_sse_size:
  assumes "preflight_sse P end_at now frames ps bytes first saw items = Inr r"
    and "bytes = sum_list (map event_size ps)" and "bytes \<le> preflight_limit"
  shows "sum_list (map event_size (pr_prefix r)) \<le> preflight_limit"
  using assms
proof (induction items arbitrary: now frames ps bytes first saw)
  case Nil
  then show ?case
    by (subst (asm) preflight_sse.simps) (auto simp: handed_on_def split: wait_result.splits if_splits)
next
  case (Cons it items)
  have IH: "preflight_sse P end_at t fr (ps @ [ev]) (bytes + event_size ev) f s items = Inr r \<Longrightarrow>
      bytes + event_size ev \<le> preflight_limit \<Longrightarrow>
      sum_list (map event_size (pr_prefix r)) \<le> preflight_limit" for t fr f s ev
    using Cons.IH[where ps = "ps @ [ev]"] Cons.prems(2) by simp
  show ?case using Cons.prems(1,3)
    by (subst (asm) preflight_sse.simps)
       (auto simp: Let_def handed_on_def Cons.prems(2)[symmetric]
          split: wait_result.splits prod.splits sum.splits if_splits intro: IH)
qed

lemma preflight_raw_replay:
  assumes "preflight_raw P end_at now parser frames ps bytes first saw items = Inr r"
  shows "replays items ps r"
  using assms
proof (induction items arbitrary: now parser frames ps bytes first saw)
  case Nil
  then show ?case
    by (subst (asm) preflight_raw.simps)
       (auto simp: replays_def handed_on_def raw_end_def Let_def rbind_def
          split: wait_result.splits if_splits sum.splits option.splits prod.splits bool.splits)
next
  case (Cons it items)
  have IH: "preflight_raw P end_at t pa fr (ps @ [ev]) b f s items = Inr r \<Longrightarrow>
      map Inr ps @ Inr ev # map snd items = map Inr (pr_prefix r) @ map snd (pr_rest r)" for t pa fr b f s ev
    using Cons.IH by (fastforce simp: replays_def)
  show ?case using Cons.prems
    by (subst (asm) preflight_raw.simps)
       (auto simp: Let_def replays_def handed_on_def
          split: wait_result.splits prod.splits sum.splits option.splits if_splits dest!: IH)
qed

lemma preflight_raw_size:
  assumes "preflight_raw P end_at now parser frames ps bytes first saw items = Inr r"
    and "bytes = length (concat ps)" and "bytes \<le> preflight_limit"
  shows "length (concat (pr_prefix r)) \<le> preflight_limit"
  using assms
proof (induction items arbitrary: now parser frames ps bytes first saw)
  case Nil
  then show ?case
    by (subst (asm) preflight_raw.simps)
       (auto simp: handed_on_def raw_end_def Let_def rbind_def
          split: wait_result.splits if_splits sum.splits option.splits prod.splits bool.splits)
next
  case (Cons it items)
  have IH: "preflight_raw P end_at t pa fr (ps @ [ev]) (bytes + length ev) f s items = Inr r \<Longrightarrow>
      bytes + length ev \<le> preflight_limit \<Longrightarrow> length (concat (pr_prefix r)) \<le> preflight_limit" for t pa fr f s ev
    using Cons.IH[where ps = "ps @ [ev]"] Cons.prems(2) by simp
  show ?case using Cons.prems(1,3)
    by (subst (asm) preflight_raw.simps)
       (auto simp: Let_def handed_on_def Cons.prems(2)[symmetric] simp del: length_concat
          split: wait_result.splits prod.splits sum.splits option.splits if_splits intro: IH)
qed

text \<open>The preflight of a byte stream is transparent: the client gets every byte the upstream sent, in
  order and once, whether it was read ahead or not, and at most 1 MiB is read ahead.\<close>

theorem raw_preflight_is_transparent:
  "case preflight_raw_stream P now st of
     Inr r \<Rightarrow> map Inr (pr_prefix r) @ map snd (pr_rest r) = map snd (ts_items st)
       \<and> length (concat (pr_prefix r)) \<le> 1024 * 1024
   | Inl _ \<Rightarrow> True"
  using preflight_raw_replay[of P "ts_end st" now parser_new "[]" "[]" 0 None False "ts_items st"]
    preflight_raw_size[of P "ts_end st" now parser_new "[]" "[]" 0 None False "ts_items st"]
  by (auto simp: preflight_raw_stream_def replays_def preflight_limit_def split: sum.split)

subsection \<open>Only a stream with a valid event is handed on\<close>

text \<open>Some event of the list decodes, after those before it, to a valid protocol event.\<close>

definition valid_within :: "preflight_env \<Rightarrow> sse_event list \<Rightarrow> bool" where
  "valid_within P evs \<longleftrightarrow> (\<exists>a ev b. evs = a @ ev # b \<and>
     (\<exists>es. xl_decode_frame (pe_lib P) (pe_protocol P) (map frame_of a) (frame_of ev) = Inr es
        \<and> validate_stream_events es = Inr True))"

lemma valid_within_append: "valid_within P evs \<Longrightarrow> valid_within P (evs @ later)"
  unfolding valid_within_def by fastforce

lemma validate_Cons_Inr:
  "validate_stream_events (e # es) = Inr m \<Longrightarrow>
   (\<exists>b. validate_stream_events es = Inr b \<and> m = (e \<noteq> Ping \<or> b))"
  by (cases "validate_stream_events es") (auto simp: rbind_def split: stream_event.splits)

lemma output_is_valid: "stream_events_have_output es \<Longrightarrow> validate_stream_events es = Inr m \<Longrightarrow> m"
  by (induction es arbitrary: m)
     (auto simp: stream_events_have_output_def simp del: validate_stream_events.simps dest!: validate_Cons_Inr)

lemma await_deadline: "await idle tie now d arrival = Deadline t \<Longrightarrow> d \<noteq> None"
  by (auto simp: await_def Let_def split: option.splits prod.splits if_splits)

lemma preflight_sse_valid:
  assumes "preflight_sse P end_at now (map frame_of ps) ps bytes first saw items = Inr r"
    and "saw \<Longrightarrow> valid_within P ps"
  shows "valid_within P (pr_prefix r) \<and> (pr_empty r \<noteq> None \<longrightarrow> pr_rest r = [])"
  using assms
proof (induction items arbitrary: now ps bytes first saw)
  case Nil
  then show ?case
    by (subst (asm) preflight_sse.simps)
       (auto simp: handed_on_def window_over_def wait_deadline_def
          split: wait_result.splits if_splits dest!: await_deadline)
next
  case (Cons it items)
  have new: "valid_within P (ps @ [ev])"
    if "xl_decode_frame (pe_lib P) (pe_protocol P) (map frame_of ps) (frame_of ev) = Inr es"
      "validate_stream_events es = Inr True" for ev es
    unfolding valid_within_def using that by (intro exI[of _ ps] exI[of _ ev] exI[of _ "[]"]) auto
  have out: "valid_within P (ps @ [ev])"
    if "xl_decode_frame (pe_lib P) (pe_protocol P) (map frame_of ps) (frame_of ev) = Inr es"
      "validate_stream_events es = Inr m" "stream_events_have_output es \<or> m" for ev es m
    using new[OF that(1)] that(2,3) output_is_valid[OF _ that(2)] by auto
  have IH: "valid_within P (pr_prefix r) \<and> (pr_empty r \<noteq> None \<longrightarrow> pr_rest r = [])"
    if "preflight_sse P end_at t (map frame_of ps @ [frame_of ev]) (ps @ [ev]) b f s items = Inr r"
      "xl_decode_frame (pe_lib P) (pe_protocol P) (map frame_of ps) (frame_of ev) = Inr es"
      "validate_stream_events es = Inr m" "s = (saw \<or> m)" for t ev b f s m es
  proof (rule Cons.IH)
    show "preflight_sse P end_at t (map frame_of (ps @ [ev])) (ps @ [ev]) b f s items = Inr r"
      using that(1) by simp
    show "valid_within P (ps @ [ev])" if s
      using that \<open>s = (saw \<or> m)\<close> Cons.prems(2) valid_within_append
        out[OF \<open>xl_decode_frame _ _ _ _ = Inr es\<close> \<open>validate_stream_events es = Inr m\<close>] by blast
  qed
  obtain a x where it: "it = (a, x)" by fastforce
  show ?case
  proof (cases "window_over P now first saw")
    case True
    then show ?thesis using Cons.prems
      by (subst (asm) preflight_sse.simps) (auto simp: handed_on_def window_over_def)
  next
    case open_window: False
    show ?thesis
    proof (cases "await (pe_idle P) (pe_tie P) now (wait_deadline P first saw) (next_arrival (it # items) end_at)")
      case (Deadline t)
      then have saw using await_deadline[OF Deadline] by (auto simp: wait_deadline_def split: if_splits)
      then show ?thesis using Cons.prems Deadline open_window
        by (subst (asm) preflight_sse.simps) (auto simp: handed_on_def)
    next
      case (Idle_Timeout t)
      then show ?thesis using Cons.prems open_window by (subst (asm) preflight_sse.simps) simp
    next
      case (Ready t)
      show ?thesis using Cons.prems(1) open_window Ready
        by (subst (asm) preflight_sse.simps)
           (auto simp: Let_def handed_on_def it split: sum.splits if_splits intro: out dest: IH)
    qed
  qed
qed

text \<open>A parsed stream reaches the client only after an event that is valid in the upstream's protocol
  has been read: an error envelope, keep-alives alone or an empty body never do. What was
  read is replayed in front of the rest, nothing is lost, and an answer is called empty only
  when the stream has ended.\<close>

theorem sse_preflight_hands_on_valid_streams:
  "case preflight_sse_stream P now st of
     Inr r \<Rightarrow> valid_within P (pr_prefix r) \<and> pr_prefix r \<noteq> []
       \<and> map Inr (pr_prefix r) @ map snd (pr_rest r) = map snd (ts_items st)
       \<and> sum_list (map event_size (pr_prefix r)) \<le> 1024 * 1024
       \<and> (case pr_empty r of Some _ \<Rightarrow> pr_rest r = [] | None \<Rightarrow> True)
   | Inl _ \<Rightarrow> True"
proof (cases "preflight_sse_stream P now st")
  case (Inr r)
  then have run: "preflight_sse P (ts_end st) now (map frame_of []) [] 0 None False (ts_items st) = Inr r"
    by (simp add: preflight_sse_stream_def)
  have "valid_within P (pr_prefix r) \<and> (pr_empty r \<noteq> None \<longrightarrow> pr_rest r = [])"
    using preflight_sse_valid[OF run] by simp
  moreover have "sum_list (map event_size (pr_prefix r)) \<le> preflight_limit"
    using preflight_sse_size[OF run] by (simp add: preflight_limit_def)
  ultimately show ?thesis using Inr preflight_sse_replay[OF run]
    by (auto simp: replays_def preflight_limit_def valid_within_def split: option.split)
qed simp

text \<open>A stream whose first piece arrives too late is given up at the idle deadline.\<close>

lemma silent_stream_times_out:
  "preflight_sse_stream P now \<lparr>ts_items = [], ts_end = None\<rparr> = Inl (idle_error, now + int (pe_idle P))"
  by (simp add: preflight_sse_stream_def preflight_sse.simps window_over_def await_def wait_deadline_def
      next_arrival_def Let_def)

end
