(* ===== verification/Executor.thy ===== *)
theory Executor
  imports Preflight Keys
begin

section \<open>The route executor\<close>

text \<open>
  The buffered executions of \<open>crates/refract-router/src/executor.rs\<close>: the candidates of a route
  are tried in order of their health, each with the keys of its pool, until one answers. The
  network client, the clock, the random generator and the fate of each database access are
  functions of a world state that the client's calls change. The five loops of the code have
  one shape, \<open>attempt_loop\<close>: a call, what is read out of its answer, and what follows from it.
\<close>

subsection \<open>Environment, state and outcome\<close>

record router_config =
  cf_allow_suspended_as_last_resort :: bool
  cf_empty_response_retry :: empty_retry_policy

definition default_router_config :: router_config where
  "default_router_config = \<lparr>cf_allow_suspended_as_last_resort = True,
     cf_empty_response_retry = default_empty_retry\<rparr>"

datatype router_event =
    Failure_Event channel_id string protocol error_kind string bool nat
  | Success_Event channel_id string protocol bool

record 'w exec_env =
  ee_lib :: exec_lib
  ee_send :: "upstream_request \<Rightarrow> 'w \<Rightarrow> (gateway_error + upstream_response) \<times> 'w"
  ee_send_raw :: "upstream_request \<Rightarrow> 'w \<Rightarrow> (gateway_error + raw_response) \<times> 'w"
  ee_stream :: "upstream_request \<Rightarrow> 'w \<Rightarrow> (gateway_error + sse_response) \<times> 'w"
  ee_stream_raw :: "upstream_request \<Rightarrow> 'w \<Rightarrow> (gateway_error + byte_response) \<times> 'w"
  ee_stream_idle :: duration
  ee_tie :: "'w \<Rightarrow> bool"
  ee_now :: "'w \<Rightarrow> instant"
  ee_until :: "instant \<Rightarrow> 'w \<Rightarrow> 'w"
  ee_rng :: "'w rng"
  ee_db :: "'w \<Rightarrow> db_outcome"

record 'w exec_state =
  xs_world :: 'w
  xs_health :: health_repo
  xs_keys :: key_selector
  xs_events :: "router_event list"
  xs_attempts :: nat
  xs_calls :: nat

record 'p route_outcome =
  oc_channel_id :: channel_id
  oc_channel_name :: string
  oc_upstream_protocol :: protocol
  oc_upstream_model :: string
  oc_transcoded :: bool
  oc_attempts :: nat
  oc_latency_ms :: nat
  oc_credential_hint :: "string option"
  oc_payload :: 'p

datatype routed_response = Native raw_response usage | Transcoded unified_response

fun routed_usage :: "routed_response \<Rightarrow> usage" where
  "routed_usage (Native _ u) = u"
| "routed_usage (Transcoded r) = rs_usage r"

subsection \<open>Order, budget and errors\<close>

text \<open>The loop that sorts the candidates' indices into healthy and suspended ones.\<close>

fun split_by_health ::
  "instant \<Rightarrow> nat \<Rightarrow> candidate list \<Rightarrow> nat list \<Rightarrow> nat list \<Rightarrow> health_repo
   \<Rightarrow> nat list \<times> nat list \<times> health_repo"
where
  "split_by_health now idx [] healthy suspended h = (healthy, suspended, h)"
| "split_by_health now idx (c # cs) healthy suspended h =
     (let (until, h1) = suspended_until (ca_id c, ca_protocol c) now h
      in if until \<noteq> None then split_by_health now (Suc idx) cs healthy (suspended @ [idx]) h1
         else split_by_health now (Suc idx) cs (healthy @ [idx]) suspended h1)"

definition prioritize :: "router_config \<Rightarrow> instant \<Rightarrow> route \<Rightarrow> health_repo \<Rightarrow> nat list \<times> health_repo" where
  "prioritize cfg now ro h = (
     let (healthy, suspended, h1) = split_by_health now 0 (ro_attempts ro) [] [] h;
         order = (if cf_allow_suspended_as_last_resort cfg then healthy @ suspended else healthy)
     in (take (max (ro_attempt_cap ro) 1) order, h1))"

definition over_budget :: "route \<Rightarrow> 'w exec_state \<Rightarrow> bool" where
  "over_budget ro st \<longleftrightarrow> ro_max_upstream_calls ro > 0 \<and> xs_calls st \<ge> ro_max_upstream_calls ro"

definition no_candidates :: "route \<Rightarrow> gateway_error" where
  "no_candidates ro = with_protocol (ro_inbound ro) (gateway_error_new NoAvailableChannel
     (''no channel can serve model `'' @ ro_model ro @ ''` over the '' @ protocol_str (ro_inbound ro)
      @ '' protocol''))"

definition affects_endpoint_health :: "error_kind \<Rightarrow> bool" where
  "affects_endpoint_health k \<longleftrightarrow> k \<in> {Unauthenticated, PermissionDenied, RateLimited, UpstreamError,
     InvalidUpstreamResponse, Timeout, Configuration, NotFound}"

definition annotate_candidate_error :: "candidate \<Rightarrow> nat \<Rightarrow> gateway_error \<Rightarrow> gateway_error" where
  "annotate_candidate_error c attempts e0 = (
     let e1 = (if ge_channel_id e0 = None then with_channel (ca_id c) e0 else e0);
         e2 = (if ge_protocol e1 = None then with_protocol (ca_protocol c) e1 else e1);
         e3 = (if ge_channel_name e2 = None then e2\<lparr>ge_channel_name := Some (ch_name (ca_channel c))\<rparr> else e2);
         e4 = (if ge_upstream_model e3 = None then e3\<lparr>ge_upstream_model := Some (ca_upstream_model c)\<rparr> else e3)
     in e4\<lparr>ge_attempts := attempts\<rparr>)"

definition timeout_for :: "candidate \<Rightarrow> duration option" where
  "timeout_for c = (if ch_timeout_secs (ca_channel c) = 0 then None
     else Some (from_secs (ch_timeout_secs (ca_channel c))))"

definition empty_response_retry_for :: "router_config \<Rightarrow> candidate \<Rightarrow> empty_retry_policy" where
  "empty_response_retry_for cfg c =
     resolve_retry (ch_empty_response_retry (ca_channel c)) (cf_empty_response_retry cfg)"

fun kind_debug :: "error_kind \<Rightarrow> string" where
  "kind_debug InvalidRequest = ''InvalidRequest''"
| "kind_debug Unauthenticated = ''Unauthenticated''"
| "kind_debug PermissionDenied = ''PermissionDenied''"
| "kind_debug NotFound = ''NotFound''"
| "kind_debug PayloadTooLarge = ''PayloadTooLarge''"
| "kind_debug RateLimited = ''RateLimited''"
| "kind_debug UpstreamError = ''UpstreamError''"
| "kind_debug InvalidUpstreamResponse = ''InvalidUpstreamResponse''"
| "kind_debug NoAvailableChannel = ''NoAvailableChannel''"
| "kind_debug Timeout = ''Timeout''"
| "kind_debug TranscodeNotPermitted = ''TranscodeNotPermitted''"
| "kind_debug TranscodeFailed = ''TranscodeFailed''"
| "kind_debug Configuration = ''Configuration''"
| "kind_debug Internal = ''Internal''"

definition error_to_string :: "gateway_error \<Rightarrow> string" where
  "error_to_string e = kind_debug (ge_kind e) @ '': '' @ ge_message e"

subsection \<open>Health and events\<close>

definition emit :: "router_event \<Rightarrow> 'w exec_state \<Rightarrow> 'w exec_state" where
  "emit ev st = st\<lparr>xs_events := xs_events st @ [ev]\<rparr>"

definition exec_record_success :: "'w exec_env \<Rightarrow> candidate \<Rightarrow> nat \<Rightarrow> 'w exec_state \<Rightarrow> 'w exec_state" where
  "exec_record_success env c latency st = (
     let (r, h) = record_success (ca_id c, ca_protocol c) latency (ee_db env (xs_world st))
                    (ee_now env (xs_world st)) (xs_health st);
         st1 = st\<lparr>xs_health := h\<rparr>
     in case r of
          Inr recovered \<Rightarrow> emit (Success_Event (ca_id c) (ch_name (ca_channel c)) (ca_protocol c) recovered) st1
        | Inl _ \<Rightarrow> st1)"

definition exec_record_failure :: "'w exec_env \<Rightarrow> candidate \<Rightarrow> gateway_error \<Rightarrow> 'w exec_state \<Rightarrow> 'w exec_state" where
  "exec_record_failure env c e st = (
     if \<not> affects_endpoint_health (ge_kind e) then st
     else
       let now = ee_now env (xs_world st);
           (r, h) = record_failure (ca_id c, ca_protocol c) (error_to_string e) (ge_retry_after e)
                      (ee_db env (xs_world st)) now now (xs_health st);
           st1 = st\<lparr>xs_health := h\<rparr>
       in case r of
            Inr eh \<Rightarrow> emit (Failure_Event (ca_id c) (ch_name (ca_channel c)) (ca_protocol c) (ge_kind e)
                (ge_message e) (eh_suspended_until eh \<noteq> None) (eh_consecutive_fails eh)) st1
          | Inl _ \<Rightarrow> st1)"

text \<open>\<open>Inr\<close>: the error may be retried on another candidate; \<open>Inl\<close>: it is final.\<close>

definition handle_failure ::
  "'w exec_env \<Rightarrow> candidate \<Rightarrow> gateway_error \<Rightarrow> 'w exec_state \<Rightarrow> (gateway_error + gateway_error) \<times> 'w exec_state"
where
  "handle_failure env c e st = (
     let annotated = annotate_candidate_error c (xs_attempts st) e;
         st1 = exec_record_failure env c annotated st
     in if \<not> ge_retryable annotated then (Inl annotated, st1) else (Inr annotated, st1))"

datatype failure_action = Rotate_Key | Move_On gateway_error

definition on_failure ::
  "'w exec_env \<Rightarrow> candidate \<Rightarrow> key_rotator \<Rightarrow> gateway_error \<Rightarrow> 'w exec_state
   \<Rightarrow> (gateway_error + failure_action) \<times> key_rotator \<times> 'w exec_state"
where
  "on_failure env c rot e st = (case rotate_key (ge_kind e) rot of
     (True, rot1) \<Rightarrow> (Inr Rotate_Key, rot1, st)
   | (False, rot1) \<Rightarrow>
       let final_error = exhausted_error rot1 e; hint = key_hint rot1;
           (r, st1) = handle_failure env c final_error st
       in (case r of
             Inr a \<Rightarrow> Inr (Move_On (a\<lparr>ge_credential_hint := Some hint\<rparr>))
           | Inl a \<Rightarrow> Inl (a\<lparr>ge_credential_hint := Some hint\<rparr>), rot1, st1))"

definition outcome ::
  "candidate \<Rightarrow> route \<Rightarrow> nat \<Rightarrow> nat \<Rightarrow> string option \<Rightarrow> 'p \<Rightarrow> 'p route_outcome"
where
  "outcome c ro attempts latency hint p = \<lparr>oc_channel_id = ca_id c,
     oc_channel_name = ch_name (ca_channel c), oc_upstream_protocol = ca_protocol c,
     oc_upstream_model = ca_upstream_model c, oc_transcoded = needs_transcode c (ro_inbound ro),
     oc_attempts = attempts, oc_latency_ms = latency, oc_credential_hint = hint, oc_payload = p\<rparr>"

subsection \<open>The loop over one candidate\<close>

text \<open>
  What is read out of the answer to a call: how long an empty answer took (when it was
  empty), and what the answer means if it is not asked for again.
\<close>

datatype 'p verdict = Accept 'p | Reject gateway_error | Fail_With gateway_error | Give_Up gateway_error

datatype 'p step_result = Return "gateway_error + 'p route_outcome" | Continue_With gateway_error | Skip

definition bump_attempts :: "'w exec_state \<Rightarrow> 'w exec_state" where
  "bump_attempts st = st\<lparr>xs_attempts := min 255 (xs_attempts st + 1)\<rparr>"

definition elapsed_ms :: "'w exec_env \<Rightarrow> 'w \<Rightarrow> 'w \<Rightarrow> nat" where
  "elapsed_ms env w w' = nat ((ee_now env w' - ee_now env w) div 10 ^ 6)"

lemma rotate_key_tried:
  "rotate_key k rot = (True, rot1) \<Longrightarrow> kr_pool rot1 = kr_pool rot
     \<and> kr_tried rot1 = Suc (kr_tried rot) \<and> kr_tried rot < pool_len (kr_pool rot)"
  by (auto simp: rotate_key_def split: if_splits)

lemma on_failure_rotate:
  "on_failure env c rot e st = (Inr Rotate_Key, rot1, st1) \<Longrightarrow>
   rotate_key (ge_kind e) rot = (True, rot1) \<and> st1 = st"
  by (auto simp: on_failure_def Let_def split: prod.splits bool.splits sum.splits)

lemma on_failure_decreases:
  assumes "(Inr Rotate_Key, rot1, st1) = on_failure env c rot e st"
  shows "pool_len (kr_pool rot1) - kr_tried rot1 < pool_len (kr_pool rot) - kr_tried rot"
proof -
  have "rotate_key (ge_kind e) rot = (True, rot1)" using on_failure_rotate assms[symmetric] by blast
  from rotate_key_tried[OF this] show ?thesis by auto
qed

text \<open>A buffered answer is counted as a success at once; a stream is not (\<open>noted = False\<close>).\<close>

definition accept_state :: "'w exec_env \<Rightarrow> bool \<Rightarrow> candidate \<Rightarrow> nat \<Rightarrow> 'w exec_state \<Rightarrow> 'w exec_state" where
  "accept_state env noted c latency st = (if noted then exec_record_success env c latency st else st)"

function attempt_loop ::
  "'w exec_env \<Rightarrow> bool \<Rightarrow> route \<Rightarrow> candidate \<Rightarrow> empty_retry_policy
   \<Rightarrow> (credential \<Rightarrow> 'w \<Rightarrow> (duration option \<times> 'p verdict) \<times> 'w)
   \<Rightarrow> nat \<Rightarrow> key_rotator \<Rightarrow> 'w exec_state \<Rightarrow> 'p step_result \<times> 'w exec_state"
where
  "attempt_loop env noted ro c pol call retries rot st = (
     if over_budget ro st then (Return (Inl ge_budget_exhausted), st)
     else
       let ((empty, v), w) = call (current_key rot) (xs_world st);
           latency = elapsed_ms env (xs_world st) w;
           st1 = st\<lparr>xs_world := w, xs_calls := xs_calls st + 1\<rparr>
       in if (case empty of Some d \<Rightarrow> should_retry_empty pol d retries | None \<Rightarrow> False)
          then attempt_loop env noted ro c pol call (Suc retries) rot (bump_attempts st1)
          else case v of
            Accept p \<Rightarrow>
              let st2 = accept_state env noted c latency st1
              in (Return (Inr (outcome c ro (xs_attempts st2) latency (Some (key_hint rot)) p)),
                  st2\<lparr>xs_keys := commit_key rot (xs_keys st2)\<rparr>)
          | Reject e \<Rightarrow>
              let a = annotate_candidate_error c (xs_attempts st1) e
              in (Return (Inl a), exec_record_failure env c a st1)
          | Give_Up e \<Rightarrow> (Continue_With e, st1)
          | Fail_With e \<Rightarrow>
              (case on_failure env c rot e st1 of
                 (Inr Rotate_Key, rot1, st2) \<Rightarrow>
                   attempt_loop env noted ro c pol call retries rot1 (bump_attempts st2)
               | (Inr (Move_On a), _, st2) \<Rightarrow> (Continue_With a, st2)
               | (Inl a, _, st2) \<Rightarrow> (Return (Inl a), st2)))"
  by pat_completeness auto

text \<open>Every further turn either uses up a retry for an empty answer or another key.\<close>

termination attempt_loop
  by (relation "measure (\<lambda>(env, noted, ro, c, pol, call, retries, rot, st).
        (er_max_retries pol - retries) + (pool_len (kr_pool rot) - kr_tried rot))")
     (auto simp: should_retry_empty_def intro: on_failure_decreases split: option.splits)

declare attempt_loop.simps [simp del]

subsection \<open>The executions\<close>

text \<open>The candidates in the order of \<open>prioritize\<close>, until one returns.\<close>

fun try_candidates ::
  "(candidate \<Rightarrow> 'w exec_state \<Rightarrow> 'p step_result \<times> 'w exec_state) \<Rightarrow> candidate list \<Rightarrow> gateway_error
   \<Rightarrow> 'w exec_state \<Rightarrow> (gateway_error + 'p route_outcome) \<times> 'w exec_state"
where
  "try_candidates f [] last_error st = (Inl last_error, st)"
| "try_candidates f (c # cs) last_error st = (case f c st of
     (Return r, st1) \<Rightarrow> (r, st1)
   | (Continue_With e, st1) \<Rightarrow> try_candidates f cs e st1
   | (Skip, st1) \<Rightarrow> try_candidates f cs last_error st1)"

definition run_route ::
  "'w exec_env \<Rightarrow> router_config \<Rightarrow> route
   \<Rightarrow> (candidate \<Rightarrow> 'w exec_state \<Rightarrow> 'p step_result \<times> 'w exec_state) \<Rightarrow> 'w exec_state
   \<Rightarrow> (gateway_error + 'p route_outcome) \<times> 'w exec_state"
where
  "run_route env cfg ro f st0 = (
     let (order, h) = prioritize cfg (ee_now env (xs_world st0)) ro (xs_health st0);
         st = st0\<lparr>xs_health := h, xs_attempts := 0, xs_calls := 0\<rparr>
     in try_candidates f (map (\<lambda>i. ro_attempts ro ! i) order) (no_candidates ro) st)"

definition start_rotator ::
  "'w exec_env \<Rightarrow> route \<Rightarrow> candidate \<Rightarrow> 'w exec_state \<Rightarrow> key_rotator \<times> 'w exec_state"
where
  "start_rotator env ro c st = (
     let (rot, keys, w) = start (ee_rng env) (ca_id c) (key_pool (ca_channel c) (ca_endpoint c))
           (ro_identity ro) (xs_keys st) (xs_world st)
     in (rot, st\<lparr>xs_keys := keys, xs_world := w\<rparr>))"

text \<open>What the loops for parsed answers make of one; the request is already addressed.\<close>

definition read_parsed ::
  "exec_lib \<Rightarrow> empty_retry_policy \<Rightarrow> protocol \<Rightarrow> gateway_error + upstream_response
   \<Rightarrow> duration option \<times> routed_response verdict"
where
  "read_parsed lib pol p r = (case r of
     Inl e \<Rightarrow> (None, Fail_With (strict_200_parse_error lib (er_reject_nonstandard_200 pol) p e))
   | Inr resp \<Rightarrow>
       let decoded = xl_decode_response lib p (rp_body resp) in
       (if is_null (rp_body resp)
          \<or> (case decoded of Inr u \<Rightarrow> unified_response_is_empty u | Inl _ \<Rightarrow> False)
        then Some (rp_first_byte_to_end resp) else None,
        if rp_status resp = 200 \<and> is_null (rp_body resp) \<and> er_reject_nonstandard_200 pol
        then Reject (invalid_parsed_200_response lib p resp)
        else case decoded of
          Inr u \<Rightarrow> Accept (Transcoded u)
        | Inl e \<Rightarrow> Fail_With (if rp_status resp = 200 \<and> er_reject_nonstandard_200 pol
            then invalid_parsed_200_response lib p resp else e)))"

definition read_raw ::
  "exec_lib \<Rightarrow> empty_retry_policy \<Rightarrow> protocol \<Rightarrow> gateway_error + raw_response
   \<Rightarrow> duration option \<times> routed_response verdict"
where
  "read_raw lib pol p r = (case r of
     Inl e \<Rightarrow> (None, Fail_With e)
   | Inr resp \<Rightarrow> (case inspect_native_response lib p (er_reject_nonstandard_200 pol) resp of
       Inl e \<Rightarrow> (None, Fail_With e)
     | Inr ni \<Rightarrow>
         (if ni_empty ni then Some (rw_first_byte_to_end resp) else None,
          if er_reject_nonstandard_200 pol \<and> rw_status resp = 200 \<and> \<not> ni_protocol_standard ni
          then Reject (invalid_200_response lib p (response_content_type lib (rw_headers resp)) (rw_body resp))
          else Accept (Native resp (ni_usage ni)))))"

definition candidate_request :: "candidate \<Rightarrow> action \<Rightarrow> prepared_body \<Rightarrow> credential \<Rightarrow> upstream_request" where
  "candidate_request c act prepared key =
     (to_request prepared c key act)\<lparr>rq_proxy := ca_proxy c, rq_timeout := timeout_for c\<rparr>"

definition candidate_normalized ::
  "'w exec_env \<Rightarrow> router_config \<Rightarrow> route \<Rightarrow> unified_request \<Rightarrow> candidate \<Rightarrow> 'w exec_state
   \<Rightarrow> routed_response step_result \<times> 'w exec_state"
where
  "candidate_normalized env cfg ro ir c st = (case encode_for (ee_lib env) c ir of
     Inl e \<Rightarrow> (Continue_With e, st)
   | Inr body \<Rightarrow>
       let pol = empty_response_retry_for cfg c;
           (rot, st1) = start_rotator env ro c st;
           call = (\<lambda>key w. let (r, w') = ee_send env ((candidate_request c Generate (Json_Body body) key)
                     \<lparr>rq_extra_headers := merged_headers [] c\<rparr>) w
                   in (read_parsed (ee_lib env) pol (ca_protocol c) r, w'))
       in attempt_loop env True ro c pol call 0 rot (bump_attempts st1))"

definition execute_normalized ::
  "'w exec_env \<Rightarrow> router_config \<Rightarrow> route \<Rightarrow> unified_request \<Rightarrow> 'w exec_state
   \<Rightarrow> (gateway_error + routed_response route_outcome) \<times> 'w exec_state"
where
  "execute_normalized env cfg ro ir st = run_route env cfg ro (candidate_normalized env cfg ro ir) st"

record inbound_raw =
  ib_protocol :: protocol
  ib_body :: string
  ib_model :: string
  ib_stream :: bool
  ib_headers :: "(string \<times> string) list"

datatype inbound_payload = Normalized unified_request | Raw inbound_raw

definition candidate_transcoded ::
  "'w exec_env \<Rightarrow> router_config \<Rightarrow> route \<Rightarrow> inbound_raw \<Rightarrow> candidate \<Rightarrow> 'w exec_state
   \<Rightarrow> routed_response step_result \<times> 'w exec_state"
where
  "candidate_transcoded env cfg ro ib c st = (
     let st0 = bump_attempts st; pol = empty_response_retry_for cfg c in
     case decode_raw_request (ee_lib env) (ib_protocol ib) (ib_body ib) (ib_model ib) (ib_stream ib) of
       Inl e \<Rightarrow> (Continue_With e, st0)
     | Inr ir \<Rightarrow> (case encode_for (ee_lib env) c ir of
         Inl e \<Rightarrow> (Continue_With (annotate_candidate_error c (xs_attempts st0) e), st0)
       | Inr body \<Rightarrow>
           let (rot, st1) = start_rotator env ro c st0;
               call = (\<lambda>key w. let (r, w') = ee_send env (candidate_request c Generate (Json_Body body) key) w
                       in (read_parsed (ee_lib env) pol (ca_protocol c) r, w'))
           in attempt_loop env True ro c pol call 0 rot st1))"

definition candidate_native ::
  "'w exec_env \<Rightarrow> router_config \<Rightarrow> route \<Rightarrow> inbound_raw \<Rightarrow> candidate \<Rightarrow> 'w exec_state
   \<Rightarrow> routed_response step_result \<times> 'w exec_state"
where
  "candidate_native env cfg ro ib c st = (
     let st0 = bump_attempts st; pol = empty_response_retry_for cfg c in
     case prepare_native_body (ee_lib env) c ro (ib_body ib) of
       Inl e \<Rightarrow> (Return (Inl e), st0)
     | Inr body \<Rightarrow>
         let (rot, st1) = start_rotator env ro c st0;
             call = (\<lambda>key w. let (r, w') = ee_send_raw env ((candidate_request c Generate body key)
                       \<lparr>rq_extra_headers := merged_headers (ib_headers ib) c\<rparr>) w
                     in (read_raw (ee_lib env) pol (ca_protocol c) r, w'))
         in attempt_loop env True ro c pol call 0 rot st1)"

text \<open>The dispatcher of the raw execution.\<close>

definition candidate_raw ::
  "'w exec_env \<Rightarrow> router_config \<Rightarrow> route \<Rightarrow> inbound_raw \<Rightarrow> candidate \<Rightarrow> 'w exec_state
   \<Rightarrow> routed_response step_result \<times> 'w exec_state"
where
  "candidate_raw env cfg ro ib c st = (
     if needs_transcode c (ro_inbound ro) then candidate_transcoded env cfg ro ib c st
     else candidate_native env cfg ro ib c st)"

definition execute ::
  "'w exec_env \<Rightarrow> router_config \<Rightarrow> route \<Rightarrow> inbound_payload \<Rightarrow> 'w exec_state
   \<Rightarrow> (gateway_error + routed_response route_outcome) \<times> 'w exec_state"
where
  "execute env cfg ro payload st = (case payload of
     Normalized ir \<Rightarrow> execute_normalized env cfg ro ir st
   | Raw ib \<Rightarrow> run_route env cfg ro (candidate_raw env cfg ro ib) st)"

text \<open>Without retries for empty answers the loop is given a policy that has them off.\<close>

definition never_empty :: empty_retry_policy where
  "never_empty = \<lparr>er_window_secs = 0, er_max_retries = 0, er_reject_nonstandard_200 = False\<rparr>"

definition candidate_passthrough ::
  "'w exec_env \<Rightarrow> route \<Rightarrow> action \<Rightarrow> string \<Rightarrow> (string \<times> string) list \<Rightarrow> string option \<Rightarrow> candidate
   \<Rightarrow> 'w exec_state \<Rightarrow> raw_response step_result \<times> 'w exec_state"
where
  "candidate_passthrough env ro act raw hdrs content_type c st = (
     if ca_protocol c \<noteq> ro_inbound ro then (Skip, st)
     else
       let st0 = bump_attempts st;
           is_multipart = (case content_type of Some ct \<Rightarrow> prefix ''multipart/'' ct | None \<Rightarrow> False) in
       case (if is_multipart then Inr (prepare_multipart_body c ro raw)
             else prepare_native_body (ee_lib env) c ro raw) of
         Inl e \<Rightarrow> (Return (Inl e), st0)
       | Inr body \<Rightarrow>
           let (rot, st1) = start_rotator env ro c st0;
               call = (\<lambda>key w. let (r, w') = ee_send_raw env ((candidate_request c act body key)
                         \<lparr>rq_raw_content_type := content_type, rq_extra_headers := merged_headers hdrs c\<rparr>) w
                       in ((None, case r of Inr resp \<Rightarrow> Accept resp | Inl e \<Rightarrow> Fail_With e), w'))
           in attempt_loop env True ro c never_empty call 0 rot st1)"

definition execute_passthrough ::
  "'w exec_env \<Rightarrow> router_config \<Rightarrow> route \<Rightarrow> action \<Rightarrow> string \<Rightarrow> (string \<times> string) list \<Rightarrow> string option
   \<Rightarrow> 'w exec_state \<Rightarrow> (gateway_error + raw_response route_outcome) \<times> 'w exec_state"
where
  "execute_passthrough env cfg ro act raw hdrs content_type st =
     run_route env cfg ro (candidate_passthrough env ro act raw hdrs content_type) st"

subsection \<open>The order of the candidates\<close>

definition endpoint_up :: "instant \<Rightarrow> route \<Rightarrow> health_repo \<Rightarrow> nat \<Rightarrow> bool" where
  "endpoint_up now ro h i \<longleftrightarrow>
     pending now (hp_cache h (ca_id (ro_attempts ro ! i), ca_protocol (ro_attempts ro ! i))) = None"

lemma split_by_health_props:
  "case split_by_health now idx cs a b h of (healthy, suspended, h') \<Rightarrow>
     healthy = a @ map (\<lambda>i. idx + i) (filter (\<lambda>i. pending now (hp_cache h (ca_id (cs ! i), ca_protocol (cs ! i))) = None) [0..<length cs])
   \<and> suspended = b @ map (\<lambda>i. idx + i) (filter (\<lambda>i. pending now (hp_cache h (ca_id (cs ! i), ca_protocol (cs ! i))) \<noteq> None) [0..<length cs])
   \<and> (\<forall>k. pending now (hp_cache h' k) = pending now (hp_cache h k))"
proof (induction cs arbitrary: idx a b h)
  case (Cons c cs)
  obtain t h1 where s: "suspended_until (ca_id c, ca_protocol c) now h = (t, h1)" by fastforce
  have t: "t = pending now (hp_cache h (ca_id c, ca_protocol c))"
    using suspended_until_fst[of "(ca_id c, ca_protocol c)" now h] s by simp
  have h1: "pending now (hp_cache h1 k) = pending now (hp_cache h k)" for k
    using suspended_until_state(3)[of now "(ca_id c, ca_protocol c)" h k] s by simp
  have up: "[0..<length (c # cs)] = 0 # map Suc [0..<length cs]"
    by (simp add: map_Suc_upt upt_conv_Cons del: upt_Suc)
  show ?case
    using Cons.IH[where idx = "Suc idx" and a = a and b = "b @ [idx]" and h = h1]
      Cons.IH[where idx = "Suc idx" and a = "a @ [idx]" and b = b and h = h1]
    unfolding up by (auto simp: s t h1 filter_map comp_def split: prod.splits)
qed simp

lemma prioritize_eq:
  "fst (prioritize cfg now ro h) = take (max (ro_attempt_cap ro) 1)
     (filter (endpoint_up now ro h) [0..<length (ro_attempts ro)]
      @ (if cf_allow_suspended_as_last_resort cfg
         then filter (\<lambda>i. \<not> endpoint_up now ro h i) [0..<length (ro_attempts ro)] else []))"
  using split_by_health_props[where now = now and idx = 0 and cs = "ro_attempts ro" and a = "[]" and b = "[]" and h = h]
  by (auto simp: prioritize_def Let_def endpoint_up_def[abs_def] split: prod.splits)

text \<open>The order of the attempts: the endpoints that are up come first, in the order of the
  plan, then (if they may be used at all) the suspended ones, and only then the list is cut
  to the attempt limit, so a suspended endpoint never takes the place of a healthy one.\<close>

theorem prioritize_healthy_first:
  "fst (prioritize cfg now ro h) = take (max (ro_attempt_cap ro) 1)
     (filter (endpoint_up now ro h) [0..<length (ro_attempts ro)]
      @ (if cf_allow_suspended_as_last_resort cfg
         then filter (\<lambda>i. \<not> endpoint_up now ro h i) [0..<length (ro_attempts ro)] else []))"
  by (rule prioritize_eq)

lemma prioritize_indices:
  "distinct (fst (prioritize cfg now ro h))"
  "set (fst (prioritize cfg now ro h)) \<subseteq> {..<length (ro_attempts ro)}"
proof -
  let ?order = "filter (endpoint_up now ro h) [0..<length (ro_attempts ro)]
      @ (if cf_allow_suspended_as_last_resort cfg
         then filter (\<lambda>i. \<not> endpoint_up now ro h i) [0..<length (ro_attempts ro)] else [])"
  have "distinct ?order" by (cases "cf_allow_suspended_as_last_resort cfg") auto
  then show "distinct (fst (prioritize cfg now ro h))" unfolding prioritize_eq by (rule distinct_take)
  have "set ?order \<subseteq> {..<length (ro_attempts ro)}" by auto
  then show "set (fst (prioritize cfg now ro h)) \<subseteq> {..<length (ro_attempts ro)}"
    unfolding prioritize_eq by (rule subset_trans[OF set_take_subset])
qed

end
