(* ===== verification/Failover.thy ===== *)
theory Failover
  imports Executor
begin

section \<open>Failover: what the executions of the router guarantee\<close>

text \<open>
  The laws of \<open>attempt_loop\<close> (an induction rule over its turns, its bounds on calls, who answers),
  the contract \<open>candidate_runner\<close> between the loop over the candidates and the run of one of
  them, its interpretations on the three runs of the code, and the properties of the whole
  executions: bounded calls, attribution, failover and the use of the keys.
\<close>

subsection \<open>What the loop over one candidate can do\<close>

lemma counts_kept [simp]:
  "xs_calls (bump_attempts st) = xs_calls st" "xs_world (bump_attempts st) = xs_world st"
  "xs_health (bump_attempts st) = xs_health st" "xs_events (bump_attempts st) = xs_events st"
  "xs_calls (emit ev st) = xs_calls st" "xs_world (emit ev st) = xs_world st"
  "xs_calls (exec_record_success env c latency st) = xs_calls st"
  "xs_world (exec_record_success env c latency st) = xs_world st"
  "xs_calls (exec_record_failure env c e st) = xs_calls st"
  "xs_world (exec_record_failure env c e st) = xs_world st"
  by (simp_all add: bump_attempts_def emit_def exec_record_success_def exec_record_failure_def Let_def
      case_prod_beta split: sum.split)

lemma accept_state_kept [simp]:
  "xs_calls (accept_state env noted c latency st) = xs_calls st"
  "xs_world (accept_state env noted c latency st) = xs_world st"
  by (simp_all add: accept_state_def)

lemma over_budget_bump [simp]: "over_budget ro (bump_attempts st) = over_budget ro st"
  by (simp add: over_budget_def)

text \<open>One turn: the state after the call, and the rule that follows the loop turn by turn.\<close>

definition after_call :: "('w \<Rightarrow> 'b \<times> 'w) \<Rightarrow> 'w exec_state \<Rightarrow> 'w exec_state" where
  "after_call ask st = st\<lparr>xs_world := snd (ask (xs_world st)), xs_calls := xs_calls st + 1\<rparr>"

lemma after_call_calls [simp]: "xs_calls (after_call ask st) = Suc (xs_calls st)"
  by (simp add: after_call_def)

lemma attempt_loop_rule [case_names Budget Retry Accept Reject Rotate Move Final Give_Up]:
  fixes env :: "'w exec_env" and call :: "credential \<Rightarrow> 'w \<Rightarrow> (duration option \<times> 'p verdict) \<times> 'w"
    and P :: "nat \<Rightarrow> key_rotator \<Rightarrow> 'w exec_state \<Rightarrow> 'p step_result \<times> 'w exec_state \<Rightarrow> bool"
  defines "ans \<equiv> \<lambda>rot st. fst (call (current_key rot) (xs_world st))"
    and "next_st \<equiv> \<lambda>rot st. after_call (call (current_key rot)) st"
  assumes "\<And>retries rot st. over_budget ro st \<Longrightarrow> P retries rot st (Return (Inl ge_budget_exhausted), st)"
    and "\<And>retries rot st d r. \<not> over_budget ro st \<Longrightarrow> fst (ans rot st) = Some d \<Longrightarrow>
       should_retry_empty pol d retries \<Longrightarrow> P (Suc retries) rot (bump_attempts (next_st rot st)) r \<Longrightarrow>
       P retries rot st r"
    and "\<And>retries rot st p latency. \<not> over_budget ro st \<Longrightarrow> snd (ans rot st) = Accept p \<Longrightarrow>
       P retries rot st
         (let st2 = accept_state env noted c latency (next_st rot st)
          in (Return (Inr (outcome c ro (xs_attempts st2) latency (Some (key_hint rot)) p)),
              st2\<lparr>xs_keys := commit_key rot (xs_keys st2)\<rparr>))"
    and "\<And>retries rot st e a. \<not> over_budget ro st \<Longrightarrow> snd (ans rot st) = Reject e \<Longrightarrow>
       P retries rot st (Return (Inl a), exec_record_failure env c a (next_st rot st))"
    and "\<And>retries rot st e rot1 r. \<not> over_budget ro st \<Longrightarrow> snd (ans rot st) = Fail_With e \<Longrightarrow>
       rotate_key (ge_kind e) rot = (True, rot1) \<Longrightarrow> P retries rot1 (bump_attempts (next_st rot st)) r \<Longrightarrow>
       P retries rot st r"
    and "\<And>retries rot st e a rot1 st2. \<not> over_budget ro st \<Longrightarrow> snd (ans rot st) = Fail_With e \<Longrightarrow>
       on_failure env c rot e (next_st rot st) = (Inr (Move_On a), rot1, st2) \<Longrightarrow>
       P retries rot st (Continue_With a, st2)"
    and "\<And>retries rot st e a rot1 st2. \<not> over_budget ro st \<Longrightarrow> snd (ans rot st) = Fail_With e \<Longrightarrow>
       on_failure env c rot e (next_st rot st) = (Inl a, rot1, st2) \<Longrightarrow>
       P retries rot st (Return (Inl a), st2)"
    and "\<And>retries rot st e. \<not> over_budget ro st \<Longrightarrow> snd (ans rot st) = Give_Up e \<Longrightarrow>
       P retries rot st (Continue_With e, next_st rot st)"
  shows "P retries rot st (attempt_loop env noted ro c pol call retries rot st)"
proof (induction "(er_max_retries pol - retries) + (pool_len (kr_pool rot) - kr_tried rot)"
    arbitrary: retries rot st rule: less_induct)
  case less
  obtain empty v w where c: "call (current_key rot) (xs_world st) = ((empty, v), w)" by (metis surj_pair)
  let ?st1 = "st\<lparr>xs_world := w, xs_calls := xs_calls st + 1\<rparr>"
  have st1: "next_st rot st = ?st1" by (simp add: next_st_def after_call_def c)
  have ans: "ans rot st = (empty, v)" by (simp add: ans_def c)
  let ?latency = "elapsed_ms env (xs_world st) w"
  let ?retry = "case empty of Some d \<Rightarrow> should_retry_empty pol d retries | None \<Rightarrow> False"
  have step: "attempt_loop env noted ro c pol call retries rot st =
     (if ?retry then attempt_loop env noted ro c pol call (Suc retries) rot (bump_attempts ?st1)
      else case v of
        Accept p \<Rightarrow>
          let st2 = accept_state env noted c ?latency ?st1
          in (Return (Inr (outcome c ro (xs_attempts st2) ?latency (Some (key_hint rot)) p)),
              st2\<lparr>xs_keys := commit_key rot (xs_keys st2)\<rparr>)
      | Reject e \<Rightarrow>
          let a = annotate_candidate_error c (xs_attempts ?st1) e
          in (Return (Inl a), exec_record_failure env c a ?st1)
      | Give_Up e \<Rightarrow> (Continue_With e, ?st1)
      | Fail_With e \<Rightarrow>
          (case on_failure env c rot e ?st1 of
             (Inr Rotate_Key, rot1, st2) \<Rightarrow>
               attempt_loop env noted ro c pol call retries rot1 (bump_attempts st2)
           | (Inr (Move_On a), _, st2) \<Rightarrow> (Continue_With a, st2)
           | (Inl a, _, st2) \<Rightarrow> (Return (Inl a), st2)))"
    if "\<not> over_budget ro st"
    by (subst attempt_loop.simps) (simp only: c Let_def prod.case that if_False)
  show ?case
  proof (cases "over_budget ro st")
    case True
    then show ?thesis using assms(3) by (subst attempt_loop.simps) simp
  next
    case budget: False
    show ?thesis
    proof (cases ?retry)
      case True
      then obtain d where d: "empty = Some d" "should_retry_empty pol d retries" by (cases empty) auto
      then have "er_max_retries pol - Suc retries < er_max_retries pol - retries"
        by (auto simp: should_retry_empty_def)
      then have "P (Suc retries) rot (bump_attempts ?st1)
          (attempt_loop env noted ro c pol call (Suc retries) rot (bump_attempts ?st1))"
        by (intro less) simp
      then show ?thesis
        using assms(4)[OF budget, where rot = rot and d = d and retries = retries] d True
        by (simp add: step[OF budget] ans st1)
    next
      case no_retry: False
      show ?thesis
      proof (cases v)
        case (Accept p)
        then show ?thesis using assms(5)[OF budget, where rot = rot and p = p and retries = retries and latency = ?latency]
          by (simp add: step[OF budget] no_retry ans st1)
      next
        case (Reject e)
        then show ?thesis using assms(6)[OF budget, where rot = rot and e = e and retries = retries]
          by (simp add: step[OF budget] no_retry ans st1 Let_def)
      next
        case (Give_Up e)
        then show ?thesis using assms(10)[OF budget, where rot = rot and e = e and retries = retries]
          by (simp add: step[OF budget] no_retry ans st1)
      next
        case (Fail_With e)
        obtain r rot1 st2 where f: "on_failure env c rot e ?st1 = (r, rot1, st2)" by (metis surj_pair)
        have v: "snd (ans rot st) = Fail_With e" by (simp add: ans Fail_With)
        show ?thesis
        proof (cases r)
          case (Inl a)
          then show ?thesis using assms(9)[OF budget v, of a rot1 st2] f
            by (simp add: step[OF budget] no_retry Fail_With st1)
        next
          case (Inr a)
          show ?thesis
          proof (cases a)
            case (Move_On b)
            then show ?thesis using assms(8)[OF budget v, of b rot1 st2] f Inr
              by (simp add: step[OF budget] no_retry Fail_With st1)
          next
            case Rotate_Key
            then have f': "on_failure env c rot e ?st1 = (Inr Rotate_Key, rot1, st2)" using f Inr by simp
            have rot: "rotate_key (ge_kind e) rot = (True, rot1)" "st2 = ?st1"
              using on_failure_rotate[OF f'] by simp_all
            have "P retries rot1 (bump_attempts ?st1) (attempt_loop env noted ro c pol call retries rot1 (bump_attempts ?st1))"
              using on_failure_decreases[OF f'[symmetric]] by (intro less) simp
            then show ?thesis using assms(7)[OF budget v rot(1)] f' rot(2)
              by (simp add: step[OF budget] no_retry Fail_With st1)
          qed
        qed
      qed
    qed
  qed
qed

lemma on_failure_counts:
  "xs_calls (snd (snd (on_failure env c rot e st))) = xs_calls st"
  "xs_world (snd (snd (on_failure env c rot e st))) = xs_world st"
  by (auto simp: on_failure_def handle_failure_def Let_def split: prod.split bool.split)

lemma attempt_loop_calls:
  "xs_calls (snd (attempt_loop env noted ro c pol call retries rot st)) \<le>
     xs_calls st + Suc ((er_max_retries pol - retries) + (pool_len (kr_pool rot) - kr_tried rot))"
  by (rule attempt_loop_rule[where P = "\<lambda>retries rot st r. xs_calls (snd r) \<le>
        xs_calls st + Suc ((er_max_retries pol - retries) + (pool_len (kr_pool rot) - kr_tried rot))"])
     (auto simp: Let_def should_retry_empty_def dest: rotate_key_tried,
      (metis on_failure_counts(1) snd_conv after_call_calls add_Suc_right le_add1 Suc_le_mono)+)

lemma attempt_loop_budget:
  assumes "0 < ro_max_upstream_calls ro" and "xs_calls st \<le> ro_max_upstream_calls ro"
  shows "xs_calls (snd (attempt_loop env noted ro c pol call retries rot st)) \<le> ro_max_upstream_calls ro"
proof -
  have under: "\<not> over_budget ro st \<longleftrightarrow> xs_calls st < ro_max_upstream_calls ro" for st :: "'a exec_state"
    using assms(1) by (auto simp: over_budget_def)
  have fails: "on_failure env c rot e (after_call ask st) = (r, rot1, st2) \<Longrightarrow> xs_calls st2 = Suc (xs_calls st)"
    for rot e ask st r rot1 st2
    using on_failure_counts(1)[where env = env and c = c and rot = rot and e = e and st = "after_call ask st"] by simp
  show ?thesis
    by (rule attempt_loop_rule[where P = "\<lambda>retries rot st r. xs_calls st \<le> ro_max_upstream_calls ro \<longrightarrow>
          xs_calls (snd r) \<le> ro_max_upstream_calls ro", THEN mp, OF _ _ _ _ _ _ _ _ assms(2)])
       (auto simp: Let_def under dest: fails)
qed

lemma attempt_loop_calls_grow: "xs_calls st \<le> xs_calls (snd (attempt_loop env noted ro c pol call retries rot st))"
  by (rule attempt_loop_rule[where P = "\<lambda>retries rot st r. xs_calls st \<le> xs_calls (snd r)"])
     (auto simp: Let_def, (metis on_failure_counts(1) snd_conv after_call_calls le_SucI order_refl)+)

text \<open>What an outcome says about the candidate that answered.\<close>

definition answered_by :: "route \<Rightarrow> candidate \<Rightarrow> 'p route_outcome \<Rightarrow> bool" where
  "answered_by ro c out \<longleftrightarrow> oc_channel_id out = ca_id c \<and> oc_channel_name out = ch_name (ca_channel c)
     \<and> oc_upstream_protocol out = ca_protocol c \<and> oc_upstream_model out = ca_upstream_model c
     \<and> oc_transcoded out = needs_transcode c (ro_inbound ro)
     \<and> (\<exists>k \<in> set (pool_keys (key_pool (ca_channel c) (ca_endpoint c))). oc_credential_hint out = Some (masked k))"

lemma attempt_loop_answer:
  assumes "attempt_loop env noted ro c pol call retries rot st = (Return (Inr out), st')"
    and "kr_pool rot = key_pool (ca_channel c) (ca_endpoint c)"
  shows "answered_by ro c out \<and> xs_calls st < xs_calls st'"
proof -
  let ?P = "\<lambda>(retries :: nat) rot st r. kr_pool rot = key_pool (ca_channel c) (ca_endpoint c) \<longrightarrow>
     (\<forall>out. fst r = Return (Inr out) \<longrightarrow> answered_by ro c out \<and> xs_calls st < xs_calls (snd r))"
  have "?P retries rot st (attempt_loop env noted ro c pol call retries rot st)"
    by (rule attempt_loop_rule[where P = ?P])
       (auto simp: Let_def answered_by_def outcome_def key_hint_def current_key_def dest!: rotate_key_tried
         intro!: bexI[OF refl key_at_mem] dest: Suc_lessD)
  then show ?thesis using assms by simp
qed

lemma attempt_loop_no_skip: "fst (attempt_loop env noted ro c pol call retries rot st) \<noteq> Skip"
  by (rule attempt_loop_rule[where P = "\<lambda>retries rot st r. fst r \<noteq> Skip"]) (simp_all add: Let_def)

subsection \<open>What the executions rely on of one candidate's run\<close>

text \<open>
  The contract between the loop over the candidates and the run of one of them: a bound on
  its calls, the budget of the request, and who it says has answered.
\<close>

locale candidate_runner =
  fixes ro :: route
    and run :: "candidate \<Rightarrow> 'w exec_state \<Rightarrow> 'p step_result \<times> 'w exec_state"
    and turns :: "candidate \<Rightarrow> nat"
  assumes calls_grow: "xs_calls st \<le> xs_calls (snd (run c st))"
    and at_most_turns: "xs_calls (snd (run c st)) \<le> xs_calls st + turns c"
    and in_budget: "0 < ro_max_upstream_calls ro \<Longrightarrow> xs_calls st \<le> ro_max_upstream_calls ro \<Longrightarrow>
      xs_calls (snd (run c st)) \<le> ro_max_upstream_calls ro"
    and answer: "run c st = (Return (Inr out), st') \<Longrightarrow> answered_by ro c out \<and> xs_calls st < xs_calls st'"
begin

lemma tries_calls:
  "xs_calls (snd (try_candidates run cs e st)) \<le> xs_calls st + sum_list (map turns cs)"
proof (induction cs arbitrary: e st)
  case (Cons c cs)
  have "xs_calls (snd (run c st)) \<le> xs_calls st + turns c" by (rule at_most_turns)
  moreover have "xs_calls (snd (try_candidates run cs e' st1)) \<le> xs_calls st1 + sum_list (map turns cs)" for e' st1
    by (rule Cons.IH)
  ultimately show ?case
    by (cases "run c st"; cases "fst (run c st)") (fastforce intro: order_trans)+
qed simp

lemma tries_in_budget:
  assumes "0 < ro_max_upstream_calls ro"
  shows "xs_calls st \<le> ro_max_upstream_calls ro \<Longrightarrow>
    xs_calls (snd (try_candidates run cs e st)) \<le> ro_max_upstream_calls ro"
proof (induction cs arbitrary: e st)
  case (Cons c cs)
  have "xs_calls (snd (run c st)) \<le> ro_max_upstream_calls ro" by (rule in_budget[OF assms Cons.prems])
  then show ?case using Cons.IH by (cases "run c st"; cases "fst (run c st)") auto
qed simp

lemma tries_answer:
  "try_candidates run cs e st = (Inr out, st') \<Longrightarrow>
   (\<exists>c \<in> set cs. answered_by ro c out) \<and> xs_calls st < xs_calls st'"
proof (induction cs arbitrary: e st)
  case (Cons c cs)
  obtain r st1 where r: "run c st = (r, st1)" by fastforce
  have "xs_calls st \<le> xs_calls st1" using calls_grow[of st c] r by simp
  then show ?case using Cons answer[of c st out st'] r by (cases r) (auto dest: order_le_less_trans)
qed simp

text \<open>Failover: when the runs before it give up and its own answers, a candidate serves the request.\<close>

lemma tries_reach:
  assumes "\<And>p st. p \<in> set pre \<Longrightarrow> (ro_max_upstream_calls ro = 0 \<or> xs_calls st + turns p \<le> ro_max_upstream_calls ro)
      \<Longrightarrow> \<exists>e. fst (run p st) = Continue_With e"
    and "\<And>st. (ro_max_upstream_calls ro = 0 \<or> xs_calls st + turns c \<le> ro_max_upstream_calls ro)
      \<Longrightarrow> \<exists>out. fst (run c st) = Return (Inr out)"
  shows "ro_max_upstream_calls ro = 0
      \<or> xs_calls st + sum_list (map turns (pre @ [c])) \<le> ro_max_upstream_calls ro \<Longrightarrow>
    \<exists>out. fst (try_candidates run (pre @ c # post) e st) = Inr out \<and> answered_by ro c out"
  using assms(1)
proof (induction pre arbitrary: e st)
  case Nil
  then obtain out where "fst (run c st) = Return (Inr out)" using assms(2)[of st] by auto
  then show ?case using answer[of c st out] by (cases "run c st") auto
next
  case (Cons p pre)
  from Cons.prems(1) have room: "ro_max_upstream_calls ro = 0 \<or> xs_calls st + turns p \<le> ro_max_upstream_calls ro"
    by auto
  obtain e' st1 where r: "run p st = (Continue_With e', st1)"
    using Cons.prems(2)[of p st] room by (cases "run p st") auto
  have "xs_calls st1 \<le> xs_calls st + turns p" using at_most_turns[of p st] r by simp
  then have "ro_max_upstream_calls ro = 0
      \<or> xs_calls st1 + sum_list (map turns (pre @ [c])) \<le> ro_max_upstream_calls ro"
    using Cons.prems(1) by auto
  then show ?case using Cons.IH[of st1 e'] Cons.prems(2) r by simp
qed

end

text \<open>The same, of a whole execution.\<close>

definition route_order :: "'w exec_env \<Rightarrow> router_config \<Rightarrow> route \<Rightarrow> 'w exec_state \<Rightarrow> candidate list" where
  "route_order env cfg ro st =
     map (\<lambda>i. ro_attempts ro ! i) (fst (prioritize cfg (ee_now env (xs_world st)) ro (xs_health st)))"

lemma run_route_tries:
  "\<exists>h. run_route env cfg ro f st = try_candidates f (route_order env cfg ro st) (no_candidates ro)
     (st\<lparr>xs_health := h, xs_attempts := 0, xs_calls := 0\<rparr>)"
  by (auto simp: run_route_def route_order_def Let_def split: prod.split)

lemma route_order_subset: "set (route_order env cfg ro st) \<subseteq> set (ro_attempts ro)"
  using prioritize_indices(2) by (fastforce simp: route_order_def)

context candidate_runner begin

lemma route_calls:
  "xs_calls (snd (run_route env cfg ro run st)) \<le> sum_list (map turns (route_order env cfg ro st))"
proof -
  obtain h where "run_route env cfg ro run st = try_candidates run (route_order env cfg ro st) (no_candidates ro)
      (st\<lparr>xs_health := h, xs_attempts := 0, xs_calls := 0\<rparr>)"
    using run_route_tries by blast
  then show ?thesis
    using tries_calls[of "route_order env cfg ro st" "no_candidates ro" "st\<lparr>xs_health := h, xs_attempts := 0, xs_calls := 0\<rparr>"]
    by simp
qed

lemma route_in_budget:
  "0 < ro_max_upstream_calls ro \<Longrightarrow> xs_calls (snd (run_route env cfg ro run st)) \<le> ro_max_upstream_calls ro"
  using run_route_tries[of env cfg ro run st] by (auto simp: tries_in_budget)

lemma route_answer:
  assumes "run_route env cfg ro run st = (Inr out, st')"
  shows "(\<exists>c \<in> set (ro_attempts ro). answered_by ro c out) \<and> 0 < xs_calls st'"
  using run_route_tries[of env cfg ro run st] assms tries_answer route_order_subset[of env cfg ro st]
  by fastforce

end

subsection \<open>The runs of the code\<close>

lemma start_rotator_props:
  assumes "start_rotator env ro c st = (rot, st1)"
  shows "kr_pool rot = key_pool (ca_channel c) (ca_endpoint c)" "kr_tried rot = 1" "\<not> kr_exhausted rot"
    "xs_calls st1 = xs_calls st" "xs_health st1 = xs_health st" "xs_events st1 = xs_events st"
    "xs_attempts st1 = xs_attempts st"
  using assms by (auto simp: start_rotator_def start_def Let_def split: prod.splits)

lemma over_budget_calls: "xs_calls a = xs_calls b \<Longrightarrow> over_budget ro a = over_budget ro b"
  by (simp add: over_budget_def)

text \<open>A run is the loop with a fresh rotator, or it ends before its first call.\<close>

definition run_result :: "'w exec_env \<Rightarrow> route \<Rightarrow> candidate \<Rightarrow> empty_retry_policy \<Rightarrow> 'w exec_state
    \<Rightarrow> 'p step_result \<times> 'w exec_state \<Rightarrow> bool" where
  "run_result env ro c pol st res \<longleftrightarrow>
     (xs_calls (snd res) = xs_calls st \<and> (\<forall>out. fst res \<noteq> Return (Inr out)))
   \<or> (\<exists>noted rot st1 call. res = attempt_loop env noted ro c pol call 0 rot st1 \<and> xs_calls st1 = xs_calls st
        \<and> kr_pool rot = key_pool (ca_channel c) (ca_endpoint c) \<and> kr_tried rot = 1)"

lemma run_result_early:
  "xs_calls st1 = xs_calls st \<Longrightarrow> \<forall>out. r \<noteq> Return (Inr out) \<Longrightarrow> run_result env ro c pol st (r, st1)"
  by (simp add: run_result_def)

lemma run_result_loop:
  assumes "start_rotator env ro c st0 = (rot, st1)" and "xs_calls st0 = xs_calls st" and "xs_calls st2 = xs_calls st1"
  shows "run_result env ro c pol st (attempt_loop env noted ro c pol call 0 rot st2)"
  unfolding run_result_def using assms start_rotator_props[OF assms(1)]
  by (intro disjI2 exI[of _ noted] exI[of _ rot] exI[of _ st2] exI[of _ call]) simp

lemma run_result_laws:
  assumes "run_result env ro c pol st res"
  shows "xs_calls st \<le> xs_calls (snd res)"
    and "xs_calls (snd res) \<le> xs_calls st +
           (er_max_retries pol + pool_len (key_pool (ca_channel c) (ca_endpoint c)))"
    and "0 < ro_max_upstream_calls ro \<Longrightarrow> xs_calls st \<le> ro_max_upstream_calls ro \<Longrightarrow>
           xs_calls (snd res) \<le> ro_max_upstream_calls ro"
    and "res = (Return (Inr out), st') \<Longrightarrow> answered_by ro c out \<and> xs_calls st < xs_calls st'"
proof -
  consider "xs_calls (snd res) = xs_calls st" "\<forall>out. fst res \<noteq> Return (Inr out)"
    | noted rot st1 call where "res = attempt_loop env noted ro c pol call 0 rot st1" "xs_calls st1 = xs_calls st"
        "kr_pool rot = key_pool (ca_channel c) (ca_endpoint c)" "kr_tried rot = 1"
    using assms unfolding run_result_def by blast
  note cases = this
  have len: "1 \<le> pool_len p" for p by (cases p) auto
  show "xs_calls st \<le> xs_calls (snd res)"
  proof (cases rule: cases)
    case 2
    then show ?thesis using attempt_loop_calls_grow by metis
  qed simp
  show "xs_calls (snd res) \<le> xs_calls st +
      (er_max_retries pol + pool_len (key_pool (ca_channel c) (ca_endpoint c)))"
  proof (cases rule: cases)
    case (2 noted rot st1 call)
    then show ?thesis
      using attempt_loop_calls[where env = env and ro = ro and c = c and pol = pol and call = call
          and retries = 0 and rot = rot and st = st1] len[of "kr_pool rot"] by simp
  qed simp
  show "xs_calls (snd res) \<le> ro_max_upstream_calls ro"
    if "0 < ro_max_upstream_calls ro" and "xs_calls st \<le> ro_max_upstream_calls ro"
    using cases that by cases (auto intro: attempt_loop_budget)
  show "answered_by ro c out \<and> xs_calls st < xs_calls st'" if "res = (Return (Inr out), st')"
    using cases that by cases (auto dest: attempt_loop_answer)
qed

lemma normalized_result:
  "run_result env ro c (empty_response_retry_for cfg c) st (candidate_normalized env cfg ro ir c st)"
  by (auto simp: candidate_normalized_def Let_def split: sum.split prod.split
      intro: run_result_early run_result_loop)

lemma transcoded_result:
  "run_result env ro c (empty_response_retry_for cfg c) st (candidate_transcoded env cfg ro ib c st)"
  by (auto simp: candidate_transcoded_def Let_def split: sum.split prod.split
      intro: run_result_early run_result_loop)

lemma native_result:
  "run_result env ro c (empty_response_retry_for cfg c) st (candidate_native env cfg ro ib c st)"
  by (auto simp: candidate_native_def Let_def split: sum.split prod.split
      intro: run_result_early run_result_loop)

lemma passthrough_result:
  "run_result env ro c never_empty st (candidate_passthrough env ro act raw hdrs content_type c st)"
  by (auto simp: candidate_passthrough_def Let_def split: sum.split prod.split
      intro: run_result_early run_result_loop)

text \<open>The turns one candidate may take: its retries for empty answers and its keys.\<close>

definition candidate_turns :: "router_config \<Rightarrow> candidate \<Rightarrow> nat" where
  "candidate_turns cfg c = er_max_retries (empty_response_retry_for cfg c)
     + pool_len (key_pool (ca_channel c) (ca_endpoint c))"

definition candidate_keys :: "candidate \<Rightarrow> nat" where
  "candidate_keys c = pool_len (key_pool (ca_channel c) (ca_endpoint c))"

lemma execute_raw: "execute env cfg ro (Raw ib) st = run_route env cfg ro (candidate_raw env cfg ro ib) st"
  by (simp add: execute_def)

lemma raw_result: "run_result env ro c (empty_response_retry_for cfg c) st (candidate_raw env cfg ro ib c st)"
  by (simp add: candidate_raw_def transcoded_result native_result)

interpretation normalized_run: candidate_runner ro "candidate_normalized env cfg ro ir" "candidate_turns cfg"
  for ro env cfg ir
  by unfold_locales (unfold candidate_turns_def, (rule run_result_laws[OF normalized_result]; assumption?)+)

interpretation raw_run: candidate_runner ro "candidate_raw env cfg ro ib" "candidate_turns cfg"
  for ro env cfg ib
  by unfold_locales (unfold candidate_turns_def, (rule run_result_laws[OF raw_result]; assumption?)+)

interpretation passthrough_run: candidate_runner ro "candidate_passthrough env ro act raw hdrs content_type" candidate_keys
  for ro env act raw hdrs content_type
  using run_result_laws[OF passthrough_result]
  by unfold_locales (simp_all add: candidate_keys_def never_empty_def)

subsection \<open>Calls and answers of an execution\<close>

text \<open>\<open>C6\<close>. A request is bounded in its upstream calls: whatever the upstreams answer, its
  execution ends, with at most one call per retry for an empty answer and per key of the
  candidates it may try, and never with more than the budget of its route.\<close>

theorem execute_calls_bounded:
  "xs_calls (snd (execute env cfg ro payload st)) \<le>
     (let turns = sum_list (map (candidate_turns cfg) (route_order env cfg ro st))
      in if ro_max_upstream_calls ro = 0 then turns else min turns (ro_max_upstream_calls ro))"
proof (cases payload)
  case (Normalized ir)
  then show ?thesis
    by (simp add: normalized_run.route_calls normalized_run.route_in_budget execute_def execute_normalized_def Let_def)
next
  case (Raw ib)
  then show ?thesis
    by (simp add: raw_run.route_calls raw_run.route_in_budget execute_raw Let_def)
qed

text \<open>Pass-through requests keep the same bounds with one call per key: they are never
  repeated because of an empty answer.\<close>

theorem passthrough_calls_bounded:
  "xs_calls (snd (execute_passthrough env cfg ro act raw hdrs content_type st)) \<le>
     (let turns = sum_list (map candidate_keys (route_order env cfg ro st))
      in if ro_max_upstream_calls ro = 0 then turns else min turns (ro_max_upstream_calls ro))"
  by (simp add: passthrough_run.route_calls passthrough_run.route_in_budget execute_passthrough_def Let_def)

text \<open>\<open>C8\<close>. A success is attributed truthfully: the outcome names the channel, the protocol and
  the model of one of the route's candidates, says whether it had to transcode, shows only a
  masked key of that candidate's pool, and at least one upstream call was made.\<close>

theorem execute_success_attributed:
  "case execute env cfg ro payload st of
     (Inr out, st') \<Rightarrow> (\<exists>c \<in> set (ro_attempts ro). answered_by ro c out) \<and> 0 < xs_calls st'
   | (Inl _, _) \<Rightarrow> True"
proof (cases payload)
  case (Normalized ir)
  then show ?thesis
    by (auto dest!: normalized_run.route_answer simp: execute_def execute_normalized_def split: prod.split sum.split)
next
  case (Raw ib)
  then show ?thesis
    by (auto dest!: raw_run.route_answer simp: execute_raw split: prod.split sum.split)
qed

subsection \<open>Failover\<close>

lemma on_failure_moves_on:
  "ge_retryable e \<Longrightarrow> on_failure env c rot e st \<noteq> (Inl a, rot1, st2)"
  by (auto simp: on_failure_def handle_failure_def Let_def ge_retryable_def exhausted_error_def
      annotate_candidate_error_def split: prod.splits bool.splits)

lemma attempt_loop_moves_on:
  assumes fails: "\<And>key w. \<exists>e. snd (fst (call key w)) = Fail_With e \<and> ge_retryable e"
    and room: "ro_max_upstream_calls ro = 0 \<or> xs_calls st + Suc ((er_max_retries pol - retries)
      + (pool_len (kr_pool rot) - kr_tried rot)) \<le> ro_max_upstream_calls ro"
  shows "\<exists>a. fst (attempt_loop env noted ro c pol call retries rot st) = Continue_With a"
proof -
  have verdict: "snd (fst (call key w)) = Fail_With e \<Longrightarrow> ge_retryable e"
    "snd (fst (call key w)) \<noteq> Accept p" "snd (fst (call key w)) \<noteq> Reject e"
    "snd (fst (call key w)) \<noteq> Give_Up e" for key w e p
    using fails[of key w] by auto
  show ?thesis
    by (rule attempt_loop_rule[where P = "\<lambda>retries rot st r. ro_max_upstream_calls ro = 0 \<or>
          xs_calls st + Suc ((er_max_retries pol - retries) + (pool_len (kr_pool rot) - kr_tried rot))
            \<le> ro_max_upstream_calls ro \<longrightarrow> (\<exists>a. fst r = Continue_With a)", THEN mp, OF _ _ _ _ _ _ _ _ room])
       (auto simp: verdict over_budget_def should_retry_empty_def dest: rotate_key_tried verdict(1) on_failure_moves_on)
qed

lemma attempt_loop_answers:
  assumes serves: "\<And>key w. \<exists>p. snd (fst (call key w)) = Accept p"
    and room: "ro_max_upstream_calls ro = 0 \<or> xs_calls st + Suc ((er_max_retries pol - retries)
      + (pool_len (kr_pool rot) - kr_tried rot)) \<le> ro_max_upstream_calls ro"
  shows "\<exists>out. fst (attempt_loop env noted ro c pol call retries rot st) = Return (Inr out)"
proof -
  have verdict: "snd (fst (call key w)) \<noteq> Fail_With e" "snd (fst (call key w)) \<noteq> Reject e"
    "snd (fst (call key w)) \<noteq> Give_Up e" for key w e
    using serves[of key w] by auto
  show ?thesis
    by (rule attempt_loop_rule[where P = "\<lambda>retries rot st r. ro_max_upstream_calls ro = 0 \<or>
          xs_calls st + Suc ((er_max_retries pol - retries) + (pool_len (kr_pool rot) - kr_tried rot))
            \<le> ro_max_upstream_calls ro \<longrightarrow> (\<exists>out. fst r = Return (Inr out))", THEN mp, OF _ _ _ _ _ _ _ _ room])
       (auto simp: verdict over_budget_def should_retry_empty_def Let_def)
qed

text \<open>The requests the raw execution addresses to a candidate, and what becomes of the answers.\<close>

definition addressed_to :: "candidate \<Rightarrow> upstream_request \<Rightarrow> bool" where
  "addressed_to c rq \<longleftrightarrow> rq_protocol rq = ca_protocol c \<and> rq_address rq = ca_address c
     \<and> rq_model rq = ca_upstream_model c"

definition native_verdict ::
  "'w exec_env \<Rightarrow> router_config \<Rightarrow> candidate \<Rightarrow> upstream_request \<Rightarrow> 'w \<Rightarrow> routed_response verdict"
where
  "native_verdict env cfg c rq w =
     snd (read_raw (ee_lib env) (empty_response_retry_for cfg c) (ca_protocol c) (fst (ee_send_raw env rq w)))"

definition endpoint_serves :: "'w exec_env \<Rightarrow> router_config \<Rightarrow> candidate \<Rightarrow> bool" where
  "endpoint_serves env cfg c \<longleftrightarrow> (\<forall>rq w. addressed_to c rq \<longrightarrow> (\<exists>p. native_verdict env cfg c rq w = Accept p))"

definition endpoint_fails :: "'w exec_env \<Rightarrow> router_config \<Rightarrow> candidate \<Rightarrow> bool" where
  "endpoint_fails env cfg c \<longleftrightarrow>
     (\<forall>rq w. addressed_to c rq \<longrightarrow> (\<exists>e. native_verdict env cfg c rq w = Fail_With e \<and> ge_retryable e))"

text \<open>A native candidate whose body can be prepared; a transcoding one that cannot be served.\<close>

definition body_ready :: "'w exec_env \<Rightarrow> route \<Rightarrow> inbound_raw \<Rightarrow> candidate \<Rightarrow> bool" where
  "body_ready env ro ib c \<longleftrightarrow> \<not> needs_transcode c (ro_inbound ro)
     \<and> (case prepare_native_body (ee_lib env) c ro (ib_body ib) of Inr _ \<Rightarrow> True | Inl _ \<Rightarrow> False)"

definition cannot_transcode :: "'w exec_env \<Rightarrow> route \<Rightarrow> inbound_raw \<Rightarrow> candidate \<Rightarrow> bool" where
  "cannot_transcode env ro ib c \<longleftrightarrow> needs_transcode c (ro_inbound ro)
     \<and> (case decode_raw_request (ee_lib env) (ib_protocol ib) (ib_body ib) (ib_model ib) (ib_stream ib) of
          Inl _ \<Rightarrow> True
        | Inr ir \<Rightarrow> (case encode_for (ee_lib env) c ir of Inl _ \<Rightarrow> True | Inr _ \<Rightarrow> False))"

lemma candidate_request_addressed:
  "addressed_to c ((candidate_request c act body key)\<lparr>rq_extra_headers := hs\<rparr>)"
  by (cases body) (simp_all add: addressed_to_def candidate_request_def to_request_def post_request_def post_raw_request_def)

lemma raw_run_loop:
  assumes "body_ready env ro ib c"
  obtains call rot st1 where
    "candidate_raw env cfg ro ib c st = attempt_loop env True ro c (empty_response_retry_for cfg c) call 0 rot st1"
    "xs_calls st1 = xs_calls st" "kr_tried rot = 1"
    "kr_pool rot = key_pool (ca_channel c) (ca_endpoint c)"
    "\<And>key w. \<exists>rq. addressed_to c rq \<and> snd (fst (call key w)) = native_verdict env cfg c rq w"
proof -
  obtain body where b: "prepare_native_body (ee_lib env) c ro (ib_body ib) = Inr body"
    using assms by (auto simp: body_ready_def split: sum.splits)
  obtain rot st1 where s: "start_rotator env ro c (bump_attempts st) = (rot, st1)" by fastforce
  define call where "call = (\<lambda>key w. let (r, w') = ee_send_raw env ((candidate_request c Generate body key)
                       \<lparr>rq_extra_headers := merged_headers (ib_headers ib) c\<rparr>) w
                     in (read_raw (ee_lib env) (empty_response_retry_for cfg c) (ca_protocol c) r, w'))"
  have run: "candidate_raw env cfg ro ib c st = attempt_loop env True ro c (empty_response_retry_for cfg c) call 0 rot st1"
    using assms by (simp add: candidate_raw_def body_ready_def candidate_native_def b s call_def Let_def)
  have asks: "\<exists>rq. addressed_to c rq \<and> snd (fst (call key w)) = native_verdict env cfg c rq w" for key w
    by (intro exI[of _ "(candidate_request c Generate body key)\<lparr>rq_extra_headers := merged_headers (ib_headers ib) c\<rparr>"])
       (simp add: candidate_request_addressed call_def native_verdict_def case_prod_beta)
  show ?thesis by (rule that[OF run _ _ _ asks]) (use start_rotator_props[OF s] in simp_all)
qed


subsection \<open>The keys of a failing candidate\<close>

text \<open>One failure is charged to the endpoint of \<open>c\<close>, at the time of the last state.\<close>

definition one_failure_charged :: "'w exec_env \<Rightarrow> candidate \<Rightarrow> gateway_error \<Rightarrow> 'w exec_state \<Rightarrow> 'w exec_state \<Rightarrow> bool" where
  "one_failure_charged env c e st st' \<longleftrightarrow> (\<exists>msg. xs_health st' = snd (record_failure (ca_id c, ca_protocol c)
     msg (ge_retry_after e) (ee_db env (xs_world st')) (ee_now env (xs_world st')) (ee_now env (xs_world st'))
     (xs_health st)))"

lemma key_failure_affects_health: "is_key_failure k \<Longrightarrow> affects_endpoint_health k"
  by (auto simp: is_key_failure_def affects_endpoint_health_def)

lemma annotated_simps [simp]:
  "ge_kind (annotate_candidate_error c n e) = ge_kind e"
  "ge_retry_after (annotate_candidate_error c n e) = ge_retry_after e"
  by (simp_all add: annotate_candidate_error_def Let_def with_channel_def with_protocol_def)

lemma exhausted_simps [simp]:
  "ge_kind (exhausted_error rot e) = ge_kind e" "ge_retry_after (exhausted_error rot e) = ge_retry_after e"
  by (simp_all add: exhausted_error_def gateway_error_new_def)

lemma failure_charged:
  assumes "is_key_failure (ge_kind e)" and "ge_retry_after a = ge_retry_after e" and "ge_kind a = ge_kind e"
  shows "one_failure_charged env c e st (exec_record_failure env c a st)"
proof -
  have "xs_health (exec_record_failure env c a st) = snd (record_failure (ca_id c, ca_protocol c)
      (error_to_string a) (ge_retry_after e) (ee_db env (xs_world st)) (ee_now env (xs_world st))
      (ee_now env (xs_world st)) (xs_health st))"
    using key_failure_affects_health[OF assms(1)] assms(2,3)
    by (auto simp: exec_record_failure_def Let_def emit_def split: prod.split sum.split)
  then show ?thesis unfolding one_failure_charged_def by auto
qed

lemma on_failure_last:
  assumes "on_failure env c rot e st = (r, rot1, st1)" and "r \<noteq> Inr Rotate_Key" and "is_key_failure (ge_kind e)"
  shows "fst (rotate_key (ge_kind e) rot) = False \<and> one_failure_charged env c e st st1 \<and> (\<exists>a. r = Inr (Move_On a))
    \<and> xs_world st1 = xs_world st"
  using assms key_failure_retryable[OF assms(3)]
  by (auto simp: on_failure_def handle_failure_def Let_def ge_retryable_def split: prod.splits bool.splits
      intro: failure_charged)

lemma charged_same_health:
  "one_failure_charged env c e a st' \<Longrightarrow> xs_health a = xs_health b \<Longrightarrow> one_failure_charged env c e b st'"
  by (simp add: one_failure_charged_def)

lemma attempt_loop_keys:
  assumes refused: "\<And>key w. call key w = ((None, Fail_With e), w @ [key])" and e: "is_key_failure (ge_kind e)"
    and "ro_max_upstream_calls ro = 0"
  shows "pool_len (kr_pool rot) < n + kr_tried rot \<Longrightarrow>
    xs_world (snd (attempt_loop env noted ro c pol call retries rot st)) =
      xs_world st @ fst (rotation (replicate n (ge_kind e)) rot)
    \<and> one_failure_charged env c e st (snd (attempt_loop env noted ro c pol call retries rot st))
    \<and> (\<exists>a. fst (attempt_loop env noted ro c pol call retries rot st) = Continue_With a)"
proof -
  let ?P = "\<lambda>(retries :: nat) rot st r. \<forall>n. pool_len (kr_pool rot) < n + kr_tried rot \<longrightarrow>
      xs_world (snd r) = xs_world st @ fst (rotation (replicate n (ge_kind e)) rot)
    \<and> one_failure_charged env c e st (snd r) \<and> (\<exists>a. fst r = Continue_With a)"
  have last: "?P retries rot st (Continue_With a, st2)"
    if "on_failure env c rot e (after_call (call (current_key rot)) st) = (Inr (Move_On a), rot1, st2)"
    for retries rot st a rot1 st2
  proof (intro allI impI)
    fix n
    have l: "fst (rotate_key (ge_kind e) rot) = False"
      "one_failure_charged env c e (after_call (call (current_key rot)) st) st2"
      "xs_world st2 = xs_world st @ [current_key rot]"
      using on_failure_last[OF that _ e] by (simp_all add: after_call_def refused)
    have "fst (rotation (replicate n (ge_kind e)) rot) = [current_key rot]"
      using l(1) by (cases n) (auto split: prod.split bool.split)
    moreover have "one_failure_charged env c e st st2"
      using charged_same_health[OF l(2)] by (simp add: after_call_def)
    ultimately show "xs_world (snd (Continue_With a, st2)) = xs_world st @ fst (rotation (replicate n (ge_kind e)) rot)
      \<and> one_failure_charged env c e st (snd (Continue_With a, st2)) \<and> (\<exists>b. fst (Continue_With a, st2) = Continue_With b)"
      using l(3) by simp
  qed
  have turn: "?P rs k s r"
    if rot: "rotate_key (ge_kind e) k = (True, k1)"
      and IH: "?P rs k1 (bump_attempts (after_call (call (current_key k)) s)) r"
    for rs k s k1 r
  proof (intro allI impI)
    fix n assume n: "pool_len (kr_pool k) < n + kr_tried k"
    have t: "kr_pool k1 = kr_pool k" "kr_tried k1 = Suc (kr_tried k)" "kr_tried k < pool_len (kr_pool k)"
      using rotate_key_tried[OF rot] by auto
    then obtain m where m: "n = Suc m" using n by (cases n) auto
    have "one_failure_charged env c e (bump_attempts (after_call (call (current_key k)) s)) (snd r)"
      using IH n t m by auto
    then have "one_failure_charged env c e s (snd r)"
      by (rule charged_same_health) (simp add: after_call_def)
    then show "xs_world (snd r) = xs_world s @ fst (rotation (replicate n (ge_kind e)) k)
      \<and> one_failure_charged env c e s (snd r) \<and> (\<exists>a. fst r = Continue_With a)"
      using IH[THEN spec[of _ m]] n t by (simp add: m rot after_call_def refused)
  qed
  have "?P retries rot st (attempt_loop env noted ro c pol call retries rot st)"
  proof (rule attempt_loop_rule[where P = ?P])
    show "?P retries rot st (Return (Inl ge_budget_exhausted), st)" if "over_budget ro st" for retries rot st
      using that assms(3) by (simp add: over_budget_def)
  next
    fix retries rot st f rot1 r
    assume "snd (fst (call (current_key rot) (xs_world st))) = Fail_With f" "rotate_key (ge_kind f) rot = (True, rot1)"
      "?P retries rot1 (bump_attempts (after_call (call (current_key rot)) st)) r"
    moreover from this have "f = e" by (simp add: refused)
    ultimately show "?P retries rot st r"
      using turn by blast
  next
    fix retries rot st f a rot1 st2
    assume "snd (fst (call (current_key rot) (xs_world st))) = Fail_With f"
      "on_failure env c rot f (after_call (call (current_key rot)) st) = (Inr (Move_On a), rot1, st2)"
    moreover from this have "f = e" by (simp add: refused)
    ultimately show "?P retries rot st (Continue_With a, st2)" using last by blast
  next
    fix retries rot st f a rot1 st2
    assume "snd (fst (call (current_key rot) (xs_world st))) = Fail_With f"
      "on_failure env c rot f (after_call (call (current_key rot)) st) = (Inl a, rot1, st2)"
    then show "?P retries rot st (Return (Inl a), st2)"
      using on_failure_last[of env c rot f _ "Inl a" rot1 st2] e by (auto simp: refused)
  qed (simp_all add: refused)
  then show "pool_len (kr_pool rot) < n + kr_tried rot \<Longrightarrow> ?thesis" by blast
qed


lemma start_world: "\<forall>n w. snd (rnd n w) = w \<Longrightarrow> snd (snd (start rnd cid pool who keys w)) = w"
  by (simp add: start_def first_index_def Let_def case_prod_beta split: key_strategy.split option.split)


subsection \<open>Witnesses\<close>

definition plain_exec_lib :: exec_lib where
  "plain_exec_lib = \<lparr>xl_encode_request = (\<lambda>_ _. Inr JNull),
     xl_decode_request = (\<lambda>_ _. Inl (ge_invalid_request ''no codec'')),
     xl_decode_response = (\<lambda>_ _. Inl (ge_invalid_request ''no codec'')),
     xl_decode_frame = (\<lambda>_ _ _. Inl (ge_invalid_request ''no codec'')), xl_utf8_error = (\<lambda>_. []),
     xl_parse_json = (\<lambda>_. Inl ''no parser''), xl_print_json = (\<lambda>_. []), xl_to_str = Some, xl_lossy = (\<lambda>s. s),
     xl_debug = (\<lambda>s. s)\<rparr>"

text \<open>Two relays; the one at the second address is down. The world is the log of the keys shown.\<close>

definition down_address :: upstream_address where
  "down_address = relay_address\<lparr>ua_base_url := Some ''https://down.example''\<rparr>"

definition down_channel :: channel where
  "down_channel = sample_channel\<lparr>ch_id := 9, ch_address := down_address\<rparr>"

definition refusal :: gateway_error where
  "refusal = gateway_error_new Unauthenticated ''bad key''"

definition log_env :: "bool \<Rightarrow> credential list exec_env" where
  "log_env all_down = \<lparr>ee_lib = plain_exec_lib,
     ee_send = (\<lambda>rq w. (Inl refusal, w @ [rq_credential rq])),
     ee_send_raw = (\<lambda>rq w. (if all_down \<or> rq_address rq = down_address then Inl refusal
       else Inr \<lparr>rw_status = 200, rw_body = [], rw_headers = [], rw_first_byte_to_end = from_secs 1\<rparr>,
       w @ [rq_credential rq])),
     ee_stream = (\<lambda>rq w. (Inl refusal, w @ [rq_credential rq])),
     ee_stream_raw = (\<lambda>rq w. (Inl refusal, w @ [rq_credential rq])), ee_stream_idle = 1, ee_tie = (\<lambda>_. True),
     ee_now = (\<lambda>_. 0), ee_until = (\<lambda>_ w. w), ee_rng = (\<lambda>_ w. (0, w)), ee_db = (\<lambda>_. Db_Ok)\<rparr>"

definition log_state :: "credential list exec_state" where
  "log_state = \<lparr>xs_world = [], xs_health = empty_repo, xs_keys = new_selector, xs_events = [],
     xs_attempts = 0, xs_calls = 0\<rparr>"

definition two_relays :: route where
  "two_relays = \<lparr>ro_inbound = Chat, ro_model = ''m'',
     ro_attempts = [chat_candidate down_channel, chat_candidate sample_channel],
     ro_attempt_cap = 2, ro_max_upstream_calls = 0, ro_identity = None\<rparr>"

definition raw_hello :: inbound_raw where
  "raw_hello = \<lparr>ib_protocol = Chat, ib_body = ''hello'', ib_model = ''m'', ib_stream = False, ib_headers = []\<rparr>"

lemma log_env_simps [simp]:
  "ee_lib (log_env d) = plain_exec_lib" "ee_now (log_env d) w = 0" "ee_rng (log_env d) n v = (0, v)"
  "ee_send_raw (log_env d) rq v = (if d \<or> rq_address rq = down_address then Inl refusal
       else Inr \<lparr>rw_status = 200, rw_body = [], rw_headers = [], rw_first_byte_to_end = from_secs 1\<rparr>,
       v @ [rq_credential rq])"
  by (simp_all add: log_env_def)

lemma two_relays_order:
  "route_order (log_env d) default_router_config two_relays log_state
   = [chat_candidate down_channel] @ chat_candidate sample_channel # []"
  by (simp add: route_order_def prioritize_eq endpoint_up_def two_relays_def log_state_def empty_repo_def
      pending_def default_router_config_def upt_rec)

lemma relay_ready:
  "body_ready (log_env d) two_relays raw_hello (chat_candidate down_channel)"
  "body_ready (log_env d) two_relays raw_hello (chat_candidate sample_channel)"
  by code_simp+

lemma relay_addresses:
  "ca_address (chat_candidate down_channel) = down_address"
  "ca_address (chat_candidate sample_channel) = relay_address" "relay_address \<noteq> down_address"
  by code_simp+



end
