(* ===== verification/Stream_Exec.thy ===== *)
theory Stream_Exec
  imports Failover
begin

section \<open>Streaming executions\<close>

text \<open>
  \<open>execute_stream\<close> of \<open>crates/refract-router/src/executor.rs\<close>: only the start of a stream can be
  retried. The loop over the candidates and their keys is the one of the buffered executions;
  what differs is that a stream is accepted after its preflight, has no overall deadline, and
  is not counted as a success when it starts. The stream of a request that came in as the
  unified form is tracked to its end for the endpoint's health.
\<close>

subsection \<open>The streams that are handed on\<close>

datatype routed_stream =
    Native_Stream nat header_map "(gateway_error + string) list"
  | Transcoded_Stream "(gateway_error + sse_event) list"

definition prepend_stream :: "'a list \<Rightarrow> 'a items \<Rightarrow> (gateway_error + 'a) list" where
  "prepend_stream ps rest = map Inr ps @ map snd rest"

definition preflight_env_for ::
  "'w exec_env \<Rightarrow> empty_retry_policy \<Rightarrow> protocol \<Rightarrow> nat \<Rightarrow> header_map \<Rightarrow> 'w \<Rightarrow> preflight_env"
where
  "preflight_env_for env pol p status hs w = \<lparr>pe_lib = ee_lib env, pe_protocol = p,
     pe_idle = ee_stream_idle env, pe_policy = pol,
     pe_reject = (er_reject_nonstandard_200 pol \<and> status = 200),
     pe_content_type = response_content_type (ee_lib env) hs, pe_tie = ee_tie env w\<rparr>"

definition read_sse_stream ::
  "'w exec_env \<Rightarrow> empty_retry_policy \<Rightarrow> protocol \<Rightarrow> gateway_error + sse_response \<Rightarrow> 'w
   \<Rightarrow> (duration option \<times> routed_stream verdict) \<times> 'w"
where
  "read_sse_stream env pol p r w = (case r of
     Inl e \<Rightarrow> ((None, Fail_With e), w)
   | Inr resp \<Rightarrow>
       (case preflight_sse_stream (preflight_env_for env pol p (ss_status resp) (ss_headers resp) w)
               (ee_now env w) (ss_stream resp) of
          Inl (e, t) \<Rightarrow> ((None, Fail_With e), ee_until env t w)
        | Inr pr \<Rightarrow> ((pr_empty pr, Accept (Transcoded_Stream (prepend_stream (pr_prefix pr) (pr_rest pr)))),
            ee_until env (pr_at pr) w)))"

text \<open>The unified path takes the first event off the prefix to track the stream.\<close>

definition first_event_required ::
  "(duration option \<times> routed_stream verdict) \<times> 'w \<Rightarrow> (duration option \<times> routed_stream verdict) \<times> 'w"
where
  "first_event_required a = (case a of
     ((gap, Accept (Transcoded_Stream [])), w) \<Rightarrow>
       ((gap, Give_Up (gateway_error_new UpstreamError ''upstream stream preflight returned no events'')), w)
   | _ \<Rightarrow> a)"

definition read_raw_stream ::
  "'w exec_env \<Rightarrow> empty_retry_policy \<Rightarrow> protocol \<Rightarrow> gateway_error + byte_response \<Rightarrow> 'w
   \<Rightarrow> (duration option \<times> routed_stream verdict) \<times> 'w"
where
  "read_raw_stream env pol p r w = (case r of
     Inl e \<Rightarrow> ((None, Fail_With e), w)
   | Inr resp \<Rightarrow>
       (case preflight_raw_stream (preflight_env_for env pol p (bs_status resp) (bs_headers resp) w)
               (ee_now env w) (bs_stream resp) of
          Inl (e, t) \<Rightarrow> ((None, Fail_With e), ee_until env t w)
        | Inr pr \<Rightarrow> ((pr_empty pr, Accept (Native_Stream (bs_status resp) (bs_headers resp)
              (prepend_stream (pr_prefix pr) (pr_rest pr)))), ee_until env (pr_at pr) w)))"

subsection \<open>The executions\<close>

definition stream_request :: "candidate \<Rightarrow> prepared_body \<Rightarrow> credential \<Rightarrow> (string \<times> string) list \<Rightarrow> upstream_request" where
  "stream_request c body key hs =
     (to_request body c key StreamAction)\<lparr>rq_extra_headers := hs, rq_proxy := ca_proxy c\<rparr>"

definition stream_normalized ::
  "'w exec_env \<Rightarrow> router_config \<Rightarrow> route \<Rightarrow> unified_request \<Rightarrow> candidate \<Rightarrow> 'w exec_state
   \<Rightarrow> routed_stream step_result \<times> 'w exec_state"
where
  "stream_normalized env cfg ro ir c st = (case encode_for (ee_lib env) c ir of
     Inl e \<Rightarrow> (Continue_With e, st)
   | Inr body \<Rightarrow>
       let pol = empty_response_retry_for cfg c;
           (rot, st1) = start_rotator env ro c st;
           call = (\<lambda>key w. let (r, w') = ee_stream env
                       (stream_request c (Json_Body body) key (merged_headers [] c)) w
                     in first_event_required (read_sse_stream env pol (ca_protocol c) r w'))
       in attempt_loop env False ro c pol call 0 rot (bump_attempts st1))"

definition stream_transcoded ::
  "'w exec_env \<Rightarrow> router_config \<Rightarrow> route \<Rightarrow> inbound_raw \<Rightarrow> candidate \<Rightarrow> 'w exec_state
   \<Rightarrow> routed_stream step_result \<times> 'w exec_state"
where
  "stream_transcoded env cfg ro ib c st = (
     let st0 = bump_attempts st; pol = empty_response_retry_for cfg c in
     case decode_raw_request (ee_lib env) (ib_protocol ib) (ib_body ib) (ib_model ib) (ib_stream ib) of
       Inl e \<Rightarrow> (Continue_With e, st0)
     | Inr ir \<Rightarrow> (case encode_for (ee_lib env) c ir of
         Inl e \<Rightarrow> (Continue_With (annotate_candidate_error c (xs_attempts st0) e), st0)
       | Inr body \<Rightarrow>
           let (rot, st1) = start_rotator env ro c st0;
               call = (\<lambda>key w. let (r, w') = ee_stream env (stream_request c (Json_Body body) key []) w
                       in read_sse_stream env pol (ca_protocol c) r w')
           in attempt_loop env False ro c pol call 0 rot st1))"

definition stream_native ::
  "'w exec_env \<Rightarrow> router_config \<Rightarrow> route \<Rightarrow> inbound_raw \<Rightarrow> candidate \<Rightarrow> 'w exec_state
   \<Rightarrow> routed_stream step_result \<times> 'w exec_state"
where
  "stream_native env cfg ro ib c st = (
     let st0 = bump_attempts st; pol = empty_response_retry_for cfg c in
     case prepare_native_body (ee_lib env) c ro (ib_body ib) of
       Inl e \<Rightarrow> (Return (Inl e), st0)
     | Inr body \<Rightarrow>
         let (rot, st1) = start_rotator env ro c st0;
             call = (\<lambda>key w. let (r, w') = ee_stream_raw env
                         (stream_request c body key (merged_headers (ib_headers ib) c)) w
                     in read_raw_stream env pol (ca_protocol c) r w')
         in attempt_loop env False ro c pol call 0 rot st1)"

definition stream_raw ::
  "'w exec_env \<Rightarrow> router_config \<Rightarrow> route \<Rightarrow> inbound_raw \<Rightarrow> candidate \<Rightarrow> 'w exec_state
   \<Rightarrow> routed_stream step_result \<times> 'w exec_state"
where
  "stream_raw env cfg ro ib c st = (
     if needs_transcode c (ro_inbound ro) then stream_transcoded env cfg ro ib c st
     else stream_native env cfg ro ib c st)"

definition execute_stream_normalized ::
  "'w exec_env \<Rightarrow> router_config \<Rightarrow> route \<Rightarrow> unified_request \<Rightarrow> 'w exec_state
   \<Rightarrow> (gateway_error + routed_stream route_outcome) \<times> 'w exec_state"
where
  "execute_stream_normalized env cfg ro ir st = run_route env cfg ro (stream_normalized env cfg ro ir) st"

definition execute_stream ::
  "'w exec_env \<Rightarrow> router_config \<Rightarrow> route \<Rightarrow> inbound_payload \<Rightarrow> 'w exec_state
   \<Rightarrow> (gateway_error + routed_stream route_outcome) \<times> 'w exec_state"
where
  "execute_stream env cfg ro payload st = (case payload of
     Normalized ir \<Rightarrow> execute_stream_normalized env cfg ro ir st
   | Raw ib \<Rightarrow> run_route env cfg ro (stream_raw env cfg ro ib) st)"

subsection \<open>Tracking a stream\<close>

text \<open>
  What the client's polls make of a tracked stream: the items it gets, and the health
  afterwards. The stream has ended when its items are used up; polls after the end or after
  an error get nothing. A client that stops polling leaves the health alone.
\<close>

fun track_stream ::
  "'w exec_env \<Rightarrow> channel_id \<Rightarrow> protocol \<Rightarrow> nat \<Rightarrow> nat \<Rightarrow> (gateway_error + 'a) list \<Rightarrow> 'w exec_state
   \<Rightarrow> (gateway_error + 'a) list \<times> 'w exec_state"
where
  "track_stream env cid p latency 0 items st = ([], st)"
| "track_stream env cid p latency (Suc polls) [] st =
     ([], st\<lparr>xs_health := snd (record_success (cid, p) latency (ee_db env (xs_world st))
        (ee_now env (xs_world st)) (xs_health st))\<rparr>)"
| "track_stream env cid p latency (Suc polls) (Inr x # items) st =
     (let (got, st1) = track_stream env cid p latency polls items st in (Inr x # got, st1))"
| "track_stream env cid p latency (Suc polls) (Inl e # items) st =
     ([Inl e], if affects_endpoint_health (ge_kind e)
        then st\<lparr>xs_health := snd (record_failure (cid, p) (error_to_string e) (ge_retry_after e)
          (ee_db env (xs_world st)) (ee_now env (xs_world st)) (ee_now env (xs_world st)) (xs_health st))\<rparr>
        else st)"

subsection \<open>What is accepted was sent\<close>

lemma attempt_loop_accepts:
  assumes "attempt_loop env noted ro c pol call retries rot st = (Return (Inr out), st')"
    and "kr_pool rot = pool"
  shows "\<exists>key \<in> set (pool_keys pool). \<exists>w. snd (fst (call key w)) = Accept (oc_payload out)"
proof -
  let ?P = "\<lambda>(retries :: nat) rot st r. kr_pool rot = pool \<longrightarrow> (\<forall>out. fst r = Return (Inr out) \<longrightarrow>
     (\<exists>key \<in> set (pool_keys pool). \<exists>w. snd (fst (call key w)) = Accept (oc_payload out)))"
  have "?P retries rot st (attempt_loop env noted ro c pol call retries rot st)"
    by (rule attempt_loop_rule[where P = ?P])
       (auto simp: Let_def outcome_def current_key_def dest!: rotate_key_tried intro!: bexI[OF _ key_at_mem])
  then show ?thesis using assms by simp
qed

text \<open>The contract of a run is extended by what the payload of its answer is.\<close>

locale relaying_runner = candidate_runner +
  fixes sent :: "candidate \<Rightarrow> 'b \<Rightarrow> bool"
  assumes relays: "run c st = (Return (Inr out), st') \<Longrightarrow> sent c (oc_payload out)"
begin

lemma tries_relay:
  "try_candidates run cs e st = (Inr out, st') \<Longrightarrow>
   \<exists>c \<in> set cs. answered_by ro c out \<and> sent c (oc_payload out)"
proof (induction cs arbitrary: e st)
  case (Cons c cs)
  obtain r st1 where r: "run c st = (r, st1)" by fastforce
  then show ?case using Cons answer[of c st out st'] relays[of c st out st'] by (cases r) auto
qed simp

lemma route_relay:
  assumes "fst (run_route env cfg ro run st) = Inr out"
  shows "\<exists>c \<in> set (ro_attempts ro). answered_by ro c out \<and> sent c (oc_payload out)"
  using run_route_tries[of env cfg ro run st] assms tries_relay route_order_subset[of env cfg ro st]
  by (metis (no_types, lifting) prod.collapse subsetD)

end

text \<open>What a candidate sent as a stream: the answer of its endpoint to a request addressed to it.\<close>

definition asked_of :: "candidate \<Rightarrow> upstream_request \<Rightarrow> bool" where
  "asked_of c rq \<longleftrightarrow> addressed_to c rq \<and> rq_proxy rq = ca_proxy c
     \<and> rq_credential rq \<in> set (pool_keys (key_pool (ca_channel c) (ca_endpoint c)))"

fun stream_sent :: "'w exec_env \<Rightarrow> candidate \<Rightarrow> routed_stream \<Rightarrow> bool" where
  "stream_sent env c (Native_Stream status hs chunks) = (\<exists>rq w resp. asked_of c rq
     \<and> fst (ee_stream_raw env rq w) = Inr resp \<and> status = bs_status resp \<and> hs = bs_headers resp
     \<and> chunks = map snd (ts_items (bs_stream resp)))"
| "stream_sent env c (Transcoded_Stream events) = (\<exists>rq w resp. asked_of c rq
     \<and> fst (ee_stream env rq w) = Inr resp \<and> events = map snd (ts_items (ss_stream resp)) \<and> events \<noteq> [])"

lemma stream_request_asked:
  "key \<in> set (pool_keys (key_pool (ca_channel c) (ca_endpoint c))) \<Longrightarrow> asked_of c (stream_request c body key hs)"
  by (cases body) (simp_all add: asked_of_def addressed_to_def stream_request_def to_request_def
      post_request_def post_raw_request_def)

lemma sse_preflight_replays:
  "preflight_sse_stream P now st = Inr r \<Longrightarrow> pr_prefix r \<noteq> []
   \<and> map Inr (pr_prefix r) @ map snd (pr_rest r) = map snd (ts_items st)"
  using preflight_sse_replay[of P "ts_end st" now "[]" "[]" 0 None False "ts_items st" r]
    preflight_sse_valid[of P "ts_end st" now "[]" 0 None False "ts_items st" r]
  by (auto simp: preflight_sse_stream_def replays_def valid_within_def)

lemma raw_preflight_replays:
  "preflight_raw_stream P now st = Inr r \<Longrightarrow>
   map Inr (pr_prefix r) @ map snd (pr_rest r) = map snd (ts_items st)"
  using preflight_raw_replay[of P "ts_end st" now parser_new "[]" "[]" 0 None False "ts_items st"]
  by (simp add: preflight_raw_stream_def replays_def)

lemma read_sse_accepts:
  "snd (fst (read_sse_stream env pol p r w)) = Accept s \<Longrightarrow>
   \<exists>resp. r = Inr resp \<and> s = Transcoded_Stream (map snd (ts_items (ss_stream resp))) \<and> ts_items (ss_stream resp) \<noteq> []"
  by (auto simp: read_sse_stream_def prepend_stream_def split: sum.splits prod.splits dest!: sse_preflight_replays)

lemma read_raw_stream_accepts:
  "snd (fst (read_raw_stream env pol p r w)) = Accept s \<Longrightarrow>
   \<exists>resp. r = Inr resp \<and> s = Native_Stream (bs_status resp) (bs_headers resp) (map snd (ts_items (bs_stream resp)))"
  by (auto simp: read_raw_stream_def prepend_stream_def split: sum.splits prod.splits dest!: raw_preflight_replays)

text \<open>A stream that passed its preflight has a first event, so its absence is never reported.\<close>

lemma first_event_present: "first_event_required (read_sse_stream env pol p r w) = read_sse_stream env pol p r w"
proof (cases "\<exists>gap w'. read_sse_stream env pol p r w = ((gap, Accept (Transcoded_Stream [])), w')")
  case True
  then show ?thesis using read_sse_accepts[of env pol p r w "Transcoded_Stream []"] by auto
qed (auto simp: first_event_required_def split: prod.splits verdict.splits routed_stream.splits list.splits)

lemma stream_normalized_sent:
  "stream_normalized env cfg ro ir c st = (Return (Inr out), st') \<Longrightarrow> stream_sent env c (oc_payload out)"
  by (auto simp: stream_normalized_def Let_def first_event_present case_prod_beta start_rotator_props(1)[OF prod.collapse[symmetric]]
      split: sum.splits dest!: attempt_loop_accepts read_sse_accepts intro!: exI intro: stream_request_asked)

lemma stream_transcoded_sent:
  "stream_transcoded env cfg ro ib c st = (Return (Inr out), st') \<Longrightarrow> stream_sent env c (oc_payload out)"
  by (auto simp: stream_transcoded_def Let_def case_prod_beta start_rotator_props(1)[OF prod.collapse[symmetric]]
      split: sum.splits dest!: attempt_loop_accepts read_sse_accepts intro!: exI intro: stream_request_asked)

lemma stream_native_sent:
  "stream_native env cfg ro ib c st = (Return (Inr out), st') \<Longrightarrow> stream_sent env c (oc_payload out)"
  by (auto simp: stream_native_def Let_def case_prod_beta start_rotator_props(1)[OF prod.collapse[symmetric]]
      split: sum.splits dest!: attempt_loop_accepts read_raw_stream_accepts intro!: exI intro: stream_request_asked)

lemma stream_raw_sent:
  "stream_raw env cfg ro ib c st = (Return (Inr out), st') \<Longrightarrow> stream_sent env c (oc_payload out)"
  by (auto simp: stream_raw_def split: if_splits dest: stream_transcoded_sent stream_native_sent)

lemma stream_normalized_result:
  "run_result env ro c (empty_response_retry_for cfg c) st (stream_normalized env cfg ro ir c st)"
  by (auto simp: stream_normalized_def Let_def split: sum.split prod.split
      intro: run_result_early run_result_loop)

lemma stream_transcoded_result:
  "run_result env ro c (empty_response_retry_for cfg c) st (stream_transcoded env cfg ro ib c st)"
  by (auto simp: stream_transcoded_def Let_def split: sum.split prod.split
      intro: run_result_early run_result_loop)

lemma stream_native_result:
  "run_result env ro c (empty_response_retry_for cfg c) st (stream_native env cfg ro ib c st)"
  by (auto simp: stream_native_def Let_def split: sum.split prod.split
      intro: run_result_early run_result_loop)

lemma stream_raw_result:
  "run_result env ro c (empty_response_retry_for cfg c) st (stream_raw env cfg ro ib c st)"
  by (simp add: stream_raw_def stream_transcoded_result stream_native_result)

interpretation normalized_stream: relaying_runner ro "stream_normalized env cfg ro ir" "candidate_turns cfg"
    "stream_sent env"
  for ro env cfg ir
  by unfold_locales (unfold candidate_turns_def,
      (rule run_result_laws[OF stream_normalized_result] stream_normalized_sent; assumption?)+)

interpretation raw_stream: relaying_runner ro "stream_raw env cfg ro ib" "candidate_turns cfg" "stream_sent env"
  for ro env cfg ib
  by unfold_locales (unfold candidate_turns_def,
      (rule run_result_laws[OF stream_raw_result] stream_raw_sent; assumption?)+)

subsection \<open>The streams of an execution\<close>

lemma execute_stream_raw: "execute_stream env cfg ro (Raw ib) st = run_route env cfg ro (stream_raw env cfg ro ib) st"
  by (simp add: execute_stream_def)

lemma execute_stream_unified:
  "execute_stream env cfg ro (Normalized ir) st = run_route env cfg ro (stream_normalized env cfg ro ir) st"
  by (simp add: execute_stream_def execute_stream_normalized_def)

text \<open>Starting a stream keeps the bounds of a buffered request: it ends, whatever the upstreams
  send and however long, with at most one call per retry for an empty answer and per key of
  the candidates it may try, and never with more than the budget of the route.\<close>

theorem stream_start_calls_bounded:
  "xs_calls (snd (execute_stream env cfg ro payload st)) \<le>
     (let turns = sum_list (map (candidate_turns cfg) (route_order env cfg ro st))
      in if ro_max_upstream_calls ro = 0 then turns else min turns (ro_max_upstream_calls ro))"
proof (cases payload)
  case (Normalized ir)
  then show ?thesis
    by (simp add: normalized_stream.route_calls normalized_stream.route_in_budget execute_stream_unified Let_def)
next
  case (Raw ib)
  then show ?thesis
    by (simp add: raw_stream.route_calls raw_stream.route_in_budget execute_stream_raw Let_def)
qed

text \<open>\<open>C9\<close>. Failover never splices streams: what the client of a started stream gets is, item for item
  and in order, what one endpoint of the route sent in answer to one request addressed to it,
  with a key of its own pool, and it is this endpoint the outcome names.\<close>

theorem stream_comes_from_one_endpoint:
  "case fst (execute_stream env cfg ro payload st) of
     Inr out \<Rightarrow> \<exists>c \<in> set (ro_attempts ro). answered_by ro c out \<and> stream_sent env c (oc_payload out)
   | Inl _ \<Rightarrow> True"
proof (cases payload)
  case (Normalized ir)
  then show ?thesis
    by (simp add: execute_stream_unified normalized_stream.route_relay split: sum.split)
next
  case (Raw ib)
  then show ?thesis
    by (simp add: execute_stream_raw raw_stream.route_relay split: sum.split)
qed

subsection \<open>The health of a tracked stream\<close>

lemma track_stream_rest:
  "xs_world (snd (track_stream env cid p latency polls items st)) = xs_world st
   \<and> xs_keys (snd (track_stream env cid p latency polls items st)) = xs_keys st"
  by (induction env cid p latency polls items st rule: track_stream.induct) (auto split: prod.splits)

text \<open>The items before the first error, and that error.\<close>

fun sound_part :: "(gateway_error + 'a) list \<Rightarrow> (gateway_error + 'a) list" where
  "sound_part (Inr x # items) = Inr x # sound_part items"
| "sound_part _ = []"

fun first_error :: "(gateway_error + 'a) list \<Rightarrow> gateway_error option" where
  "first_error [] = None"
| "first_error (Inl e # items) = Some e"
| "first_error (Inr x # items) = first_error items"

text \<open>\<open>C10\<close>. A tracked stream passes its items on unchanged up to the first error, and settles the health of
  its endpoint once: a success when the client has seen the end, a failure when it has seen
  an error that speaks about the endpoint, and nothing when the client stopped before.\<close>

theorem tracked_stream_settles_health_once:
  "track_stream env cid p latency polls items st =
    (let db = ee_db env (xs_world st); now = ee_now env (xs_world st) in
     if polls \<le> length (sound_part items) then (take polls (sound_part items), st)
     else case first_error items of
       None \<Rightarrow> (sound_part items,
         st\<lparr>xs_health := snd (record_success (cid, p) latency db now (xs_health st))\<rparr>)
     | Some e \<Rightarrow> (sound_part items @ [Inl e],
         if affects_endpoint_health (ge_kind e)
         then st\<lparr>xs_health := snd (record_failure (cid, p) (error_to_string e) (ge_retry_after e) db now now (xs_health st))\<rparr>
         else st))"
  by (induction env cid p latency polls items st rule: track_stream.induct)
     (auto simp: Let_def split: prod.splits option.splits)

end
