(* ===== verification/Codec_Base.thy ===== *)
theory Codec_Base
  imports Ir Stream_Agg Sse Gateway_Error
begin

section \<open>What the codecs share\<close>

text \<open>
  The accessors of \<open>serde_json\<close> the codecs of \<open>crates/refract-protocol/src/codec\<close> read requests
  and answers with, the construction of objects, and the way fields a codec does not know are
  kept in the extensions and put back. The text parser and printer of \<open>serde_json\<close> and the base64
  encoder are a parameter, \<open>codec_lib\<close>.
\<close>

record codec_lib =
  cl_parse :: "string \<Rightarrow> json option"
  cl_print :: "json \<Rightarrow> string"
  cl_base64 :: "string \<Rightarrow> string"

subsection \<open>Numbers\<close>

fun bit_length :: "nat \<Rightarrow> nat" where
  "bit_length n = (if n = 0 then 0 else Suc (bit_length (n div 2)))"

declare bit_length.simps [simp del]

text \<open>\<open>i as f64\<close>: to the nearest, ties to even, on the bits.\<close>

definition f64_of_nat :: "nat \<Rightarrow> f64" where
  "f64_of_nat n = (if n = 0 then 0
     else let e = bit_length n - 1 in
       if e \<le> 52 then word_of_nat ((e + 1023) * 2 ^ 52 + (n * 2 ^ (52 - e) - 2 ^ 52))
       else let unit = 2 ^ (e - 52); q = n div unit; r = n mod unit;
                q1 = (if 2 * r > unit \<or> (2 * r = unit \<and> odd q) then q + 1 else q)
            in word_of_nat ((e + 1023) * 2 ^ 52 + (q1 - 2 ^ 52)))"

definition f64_of_int :: "int \<Rightarrow> f64" where
  "f64_of_int i = (if i < 0 then f64_of_nat (nat (- i)) + 2 ^ 63 else f64_of_nat (nat i))"

lemma f64_of_int_samples:
  "f64_of_int 0 = 0" "f64_of_int 1 = 0x3FF0000000000000" "f64_of_int (- 3) = 0xC008000000000000"
  "f64_of_int (2 ^ 53 + 1) = f64_of_int (2 ^ 53)" "f64_of_int (2 ^ 53 + 3) = f64_of_int (2 ^ 53 + 4)"
  by (simp_all add: f64_of_int_def f64_of_nat_def bit_length.simps Let_def)

fun as_u64 :: "json \<Rightarrow> nat option" where
  "as_u64 (JNum (JInt i)) = (if 0 \<le> i \<and> i < 2 ^ 64 then Some (nat i) else None)"
| "as_u64 _ = None"

fun as_i64 :: "json \<Rightarrow> int option" where
  "as_i64 (JNum (JInt i)) = (if - (2 ^ 63) \<le> i \<and> i < 2 ^ 63 then Some i else None)"
| "as_i64 _ = None"

fun as_f64 :: "json \<Rightarrow> f64 option" where
  "as_f64 (JNum (JInt i)) = Some (f64_of_int i)"
| "as_f64 (JNum (JFloat x)) = Some x"
| "as_f64 _ = None"

fun as_bool :: "json \<Rightarrow> bool option" where
  "as_bool (JBool b) = Some b"
| "as_bool _ = None"

fun as_object :: "json \<Rightarrow> jmap option" where
  "as_object (JObj m) = Some m"
| "as_object _ = None"

text \<open>What \<open>json!\<close> makes of a float: numbers that are not finite become null.\<close>

definition jfloat :: "f64 \<Rightarrow> json" where
  "jfloat x = (if (x AND 0x7FF0000000000000) = 0x7FF0000000000000 then JNull else JNum (JFloat x))"

definition jnat :: "nat \<Rightarrow> json" where
  "jnat n = JNum (JInt (int n))"

lemma jnat_u64 [simp]: "n < 2 ^ 64 \<Longrightarrow> as_u64 (jnat n) = Some n"
  by (simp add: jnat_def)

lemma unat32: "unat (w :: 32 word) \<le> 2 ^ 32 - 1"
  using unsigned_less[of w, where 'a = nat] by simp

lemma u32_u64 [simp]: "as_u64 (jnat (unat (w :: 32 word))) = Some (unat w)"
  using uint_bounded[of w] by (simp add: jnat_def)

subsection \<open>Fields\<close>

declare map_add_def [simp]

definition get_str :: "string \<Rightarrow> json \<Rightarrow> string option" where
  "get_str k v = Option.bind (jget k v) as_str"

definition str_or :: "string \<Rightarrow> string option \<Rightarrow> string" where
  "str_or d s = (case s of Some x \<Rightarrow> x | None \<Rightarrow> d)"

definition get_nonempty :: "string \<Rightarrow> json \<Rightarrow> string option" where
  "get_nonempty k v = (case get_str k v of Some s \<Rightarrow> if s = [] then None else Some s | None \<Rightarrow> None)"

definition get_array :: "string \<Rightarrow> json \<Rightarrow> json list option" where
  "get_array k v = Option.bind (jget k v) as_array"

definition get_bool :: "string \<Rightarrow> json \<Rightarrow> bool option" where
  "get_bool k v = Option.bind (jget k v) as_bool"

definition get_f64 :: "string \<Rightarrow> json \<Rightarrow> f64 option" where
  "get_f64 k v = Option.bind (jget k v) as_f64"

definition get_u64 :: "string \<Rightarrow> json \<Rightarrow> nat option" where
  "get_u64 k v = Option.bind (jget k v) as_u64"

lemma map_of_size: "map_of m k = Some v \<Longrightarrow> size v < size (JObj m)"
  by (induction m) (auto split: if_splits)

text \<open>\<open>v.get(a).and_then(|x| x.get(b))\<close>.\<close>

definition get_in :: "string \<Rightarrow> string \<Rightarrow> json \<Rightarrow> json option" where
  "get_in a b v = Option.bind (jget a v) (jget b)"

definition if_some :: "string \<Rightarrow> 'a option \<Rightarrow> ('a \<Rightarrow> json) \<Rightarrow> jmap" where
  "if_some k x f = (case x of Some y \<Rightarrow> [(k, f y)] | None \<Rightarrow> [])"

definition if_true :: "string \<Rightarrow> bool \<Rightarrow> json \<Rightarrow> jmap" where
  "if_true k b v = (if b then [(k, v)] else [])"

lemma field_simps [simp]:
  "get_str k (JObj m) = Option.bind (map_of m k) as_str"
  "get_array k (JObj m) = Option.bind (map_of m k) as_array"
  "get_bool k (JObj m) = Option.bind (map_of m k) as_bool"
  "get_f64 k (JObj m) = Option.bind (map_of m k) as_f64"
  "get_u64 k (JObj m) = Option.bind (map_of m k) as_u64"
  by (simp_all add: get_str_def get_array_def get_bool_def get_f64_def get_u64_def)

definition finite_f64 :: "f64 \<Rightarrow> bool" where
  "finite_f64 x \<longleftrightarrow> (x AND 0x7FF0000000000000) \<noteq> 0x7FF0000000000000"

lemma bind_back [simp]:
  "Option.bind (map_option JStr s) as_str = s" "Option.bind (map_option JBool b) as_bool = b"
  "Option.bind (map_option JArr a) as_array = a"
proof -
  show "Option.bind (map_option JStr s) as_str = s" by (cases s) simp_all
  show "Option.bind (map_option JBool b) as_bool = b" by (cases b) simp_all
  show "Option.bind (map_option JArr a) as_array = a" by (cases a) simp_all
qed

lemma bind_back_f64: "(case x of Some y \<Rightarrow> finite_f64 y | None \<Rightarrow> True) \<Longrightarrow> Option.bind (map_option jfloat x) as_f64 = x"
  by (cases x) (simp_all add: jfloat_def finite_f64_def)

lemma bind_back_i64: "map_option word_of_int (Option.bind (map_option (\<lambda>w. JNum (JInt (sint w))) s) as_i64) = (s :: 64 word option)"
proof (cases s)
  case (Some w)
  have "- (2 ^ 63) \<le> sint w \<and> sint w < 2 ^ 63" using sint_ge[of w] sint_lt[of w] by simp
  then show ?thesis using Some by simp
qed simp

lemma str_or_simps [simp]: "str_or d (Some s) = s" "str_or d None = d"
  by (simp_all add: str_or_def)

lemma map_of_if_some [simp]: "map_of (if_some k x f) k' = (if k' = k then map_option f x else None)"
  by (cases x) (simp_all add: if_some_def)

lemma map_of_if_true [simp]: "map_of (if_true k b v) k' = (if b \<and> k' = k then Some v else None)"
  by (simp add: if_true_def)

lemma keys_if_some: "fst ` set (if_some k x f) \<subseteq> {k}"
  by (cases x) (simp_all add: if_some_def)

lemma keys_if_true: "fst ` set (if_true k b v) \<subseteq> {k}"
  by (auto simp: if_true_def)

lemma option_again: "(case x of None \<Rightarrow> None | Some y \<Rightarrow> Some y) = x"
  by (cases x) simp_all

text \<open>A run over a list that may stop with an error.\<close>

fun map_ok :: "('a \<Rightarrow> 'e + 'b) \<Rightarrow> 'a list \<Rightarrow> 'e + 'b list" where
  "map_ok f [] = Inr []"
| "map_ok f (x # xs) = rbind (f x) (\<lambda>y. rbind (map_ok f xs) (\<lambda>ys. Inr (y # ys)))"

fun filter_map :: "('a \<Rightarrow> 'b option) \<Rightarrow> 'a list \<Rightarrow> 'b list" where
  "filter_map f [] = []"
| "filter_map f (x # xs) = (case f x of Some y \<Rightarrow> y # filter_map f xs | None \<Rightarrow> filter_map f xs)"

lemma filter_map_append [simp]: "filter_map f (xs @ ys) = filter_map f xs @ filter_map f ys"
  by (induction xs) (auto split: option.split)

lemma map_ok_length: "map_ok f xs = Inr ys \<Longrightarrow> length ys = length xs"
  by (induction xs arbitrary: ys) (auto simp: rbind_Inr)

fun is_text :: "content_part \<Rightarrow> bool" where
  "is_text (TextPart _) = True"
| "is_text _ = False"

lemma filter_map_cong [fundef_cong]:
  "xs = ys \<Longrightarrow> (\<And>x. x \<in> set ys \<Longrightarrow> f x = g x) \<Longrightarrow> filter_map f xs = filter_map g ys"
  by (induction ys arbitrary: xs) (auto split: option.split)

text \<open>\<open>Vec::insert\<close> at a position that is cut to the length.\<close>

definition insert_at :: "nat \<Rightarrow> 'a \<Rightarrow> 'a list \<Rightarrow> 'a list" where
  "insert_at n x xs = (let i = min n (length xs) in take i xs @ x # drop i xs)"

subsection \<open>Extensions\<close>

definition collect_unknown :: "string \<Rightarrow> string list \<Rightarrow> jmap \<Rightarrow> extensions \<Rightarrow> extensions" where
  "collect_unknown pre known obj ext =
     fold (\<lambda>(k, v) e. if k \<in> set known then e else btree_insert (pre @ k) v e) obj ext"

text \<open>The loop over the extensions; \<open>skip\<close> are the keys that are carried another way.\<close>

definition restore_extensions :: "string \<Rightarrow> string list \<Rightarrow> extensions \<Rightarrow> jmap \<Rightarrow> jmap" where
  "restore_extensions pre skip ext body = fold (\<lambda>(k, v) out. case strip_prefix pre k of
       None \<Rightarrow> out
     | Some f \<Rightarrow> if f = [] \<or> f \<in> set skip \<or> map_of out f \<noteq> None then out else map_insert f v out) ext body"

text \<open>What is restored never replaces a field that is there.\<close>

lemma restore_extensions_keeps:
  "map_of body k = Some v \<Longrightarrow> map_of (restore_extensions pre skip ext body) k = Some v"
proof (induction ext arbitrary: body)
  case (Cons e ext)
  have IH: "map_of b k = Some v \<Longrightarrow> map_of (restore_extensions pre skip ext b) k = Some v" for b
    by (rule Cons.IH)
  show ?case using Cons.prems
    by (auto simp: restore_extensions_def split: option.split prod.split intro!: IH[unfolded restore_extensions_def])
qed (simp add: restore_extensions_def)

lemma restore_extensions_absent:
  "\<forall>x \<in> set ext. strip_prefix pre (fst x) \<noteq> Some k \<Longrightarrow>
   map_of (restore_extensions pre skip ext body) k = map_of body k"
proof (induction ext arbitrary: body)
  case (Cons e ext)
  have IH: "map_of (restore_extensions pre skip ext b) k = map_of b k" for b
    using Cons.prems by (intro Cons.IH) simp
  show ?case using Cons.prems
    by (auto simp: restore_extensions_def IH[unfolded restore_extensions_def] split: option.split prod.split)
qed (simp add: restore_extensions_def)

subsection \<open>Extensions go round\<close>

lemma sorted_maps_eq:
  fixes a b :: "(string \<times> 'v) list"
  assumes "sorted_wrt (<) (map fst a)" and "sorted_wrt (<) (map fst b)" and "map_of a = map_of b"
  shows "a = b"
proof -
  have d: "distinct (map fst a)" "distinct (map fst b)" using assms(1,2) by (simp_all add: strict_sorted_iff)
  have "set (map fst a) = set (map fst b)" using assms(3) by (metis dom_map_of_conv_image_fst set_map)
  then have keys: "map fst a = map fst b" using assms(1,2) by (intro strict_sorted_equal)
  have entries: "xs = map (\<lambda>k. (k, the (map_of xs k))) (map fst xs)" if "distinct (map fst xs)" for xs :: "(string \<times> 'v) list"
  proof (rule nth_equalityI)
    fix i assume "i < length xs"
    then have "map_of xs (fst (xs ! i)) = Some (snd (xs ! i))"
      by (intro map_of_is_SomeI[OF that]) (metis nth_mem prod.collapse)
    then show "xs ! i = map (\<lambda>k. (k, the (map_of xs k))) (map fst xs) ! i"
      using \<open>i < length xs\<close> by (simp add: prod_eq_iff)
  qed simp
  show ?thesis using entries[OF d(1)] entries[OF d(2)] keys assms(3) by metis
qed

lemma keys_within [intro]:
  "k \<in> K \<Longrightarrow> fst ` set (if_some k x f) \<subseteq> K" "k \<in> K \<Longrightarrow> fst ` set (if_true k b v) \<subseteq> K"
  using keys_if_some keys_if_true by blast+

definition ext_field :: "string \<Rightarrow> string \<times> json \<Rightarrow> string \<times> json" where
  "ext_field pre e = (drop (length pre) (fst e), snd e)"

lemma ext_field_absent: "(\<And>e. e \<in> set es \<Longrightarrow> fst (ext_field pre e) \<noteq> k) \<Longrightarrow> map_of (map (ext_field pre) es) k = None"
proof (induction es)
  case (Cons e es)
  then have "fst (ext_field pre e) \<noteq> k" by simp
  then show ?case using Cons by (cases "ext_field pre e") simp
qed simp

text \<open>Extensions with their own, unused field names are put back behind the body.\<close>

lemma restore_extensions_append:
  assumes "\<forall>e \<in> set ext. prefix pre (fst e) \<and> fst e \<noteq> pre"
    and "distinct (map fst ext)"
    and "\<forall>e \<in> set ext. fst (ext_field pre e) \<notin> fst ` set body"
  shows "restore_extensions pre skip ext body =
    body @ map (ext_field pre) (filter (\<lambda>e. fst (ext_field pre e) \<notin> set skip) ext)"
  using assms
proof (induction ext arbitrary: body)
  case Nil
  then show ?case by (simp add: restore_extensions_def)
next
  case (Cons e ext)
  obtain f where f: "fst e = pre @ f" "f \<noteq> []" using Cons.prems(1) by (auto simp: prefix_def)
  have s: "strip_prefix pre (fst e) = Some f" by (simp add: f strip_prefix_def)
  have field: "ext_field pre e = (f, snd e)" by (simp add: ext_field_def f)
  have new: "map_of body f = None" using Cons.prems(3) field by (auto simp: map_of_eq_None_iff)
  show ?case
  proof (cases "f \<in> set skip")
    case True
    then show ?thesis using Cons.IH[of body] Cons.prems s field
      by (simp add: restore_extensions_def case_prod_beta)
  next
    case False
    have put: "map_insert f (snd e) body = body @ [(f, snd e)]"
      using new by (simp add: map_insert_def al_put_def)
    have other: "fst (ext_field pre x) \<noteq> f" if x: "x \<in> set ext" for x
    proof
      assume "fst (ext_field pre x) = f"
      moreover obtain g where "fst x = pre @ g" using Cons.prems(1) x by (auto simp: prefix_def)
      ultimately have "fst x = fst e" by (simp add: ext_field_def f)
      then show False using Cons.prems(2) x by (simp add: image_iff) (metis)
    qed
    then show ?thesis using Cons.IH[of "body @ [(f, snd e)]"] Cons.prems s field put new False f(2)
      by (simp add: restore_extensions_def case_prod_beta)
  qed
qed

lemma collect_unknown_known:
  "fst ` set obj \<subseteq> set known \<Longrightarrow> collect_unknown pre known (obj @ rest) ext = collect_unknown pre known rest ext"
  by (induction obj) (auto simp: collect_unknown_def)

lemma collect_unknown_sorted:
  "sorted_wrt (<) (map fst ext) \<Longrightarrow> sorted_wrt (<) (map fst (collect_unknown pre known obj ext))"
  unfolding collect_unknown_def
  by (induction obj arbitrary: ext) (auto intro: btree_insert_sorted split: prod.split)

lemma collect_unknown_map:
  assumes "\<forall>e \<in> set es. prefix pre (fst e) \<and> fst (ext_field pre e) \<notin> set known" and "distinct (map fst es)"
  shows "map_of (collect_unknown pre known (map (ext_field pre) es) ext) = map_of ext ++ map_of es"
  using assms
proof (induction es arbitrary: ext)
  case (Cons e es)
  obtain f where f: "fst e = pre @ f" using Cons.prems(1) by (auto simp: prefix_def)
  have field: "ext_field pre e = (f, snd e)" by (simp add: ext_field_def f)
  have new: "map_of es (fst e) = None" using Cons.prems(2) by (simp add: map_of_eq_None_iff)
  have "map_of (collect_unknown pre known (map (ext_field pre) (e # es)) ext)
      = (map_of ext)(fst e \<mapsto> snd e) ++ map_of es"
    using Cons.IH[of "btree_insert (fst e) (snd e) ext"] Cons.prems field
    by (auto simp: collect_unknown_def f fun_eq_iff split: option.split)
  also have "\<dots> = map_of ext ++ map_of (e # es)"
    using new by (cases e) (auto simp: fun_eq_iff split: option.split)
  finally show ?case .
qed (simp add: collect_unknown_def)


subsection \<open>A library for the witnesses\<close>

text \<open>It prints the values of a list by their position, in unary.\<close>

definition table_lib :: "json list \<Rightarrow> codec_lib" where
  "table_lib js = \<lparr>cl_parse = (\<lambda>s. if s \<noteq> [] \<and> length s \<le> length js then Some (js ! (length s - 1)) else None),
     cl_print = (\<lambda>j. case position (\<lambda>x. x = j) js of Some n \<Rightarrow> replicate (Suc n) (CHR ''x'') | None \<Rightarrow> []),
     cl_base64 = (\<lambda>s. s)\<rparr>"

lemma ws_x:
  "ws_front (CHR ''x'' # s) = 0" "ws_back (CHR ''x'' # s) = 0"
proof -
  consider "s = []" | b where "s = [b]" | b c t where "s = b # c # t" by (cases s rule: ws_front.cases) auto
  then show "ws_front (CHR ''x'' # s) = 0" "ws_back (CHR ''x'' # s) = 0"
    by (cases; simp add: ws1_def ws2_def ws3_def byte_def)+
qed

lemma trim_replicate: "trim (replicate n (CHR ''x'')) = replicate n (CHR ''x'')"
proof (cases n)
  case (Suc m)
  have "ws_front (replicate n (CHR ''x'')) = 0" "ws_back (replicate n (CHR ''x'')) = 0"
    by (simp_all add: Suc ws_x)
  then show ?thesis
    by (simp add: trim_def trim_start_fixed trim_end_def strip.simps[of ws_back] del: replicate.simps)
qed simp

lemma table_lib_back:
  assumes "j \<in> set js"
  shows "cl_parse (table_lib js) (trim (cl_print (table_lib js) j)) = Some j"
    and "trim (cl_print (table_lib js) j) \<noteq> []" and "trim (cl_print (table_lib js) j) \<noteq> ''[DONE]''"
proof -
  obtain n where n: "position (\<lambda>x. x = j) js = Some n" using assms by (cases "position (\<lambda>x. x = j) js") auto
  then have "n < length js" "js ! n = j" by (simp_all add: position_Some)
  moreover have p: "cl_print (table_lib js) j = replicate (Suc n) (CHR ''x'')" by (simp add: table_lib_def n)
  ultimately show "cl_parse (table_lib js) (trim (cl_print (table_lib js) j)) = Some j"
    "trim (cl_print (table_lib js) j) \<noteq> []"
    unfolding p trim_replicate by (simp_all add: table_lib_def del: replicate.simps)
  show "trim (cl_print (table_lib js) j) \<noteq> ''[DONE]''" unfolding p trim_replicate by simp
qed

end
