(* ===== verification/Chat_Request.thy ===== *)
theory Chat_Request
  imports Codec_Base
begin

section \<open>Chat Completions: requests\<close>

text \<open>
  The request half of \<open>crates/refract-protocol/src/codec/chat.rs\<close>: what a Chat Completions request
  is read as, and how the unified form is written as one. Reading is lenient everywhere
  except for the fields a request cannot do without. Log lines are left out.
\<close>

definition chat_ext :: string where
  "chat_ext = ''chat.''"

definition chat_known_request :: "string list" where
  "chat_known_request = [''model'', ''messages'', ''stream'', ''stream_options'', ''max_tokens'',
     ''max_completion_tokens'', ''temperature'', ''top_p'', ''frequency_penalty'', ''presence_penalty'',
     ''seed'', ''n'', ''stop'', ''reasoning_effort'', ''response_format'', ''tools'', ''tool_choice'',
     ''parallel_tool_calls'', ''user'', ''dropped_thinking'']"

definition chat_u32 :: "json option \<Rightarrow> 32 word option" where
  "chat_u32 v = map_option (\<lambda>n. word_of_nat (min n (2 ^ 32 - 1))) (Option.bind v as_u64)"

fun chat_parse_stop :: "json option \<Rightarrow> string list" where
  "chat_parse_stop (Some (JStr s)) = [s]"
| "chat_parse_stop (Some (JArr a)) = filter_map as_str a"
| "chat_parse_stop _ = []"

subsection \<open>Content\<close>

definition chat_image_part :: "json \<Rightarrow> content_part" where
  "chat_image_part raw = (
     let img = jget ''image_url'' raw;
         url = (case img of Some (JStr s) \<Rightarrow> s | Some v \<Rightarrow> str_or [] (get_str ''url'' v) | None \<Rightarrow> []);
         detail = Option.bind img (get_str ''detail'');
         (source, mime) = parse_data_uri url
     in ImagePart source mime detail)"

definition chat_audio_part :: "json \<Rightarrow> content_part" where
  "chat_audio_part audio = (
     let (source, _) = parse_data_uri (str_or [] (get_str ''data'' audio));
         source1 = (case source of Url u \<Rightarrow> if prefix ''http'' u then Url u else Base64 u | s \<Rightarrow> s)
     in AudioPart source1 (get_str ''format'' audio))"

definition chat_file_part :: "json \<Rightarrow> content_part" where
  "chat_file_part file = (
     let name = get_str ''filename'' file in
     case get_str ''file_id'' file of
       Some i \<Rightarrow> FilePart (FileId i) None name
     | None \<Rightarrow> let (source, mime) = parse_data_uri (str_or [] (get_str ''file_data'' file))
               in FilePart source mime name)"

fun chat_parse_content_part :: "json \<Rightarrow> content_part option" where
  "chat_parse_content_part (JStr s) = Some (TextPart s)"
| "chat_parse_content_part (JObj m) = (
     let raw = JObj m; kind = str_or [] (get_str ''type'' raw) in
     if kind = ''text'' \<or> kind = ''input_text'' \<or> kind = ''output_text''
     then Some (TextPart (str_or [] (get_str ''text'' raw)))
     else if kind = ''refusal'' then Some (RefusalPart (str_or [] (get_str ''refusal'' raw)))
     else if kind = ''image_url'' then Some (chat_image_part raw)
     else if kind = ''input_audio'' then map_option chat_audio_part (jget ''input_audio'' raw)
     else if kind = ''file'' then map_option chat_file_part (jget ''file'' raw)
     else map_option TextPart (get_str ''text'' raw))"
| "chat_parse_content_part _ = None"

fun chat_parse_content :: "json option \<Rightarrow> content_part list" where
  "chat_parse_content (Some (JStr s)) = (if s = [] then [] else [TextPart s])"
| "chat_parse_content (Some (JArr items)) = filter_map chat_parse_content_part items"
| "chat_parse_content _ = []"

definition chat_arguments :: "codec_lib \<Rightarrow> json option \<Rightarrow> json" where
  "chat_arguments lib v = (case v of
     Some (JStr s) \<Rightarrow> if trim s = [] then JObj []
       else (case cl_parse lib s of Some x \<Rightarrow> x | None \<Rightarrow> JStr s)
   | Some other \<Rightarrow> other
   | None \<Rightarrow> JObj [])"

definition chat_tool_call :: "codec_lib \<Rightarrow> json \<Rightarrow> content_part" where
  "chat_tool_call lib call = (
     let fn = jget ''function'' call in
     ToolUsePart (str_or [] (get_str ''id'' call)) (str_or [] (Option.bind fn (get_str ''name'')))
       (chat_arguments lib (Option.bind fn (jget ''arguments''))) None)"

definition chat_parse_tool_calls :: "codec_lib \<Rightarrow> json list \<Rightarrow> content_part list" where
  "chat_parse_tool_calls lib calls = map (chat_tool_call lib) calls"

definition chat_dropped_part :: "json \<Rightarrow> content_part" where
  "chat_dropped_part item = (case get_str ''redacted'' item of
     Some d \<Rightarrow> RedactedThinking d
   | None \<Rightarrow> ThinkingPart (str_or [] (get_str ''text'' item)) (get_str ''signature'' item))"

definition chat_restore_dropped :: "json list \<Rightarrow> content_part list \<Rightarrow> content_part list" where
  "chat_restore_dropped items parts = fold (\<lambda>item out.
     insert_at (case get_u64 ''position'' item of Some n \<Rightarrow> n | None \<Rightarrow> 0) (chat_dropped_part item) out) items parts"

definition chat_dropped_for :: "json list option \<Rightarrow> nat \<Rightarrow> json list" where
  "chat_dropped_for items i = (case items of None \<Rightarrow> []
     | Some its \<Rightarrow> filter (\<lambda>it. get_u64 ''message'' it = Some i) its)"

definition chat_reasoning_part :: "json \<Rightarrow> content_part list" where
  "chat_reasoning_part m = (case get_nonempty ''reasoning_content'' m of
     Some t \<Rightarrow> [ThinkingPart t (get_str ''reasoning_signature'' m)] | None \<Rightarrow> [])"

definition chat_refusal_part :: "json \<Rightarrow> content_part list" where
  "chat_refusal_part m = (case get_nonempty ''refusal'' m of Some t \<Rightarrow> [RefusalPart t] | None \<Rightarrow> [])"

text \<open>The parts of an assistant message: of a request and of a response alike.\<close>

definition chat_assistant_parts :: "codec_lib \<Rightarrow> bool \<Rightarrow> json list \<Rightarrow> json \<Rightarrow> content_part list" where
  "chat_assistant_parts lib with_reasoning dropped m = chat_restore_dropped dropped (
     (if with_reasoning then chat_reasoning_part m else [])
     @ chat_parse_content (jget ''content'' m) @ chat_refusal_part m
     @ (case get_array ''tool_calls'' m of Some calls \<Rightarrow> chat_parse_tool_calls lib calls | None \<Rightarrow> []))"

subsection \<open>Reading a request\<close>

definition chat_decode_message ::
  "codec_lib \<Rightarrow> json list option \<Rightarrow> nat \<Rightarrow> json \<Rightarrow> content_part list \<times> message list
   \<Rightarrow> gateway_error + content_part list \<times> message list"
where
  "chat_decode_message lib dropped i m acc = (
     let (sys, ms) = acc; at = ''messages['' @ nat_to_string i @ '']''; name = get_str ''name'' m in
     case get_str ''role'' m of
       None \<Rightarrow> Inl (ge_invalid_request (at @ '' is missing `role`''))
     | Some r \<Rightarrow>
         if r = ''system'' \<or> r = ''developer'' then Inr (sys @ chat_parse_content (jget ''content'' m), ms)
         else if r = ''user'' then
           Inr (sys, ms @ [\<lparr>msg_role = User, msg_content = chat_parse_content (jget ''content'' m), msg_name = name\<rparr>])
         else if r = ''assistant'' then
           let restored = chat_dropped_for dropped i
           in Inr (sys, ms @ [\<lparr>msg_role = Assistant,
                msg_content = chat_assistant_parts lib (restored = []) restored m, msg_name = name\<rparr>])
         else if r = ''tool'' then (case get_nonempty ''tool_call_id'' m of
             None \<Rightarrow> Inl (ge_invalid_request (at @ '' with role `tool` is missing `tool_call_id`''))
           | Some tid \<Rightarrow> Inr (sys, ms @ [message_new Tool
                 [ToolResult tid None (chat_parse_content (jget ''content'' m)) False]]))
         else Inl (ge_invalid_request (at @ '' has unsupported role `'' @ r @ ''`'')))"

fun chat_decode_messages ::
  "codec_lib \<Rightarrow> json list option \<Rightarrow> nat \<Rightarrow> json list \<Rightarrow> content_part list \<times> message list
   \<Rightarrow> gateway_error + content_part list \<times> message list"
where
  "chat_decode_messages lib dropped i [] acc = Inr acc"
| "chat_decode_messages lib dropped i (m # ms) acc =
     rbind (chat_decode_message lib dropped i m acc) (chat_decode_messages lib dropped (Suc i) ms)"

definition chat_parse_response_format :: "json \<Rightarrow> response_format option" where
  "chat_parse_response_format raw = Option.bind (get_str ''type'' raw) (\<lambda>t.
     if t = ''text'' then Some TextFormat
     else if t = ''json_object'' then Some JsonObjectFormat
     else if t = ''json_schema'' then map_option (\<lambda>schema.
       JsonSchemaFormat (str_or ''response'' (get_str ''name'' schema))
         (case jget ''schema'' schema of Some s \<Rightarrow> s | None \<Rightarrow> JObj [])
         (get_bool ''strict'' schema = Some True)) (jget ''json_schema'' raw)
     else None)"

text \<open>The two lists the loop over the tools fills: functions, and built-in tools as they are.\<close>

definition chat_function_tool :: "json \<Rightarrow> tool_def option" where
  "chat_function_tool f = map_option (\<lambda>name. \<lparr>td_name = name,
     td_description = get_str ''description'' f,
     td_parameters = (case jget ''parameters'' f of Some p \<Rightarrow> p
       | None \<Rightarrow> JObj [(''type'', JStr ''object''), (''properties'', JObj [])]),
     td_strict = get_bool ''strict'' f\<rparr>) (get_str ''name'' f)"

definition chat_tools :: "json list \<Rightarrow> tool_def list" where
  "chat_tools ts = filter_map (\<lambda>t. Option.bind (jget ''function'' t) chat_function_tool) ts"

definition chat_builtins :: "json list \<Rightarrow> json list" where
  "chat_builtins ts = filter (\<lambda>t. jget ''function'' t = None) ts"

definition chat_decode_tool_choice :: "json option \<Rightarrow> tool_choice" where
  "chat_decode_tool_choice v = (case v of
     None \<Rightarrow> Unspecified
   | Some JNull \<Rightarrow> Unspecified
   | Some (JStr s) \<Rightarrow> if s = ''none'' then NoTool else if s = ''auto'' then AutoChoice
       else if s = ''required'' \<or> s = ''any'' then Required else Unspecified
   | Some x \<Rightarrow> (case Option.bind (jget ''function'' x) (get_str ''name'') of
       Some n \<Rightarrow> NamedTool n | None \<Rightarrow> Unspecified))"

definition chat_decode_sampling :: "json \<Rightarrow> sampling" where
  "chat_decode_sampling q = \<lparr>sa_temperature = get_f64 ''temperature'' q, sa_top_p = get_f64 ''top_p'' q,
     sa_top_k = None, sa_frequency_penalty = get_f64 ''frequency_penalty'' q,
     sa_presence_penalty = get_f64 ''presence_penalty'' q, sa_stop = chat_parse_stop (jget ''stop'' q),
     sa_seed = map_option word_of_int (Option.bind (jget ''seed'' q) as_i64),
     sa_candidate_count = chat_u32 (jget ''n'' q)\<rparr>"

definition chat_decode_request :: "codec_lib \<Rightarrow> json \<Rightarrow> gateway_error + unified_request" where
  "chat_decode_request lib raw = (case as_object raw of
     None \<Rightarrow> Inl (ge_invalid_request ''request body must be a JSON object'')
   | Some obj \<Rightarrow> (case get_nonempty ''model'' raw of
     None \<Rightarrow> Inl (ge_invalid_request ''missing required field `model`'')
   | Some model \<Rightarrow> (case get_array ''messages'' raw of
     None \<Rightarrow> Inl (ge_invalid_request ''missing required field `messages` (expected an array)'')
   | Some raw_messages \<Rightarrow>
       rbind (chat_decode_messages lib (get_array ''dropped_thinking'' raw) 0 raw_messages ([], [])) (\<lambda>(sys, ms).
       let tools = (case get_array ''tools'' raw of Some ts \<Rightarrow> ts | None \<Rightarrow> []);
           ext = (if chat_builtins tools = [] then []
                  else btree_insert (chat_ext @ ''builtin_tools'') (JArr (chat_builtins tools)) [])
       in Inr \<lparr>ur_model = model, ur_system = sys, ur_messages = ms, ur_tools = chat_tools tools,
            ur_tool_choice = chat_decode_tool_choice (jget ''tool_choice'' raw),
            ur_parallel_tool_calls = get_bool ''parallel_tool_calls'' raw,
            ur_sampling = chat_decode_sampling raw,
            ur_max_output_tokens = (case chat_u32 (jget ''max_completion_tokens'' raw) of
                Some n \<Rightarrow> Some n | None \<Rightarrow> chat_u32 (jget ''max_tokens'' raw)),
            ur_stream = (get_bool ''stream'' raw = Some True),
            ur_stream_include_usage =
              (Option.bind (jget ''stream_options'' raw) (get_bool ''include_usage'') = Some True),
            ur_reasoning = map_option (\<lambda>e. \<lparr>rc_effort = Some e, rc_budget_tokens = None,
                rc_include_thoughts = None\<rparr>) (get_str ''reasoning_effort'' raw),
            ur_response_format = Option.bind (jget ''response_format'' raw) chat_parse_response_format,
            ur_user = get_str ''user'' raw,
            ur_extensions = collect_unknown chat_ext chat_known_request obj ext\<rparr>))))"

subsection \<open>Writing a request\<close>

fun chat_part_json :: "codec_lib \<Rightarrow> content_part \<Rightarrow> json option" where
  "chat_part_json lib (TextPart t) = Some (JObj [(''type'', JStr ''text''), (''text'', JStr t)])"
| "chat_part_json lib (ImagePart source mime detail) = Some (JObj [(''type'', JStr ''image_url''),
     (''image_url'', JObj ((''url'', JStr (to_data_uri (cl_base64 lib) source mime))
        # if_some ''detail'' detail JStr))])"
| "chat_part_json lib (AudioPart source format) = Some (JObj [(''type'', JStr ''input_audio''),
     (''input_audio'', JObj [(''data'', JStr (case source of Base64 d \<Rightarrow> d
          | other \<Rightarrow> to_data_uri (cl_base64 lib) other None)),
        (''format'', JStr (str_or ''wav'' format))])])"
| "chat_part_json lib (FilePart source mime name) = Some (JObj [(''type'', JStr ''file''),
     (''file'', JObj ((case source of FileId i \<Rightarrow> (''file_id'', JStr i)
          | other \<Rightarrow> (''file_data'', JStr (to_data_uri (cl_base64 lib) other mime)))
        # if_some ''filename'' name JStr))])"
| "chat_part_json lib (RefusalPart t) = Some (JObj [(''type'', JStr ''refusal''), (''refusal'', JStr t)])"
| "chat_part_json lib _ = None"

definition chat_content_json :: "codec_lib \<Rightarrow> content_part list \<Rightarrow> json" where
  "chat_content_json lib parts = (
     if parts = [] then JStr []
     else if list_all is_text parts then JStr (text_of_parts parts)
     else JArr (filter_map (chat_part_json lib) parts))"

fun chat_response_format_json :: "response_format \<Rightarrow> json" where
  "chat_response_format_json TextFormat = JObj [(''type'', JStr ''text'')]"
| "chat_response_format_json JsonObjectFormat = JObj [(''type'', JStr ''json_object'')]"
| "chat_response_format_json (JsonSchemaFormat name schema strict) = JObj [(''type'', JStr ''json_schema''),
     (''json_schema'', JObj [(''name'', JStr name), (''schema'', schema), (''strict'', JBool strict)])]"

definition chat_tool_json :: "tool_def \<Rightarrow> json" where
  "chat_tool_json t = JObj [(''type'', JStr ''function''), (''function'', JObj (
     [(''name'', JStr (td_name t))] @ if_some ''description'' (td_description t) JStr
     @ [(''parameters'', td_parameters t)] @ if_some ''strict'' (td_strict t) JBool))]"

text \<open>The arguments of a call are a JSON text; a text is taken as it is.\<close>

definition chat_call_json :: "codec_lib \<Rightarrow> string \<Rightarrow> string \<Rightarrow> json \<Rightarrow> json" where
  "chat_call_json lib cid name input = JObj [(''id'', JStr cid), (''type'', JStr ''function''),
     (''function'', JObj [(''name'', JStr name),
        (''arguments'', JStr (case input of JStr s \<Rightarrow> s | other \<Rightarrow> cl_print lib other))])]"

fun is_media :: "content_part \<Rightarrow> bool" where
  "is_media (ImagePart _ _ _) = True"
| "is_media (AudioPart _ _) = True"
| "is_media (FilePart _ _ _) = True"
| "is_media _ = False"

definition chat_encode_tool_result :: "codec_lib \<Rightarrow> string \<Rightarrow> content_part list \<Rightarrow> json list" where
  "chat_encode_tool_result lib tid content = (
     let media = filter is_media (filter (\<lambda>p. \<not> is_text p) content) in
     JObj [(''role'', JStr ''tool''), (''tool_call_id'', JStr tid),
       (''content'', chat_content_json lib (filter is_text content))]
     # (if media = [] then [] else [JObj [(''role'', JStr ''user''), (''content'', JArr (
          JObj [(''type'', JStr ''text''), (''text'', JStr (''[attachment from tool call '' @ tid @ '']''))]
          # filter_map (chat_part_json lib) media))]]))"

fun chat_result_messages :: "codec_lib \<Rightarrow> content_part list \<Rightarrow> json list" where
  "chat_result_messages lib [] = []"
| "chat_result_messages lib (p # ps) = (case p of
     ToolResult tid _ content _ \<Rightarrow> chat_encode_tool_result lib tid content @ chat_result_messages lib ps
   | _ \<Rightarrow> chat_result_messages lib ps)"

fun is_result :: "content_part \<Rightarrow> bool" where
  "is_result (ToolResult _ _ _ _) = True"
| "is_result _ = False"

text \<open>The loop that sorts the parts of a message: calls, refusal text, and what is shown.\<close>

fun chat_calls :: "codec_lib \<Rightarrow> content_part list \<Rightarrow> json list" where
  "chat_calls lib [] = []"
| "chat_calls lib (p # ps) = (case p of
     ToolUsePart i n v _ \<Rightarrow> chat_call_json lib i n v # chat_calls lib ps | _ \<Rightarrow> chat_calls lib ps)"

fun chat_refusal :: "content_part list \<Rightarrow> string option" where
  "chat_refusal [] = None"
| "chat_refusal (p # ps) = (case p of
     RefusalPart t \<Rightarrow> Some (t @ str_or [] (chat_refusal ps)) | _ \<Rightarrow> chat_refusal ps)"

fun is_visible :: "content_part \<Rightarrow> bool" where
  "is_visible (ToolUsePart _ _ _ _) = False"
| "is_visible (RefusalPart _) = False"
| "is_visible (ThinkingPart _ _) = False"
| "is_visible (RedactedThinking _) = False"
| "is_visible (ToolResult _ _ _ _) = False"
| "is_visible _ = True"

definition chat_shown_content :: "codec_lib \<Rightarrow> content_part list \<Rightarrow> json" where
  "chat_shown_content lib parts = (
     let visible = filter is_visible parts in
     if visible = [] \<and> (chat_calls lib parts \<noteq> [] \<or> chat_refusal parts \<noteq> None) then JNull
     else chat_content_json lib visible)"

fun chat_role :: "role \<Rightarrow> string" where
  "chat_role System = ''system''"
| "chat_role User = ''user''"
| "chat_role Assistant = ''assistant''"
| "chat_role Tool = ''assistant''"

definition chat_encode_message :: "codec_lib \<Rightarrow> message \<Rightarrow> json list" where
  "chat_encode_message lib msg = (
     let parts = msg_content msg; results = chat_result_messages lib parts in
     if msg_role msg = Tool then
       results @ (if filter is_result parts = [] \<and> parts \<noteq> []
         then [JObj [(''role'', JStr ''user''), (''content'', chat_content_json lib parts)]] else [])
     else
       (if msg_role msg = User then results else [])
       @ (if filter is_visible parts = [] \<and> chat_calls lib parts = [] \<and> chat_refusal parts = None \<and> parts \<noteq> []
          then []
          else [JObj ([(''role'', JStr (chat_role (msg_role msg))),
                   (''content'', chat_shown_content lib parts)]
                 @ if_some ''refusal'' (chat_refusal parts) JStr
                 @ if_true ''tool_calls'' (chat_calls lib parts \<noteq> []) (JArr (chat_calls lib parts))
                 @ if_some ''name'' (msg_name msg) JStr)]))"

definition chat_system_message :: "codec_lib \<Rightarrow> unified_request \<Rightarrow> json list" where
  "chat_system_message lib ir = (if ur_system ir = [] then []
     else [JObj [(''role'', JStr ''system''), (''content'',
        if list_all is_text (ur_system ir) then JStr (system_text ir)
        else chat_content_json lib (ur_system ir))]])"

definition chat_stop_json :: "string list \<Rightarrow> json option" where
  "chat_stop_json stop = (case stop of [] \<Rightarrow> None | [s] \<Rightarrow> Some (JStr s) | _ \<Rightarrow> Some (JArr (map JStr stop)))"

definition chat_effort :: "unified_request \<Rightarrow> string option" where
  "chat_effort ir = Option.bind (ur_reasoning ir) (\<lambda>r. case rc_effort r of
     Some e \<Rightarrow> Some e | None \<Rightarrow> effort_or_from_budget (ur_max_output_tokens ir) r)"

definition chat_encode_tools :: "unified_request \<Rightarrow> json list" where
  "chat_encode_tools ir = map chat_tool_json (ur_tools ir)
     @ (case req_extension ir (chat_ext @ ''builtin_tools'') of Some (JArr b) \<Rightarrow> b | _ \<Rightarrow> [])"

fun chat_tool_choice_json :: "tool_choice \<Rightarrow> json option" where
  "chat_tool_choice_json Unspecified = None"
| "chat_tool_choice_json AutoChoice = Some (JStr ''auto'')"
| "chat_tool_choice_json Required = Some (JStr ''required'')"
| "chat_tool_choice_json NoTool = Some (JStr ''none'')"
| "chat_tool_choice_json (NamedTool n) = Some (JObj [(''type'', JStr ''function''),
     (''function'', JObj [(''name'', JStr n)])])"

definition chat_request_body :: "codec_lib \<Rightarrow> unified_request \<Rightarrow> jmap" where
  "chat_request_body lib ir = (let s = ur_sampling ir; tools = chat_encode_tools ir in
     [(''model'', JStr (ur_model ir)),
      (''messages'', JArr (chat_system_message lib ir @ concat (map (chat_encode_message lib) (ur_messages ir))))]
     @ if_some ''temperature'' (sa_temperature s) jfloat @ if_some ''top_p'' (sa_top_p s) jfloat
     @ if_some ''frequency_penalty'' (sa_frequency_penalty s) jfloat
     @ if_some ''presence_penalty'' (sa_presence_penalty s) jfloat
     @ if_some ''seed'' (sa_seed s) (\<lambda>w. JNum (JInt (sint w)))
     @ if_some ''n'' (sa_candidate_count s) (\<lambda>w. jnat (unat w))
     @ if_some ''stop'' (chat_stop_json (sa_stop s)) (\<lambda>v. v)
     @ if_some ''max_completion_tokens'' (ur_max_output_tokens ir) (\<lambda>w. jnat (unat w))
     @ if_true ''stream'' (ur_stream ir) (JBool True)
     @ if_true ''stream_options'' (ur_stream ir \<and> ur_stream_include_usage ir) (JObj [(''include_usage'', JBool True)])
     @ if_some ''reasoning_effort'' (chat_effort ir) JStr
     @ if_some ''response_format'' (ur_response_format ir) chat_response_format_json
     @ if_true ''tools'' (tools \<noteq> []) (JArr tools)
     @ if_some ''tool_choice'' (chat_tool_choice_json (ur_tool_choice ir)) (\<lambda>v. v)
     @ if_some ''parallel_tool_calls'' (ur_parallel_tool_calls ir) JBool
     @ if_some ''user'' (ur_user ir) JStr)"

definition chat_encode_request :: "codec_lib \<Rightarrow> unified_request \<Rightarrow> gateway_error + json" where
  "chat_encode_request lib ir = Inr (JObj (restore_extensions chat_ext [''builtin_tools'']
     (ur_extensions ir) (chat_request_body lib ir)))"

subsection \<open>Requests that have a Chat form\<close>

definition mime_ok :: "string \<Rightarrow> bool" where
  "mime_ok m \<longleftrightarrow> m \<noteq> [] \<and> CHR '','' \<notin> set m \<and> CHR '';'' \<notin> set m"

text \<open>Parts that can be shown: inline media with their type, media by address, files by their id.\<close>

fun chat_part_ok :: "content_part \<Rightarrow> bool" where
  "chat_part_ok (TextPart _) = True"
| "chat_part_ok (ImagePart (Url u) None _) = (\<not> prefix ''data:'' u)"
| "chat_part_ok (ImagePart (Base64 _) (Some m) _) = mime_ok m"
| "chat_part_ok (AudioPart (Base64 d) (Some _)) = (\<not> prefix ''data:'' d \<and> \<not> prefix ''http'' d)"
| "chat_part_ok (FilePart (FileId _) None _) = True"
| "chat_part_ok (FilePart (Base64 _) (Some m) _) = mime_ok m"
| "chat_part_ok _ = False"

text \<open>Texts alone are joined, so a text stands alone or beside media.\<close>

fun chat_content_ok :: "content_part list \<Rightarrow> bool" where
  "chat_content_ok [] = True"
| "chat_content_ok [TextPart s] = (s \<noteq> [])"
| "chat_content_ok parts = (\<not> list_all is_text parts \<and> list_all chat_part_ok parts)"

fun chat_call_ok :: "codec_lib \<Rightarrow> content_part \<Rightarrow> bool" where
  "chat_call_ok lib (ToolUsePart _ _ v None) = ((case v of JStr _ \<Rightarrow> False | _ \<Rightarrow> True)
     \<and> trim (cl_print lib v) \<noteq> [] \<and> cl_parse lib (cl_print lib v) = Some v)"
| "chat_call_ok lib _ = False"

fun is_refusal :: "content_part \<Rightarrow> bool" where
  "is_refusal (RefusalPart _) = True"
| "is_refusal _ = False"

definition chat_answer_ok :: "codec_lib \<Rightarrow> content_part list \<Rightarrow> bool" where
  "chat_answer_ok lib parts \<longleftrightarrow> (\<exists>vis ref calls. parts = vis @ ref @ calls \<and> chat_content_ok vis
     \<and> (ref = [] \<or> (\<exists>t. t \<noteq> [] \<and> ref = [RefusalPart t])) \<and> list_all (chat_call_ok lib) calls)"

lemma strip_prefix_other: "\<not> prefix p s \<Longrightarrow> strip_prefix p s = None"
  by (simp add: strip_prefix_def)

lemma parse_plain_uri: "\<not> prefix ''data:'' u \<Longrightarrow> parse_data_uri u = (Url u, None)"
  by (simp add: parse_data_uri_def strip_prefix_other)

lemma chat_part_back: "chat_part_ok p \<Longrightarrow> \<exists>v. chat_part_json lib p = Some v \<and> chat_parse_content_part v = Some p"
  by (induction p rule: chat_part_ok.induct)
     (auto simp: chat_image_part_def chat_audio_part_def chat_file_part_def parse_plain_uri mime_ok_def
        data_uri_roundtrip get_str_def simp del: to_data_uri.simps(2) split: option.split)

lemma chat_parts_back:
  "list_all chat_part_ok ps \<Longrightarrow> filter_map chat_parse_content_part (filter_map (chat_part_json lib) ps) = ps"
proof (induction ps)
  case (Cons p ps)
  then obtain v where "chat_part_json lib p = Some v" "chat_parse_content_part v = Some p"
    using chat_part_back[of p lib] by auto
  then show ?case using Cons by simp
qed simp

lemma chat_content_ok_iff:
  "chat_content_ok ps \<longleftrightarrow> ps = [] \<or> (\<exists>s. s \<noteq> [] \<and> ps = [TextPart s])
     \<or> (\<not> list_all is_text ps \<and> list_all chat_part_ok ps)"
  by (induction ps rule: chat_content_ok.induct) auto

lemma chat_content_back:
  assumes "chat_content_ok ps"
  shows "chat_parse_content (Some (chat_content_json lib ps)) = ps"
  using assms unfolding chat_content_ok_iff by (auto simp: chat_content_json_def chat_parts_back)

fun chat_message_ok :: "codec_lib \<Rightarrow> message \<Rightarrow> bool" where
  "chat_message_ok lib m = (case msg_role m of
     System \<Rightarrow> False
   | User \<Rightarrow> chat_content_ok (msg_content m) \<and> list_all is_visible (msg_content m)
   | Assistant \<Rightarrow> chat_answer_ok lib (msg_content m)
   | Tool \<Rightarrow> msg_name m = None \<and> (case msg_content m of
        [ToolResult tid None content False] \<Rightarrow> tid \<noteq> [] \<and> chat_content_ok content \<and> list_all is_text content
      | _ \<Rightarrow> False))"

lemma part_ok_visible: "chat_part_ok p \<Longrightarrow> is_visible p"
  by (induction p rule: chat_part_ok.induct) auto

lemma content_ok_visible: "chat_content_ok ps \<Longrightarrow> list_all is_visible ps"
  unfolding chat_content_ok_iff by (auto simp: list_all_iff part_ok_visible)

lemma call_not_visible: "chat_call_ok lib p \<Longrightarrow> \<not> is_visible p \<and> \<not> is_refusal p \<and> \<not> is_result p"
  by (cases p) auto

lemma chat_calls_append: "chat_calls lib (xs @ ys) = chat_calls lib xs @ chat_calls lib ys"
  by (induction xs) (auto split: content_part.split)

lemma chat_calls_visible: "list_all is_visible ps \<Longrightarrow> chat_calls lib ps = []"
  by (induction ps) (auto split: content_part.split)

lemma chat_results_visible: "list_all is_visible ps \<Longrightarrow> chat_result_messages lib ps = []"
  by (induction ps) (auto split: content_part.split)

lemma chat_refusal_none: "list_all (\<lambda>p. \<not> is_refusal p) ps \<Longrightarrow> chat_refusal (ps @ qs) = chat_refusal qs"
  by (induction ps) (auto split: content_part.split)

lemma visible_no_refusal: "list_all is_visible ps \<Longrightarrow> list_all (\<lambda>p. \<not> is_refusal p) ps"
proof (rule list.pred_mono_strong)
  show "is_visible p \<Longrightarrow> \<not> is_refusal p" for p by (cases p) auto
qed

lemma chat_call_back: "chat_call_ok lib p \<Longrightarrow>
   \<exists>i n v. p = ToolUsePart i n v None \<and> chat_tool_call lib (chat_call_json lib i n v) = p"
  by (induction lib p rule: chat_call_ok.induct)
     (auto simp: chat_tool_call_def chat_call_json_def chat_arguments_def split: json.splits)

lemma chat_calls_back:
  "list_all (chat_call_ok lib) ps \<Longrightarrow> chat_parse_tool_calls lib (chat_calls lib ps) = ps
     \<and> (chat_calls lib ps = [] \<longleftrightarrow> ps = [])"
proof (induction ps)
  case (Cons p ps)
  then obtain i n v where "p = ToolUsePart i n v None" "chat_tool_call lib (chat_call_json lib i n v) = p"
    using chat_call_back[of lib p] by auto
  then show ?case using Cons by (simp add: chat_parse_tool_calls_def)
qed (simp add: chat_parse_tool_calls_def)

lemma filter_none: "list_all (\<lambda>p. \<not> P p) ps \<Longrightarrow> filter P ps = []"
  by (induction ps) auto

text \<open>What is shown of an answer, its refusal and its calls.\<close>

lemma chat_answer_parts:
  assumes "chat_content_ok vis" and "ref = [] \<or> (\<exists>t. t \<noteq> [] \<and> ref = [RefusalPart t])"
    and "list_all (chat_call_ok lib) calls" and "ps = vis @ ref @ calls"
  shows "filter is_visible ps = vis" and "chat_calls lib ps = chat_calls lib calls"
    and "chat_refusal ps = (case ref of [RefusalPart t] \<Rightarrow> Some t | _ \<Rightarrow> None)"
proof -
  have v: "list_all is_visible vis" using content_ok_visible[OF assms(1)] .
  have c: "list_all (\<lambda>p. \<not> is_visible p) calls" "list_all (\<lambda>p. \<not> is_refusal p) calls"
    using assms(3) by (auto simp: list_all_iff dest: call_not_visible)
  have r: "list_all (\<lambda>p. \<not> is_visible p) ref" "chat_calls lib ref = []" using assms(2) by auto
  show "filter is_visible ps = vis" using v c r by (auto simp: assms(4) filter_none filter_True list_all_iff)
  show "chat_calls lib ps = chat_calls lib calls"
    using r by (simp add: assms(4) chat_calls_append chat_calls_visible[OF v])
  show "chat_refusal ps = (case ref of [RefusalPart t] \<Rightarrow> Some t | _ \<Rightarrow> None)"
    using assms(2) chat_refusal_none[OF visible_no_refusal[OF v]] chat_refusal_none[OF c(2), of "[]"]
    by (auto simp: assms(4))
qed

definition chat_answer_fields :: "codec_lib \<Rightarrow> content_part list \<Rightarrow> jmap" where
  "chat_answer_fields lib ps = (''content'', chat_shown_content lib ps)
     # if_some ''refusal'' (chat_refusal ps) JStr
     @ if_true ''tool_calls'' (chat_calls lib ps \<noteq> []) (JArr (chat_calls lib ps))"

text \<open>An answer is read back from any object that has its fields and no others of an answer.\<close>

lemma chat_answer_back:
  assumes "chat_answer_ok lib ps"
    and "\<forall>k \<in> {''content'', ''refusal'', ''tool_calls''}. jget k m = map_of (chat_answer_fields lib ps) k"
    and "b \<Longrightarrow> jget ''reasoning_content'' m = None"
  shows "chat_assistant_parts lib b [] m = ps"
proof -
  obtain vis ref calls where ps: "ps = vis @ ref @ calls" and vis: "chat_content_ok vis"
    and ref: "ref = [] \<or> (\<exists>t. t \<noteq> [] \<and> ref = [RefusalPart t])" and calls: "list_all (chat_call_ok lib) calls"
    using assms(1) by (auto simp: chat_answer_ok_def)
  note parts = chat_answer_parts[OF vis ref calls ps]
  have shown: "chat_parse_content (Some (chat_shown_content lib ps)) = vis"
    using chat_content_back[OF vis] by (auto simp: chat_shown_content_def parts Let_def)
  have "b \<Longrightarrow> get_nonempty ''reasoning_content'' m = None"
    using assms(3) by (simp add: get_nonempty_def get_str_def)
  moreover have "chat_refusal_part m = ref"
    using ref assms(2) by (auto simp: chat_refusal_part_def get_nonempty_def get_str_def chat_answer_fields_def parts)
  moreover have "(case get_array ''tool_calls'' m of Some cs \<Rightarrow> chat_parse_tool_calls lib cs | None \<Rightarrow> []) = calls"
    using assms(2) chat_calls_back[OF calls] by (auto simp: get_array_def chat_answer_fields_def parts)
  moreover have "jget ''content'' m = Some (chat_shown_content lib ps)"
    using assms(2) by (simp add: chat_answer_fields_def)
  ultimately show ?thesis
    by (simp add: chat_assistant_parts_def chat_reasoning_part_def chat_restore_dropped_def shown[unfolded ps] ps)
qed

lemma user_answer_ok: "chat_content_ok ps \<Longrightarrow> chat_answer_ok lib ps"
  unfolding chat_answer_ok_def by (intro exI[of _ ps] exI[of _ "[]"]) simp

lemma answer_no_results: "chat_answer_ok lib ps \<Longrightarrow> list_all (\<lambda>p. \<not> is_result p) ps"
proof -
  have "chat_content_ok vis \<Longrightarrow> list_all (\<lambda>p. \<not> is_result p) vis" for vis
    by (drule content_ok_visible, erule list.pred_mono_strong) (case_tac z, auto)
  moreover have "list_all (chat_call_ok lib) calls \<Longrightarrow> list_all (\<lambda>p. \<not> is_result p) calls" for calls
    by (erule list.pred_mono_strong) (auto dest: call_not_visible)
  ultimately show "chat_answer_ok lib ps \<Longrightarrow> ?thesis"
    by (auto simp: chat_answer_ok_def)
qed

lemma chat_no_results: "list_all (\<lambda>p. \<not> is_result p) ps \<Longrightarrow> chat_result_messages lib ps = []"
  by (induction ps) (auto split: content_part.split)

lemma answer_shown:
  assumes "chat_answer_ok lib ps" and "ps \<noteq> []"
  shows "\<not> (filter is_visible ps = [] \<and> chat_calls lib ps = [] \<and> chat_refusal ps = None)"
proof -
  obtain vis ref calls where ps: "ps = vis @ ref @ calls" and vis: "chat_content_ok vis"
    and ref: "ref = [] \<or> (\<exists>t. t \<noteq> [] \<and> ref = [RefusalPart t])" and calls: "list_all (chat_call_ok lib) calls"
    using assms(1) by (auto simp: chat_answer_ok_def)
  show ?thesis unfolding chat_answer_parts[OF vis ref calls ps]
    using assms(2)[unfolded ps] ref chat_calls_back[OF calls] by auto
qed

lemma chat_encode_answer:
  assumes "chat_answer_ok lib (msg_content m)" and "msg_role m \<noteq> Tool"
  shows "chat_encode_message lib m = [JObj ((''role'', JStr (chat_role (msg_role m)))
    # chat_answer_fields lib (msg_content m) @ if_some ''name'' (msg_name m) JStr)]"
  using answer_shown[OF assms(1)] chat_no_results[OF answer_no_results[OF assms(1)]] assms(2)
  by (auto simp: chat_encode_message_def Let_def chat_answer_fields_def)

lemma text_results: "list_all is_text ps \<Longrightarrow> filter is_text ps = ps \<and> filter is_media (filter (\<lambda>p. \<not> is_text p) ps) = []"
  by (induction ps) auto

lemma chat_message_back:
  assumes "chat_message_ok lib m"
  shows "\<exists>j. chat_encode_message lib m = [j] \<and> chat_decode_message lib None i j (sys, ms) = Inr (sys, ms @ [m])"
proof (cases "msg_role m")
  case System
  then show ?thesis using assms by simp
next
  case User
  then have c: "chat_content_ok (msg_content m)" using assms by simp
  have "filter is_visible (msg_content m) = msg_content m" "chat_calls lib (msg_content m) = []"
    "chat_refusal (msg_content m) = None"
    using content_ok_visible[OF c] chat_calls_visible[of "msg_content m"] visible_no_refusal[of "msg_content m"]
      chat_refusal_none[of "msg_content m" "[]"] by (auto simp: list_all_iff filter_id_conv)
  then have f: "chat_answer_fields lib (msg_content m) = [(''content'', chat_content_json lib (msg_content m))]"
    by (simp add: chat_answer_fields_def chat_shown_content_def if_some_def if_true_def)
  show ?thesis
    by (rule exI, rule conjI[OF chat_encode_answer[OF user_answer_ok[OF c]]])
       (simp_all add: User chat_decode_message_def f chat_content_back[OF c])
next
  case Assistant
  then have c: "chat_answer_ok lib (msg_content m)" using assms by simp
  let ?j = "JObj ((''role'', JStr ''assistant'') # chat_answer_fields lib (msg_content m) @ if_some ''name'' (msg_name m) JStr)"
  have "chat_assistant_parts lib True [] ?j = msg_content m"
    by (rule chat_answer_back[OF c]) (auto simp: chat_answer_fields_def split: option.split)
  then show ?thesis
    by (intro exI[of _ ?j] conjI)
       (simp_all add: chat_encode_answer[OF c] Assistant chat_decode_message_def chat_dropped_for_def,
        simp add: chat_answer_fields_def Assistant[symmetric])
next
  case Tool
  then obtain tid nm content where c: "msg_content m = [ToolResult tid None content False]" "tid \<noteq> []" "msg_name m = None"
    "chat_content_ok content" "list_all is_text content"
    using assms by (auto split: list.splits content_part.splits option.splits bool.splits)
  then show ?thesis
    using chat_content_back[OF c(4), of lib] text_results[OF c(5)] Tool
    by (auto simp: chat_encode_message_def chat_encode_tool_result_def chat_decode_message_def Let_def
        get_nonempty_def message_new_def intro!: message.equality)
qed

lemma chat_messages_back:
  "list_all (chat_message_ok lib) ms \<Longrightarrow>
   chat_decode_messages lib None i (concat (map (chat_encode_message lib) ms)) (sys, acc) = Inr (sys, acc @ ms)"
proof (induction ms arbitrary: i acc)
  case (Cons m ms)
  then obtain j where "chat_encode_message lib m = [j]" "chat_decode_message lib None i j (sys, acc) = Inr (sys, acc @ [m])"
    using chat_message_back[of lib m i sys acc] by auto
  then show ?case using Cons by simp
qed simp

subsection \<open>Requests go round\<close>

definition chat_sampling_ok :: "sampling \<Rightarrow> bool" where
  "chat_sampling_ok s \<longleftrightarrow> sa_top_k s = None \<and> list_all (\<lambda>x. case x of Some y \<Rightarrow> finite_f64 y | None \<Rightarrow> True)
     [sa_temperature s, sa_top_p s, sa_frequency_penalty s, sa_presence_penalty s]"

definition chat_builtins_ok :: "json \<Rightarrow> bool" where
  "chat_builtins_ok v = (case v of JArr b \<Rightarrow> b \<noteq> [] \<and> list_all (\<lambda>t. jget ''function'' t = None) b | _ \<Rightarrow> False)"

definition chat_extensions_ok :: "string list \<Rightarrow> extensions \<Rightarrow> bool" where
  "chat_extensions_ok known ext \<longleftrightarrow> sorted_wrt (<) (map fst ext)
     \<and> list_all (\<lambda>e. prefix chat_ext (fst e) \<and> fst e \<noteq> chat_ext \<and> fst (ext_field chat_ext e) \<notin> set known
         \<and> (fst e = ''chat.builtin_tools'' \<longrightarrow> chat_builtins_ok (snd e))) ext"

definition chat_request_ok :: "codec_lib \<Rightarrow> unified_request \<Rightarrow> bool" where
  "chat_request_ok lib r \<longleftrightarrow> ur_model r \<noteq> []
     \<and> (case ur_system r of [] \<Rightarrow> True | [TextPart s] \<Rightarrow> s \<noteq> [] | _ \<Rightarrow> False)
     \<and> list_all (chat_message_ok lib) (ur_messages r) \<and> chat_sampling_ok (ur_sampling r)
     \<and> (ur_stream_include_usage r \<longrightarrow> ur_stream r)
     \<and> (case ur_reasoning r of None \<Rightarrow> True
        | Some c \<Rightarrow> rc_effort c \<noteq> None \<and> rc_budget_tokens c = None \<and> rc_include_thoughts c = None)
     \<and> chat_extensions_ok chat_known_request (ur_extensions r)"

lemma chat_body_keys: "fst ` set (chat_request_body lib r) \<subseteq> set chat_known_request"
  by (simp only: chat_request_body_def Let_def set_append image_Un)
     (intro Un_least keys_within; simp add: chat_known_request_def)

text \<open>The extensions behind the body, with the built-in tools taken out.\<close>

definition chat_other_ext :: "extensions \<Rightarrow> extensions" where
  "chat_other_ext ext = filter (\<lambda>e. fst e \<noteq> ''chat.builtin_tools'') ext"

lemma chat_restored:
  assumes "chat_extensions_ok chat_known_request ext" and "fst ` set body \<subseteq> set chat_known_request"
  shows "restore_extensions chat_ext [''builtin_tools''] ext body = body @ map (ext_field chat_ext) (chat_other_ext ext)"
proof -
  have ext: "\<forall>e \<in> set ext. prefix chat_ext (fst e) \<and> fst e \<noteq> chat_ext \<and> fst (ext_field chat_ext e) \<notin> set chat_known_request"
    using assms(1) by (simp add: chat_extensions_ok_def list_all_iff)
  have "distinct (map fst ext)" using assms(1) by (simp add: chat_extensions_ok_def strict_sorted_iff)
  then have "restore_extensions chat_ext [''builtin_tools''] ext body
      = body @ map (ext_field chat_ext) (filter (\<lambda>e. fst (ext_field chat_ext e) \<notin> set [''builtin_tools'']) ext)"
    using ext assms(2) by (intro restore_extensions_append) auto
  moreover have "fst (ext_field chat_ext e) \<notin> set [''builtin_tools''] \<longleftrightarrow> fst e \<noteq> ''chat.builtin_tools''" if "e \<in> set ext" for e
    using ext that by (auto simp: ext_field_def chat_ext_def prefix_def)
  ultimately show ?thesis by (auto simp: chat_other_ext_def cong: filter_cong)
qed

lemma chat_extensions_back:
  assumes "chat_extensions_ok known ext" and "fst ` set body \<subseteq> set known"
    and "ext0 = (case map_of ext ''chat.builtin_tools'' of Some v \<Rightarrow> [(''chat.builtin_tools'', v)] | None \<Rightarrow> [])"
  shows "collect_unknown chat_ext known (body @ map (ext_field chat_ext) (chat_other_ext ext)) ext0 = ext"
proof (rule sorted_maps_eq)
  have sorted: "sorted_wrt (<) (map fst ext)" using assms(1) by (simp add: chat_extensions_ok_def)
  then show "sorted_wrt (<) (map fst ext)" .
  show "sorted_wrt (<) (map fst (collect_unknown chat_ext known (body @ map (ext_field chat_ext) (chat_other_ext ext)) ext0))"
    by (rule collect_unknown_sorted) (simp add: assms(3) split: option.split)
  have d: "distinct (map fst ext)" using sorted by (simp add: strict_sorted_iff)
  have "map_of (collect_unknown chat_ext known (map (ext_field chat_ext) (chat_other_ext ext)) ext0)
      = map_of ext0 ++ map_of (chat_other_ext ext)"
    using assms(1) d by (intro collect_unknown_map) (auto simp: chat_extensions_ok_def chat_other_ext_def list_all_iff)
  moreover have "map_of (chat_other_ext ext) = (map_of ext)(''chat.builtin_tools'' := None)"
    unfolding chat_other_ext_def by (induction ext) (auto simp: fun_eq_iff)
  ultimately show "map_of (collect_unknown chat_ext known (body @ map (ext_field chat_ext) (chat_other_ext ext)) ext0) = map_of ext"
    by (auto simp: collect_unknown_known[OF assms(2)] assms(3) fun_eq_iff split: option.split)
qed

lemma chat_tools_back:
  "chat_tools (map chat_tool_json ts @ b) = ts @ chat_tools b"
  "chat_builtins (map chat_tool_json ts @ b) = chat_builtins b"
proof (induction ts)
  case (Cons t ts)
  case 1
  then show ?case using Cons
    by (cases "td_description t") (auto simp: chat_tools_def chat_tool_json_def chat_function_tool_def)
next
  case (Cons t ts)
  case 2
  then show ?case using Cons by (simp add: chat_builtins_def chat_tool_json_def)
qed simp_all

lemma chat_tool_choice_back: "chat_decode_tool_choice (chat_tool_choice_json c) = c"
  by (cases c) (simp_all add: chat_decode_tool_choice_def)

lemma chat_response_format_back: "chat_parse_response_format (chat_response_format_json f) = Some f"
  by (cases f) (simp_all add: chat_parse_response_format_def)

lemma chat_stop_back: "chat_parse_stop (chat_stop_json ss) = ss"
proof -
  have strs: "filter_map as_str (map JStr xs) = xs" for xs by (induction xs) auto
  show ?thesis
  proof (cases ss)
    case (Cons a as)
    then show ?thesis using strs[of "a # as"] by (cases as) (simp_all add: chat_stop_json_def del: filter_map.simps)
  qed (simp add: chat_stop_json_def)
qed

lemma chat_u32_back: "chat_u32 (map_option (\<lambda>w. jnat (unat w)) x) = x"
proof (cases x)
  case (Some w)
  then show ?thesis using unat32[of w] by (simp add: chat_u32_def)
qed (simp add: chat_u32_def)

lemma chat_body_fields:
  "map_of (chat_request_body lib r) ''model'' = Some (JStr (ur_model r))"
  "map_of (chat_request_body lib r) ''messages'' =
     Some (JArr (chat_system_message lib r @ concat (map (chat_encode_message lib) (ur_messages r))))"
  "map_of (chat_request_body lib r) ''temperature'' = map_option jfloat (sa_temperature (ur_sampling r))"
  "map_of (chat_request_body lib r) ''top_p'' = map_option jfloat (sa_top_p (ur_sampling r))"
  "map_of (chat_request_body lib r) ''frequency_penalty'' = map_option jfloat (sa_frequency_penalty (ur_sampling r))"
  "map_of (chat_request_body lib r) ''presence_penalty'' = map_option jfloat (sa_presence_penalty (ur_sampling r))"
  "map_of (chat_request_body lib r) ''seed'' = map_option (\<lambda>w. JNum (JInt (sint w))) (sa_seed (ur_sampling r))"
  "map_of (chat_request_body lib r) ''n'' = map_option (\<lambda>w. jnat (unat w)) (sa_candidate_count (ur_sampling r))"
  "map_of (chat_request_body lib r) ''stop'' = chat_stop_json (sa_stop (ur_sampling r))"
  "map_of (chat_request_body lib r) ''max_completion_tokens'' = map_option (\<lambda>w. jnat (unat w)) (ur_max_output_tokens r)"
  "map_of (chat_request_body lib r) ''max_tokens'' = None"
  "map_of (chat_request_body lib r) ''dropped_thinking'' = None"
  "map_of (chat_request_body lib r) ''stream'' = (if ur_stream r then Some (JBool True) else None)"
  "map_of (chat_request_body lib r) ''stream_options'' = (if ur_stream r \<and> ur_stream_include_usage r
     then Some (JObj [(''include_usage'', JBool True)]) else None)"
  "map_of (chat_request_body lib r) ''reasoning_effort'' = map_option JStr (chat_effort r)"
  "map_of (chat_request_body lib r) ''response_format'' = map_option chat_response_format_json (ur_response_format r)"
  "map_of (chat_request_body lib r) ''tools'' = (if chat_encode_tools r = [] then None else Some (JArr (chat_encode_tools r)))"
  "map_of (chat_request_body lib r) ''tool_choice'' = chat_tool_choice_json (ur_tool_choice r)"
  "map_of (chat_request_body lib r) ''parallel_tool_calls'' = map_option JBool (ur_parallel_tool_calls r)"
  "map_of (chat_request_body lib r) ''user'' = map_option JStr (ur_user r)"
  by (simp_all add: chat_request_body_def Let_def map_option_case option_again cong: option.case_cong)

lemma chat_full_lookup:
  assumes "chat_extensions_ok known ext" and "k \<in> set known"
  shows "map_of (body @ map (ext_field chat_ext) (chat_other_ext ext)) k = map_of body k"
proof -
  have "map_of (map (ext_field chat_ext) (chat_other_ext ext)) k = None"
    using assms by (auto simp: map_of_eq_None_iff chat_other_ext_def chat_extensions_ok_def list_all_iff image_iff)
  then show ?thesis by (cases "map_of body k") simp_all
qed

lemma chat_system_back:
  assumes "case ur_system r of [] \<Rightarrow> True | [TextPart s] \<Rightarrow> s \<noteq> [] | _ \<Rightarrow> False"
    and "list_all (chat_message_ok lib) (ur_messages r)"
  shows "chat_decode_messages lib None 0 (chat_system_message lib r @ concat (map (chat_encode_message lib) (ur_messages r)))
      ([], []) = Inr (ur_system r, ur_messages r)"
proof (cases "ur_system r")
  case Nil
  then show ?thesis using chat_messages_back[OF assms(2), of 0 "[]" "[]"] by (simp add: chat_system_message_def)
next
  case (Cons p ps)
  then obtain s where s: "ur_system r = [TextPart s]" "s \<noteq> []"
    using assms(1) by (auto split: content_part.splits list.splits)
  then show ?thesis using chat_messages_back[OF assms(2), of "Suc 0" "[TextPart s]" "[]"]
    by (simp add: chat_system_message_def chat_decode_message_def system_text_def)
qed

lemma chat_builtins_back:
  assumes "chat_extensions_ok known (ur_extensions r)"
  shows "chat_tools (chat_encode_tools r) = ur_tools r"
    and "(if chat_builtins (chat_encode_tools r) = [] then []
       else btree_insert (chat_ext @ ''builtin_tools'') (JArr (chat_builtins (chat_encode_tools r))) [])
     = (case map_of (ur_extensions r) ''chat.builtin_tools'' of Some v \<Rightarrow> [(''chat.builtin_tools'', v)] | None \<Rightarrow> [])"
proof -
  have "\<exists>b. (case req_extension r (chat_ext @ ''builtin_tools'') of Some (JArr b) \<Rightarrow> b | _ \<Rightarrow> []) = b
      \<and> chat_builtins b = b \<and> chat_tools b = []
      \<and> (if b = [] then [] else [(''chat.builtin_tools'', JArr b)])
        = (case map_of (ur_extensions r) ''chat.builtin_tools'' of Some v \<Rightarrow> [(''chat.builtin_tools'', v)] | None \<Rightarrow> [])"
  proof (cases "map_of (ur_extensions r) ''chat.builtin_tools''")
    case None
    then show ?thesis by (simp add: req_extension_def chat_ext_def chat_builtins_def chat_tools_def)
  next
    case (Some v)
    then have "chat_builtins_ok v"
      using assms map_of_SomeD[OF Some] by (fastforce simp: chat_extensions_ok_def list_all_iff)
    then obtain b where b: "v = JArr b" "b \<noteq> []" "\<forall>t \<in> set b. jget ''function'' t = None"
      by (auto simp: chat_builtins_ok_def list_all_iff split: json.splits)
    have "chat_builtins b = b" "chat_tools b = []"
      using b(3) by (auto simp: chat_builtins_def chat_tools_def filter_id_conv) (induction b, auto)
    then show ?thesis using Some b by (simp add: req_extension_def chat_ext_def)
  qed
  then show "chat_tools (chat_encode_tools r) = ur_tools r"
    and "(if chat_builtins (chat_encode_tools r) = [] then []
       else btree_insert (chat_ext @ ''builtin_tools'') (JArr (chat_builtins (chat_encode_tools r))) [])
     = (case map_of (ur_extensions r) ''chat.builtin_tools'' of Some v \<Rightarrow> [(''chat.builtin_tools'', v)] | None \<Rightarrow> [])"
    by (auto simp: chat_encode_tools_def chat_tools_back) (auto simp: chat_ext_def)
qed

lemma chat_sampling_back:
  assumes "chat_sampling_ok s"
    and "jget ''temperature'' m = map_option jfloat (sa_temperature s)" "jget ''top_p'' m = map_option jfloat (sa_top_p s)"
    and "jget ''frequency_penalty'' m = map_option jfloat (sa_frequency_penalty s)"
    and "jget ''presence_penalty'' m = map_option jfloat (sa_presence_penalty s)"
    and "jget ''seed'' m = map_option (\<lambda>w. JNum (JInt (sint w))) (sa_seed s)"
    and "jget ''n'' m = map_option (\<lambda>w. jnat (unat w)) (sa_candidate_count s)"
    and "jget ''stop'' m = chat_stop_json (sa_stop s)"
  shows "chat_decode_sampling m = s"
  using assms
  by (simp add: chat_decode_sampling_def chat_sampling_ok_def get_f64_def bind_back_f64 bind_back_i64 chat_u32_back
      chat_stop_back)

text \<open>\<open>C11\<close>. A request in Chat form loses nothing: written for a Chat upstream and read again it is the
  same request, every message with its tool calls and results, every tool, every setting
  and every extension included.\<close>

theorem chat_request_roundtrip:
  assumes "chat_request_ok lib r"
  shows "rbind (chat_encode_request lib r) (chat_decode_request lib) = Inr r"
proof -
  define full where "full = chat_request_body lib r @ map (ext_field chat_ext) (chat_other_ext (ur_extensions r))"
  have ok: "chat_extensions_ok chat_known_request (ur_extensions r)" "chat_sampling_ok (ur_sampling r)" "ur_model r \<noteq> []"
    "ur_stream_include_usage r \<longrightarrow> ur_stream r"
    using assms by (simp_all add: chat_request_ok_def)
  have f: "map_of full k = map_of (chat_request_body lib r) k" if "k \<in> set chat_known_request" for k
    unfolding full_def by (rule chat_full_lookup[OF ok(1) that])
  note fs = f[unfolded chat_known_request_def] chat_body_fields
  have enc: "chat_encode_request lib r = Inr (JObj full)"
    by (simp add: chat_encode_request_def full_def chat_restored[OF ok(1) chat_body_keys])
  have ms: "chat_decode_messages lib None 0 (chat_system_message lib r @ concat (map (chat_encode_message lib) (ur_messages r)))
      ([], []) = Inr (ur_system r, ur_messages r)"
    using assms by (intro chat_system_back) (simp_all add: chat_request_ok_def)
  have sampling: "chat_decode_sampling (JObj full) = ur_sampling r"
    by (rule chat_sampling_back[OF ok(2)]) (simp_all add: fs)
  have tools: "(case get_array ''tools'' (JObj full) of Some ts \<Rightarrow> ts | None \<Rightarrow> []) = chat_encode_tools r"
    by (simp add: fs)
  have exts: "collect_unknown chat_ext chat_known_request full
      (if chat_builtins (chat_encode_tools r) = [] then []
       else btree_insert (chat_ext @ ''builtin_tools'') (JArr (chat_builtins (chat_encode_tools r))) []) = ur_extensions r"
    unfolding full_def by (rule chat_extensions_back[OF ok(1) chat_body_keys chat_builtins_back(2)[OF ok(1)]])
  have reasoning: "map_option (\<lambda>e. \<lparr>rc_effort = Some e, rc_budget_tokens = None, rc_include_thoughts = None\<rparr>)
      (get_str ''reasoning_effort'' (JObj full)) = ur_reasoning r"
    using assms by (cases "ur_reasoning r") (auto simp: fs chat_request_ok_def chat_effort_def)
  have stream: "Option.bind (jget ''stream_options'' (JObj full)) (get_bool ''include_usage'') = Some True \<longleftrightarrow> ur_stream_include_usage r"
    using ok(4) by (auto simp: fs)
  have format: "Option.bind (jget ''response_format'' (JObj full)) chat_parse_response_format = ur_response_format r"
    by (cases "ur_response_format r") (simp_all add: fs chat_response_format_back)
  have limit: "(case chat_u32 (jget ''max_completion_tokens'' (JObj full)) of Some n \<Rightarrow> Some n
      | None \<Rightarrow> chat_u32 (jget ''max_tokens'' (JObj full))) = ur_max_output_tokens r"
    by (simp add: fs chat_u32_back option_again) (simp add: chat_u32_def fs split: option.split)
  have heads: "get_nonempty ''model'' (JObj full) = Some (ur_model r)"
    "get_array ''messages'' (JObj full) = Some (chat_system_message lib r @ concat (map (chat_encode_message lib) (ur_messages r)))"
    "get_array ''dropped_thinking'' (JObj full) = None"
    using ok(3) by (simp_all add: get_nonempty_def fs)
  have rest: "chat_decode_tool_choice (jget ''tool_choice'' (JObj full)) = ur_tool_choice r"
    "get_bool ''parallel_tool_calls'' (JObj full) = ur_parallel_tool_calls r" "get_str ''user'' (JObj full) = ur_user r"
    "get_bool ''stream'' (JObj full) = Some True \<longleftrightarrow> ur_stream r"
    by (simp_all add: fs chat_tool_choice_back)
  show ?thesis
    by (simp add: enc chat_decode_request_def Let_def heads ms tools exts reasoning stream format limit sampling rest
        chat_builtins_back(1)[OF ok(1)] del: jget.simps field_simps)
qed

text \<open>A conversation with a picture, a tool call, its result and a field of the vendor's own.\<close>

definition tiny_codec_lib :: codec_lib where
  "tiny_codec_lib = \<lparr>cl_parse = (\<lambda>s. if s = ''{}'' then Some (JObj []) else None),
     cl_print = (\<lambda>_. ''{}''), cl_base64 = (\<lambda>s. s)\<rparr>"

definition chat_talk :: unified_request where
  "chat_talk = (request_new ''gpt'' [
     message_new User [TextPart ''look'', ImagePart (Base64 ''QUJD'') (Some ''image/png'') None],
     message_new Assistant [TextPart ''wait'', ToolUsePart ''c1'' ''scan'' (JObj []) None],
     message_new Tool [ToolResult ''c1'' None [TextPart ''a cat''] False]])
     \<lparr>ur_system := [TextPart ''be brief''], ur_stream := True, ur_max_output_tokens := Some 100,
       ur_extensions := [(''chat.store'', JBool True)]\<rparr>"

theorem chat_request_roundtrip_witness:
  "rbind (chat_encode_request tiny_codec_lib chat_talk) (chat_decode_request tiny_codec_lib) = Inr chat_talk"
proof (rule chat_request_roundtrip)
  have t: "trim ''{}'' \<noteq> []" by code_simp
  have "chat_answer_ok tiny_codec_lib [TextPart ''wait'', ToolUsePart ''c1'' ''scan'' (JObj []) None]"
    unfolding chat_answer_ok_def
    by (rule exI[of _ "[TextPart ''wait'']"], rule exI[of _ "[]"],
        rule exI[of _ "[ToolUsePart ''c1'' ''scan'' (JObj []) None]"]) (simp add: tiny_codec_lib_def t)
  moreover have "chat_extensions_ok chat_known_request (ur_extensions chat_talk)" by code_simp
  moreover have "chat_sampling_ok (ur_sampling chat_talk)" by code_simp
  ultimately show "chat_request_ok tiny_codec_lib chat_talk"
    by (simp add: chat_request_ok_def chat_talk_def request_new_def message_new_def mime_ok_def)
qed

subsection \<open>Tool results keep their place\<close>

definition wire_tool_id :: "json \<Rightarrow> string option" where
  "wire_tool_id j = (if get_str ''role'' j = Some ''tool'' then get_str ''tool_call_id'' j else None)"

fun result_id :: "content_part \<Rightarrow> string option" where
  "result_id (ToolResult tid _ _ _) = Some tid"
| "result_id _ = None"

definition result_ids :: "message \<Rightarrow> string list" where
  "result_ids m = (if msg_role m \<in> {Tool, User} then filter_map result_id (msg_content m) else [])"

lemma wire_ids_results: "filter_map wire_tool_id (chat_result_messages lib ps) = filter_map result_id ps"
  by (induction ps) (auto simp: chat_encode_tool_result_def wire_tool_id_def Let_def split: content_part.split)

text \<open>No tool result is lost, doubled or moved: the tool messages of the written request carry the
  identifiers of the results of the conversation, in their order, whether the results stood
  in a tool message, several to a message, or in a user message beside new input.\<close>

theorem chat_tool_results_kept:
  "filter_map wire_tool_id (concat (map (chat_encode_message lib) ms)) = concat (map result_ids ms)"
proof (induction ms)
  case (Cons m ms)
  have "filter_map wire_tool_id (chat_encode_message lib m) = result_ids m"
    by (cases "msg_role m")
       (simp_all add: chat_encode_message_def Let_def wire_ids_results result_ids_def wire_tool_id_def)
  then show ?case using Cons by simp
qed simp

subsection \<open>What is accepted\<close>

definition chat_accepted :: "message \<Rightarrow> bool" where
  "chat_accepted m \<longleftrightarrow> msg_role m \<noteq> System \<and> (msg_role m = Tool \<longrightarrow>
     (\<exists>tid content. tid \<noteq> [] \<and> msg_content m = [ToolResult tid None content False]))"

lemma chat_decode_message_cases:
  "case chat_decode_message lib dropped i m (sys, ms) of
     Inl e \<Rightarrow> ge_kind e = InvalidRequest
   | Inr (_, ms1) \<Rightarrow> list_all chat_accepted ms \<longrightarrow> list_all chat_accepted ms1"
  by (auto simp: chat_decode_message_def Let_def chat_accepted_def ge_invalid_request_def message_new_def
      get_nonempty_def split: option.split)

lemma chat_decode_messages_cases:
  "case chat_decode_messages lib dropped i js (sys, ms) of
     Inl e \<Rightarrow> ge_kind e = InvalidRequest
   | Inr (_, ms1) \<Rightarrow> list_all chat_accepted ms \<longrightarrow> list_all chat_accepted ms1"
proof (induction js arbitrary: i sys ms)
  case (Cons j js)
  show ?case using chat_decode_message_cases[where lib = lib and dropped = dropped and i = i and m = j and sys = sys and ms = ms] Cons
    by (cases "chat_decode_message lib dropped i j (sys, ms)") (fastforce split: sum.splits)+
qed simp

text \<open>A request is refused only as the client's mistake (which no other channel is tried for), and
  one that is accepted names a model, has its instructions apart from the conversation, and
  an identifier on every tool result.\<close>

theorem chat_request_refusals:
  "case chat_decode_request lib raw of
     Inl e \<Rightarrow> ge_kind e = InvalidRequest \<and> \<not> ge_retryable e
   | Inr r \<Rightarrow> ur_model r \<noteq> [] \<and> list_all chat_accepted (ur_messages r)"
proof -
  have refused: "ge_kind (ge_invalid_request t) = InvalidRequest" for t by (simp add: ge_invalid_request_def)
  have m: "get_nonempty ''model'' raw = Some s \<Longrightarrow> s \<noteq> []" for s
    by (auto simp: get_nonempty_def split: option.splits if_splits)
  have bad: "chat_decode_messages lib d 0 js ([], []) = Inl e \<Longrightarrow> ge_kind e = InvalidRequest"
    and good: "chat_decode_messages lib d 0 js ([], []) = Inr (sys, ms) \<Longrightarrow> list_all chat_accepted ms" for d js e sys ms
    using chat_decode_messages_cases[where lib = lib and dropped = d and i = 0 and js = js and sys = "[]" and ms = "[]"]
    by auto
  show ?thesis
  proof (cases "chat_decode_request lib raw")
    case (Inl e)
    then have "ge_kind e = InvalidRequest"
      by (auto simp: chat_decode_request_def Let_def rbind_def refused split: option.splits sum.splits prod.splits
          intro: bad)
    then show ?thesis using Inl by (simp add: ge_retryable_def kind_retryable_def)
  next
    case (Inr r)
    then show ?thesis
      by (auto simp: chat_decode_request_def Let_def rbind_Inr split: option.splits dest: m good)
  qed
qed

end
