(* ===== verification/Chat_Response.thy ===== *)
theory Chat_Response
  imports Chat_Request
begin

section \<open>Chat Completions: responses\<close>

text \<open>
  The response half of \<open>crates/refract-protocol/src/codec/chat.rs\<close>. A Chat answer has no place for
  thinking between its parts; the codec keeps each such part, with its signature and its
  position, in a field of its own and puts it back when it reads the answer.
\<close>

definition chat_known_response :: "string list" where
  "chat_known_response = [''id'', ''object'', ''created'', ''model'', ''choices'', ''usage'', ''dropped_thinking'']"

definition chat_parse_usage :: "json \<Rightarrow> usage" where
  "chat_parse_usage raw = (let num = (\<lambda>v. case v of Some n \<Rightarrow> n | None \<Rightarrow> 0) in
     \<lparr>us_input_tokens = num (get_u64 ''prompt_tokens'' raw),
      us_output_tokens = num (get_u64 ''completion_tokens'' raw),
      us_cached_input_tokens = num (Option.bind (jget ''prompt_tokens_details'' raw) (get_u64 ''cached_tokens'')),
      us_cache_write_tokens = 0,
      us_reasoning_tokens = num (Option.bind (jget ''completion_tokens_details'' raw) (get_u64 ''reasoning_tokens''))\<rparr>)"

definition chat_usage_json :: "usage \<Rightarrow> json" where
  "chat_usage_json u = JObj ([(''prompt_tokens'', jnat (us_input_tokens u)),
      (''completion_tokens'', jnat (us_output_tokens u)), (''total_tokens'', jnat (usage_total u))]
     @ if_true ''prompt_tokens_details'' (us_cached_input_tokens u > 0)
         (JObj [(''cached_tokens'', jnat (us_cached_input_tokens u))])
     @ if_true ''completion_tokens_details'' (us_reasoning_tokens u > 0)
         (JObj [(''reasoning_tokens'', jnat (us_reasoning_tokens u))]))"

definition finish_reason_to_ir :: "string \<Rightarrow> stop_reason" where
  "finish_reason_to_ir s = (if s = ''stop'' then Stop else if s = ''length'' then MaxTokens
     else if s = ''tool_calls'' \<or> s = ''function_call'' then ToolUseStop
     else if s = ''content_filter'' then ContentFilter else OtherStop)"

fun stop_reason_to_finish :: "stop_reason \<Rightarrow> string" where
  "stop_reason_to_finish MaxTokens = ''length''"
| "stop_reason_to_finish ToolUseStop = ''tool_calls''"
| "stop_reason_to_finish ContentFilter = ''content_filter''"
| "stop_reason_to_finish _ = ''stop''"

definition chat_error_kind :: "string \<Rightarrow> string \<Rightarrow> error_kind" where
  "chat_error_kind t code = (
     if t = ''invalid_request_error'' then (if code = ''context_length_exceeded'' then PayloadTooLarge else InvalidRequest)
     else if t = ''authentication_error'' then Unauthenticated
     else if t = ''permission_error'' \<or> t = ''insufficient_quota'' then PermissionDenied
     else if t = ''not_found_error'' then NotFound
     else if t = ''rate_limit_error'' \<or> code = ''rate_limit_exceeded'' then RateLimited
     else if code = ''model_not_found'' then NotFound else UpstreamError)"

definition chat_error_from_body :: "json \<Rightarrow> gateway_error" where
  "chat_error_from_body err = (
     let message = str_or ''upstream returned an error'' (get_str ''message'' err);
         kind = chat_error_kind (str_or [] (get_str ''type'' err)) (str_or [] (get_str ''code'' err))
     in with_protocol Chat (gateway_error_new kind (case get_str ''param'' err of
          Some p \<Rightarrow> message @ '' (param: '' @ p @ '')'' | None \<Rightarrow> message)))"

definition chat_error_field :: "json \<Rightarrow> json option" where
  "chat_error_field raw = (case jget ''error'' raw of Some v \<Rightarrow> if is_null v then None else Some v | None \<Rightarrow> None)"

subsection \<open>Reading a response\<close>

fun is_object :: "json \<Rightarrow> bool" where
  "is_object (JObj _) = True"
| "is_object _ = False"

definition chat_choice_message :: "json \<Rightarrow> json" where
  "chat_choice_message choice = (case jget ''message'' choice of Some m \<Rightarrow> m | None \<Rightarrow> JNull)"

definition chat_choices :: "json \<Rightarrow> json list" where
  "chat_choices raw = (case get_array ''choices'' raw of Some cs \<Rightarrow> cs | None \<Rightarrow> [])"

definition chat_decode_response :: "codec_lib \<Rightarrow> int \<Rightarrow> json \<Rightarrow> gateway_error + unified_response" where
  "chat_decode_response lib now raw = (case chat_error_field raw of
     Some err \<Rightarrow> Inl (chat_error_from_body err)
   | None \<Rightarrow> (case as_object raw of
     None \<Rightarrow> Inl (ge_invalid_request ''response body must be a JSON object'')
   | Some obj \<Rightarrow>
       let resp = response_new (str_or [] (get_str ''id'' raw)) (str_or [] (get_str ''model'' raw))
             (case Option.bind (jget ''created'' raw) as_i64 of Some t \<Rightarrow> t | None \<Rightarrow> now);
           resp1 = (case chat_choices raw of
               [] \<Rightarrow> resp
             | choice # _ \<Rightarrow>
                 let dropped = get_array ''dropped_thinking'' raw
                 in resp\<lparr>rs_content := chat_assistant_parts lib (dropped = None)
                       (case dropped of Some items \<Rightarrow> items | None \<Rightarrow> []) (chat_choice_message choice),
                      rs_stop_reason := map_option finish_reason_to_ir (get_str ''finish_reason'' choice)\<rparr>);
           resp2 = (case jget ''usage'' raw of
               Some u \<Rightarrow> if is_object u then resp1\<lparr>rs_usage := chat_parse_usage u\<rparr> else resp1
             | None \<Rightarrow> resp1)
       in Inr (resp2\<lparr>rs_extensions := collect_unknown chat_ext chat_known_response obj []\<rparr>)))"

subsection \<open>Writing a response\<close>

fun chat_dropped_records :: "nat \<Rightarrow> content_part list \<Rightarrow> json list" where
  "chat_dropped_records pi [] = []"
| "chat_dropped_records pi (p # ps) = (case p of
     ThinkingPart t sig \<Rightarrow> [JObj ([(''position'', jnat pi), (''text'', JStr t)] @ if_some ''signature'' sig JStr)]
   | RedactedThinking d \<Rightarrow> [JObj [(''position'', jnat pi), (''redacted'', JStr d)]]
   | _ \<Rightarrow> []) @ chat_dropped_records (Suc pi) ps"

fun chat_reasoning_text :: "content_part list \<Rightarrow> string" where
  "chat_reasoning_text [] = []"
| "chat_reasoning_text (p # ps) = (case p of
     ThinkingPart t _ \<Rightarrow> t @ chat_reasoning_text ps | _ \<Rightarrow> chat_reasoning_text ps)"

definition chat_response_message :: "codec_lib \<Rightarrow> content_part list \<Rightarrow> json" where
  "chat_response_message lib parts = JObj (
     [(''role'', JStr ''assistant''), (''content'', chat_shown_content lib parts)]
     @ if_true ''reasoning_content'' (chat_reasoning_text parts \<noteq> []) (JStr (chat_reasoning_text parts))
     @ if_some ''refusal'' (chat_refusal parts) JStr
     @ if_true ''tool_calls'' (chat_calls lib parts \<noteq> []) (JArr (chat_calls lib parts)))"

definition chat_response_body :: "codec_lib \<Rightarrow> unified_response \<Rightarrow> jmap" where
  "chat_response_body lib r = (let dropped = chat_dropped_records 0 (rs_content r) in
     [(''id'', JStr (rs_id r)), (''object'', JStr ''chat.completion''), (''created'', JNum (JInt (rs_created r))),
      (''model'', JStr (rs_model r)),
      (''choices'', JArr [JObj [(''index'', jnat 0), (''message'', chat_response_message lib (rs_content r)),
         (''finish_reason'', case rs_stop_reason r of Some s \<Rightarrow> JStr (stop_reason_to_finish s) | None \<Rightarrow> JNull)]]),
      (''usage'', chat_usage_json (rs_usage r))]
     @ if_true ''dropped_thinking'' (dropped \<noteq> []) (JArr dropped))"

definition chat_encode_response :: "codec_lib \<Rightarrow> unified_response \<Rightarrow> gateway_error + json" where
  "chat_encode_response lib r = Inr (JObj (restore_extensions chat_ext [''builtin_tools'']
     (rs_extensions r) (chat_response_body lib r)))"

subsection \<open>Thinking keeps its place\<close>

fun is_hidden :: "content_part \<Rightarrow> bool" where
  "is_hidden (ThinkingPart _ _) = True"
| "is_hidden (RedactedThinking _) = True"
| "is_hidden _ = False"

lemma chat_dropped_record:
  assumes "is_hidden p" and "i < 2 ^ 64"
  obtains r where "chat_dropped_records i (p # ps) = r # chat_dropped_records (Suc i) ps"
    "get_u64 ''position'' r = Some i" "chat_dropped_part r = p"
  using assms by (cases p) (auto simp: chat_dropped_part_def)

lemma chat_dropped_skip: "\<not> is_hidden p \<Longrightarrow> chat_dropped_records i (p # ps) = chat_dropped_records (Suc i) ps"
  by (cases p) auto

lemma chat_dropped_back:
  "length pre + length ps < 2 ^ 64 \<Longrightarrow>
   chat_restore_dropped (chat_dropped_records (length pre) ps) (pre @ filter (\<lambda>p. \<not> is_hidden p) ps) = pre @ ps"
proof (induction ps arbitrary: pre)
  case (Cons p ps)
  have IH: "chat_restore_dropped (chat_dropped_records (Suc (length pre)) ps) (pre @ p # filter (\<lambda>p. \<not> is_hidden p) ps)
      = pre @ p # ps"
    using Cons.IH[of "pre @ [p]"] Cons.prems by simp
  have put: "insert_at (length pre) q (pre @ qs) = pre @ q # qs" for q and qs :: "content_part list"
    by (simp add: insert_at_def Let_def)
  show ?case
  proof (cases "is_hidden p")
    case True
    have "length pre < 2 ^ 64" using Cons.prems by simp
    then obtain r where "chat_dropped_records (length pre) (p # ps) = r # chat_dropped_records (Suc (length pre)) ps"
      "get_u64 ''position'' r = Some (length pre)" "chat_dropped_part r = p"
      using chat_dropped_record[OF True, of "length pre" ps] by blast
    then show ?thesis using IH True by (simp add: chat_restore_dropped_def put del: chat_dropped_records.simps)
  next
    case False
    then show ?thesis using IH by (simp add: chat_dropped_skip del: chat_dropped_records.simps)
  qed
qed (simp add: chat_restore_dropped_def)

lemma dropped_none: "chat_dropped_records i ps = [] \<longleftrightarrow> filter is_hidden ps = []"
  by (induction ps arbitrary: i) (auto split: content_part.split)

lemma hidden_invisible:
  "chat_shown_content lib (filter (\<lambda>p. \<not> is_hidden p) ps) = chat_shown_content lib ps"
  "chat_refusal (filter (\<lambda>p. \<not> is_hidden p) ps) = chat_refusal ps"
  "chat_calls lib (filter (\<lambda>p. \<not> is_hidden p) ps) = chat_calls lib ps"
proof -
  have calls: "chat_calls lib (filter (\<lambda>p. \<not> is_hidden p) ps) = chat_calls lib ps"
    by (induction ps) (auto split: content_part.split)
  have ref: "chat_refusal (filter (\<lambda>p. \<not> is_hidden p) ps) = chat_refusal ps"
    by (induction ps) (auto split: content_part.split)
  have "is_visible p \<Longrightarrow> \<not> is_hidden p" for p by (cases p) auto
  then have vis: "filter (\<lambda>p. \<not> is_hidden p \<and> is_visible p) ps = filter is_visible ps"
    by (auto intro: filter_cong)
  show "chat_shown_content lib (filter (\<lambda>p. \<not> is_hidden p) ps) = chat_shown_content lib ps"
    by (simp add: chat_shown_content_def calls ref vis)
  show "chat_refusal (filter (\<lambda>p. \<not> is_hidden p) ps) = chat_refusal ps" by (rule ref)
  show "chat_calls lib (filter (\<lambda>p. \<not> is_hidden p) ps) = chat_calls lib ps" by (rule calls)
qed

lemma no_hidden_no_reasoning: "filter is_hidden ps = [] \<Longrightarrow> chat_reasoning_text ps = []"
  by (induction ps) (auto split: content_part.split if_splits)

definition chat_usage_ok :: "usage \<Rightarrow> bool" where
  "chat_usage_ok u \<longleftrightarrow> us_cache_write_tokens u = 0 \<and> list_all (\<lambda>n. n < 2 ^ 64)
     [us_input_tokens u, us_output_tokens u, us_cached_input_tokens u, us_reasoning_tokens u]"

lemma chat_usage_back: "chat_usage_ok u \<Longrightarrow> chat_parse_usage (chat_usage_json u) = u"
  by (cases u) (simp add: chat_usage_ok_def chat_parse_usage_def chat_usage_json_def)

definition chat_stop_ok :: "stop_reason option \<Rightarrow> bool" where
  "chat_stop_ok s \<longleftrightarrow> s \<in> {None, Some Stop, Some MaxTokens, Some ToolUseStop, Some ContentFilter}"

definition chat_response_ok :: "codec_lib \<Rightarrow> unified_response \<Rightarrow> bool" where
  "chat_response_ok lib r \<longleftrightarrow> chat_answer_ok lib (filter (\<lambda>p. \<not> is_hidden p) (rs_content r))
     \<and> length (rs_content r) < 2 ^ 64 \<and> - (2 ^ 63) \<le> rs_created r \<and> rs_created r < 2 ^ 63
     \<and> chat_stop_ok (rs_stop_reason r) \<and> rs_stop_sequence r = None \<and> chat_usage_ok (rs_usage r)
     \<and> chat_extensions_ok chat_known_response (rs_extensions r)
     \<and> list_all (\<lambda>e. fst e \<notin> {''chat.builtin_tools'', ''chat.error''}) (rs_extensions r)"

lemma chat_content_roundtrip:
  assumes "chat_answer_ok lib (filter (\<lambda>p. \<not> is_hidden p) ps)" and "length ps < 2 ^ 64"
  shows "chat_assistant_parts lib (chat_dropped_records 0 ps = []) (chat_dropped_records 0 ps)
    (chat_response_message lib ps) = ps"
proof -
  let ?shown = "filter (\<lambda>p. \<not> is_hidden p) ps" and ?b = "chat_dropped_records 0 ps = []"
  have "chat_assistant_parts lib ?b [] (chat_response_message lib ps) = ?shown"
  proof (rule chat_answer_back[OF assms(1)])
    show "\<forall>k \<in> {''content'', ''refusal'', ''tool_calls''}.
        jget k (chat_response_message lib ps) = map_of (chat_answer_fields lib ?shown) k"
      by (simp add: chat_response_message_def chat_answer_fields_def hidden_invisible option_again cong: option.case_cong)
    show "?b \<Longrightarrow> jget ''reasoning_content'' (chat_response_message lib ps) = None"
      using no_hidden_no_reasoning[of ps] by (simp add: dropped_none chat_response_message_def)
  qed
  then have "chat_assistant_parts lib ?b (chat_dropped_records 0 ps) (chat_response_message lib ps)
      = chat_restore_dropped (chat_dropped_records 0 ps) ?shown"
    by (simp add: chat_assistant_parts_def chat_restore_dropped_def)
  then show ?thesis using chat_dropped_back[of "[]" ps] assms(2) by simp
qed

lemma chat_response_keys: "fst ` set (chat_response_body lib r) \<subseteq> set chat_known_response"
  by (simp only: chat_response_body_def Let_def set_append image_Un)
     (intro Un_least keys_within; simp add: chat_known_response_def)

lemma chat_other_all: "list_all (\<lambda>e. fst e \<notin> {''chat.builtin_tools'', x}) ext \<Longrightarrow> chat_other_ext ext = ext"
  by (induction ext) (auto simp: chat_other_ext_def)

lemma chat_response_restored:
  assumes "chat_response_ok lib r"
  shows "restore_extensions chat_ext [''builtin_tools''] (rs_extensions r) (chat_response_body lib r)
    = chat_response_body lib r @ map (ext_field chat_ext) (chat_other_ext (rs_extensions r))"
proof -
  have e: "chat_extensions_ok chat_known_response (rs_extensions r)" using assms by (simp add: chat_response_ok_def)
  then have "restore_extensions chat_ext [''builtin_tools''] (rs_extensions r) (chat_response_body lib r)
    = chat_response_body lib r @ map (ext_field chat_ext)
        (filter (\<lambda>e. fst (ext_field chat_ext e) \<notin> set [''builtin_tools'']) (rs_extensions r))"
    using chat_response_keys[of lib r]
    by (intro restore_extensions_append) (auto simp: chat_extensions_ok_def list_all_iff strict_sorted_iff)
  moreover have "fst (ext_field chat_ext e) \<notin> set [''builtin_tools''] \<longleftrightarrow> fst e \<noteq> ''chat.builtin_tools''"
    if "e \<in> set (rs_extensions r)" for e
    using e that by (auto simp: ext_field_def chat_ext_def prefix_def chat_extensions_ok_def list_all_iff)
  ultimately show ?thesis by (auto simp: chat_other_ext_def cong: filter_cong)
qed

text \<open>\<open>C12\<close>. An answer in Chat form loses nothing on its way to a Chat client and back: its thinking and
  redacted thinking return to the positions they had between text, refusal and tool calls,
  with their signatures, and so do the stop reason, the usage and the extensions.\<close>

theorem chat_response_roundtrip:
  assumes "chat_response_ok lib r"
  shows "rbind (chat_encode_response lib r) (chat_decode_response lib now) = Inr r"
proof -
  define full where "full = chat_response_body lib r @ map (ext_field chat_ext) (chat_other_ext (rs_extensions r))"
  have ext: "chat_extensions_ok chat_known_response (rs_extensions r)"
    "list_all (\<lambda>e. fst e \<notin> {''chat.builtin_tools'', ''chat.error''}) (rs_extensions r)"
    using assms by (simp_all add: chat_response_ok_def)
  have f: "map_of full k = map_of (chat_response_body lib r) k" if "k \<in> set chat_known_response" for k
    unfolding full_def by (rule chat_full_lookup[OF ext(1) that])
  note fs = f[unfolded chat_known_response_def] chat_response_body_def
  have "fst (ext_field chat_ext e) \<noteq> ''error''" if "e \<in> set (rs_extensions r)" for e
    using ext that by (auto simp: ext_field_def chat_ext_def prefix_def chat_extensions_ok_def list_all_iff)
  then have "map_of (map (ext_field chat_ext) (chat_other_ext (rs_extensions r))) ''error'' = None"
    by (intro ext_field_absent) (simp add: chat_other_ext_def)
  then have "map_of full ''error'' = None" by (simp add: full_def chat_response_body_def Let_def)
  then have no_error: "chat_error_field (JObj full) = None" by (simp add: chat_error_field_def)
  let ?choice = "JObj [(''index'', jnat 0), (''message'', chat_response_message lib (rs_content r)),
         (''finish_reason'', case rs_stop_reason r of Some s \<Rightarrow> JStr (stop_reason_to_finish s) | None \<Rightarrow> JNull)]"
  let ?dropped = "chat_dropped_records 0 (rs_content r)"
  have fields: "chat_choices (JObj full) = [?choice]" "get_str ''id'' (JObj full) = Some (rs_id r)"
    "get_str ''model'' (JObj full) = Some (rs_model r)"
    "get_array ''dropped_thinking'' (JObj full) = (if ?dropped = [] then None else Some ?dropped)"
    "jget ''usage'' (JObj full) = Some (chat_usage_json (rs_usage r))"
    "jget ''created'' (JObj full) = Some (JNum (JInt (rs_created r)))"
    by (simp_all add: fs chat_choices_def Let_def)
  have created: "as_i64 (JNum (JInt (rs_created r))) = Some (rs_created r)"
    using assms by (simp add: chat_response_ok_def)
  have stop: "map_option finish_reason_to_ir (get_str ''finish_reason'' ?choice) = rs_stop_reason r"
    using assms by (auto simp: chat_response_ok_def chat_stop_ok_def finish_reason_to_ir_def)
  have content: "chat_assistant_parts lib (?dropped = []) ?dropped (chat_response_message lib (rs_content r)) = rs_content r"
    using assms by (intro chat_content_roundtrip) (simp_all add: chat_response_ok_def)
  have exts: "collect_unknown chat_ext chat_known_response full [] = rs_extensions r"
    unfolding full_def
  proof (rule chat_extensions_back[OF ext(1) chat_response_keys])
    have "map_of (rs_extensions r) ''chat.builtin_tools'' = None"
      using ext(2) by (auto simp: map_of_eq_None_iff list_all_iff)
    then show "[] = (case map_of (rs_extensions r) ''chat.builtin_tools'' of
        Some v \<Rightarrow> [(''chat.builtin_tools'', v)] | None \<Rightarrow> [])" by simp
  qed
  have usage: "chat_parse_usage (chat_usage_json (rs_usage r)) = rs_usage r" "is_object (chat_usage_json (rs_usage r))"
    using assms chat_usage_back by (simp_all add: chat_response_ok_def chat_usage_json_def)
  have enc: "chat_encode_response lib r = Inr (JObj full)"
    by (simp add: chat_encode_response_def chat_response_restored[OF assms] full_def)
  have "chat_choice_message ?choice = chat_response_message lib (rs_content r)" by (simp add: chat_choice_message_def)
  then have parts: "chat_assistant_parts lib (get_array ''dropped_thinking'' (JObj full) = None)
      (case get_array ''dropped_thinking'' (JObj full) of Some items \<Rightarrow> items | None \<Rightarrow> [])
      (chat_choice_message ?choice) = rs_content r"
    using content unfolding fields by (cases "?dropped = []") simp_all
  have "rs_stop_sequence r = None" using assms by (simp add: chat_response_ok_def)
  then show ?thesis
    by (simp add: enc chat_decode_response_def no_error fields(1-3,5-6) Let_def created stop exts usage parts
        response_new_def del: jget.simps(1) field_simps as_i64.simps)
qed

definition chat_answer :: unified_response where
  "chat_answer = (response_new ''r1'' ''gpt'' 1700000000)
     \<lparr>rs_content := [ThinkingPart ''hm'' (Some ''sig''), TextPart ''one'', RedactedThinking ''xx'',
         ToolUsePart ''c1'' ''scan'' (JObj []) None],
       rs_stop_reason := Some ToolUseStop,
       rs_usage := usage_default\<lparr>us_input_tokens := 12, us_output_tokens := 7, us_reasoning_tokens := 3\<rparr>,
       rs_extensions := [(''chat.system_fingerprint'', JStr ''fp'')]\<rparr>"

theorem chat_response_roundtrip_witness:
  "rbind (chat_encode_response tiny_codec_lib chat_answer) (chat_decode_response tiny_codec_lib 0) = Inr chat_answer"
proof (rule chat_response_roundtrip)
  have t: "trim ''{}'' \<noteq> []" by code_simp
  have "chat_answer_ok tiny_codec_lib [TextPart ''one'', ToolUsePart ''c1'' ''scan'' (JObj []) None]"
    unfolding chat_answer_ok_def
    by (rule exI[of _ "[TextPart ''one'']"], rule exI[of _ "[]"],
        rule exI[of _ "[ToolUsePart ''c1'' ''scan'' (JObj []) None]"]) (simp add: tiny_codec_lib_def t)
  moreover have "chat_extensions_ok chat_known_response (rs_extensions chat_answer)" by code_simp
  ultimately show "chat_response_ok tiny_codec_lib chat_answer"
    by (simp add: chat_response_ok_def chat_answer_def response_new_def chat_stop_ok_def chat_usage_ok_def usage_default_def)
qed

text \<open>An upstream body that is not an object is reported as a mistake of the client: it is final, and
  no other channel is tried.\<close>

lemma chat_odd_body_is_final:
  "chat_decode_response lib now (JArr []) = Inl e \<Longrightarrow> \<not> ge_retryable e"
  by (auto simp: chat_decode_response_def chat_error_field_def ge_invalid_request_def ge_retryable_def kind_retryable_def)

end
