(* ===== verification/Chat_Stream.thy ===== *)
theory Chat_Stream
  imports Chat_Response
begin

section \<open>Chat Completions: streams\<close>

text \<open>
  The stream half of \<open>crates/refract-protocol/src/codec/chat.rs\<close>: the decoder collects tool calls that
  relays cut into frames as they like, and the encoder adds the opening, the finish reason,
  the usage and the end mark a Chat client expects. The random identifier and the time a new
  encoder starts with are arguments. Casts to 32 bits wrap, as they do in the code.
\<close>

subsection \<open>The decoder\<close>

record tool_slot =
  sl_seen :: bool
  sl_declared :: bool
  sl_id :: string
  sl_name :: string
  sl_pending :: "string list"

definition slot_default :: tool_slot where
  "slot_default = \<lparr>sl_seen = False, sl_declared = False, sl_id = [], sl_name = [], sl_pending = []\<rparr>"

record chat_decoder =
  cd_started :: bool
  cd_done :: bool
  cd_tools :: "tool_slot list"

definition chat_decoder_new :: chat_decoder where
  "chat_decoder_new = \<lparr>cd_started = False, cd_done = False, cd_tools = []\<rparr>"

definition chat_tool_index :: "nat \<Rightarrow> nat" where
  "chat_tool_index ti = (1 + ti mod 2 ^ 32) mod 2 ^ 32"

text \<open>\<open>slot(ti)\<close> fills the list up to the index.\<close>

definition chat_slots_to :: "nat \<Rightarrow> tool_slot list \<Rightarrow> tool_slot list" where
  "chat_slots_to ti slots = slots @ replicate (Suc ti - length slots) slot_default"

definition chat_declare :: "nat \<Rightarrow> tool_slot \<Rightarrow> stream_event list" where
  "chat_declare ti s = ToolCallStart (chat_tool_index ti) (sl_id s) (sl_name s) None
     # map (ToolCallArgsDelta (chat_tool_index ti)) (sl_pending s)"

fun chat_flush_slots :: "nat \<Rightarrow> tool_slot list \<Rightarrow> stream_event list \<times> tool_slot list" where
  "chat_flush_slots ti [] = ([], [])"
| "chat_flush_slots ti (s # ss) = (let (out, ss1) = chat_flush_slots (Suc ti) ss in
     if sl_seen s \<and> \<not> sl_declared s
     then (chat_declare ti s @ out, s\<lparr>sl_declared := True, sl_pending := []\<rparr> # ss1)
     else (out, s # ss1))"

definition chat_flush :: "chat_decoder \<Rightarrow> stream_event list \<times> chat_decoder" where
  "chat_flush d = (let (out, ss) = chat_flush_slots 0 (cd_tools d) in (out, d\<lparr>cd_tools := ss\<rparr>))"

fun chat_item_text :: "json \<Rightarrow> string" where
  "chat_item_text (JStr s) = s"
| "chat_item_text v = str_or [] (get_str ''text'' v)"

definition chat_delta_text :: "json \<Rightarrow> string \<Rightarrow> string option" where
  "chat_delta_text delta key = Option.bind (jget key delta) (\<lambda>v. case v of
     JStr s \<Rightarrow> Some s
   | JObj m \<Rightarrow> (case get_str ''content'' v of Some s \<Rightarrow> Some s | None \<Rightarrow> get_str ''text'' v)
   | JArr a \<Rightarrow> Some (concat (map chat_item_text a))
   | _ \<Rightarrow> None)"

definition chat_call_index :: "json \<Rightarrow> nat" where
  "chat_call_index call = (case get_u64 ''index'' call of Some n \<Rightarrow> n | None \<Rightarrow> 0)"

definition chat_call_args :: "json \<Rightarrow> string" where
  "chat_call_args call = str_or [] (Option.bind (jget ''function'' call) (get_str ''arguments''))"

text \<open>What a piece of a call adds to its slot before anything is announced.\<close>

definition chat_fill_slot :: "json \<Rightarrow> tool_slot \<Rightarrow> tool_slot" where
  "chat_fill_slot call s = s\<lparr>sl_seen := True,
     sl_id := (case get_nonempty ''id'' call of Some i \<Rightarrow> i | None \<Rightarrow> sl_id s),
     sl_name := sl_name s @ str_or [] (Option.bind (jget ''function'' call) (get_nonempty ''name''))\<rparr>"

definition chat_tool_delta :: "json \<Rightarrow> tool_slot list \<Rightarrow> stream_event list \<times> tool_slot list" where
  "chat_tool_delta call slots0 = (
     let ti = chat_call_index call; args = chat_call_args call;
         slots = chat_slots_to ti slots0; s = chat_fill_slot call (slots ! ti);
         piece = [ToolCallArgsDelta (chat_tool_index ti) args]
     in if sl_declared s then (if args \<noteq> [] then piece else [], slots[ti := s])
        else if args = [] then ([], slots[ti := s])
        else if sl_name s = [] then ([], slots[ti := s\<lparr>sl_pending := sl_pending s @ [args]\<rparr>])
        else (chat_declare ti s @ piece, slots[ti := s\<lparr>sl_declared := True, sl_pending := []\<rparr>]))"

fun chat_tool_deltas :: "json list \<Rightarrow> tool_slot list \<Rightarrow> stream_event list \<times> tool_slot list" where
  "chat_tool_deltas [] slots = ([], slots)"
| "chat_tool_deltas (c # cs) slots = (let (out, slots1) = chat_tool_delta c slots;
     (out2, slots2) = chat_tool_deltas cs slots1 in (out @ out2, slots2))"

definition nonempty_event :: "(string \<Rightarrow> stream_event) \<Rightarrow> string option \<Rightarrow> stream_event list" where
  "nonempty_event f t = (case t of Some s \<Rightarrow> if s = [] then [] else [f s] | None \<Rightarrow> [])"

definition chat_delta_events :: "json \<Rightarrow> stream_event list" where
  "chat_delta_events delta =
     nonempty_event (ThinkingDelta 0) (case chat_delta_text delta ''reasoning_content'' of
        Some t \<Rightarrow> Some t | None \<Rightarrow> chat_delta_text delta ''reasoning'')
     @ nonempty_event (ThinkingSignature 0) (get_str ''reasoning_signature'' delta)
     @ nonempty_event (TextDelta 0) (chat_delta_text delta ''content'')
     @ nonempty_event (RefusalDelta 0) (chat_delta_text delta ''refusal'')"

definition chat_delta_calls :: "json \<Rightarrow> json list" where
  "chat_delta_calls delta = (case get_array ''tool_calls'' delta of Some cs \<Rightarrow> cs | None \<Rightarrow> [])"

definition chat_decode_choice :: "json \<Rightarrow> chat_decoder \<Rightarrow> stream_event list \<times> chat_decoder" where
  "chat_decode_choice choice d = (
     let (out1, d1) = (case jget ''delta'' choice of
           None \<Rightarrow> ([], d)
         | Some delta \<Rightarrow> let (calls, slots) = chat_tool_deltas (chat_delta_calls delta) (cd_tools d)
                         in (chat_delta_events delta @ calls, d\<lparr>cd_tools := slots\<rparr>))
     in case get_str ''finish_reason'' choice of
          None \<Rightarrow> (out1, d1)
        | Some reason \<Rightarrow> let (flushed, d2) = chat_flush d1
            in (out1 @ flushed @ [StopEvent (finish_reason_to_ir reason) None], d2))"

definition chat_decode_chunk :: "json \<Rightarrow> chat_decoder \<Rightarrow> stream_event list \<times> chat_decoder" where
  "chat_decode_chunk chunk d = (case chat_error_field chunk of
     Some err \<Rightarrow> ([ErrorEvent (str_or ''upstream error'' (get_str ''message'' err))
                    (str_or ''upstream_error'' (get_str ''type'' err))], d)
   | None \<Rightarrow>
       let start = (if cd_started d then []
             else [Start (str_or [] (get_str ''id'' chunk)) (str_or [] (get_str ''model'' chunk)) None]);
           d1 = d\<lparr>cd_started := True\<rparr>;
           (out, d2) = (case chat_choices chunk of [] \<Rightarrow> ([], d1) | choice # _ \<Rightarrow> chat_decode_choice choice d1);
           usage_events = (case jget ''usage'' chunk of
             Some u \<Rightarrow> if is_object u then [UsageEvent (chat_parse_usage u)] else [] | None \<Rightarrow> [])
       in (start @ out @ usage_events, d2))"

definition chat_decode_frame :: "codec_lib \<Rightarrow> sse_frame \<Rightarrow> chat_decoder \<Rightarrow> stream_event list \<times> chat_decoder" where
  "chat_decode_frame lib frame d = (let data = trim (sf_data frame) in
     if data = [] then ([], d)
     else if data = ''[DONE]'' then
       (let (flushed, d1) = chat_flush (d\<lparr>cd_done := True\<rparr>) in (flushed @ [Done], d1))
     else case cl_parse lib data of
       None \<Rightarrow> ([], d)
     | Some chunk \<Rightarrow> chat_decode_chunk chunk d)"

definition chat_decode_finish :: "chat_decoder \<Rightarrow> stream_event list \<times> chat_decoder" where
  "chat_decode_finish d = (if cd_done d then ([], d)
     else let (flushed, d1) = chat_flush (d\<lparr>cd_done := True\<rparr>) in (flushed @ [Done], d1))"

subsection \<open>The encoder\<close>

record chat_encoder =
  ce_id :: string
  ce_model :: string
  ce_created :: int
  ce_opened :: bool
  ce_finished :: bool
  ce_done :: bool
  ce_usage_sent :: bool
  ce_usage :: usage
  ce_slots :: "nat list"

definition chat_encoder_new :: "string \<Rightarrow> int \<Rightarrow> chat_encoder" where
  "chat_encoder_new uuid now = \<lparr>ce_id = ''chatcmpl-'' @ uuid, ce_model = [], ce_created = now, ce_opened = False,
     ce_finished = False, ce_done = False, ce_usage_sent = False, ce_usage = usage_default, ce_slots = []\<rparr>"

text \<open>A frame carries a JSON text or the end mark.\<close>

datatype chat_out = Chunk json | End_Mark

fun chat_frame :: "codec_lib \<Rightarrow> chat_out \<Rightarrow> sse_frame" where
  "chat_frame lib (Chunk j) = data_frame (cl_print lib j)"
| "chat_frame lib End_Mark = data_frame ''[DONE]''"

definition chat_chunk :: "chat_encoder \<Rightarrow> json \<Rightarrow> string option \<Rightarrow> chat_out" where
  "chat_chunk e delta finish = Chunk (JObj [(''id'', JStr (ce_id e)), (''object'', JStr ''chat.completion.chunk''),
     (''created'', JNum (JInt (ce_created e))), (''model'', JStr (ce_model e)),
     (''choices'', JArr [JObj [(''index'', jnat 0), (''delta'', delta),
        (''finish_reason'', case finish of Some f \<Rightarrow> JStr f | None \<Rightarrow> JNull)]])])"

definition chat_open :: "chat_encoder \<Rightarrow> chat_out list \<times> chat_encoder" where
  "chat_open e = (if ce_opened e then ([], e)
     else ([chat_chunk e (JObj [(''role'', JStr ''assistant''), (''content'', JStr [])]) None], e\<lparr>ce_opened := True\<rparr>))"

definition chat_usage_frame :: "chat_encoder \<Rightarrow> chat_out" where
  "chat_usage_frame e = Chunk (JObj [(''id'', JStr (ce_id e)), (''object'', JStr ''chat.completion.chunk''),
     (''created'', JNum (JInt (ce_created e))), (''model'', JStr (ce_model e)), (''choices'', JArr []),
     (''usage'', chat_usage_json (ce_usage e))])"

definition chat_out_slot :: "nat \<Rightarrow> chat_encoder \<Rightarrow> nat \<times> chat_encoder" where
  "chat_out_slot ir_index e = (case position (\<lambda>i. i = ir_index) (ce_slots e) of
     Some pos \<Rightarrow> (pos, e)
   | None \<Rightarrow> (length (ce_slots e), e\<lparr>ce_slots := ce_slots e @ [ir_index]\<rparr>))"

definition chat_wrap_up :: "chat_encoder \<Rightarrow> chat_out list \<times> chat_encoder" where
  "chat_wrap_up e = (if ce_done e then ([], e)
     else
       let fin = ce_opened e \<and> \<not> ce_finished e;
           use = \<not> ce_usage_sent e \<and> \<not> usage_is_empty (ce_usage e)
       in ((if fin then [chat_chunk e (JObj []) (Some ''stop'')] else [])
           @ (if use then [chat_usage_frame e] else []) @ [End_Mark],
           e\<lparr>ce_done := True, ce_finished := ce_finished e \<or> fin, ce_usage_sent := ce_usage_sent e \<or> use\<rparr>))"

definition chat_emit :: "json \<Rightarrow> string option \<Rightarrow> chat_encoder \<Rightarrow> chat_out list \<times> chat_encoder" where
  "chat_emit delta finish e = (let (out, e1) = chat_open e in (out @ [chat_chunk e1 delta finish], e1))"

definition chat_emit_call :: "nat \<Rightarrow> (nat \<Rightarrow> jmap) \<Rightarrow> chat_encoder \<Rightarrow> chat_out list \<times> chat_encoder" where
  "chat_emit_call i f e = (let (out, e1) = chat_open e; (ti, e2) = chat_out_slot i e1
     in (out @ [chat_chunk e2 (JObj [(''tool_calls'', JArr [JObj (f ti)])]) None], e2))"

fun chat_encode_event :: "stream_event \<Rightarrow> chat_encoder \<Rightarrow> chat_out list \<times> chat_encoder" where
  "chat_encode_event (Start i m u) e = chat_open (e\<lparr>ce_id := (if i \<noteq> [] then i else ce_id e),
     ce_model := (if m \<noteq> [] then m else ce_model e),
     ce_usage := (case u of Some v \<Rightarrow> merge_max (ce_usage e) v | None \<Rightarrow> ce_usage e)\<rparr>)"
| "chat_encode_event (TextDelta _ t) e = chat_emit (JObj [(''content'', JStr t)]) None e"
| "chat_encode_event (ThinkingDelta _ t) e = chat_emit (JObj [(''reasoning_content'', JStr t)]) None e"
| "chat_encode_event (ThinkingSignature _ s) e = chat_emit (JObj [(''reasoning_signature'', JStr s)]) None e"
| "chat_encode_event (RefusalDelta _ t) e = chat_emit (JObj [(''refusal'', JStr t)]) None e"
| "chat_encode_event (ToolCallStart i cid name _) e = chat_emit_call i (\<lambda>ti. [(''index'', jnat ti),
     (''id'', JStr cid), (''type'', JStr ''function''),
     (''function'', JObj [(''name'', JStr name), (''arguments'', JStr [])])]) e"
| "chat_encode_event (ToolCallArgsDelta i fragment) e = chat_emit_call i (\<lambda>ti. [(''index'', jnat ti),
     (''function'', JObj [(''arguments'', JStr fragment)])]) e"
| "chat_encode_event (UsageEvent u) e = ([], e\<lparr>ce_usage := merge_max (ce_usage e) u\<rparr>)"
| "chat_encode_event (StopEvent reason _) e =
     (let (out, e1) = chat_open e; e2 = e1\<lparr>ce_finished := True\<rparr>
      in (out @ [chat_chunk e2 (JObj []) (Some (stop_reason_to_finish reason))], e2))"
| "chat_encode_event Done e = chat_wrap_up e"
| "chat_encode_event (ErrorEvent message kind) e =
     (Chunk (JObj [(''error'', JObj [(''message'', JStr message), (''type'', JStr kind)])])
        # (if ce_done e then [] else [End_Mark]), e\<lparr>ce_done := True\<rparr>)"
| "chat_encode_event (ContentStart _ _) e = ([], e)"
| "chat_encode_event (ContentStop _) e = ([], e)"
| "chat_encode_event Ping e = ([], e)"

definition chat_encode_finish :: "chat_encoder \<Rightarrow> chat_out list \<times> chat_encoder" where
  "chat_encode_finish e = chat_wrap_up e"

text \<open>Whole streams: the frames or events one after the other, and the end.\<close>

fun chat_decode_all :: "codec_lib \<Rightarrow> sse_frame list \<Rightarrow> chat_decoder \<Rightarrow> stream_event list \<times> chat_decoder" where
  "chat_decode_all lib [] d = ([], d)"
| "chat_decode_all lib (f # fs) d = (let (out, d1) = chat_decode_frame lib f d;
     (out2, d2) = chat_decode_all lib fs d1 in (out @ out2, d2))"

fun chat_encode_all :: "stream_event list \<Rightarrow> chat_encoder \<Rightarrow> chat_out list \<times> chat_encoder" where
  "chat_encode_all [] e = ([], e)"
| "chat_encode_all (v # vs) e = (let (out, e1) = chat_encode_event v e;
     (out2, e2) = chat_encode_all vs e1 in (out @ out2, e2))"

subsection \<open>Tool calls are put together\<close>

definition slot_of :: "nat \<Rightarrow> tool_slot list \<Rightarrow> tool_slot" where
  "slot_of ti slots = (if ti < length slots then slots ! ti else slot_default)"

fun tool_event :: "nat \<Rightarrow> stream_event \<Rightarrow> bool" where
  "tool_event i (ToolCallStart j _ _ _) = (j = i)"
| "tool_event i (ToolCallArgsDelta j _) = (j = i)"
| "tool_event i _ = False"

definition announced :: "nat \<Rightarrow> stream_event list \<Rightarrow> string \<Rightarrow> bool" where
  "announced i evs args \<longleftrightarrow> (\<exists>cid name frags. evs = ToolCallStart i cid name None # map (ToolCallArgsDelta i) frags
     \<and> concat frags = args)"

text \<open>What the events so far and the slot of a call say together about the pieces that came.\<close>

definition slot_tells :: "nat \<Rightarrow> tool_slot \<Rightarrow> stream_event list \<Rightarrow> json list \<Rightarrow> bool" where
  "slot_tells i s evs calls \<longleftrightarrow> (sl_seen s \<longleftrightarrow> calls \<noteq> []) \<and> (sl_declared s \<longrightarrow> calls \<noteq> []) \<and>
     (if sl_declared s then sl_pending s = [] \<and> announced i evs (concat (map chat_call_args calls))
      else evs = [] \<and> concat (sl_pending s) = concat (map chat_call_args calls))"

lemma slot_of_pad [simp]: "slot_of ti (chat_slots_to tj slots) = slot_of ti slots"
  by (auto simp: slot_of_def chat_slots_to_def nth_append)

lemma length_pad: "tj < length (chat_slots_to tj slots)" "length (chat_slots_to tj slots) = max (Suc tj) (length slots)"
  by (auto simp: chat_slots_to_def)

lemma slot_of_update: "tj < length slots \<Longrightarrow> slot_of ti (slots[tj := s]) = (if ti = tj then s else slot_of ti slots)"
  by (auto simp: slot_of_def)

lemma tool_index_small: "ti < 2 ^ 32 - 1 \<Longrightarrow> chat_tool_index ti = Suc ti"
  by (simp add: chat_tool_index_def)

lemma announced_more: "announced i evs args \<Longrightarrow> announced i (evs @ [ToolCallArgsDelta i a]) (args @ a)"
  unfolding announced_def by (elim exE conjE, rename_tac cid name frags)
    (intro exI[of _ "frags @ [a]" for frags] exI conjI, auto)

lemma announced_declare:
  "announced (Suc ti) (ToolCallStart (Suc ti) cid name None # map (ToolCallArgsDelta (Suc ti)) frags) (concat frags)"
  by (auto simp: announced_def)

lemma chat_declare_events:
  assumes "tj < 2 ^ 32 - 1"
  shows "filter (tool_event (Suc ti)) (chat_declare tj s) = (if ti = tj then chat_declare tj s else [])"
  using assms by (auto simp: chat_declare_def tool_index_small filter_map comp_def)

lemma fill_slot_simps [simp]:
  "sl_seen (chat_fill_slot c s)" "sl_declared (chat_fill_slot c s) = sl_declared s"
  "sl_pending (chat_fill_slot c s) = sl_pending s"
  by (simp_all add: chat_fill_slot_def)

lemma slot_tells_delta:
  assumes "slot_tells (Suc ti) (slot_of ti slots) evs calls"
    and "chat_tool_delta c slots = (out, slots1)" and "chat_call_index c < 2 ^ 32 - 1"
  shows "slot_tells (Suc ti) (slot_of ti slots1) (evs @ filter (tool_event (Suc ti)) out)
      (calls @ (if chat_call_index c = ti then [c] else []))"
proof -
  let ?tj = "chat_call_index c" and ?args = "chat_call_args c"
  let ?slots = "chat_slots_to ?tj slots"
  let ?s = "chat_fill_slot c (?slots ! ?tj)"
  have s: "?slots ! ?tj = slot_of ?tj slots"
    using slot_of_pad[of ?tj ?tj slots] length_pad(1)[of ?tj slots] by (simp add: slot_of_def)
  show ?thesis
  proof (cases "?tj = ti")
    case False
    have "slot_of ti slots1 = slot_of ti slots" using assms(2) False length_pad(1)[of ?tj slots]
      by (auto simp: chat_tool_delta_def Let_def slot_of_update split: if_splits)
    moreover have "filter (tool_event (Suc ti)) out = []" using assms(2,3) False
      by (auto simp: chat_tool_delta_def Let_def tool_index_small chat_declare_events split: if_splits)
    ultimately show ?thesis using assms(1) False by simp
  next
    case True
    note d = assms(2)[unfolded chat_tool_delta_def Let_def True s[unfolded True]]
    have small: "ti < 2 ^ 32 - 1" using assms(3) True by simp
    note simps = slot_of_update[OF length_pad(1)] tool_index_small[OF small] chat_declare_events[OF small]
    consider "sl_declared (slot_of ti slots)" | "\<not> sl_declared (slot_of ti slots)" "?args = []"
      | "\<not> sl_declared (slot_of ti slots)" "?args \<noteq> []" "sl_name (chat_fill_slot c (slot_of ti slots)) = []"
      | "\<not> sl_declared (slot_of ti slots)" "?args \<noteq> []" "sl_name (chat_fill_slot c (slot_of ti slots)) \<noteq> []"
      by blast
    then show ?thesis
    proof cases
      case 1
      then show ?thesis using assms(1) d announced_more[of "Suc ti" evs]
        by (auto simp: slot_tells_def simps True split: if_splits)
    next
      case 2
      then show ?thesis using assms(1) d by (auto simp: slot_tells_def simps True)
    next
      case 3
      then show ?thesis using assms(1) d by (auto simp: slot_tells_def simps True)
    next
      case 4
      let ?q = "chat_fill_slot c (slot_of ti slots)"
      have "chat_declare ti ?q @ [ToolCallArgsDelta (Suc ti) ?args] = ToolCallStart (Suc ti) (sl_id ?q) (sl_name ?q) None
          # map (ToolCallArgsDelta (Suc ti)) (sl_pending (slot_of ti slots) @ [?args])"
        by (simp add: chat_declare_def simps)
      then have "announced (Suc ti) (chat_declare ti ?q @ [ToolCallArgsDelta (Suc ti) ?args])
          (concat (sl_pending (slot_of ti slots)) @ ?args)"
        using announced_declare[of ti "sl_id ?q" "sl_name ?q" "sl_pending (slot_of ti slots) @ [?args]"] by simp
      then show ?thesis using assms(1) d 4 by (auto simp: slot_tells_def simps True)
    qed
  qed
qed

definition calls_at :: "nat \<Rightarrow> json list \<Rightarrow> json list" where
  "calls_at ti cs = filter (\<lambda>c. chat_call_index c = ti) cs"

definition small_calls :: "json list \<Rightarrow> bool" where
  "small_calls cs \<longleftrightarrow> list_all (\<lambda>c. chat_call_index c < 2 ^ 32 - 1) cs"

lemma calls_at_append [simp]: "calls_at ti (cs @ cs') = calls_at ti cs @ calls_at ti cs'"
  by (simp add: calls_at_def)

lemma slot_tells_deltas:
  assumes "slot_tells (Suc ti) (slot_of ti slots) evs calls" and "small_calls cs"
    and "chat_tool_deltas cs slots = (out, slots1)"
  shows "slot_tells (Suc ti) (slot_of ti slots1) (evs @ filter (tool_event (Suc ti)) out) (calls @ calls_at ti cs)"
  using assms
proof (induction cs arbitrary: slots evs calls out)
  case (Cons c cs)
  obtain o1 s1 where d: "chat_tool_delta c slots = (o1, s1)" by fastforce
  obtain o2 where r: "chat_tool_deltas cs s1 = (o2, slots1)" "out = o1 @ o2"
    using Cons.prems(3) d by (auto split: prod.splits)
  have "slot_tells (Suc ti) (slot_of ti s1) (evs @ filter (tool_event (Suc ti)) o1)
      (calls @ (if chat_call_index c = ti then [c] else []))"
    using Cons.prems(2) by (intro slot_tells_delta[OF Cons.prems(1) d]) (simp add: small_calls_def)
  from Cons.IH[OF this _ r(1)] show ?case using Cons.prems(2) r(2)
    by (auto simp: small_calls_def calls_at_def split: if_splits)
qed (simp add: calls_at_def)

lemma deltas_length:
  "small_calls cs \<Longrightarrow> length slots \<le> 2 ^ 32 - 1 \<Longrightarrow> length (snd (chat_tool_deltas cs slots)) \<le> 2 ^ 32 - 1"
proof (induction cs arbitrary: slots)
  case (Cons c cs)
  have "length (snd (chat_tool_delta c slots)) = max (Suc (chat_call_index c)) (length slots)"
    by (simp add: chat_tool_delta_def Let_def length_pad(2))
  then have "length (snd (chat_tool_delta c slots)) \<le> 2 ^ 32 - 1"
    using Cons.prems by (simp add: small_calls_def)
  then show ?case using Cons.IH[of "snd (chat_tool_delta c slots)"] Cons.prems
    by (auto simp: small_calls_def split: prod.split)
qed simp

text \<open>What a flush makes of each slot.\<close>

definition flushed :: "tool_slot \<Rightarrow> tool_slot" where
  "flushed s = (if sl_seen s \<and> \<not> sl_declared s then s\<lparr>sl_declared := True, sl_pending := []\<rparr> else s)"

lemma flush_slots:
  "snd (chat_flush_slots k slots) = map flushed slots"
  "k + length slots \<le> 2 ^ 32 - 1 \<Longrightarrow> filter (tool_event (Suc ti)) (fst (chat_flush_slots k slots)) =
     (if k \<le> ti \<and> ti < k + length slots \<and> sl_seen (slots ! (ti - k)) \<and> \<not> sl_declared (slots ! (ti - k))
      then chat_declare ti (slots ! (ti - k)) else [])"
proof (induction k slots rule: chat_flush_slots.induct)
  case (2 k s ss)
  case 1
  then show ?case using 2 by (simp add: flushed_def case_prod_beta Let_def)
next
  case (2 k s ss)
  case 2
  obtain out ss1 where r: "chat_flush_slots (Suc k) ss = (out, ss1)" by fastforce
  have k: "k < 2 ^ 32 - 1" using \<open>k + length (s # ss) \<le> 2 ^ 32 - 1\<close> by simp
  have IH: "filter (tool_event (Suc ti)) out =
      (if Suc k \<le> ti \<and> ti < Suc k + length ss \<and> sl_seen (ss ! (ti - Suc k)) \<and> \<not> sl_declared (ss ! (ti - Suc k))
       then chat_declare ti (ss ! (ti - Suc k)) else [])"
    using "2.IH"(2) \<open>k + length (s # ss) \<le> 2 ^ 32 - 1\<close> r by simp
  show ?case
  proof (cases "ti = k")
    case True
    then show ?thesis using r IH by (simp add: Let_def chat_declare_events[OF k])
  next
    case False
    then have "Suc k \<le> ti \<longleftrightarrow> k \<le> ti" "k \<le> ti \<Longrightarrow> (s # ss) ! (ti - k) = ss ! (ti - Suc k)"
      by (auto simp: nth_Cons split: nat.split) (metis Suc_diff_Suc diff_Suc_Suc le_neq_implies_less nat.inject)
    then show ?thesis using r IH False by (auto simp: Let_def chat_declare_events[OF k])
  qed
qed auto

lemma slot_of_flushed: "slot_of ti (map flushed slots) = flushed (slot_of ti slots)"
  by (simp add: slot_of_def flushed_def slot_default_def)

lemma slot_tells_flush:
  assumes "slot_tells (Suc ti) (slot_of ti (cd_tools d)) evs calls" and "chat_flush d = (out, d1)"
    and "length (cd_tools d) \<le> 2 ^ 32 - 1"
  shows "slot_tells (Suc ti) (slot_of ti (cd_tools d1)) (evs @ filter (tool_event (Suc ti)) out) calls"
    and "calls \<noteq> [] \<Longrightarrow> sl_declared (slot_of ti (cd_tools d1))" and "length (cd_tools d1) = length (cd_tools d)"
proof -
  let ?s = "slot_of ti (cd_tools d)"
  have d1: "cd_tools d1 = map flushed (cd_tools d)" "out = fst (chat_flush_slots 0 (cd_tools d))"
    using assms(2) flush_slots(1)[of 0 "cd_tools d"] by (auto simp: chat_flush_def split: prod.splits)
  have out: "filter (tool_event (Suc ti)) out = (if sl_seen ?s \<and> \<not> sl_declared ?s then chat_declare ti ?s else [])"
    using flush_slots(2)[of 0 "cd_tools d" ti] assms(3) by (auto simp: d1 slot_of_def slot_default_def)
  have small: "ti < 2 ^ 32 - 1" if "sl_seen ?s"
    using that assms(3) by (auto simp: slot_of_def slot_default_def split: if_splits)
  show "slot_tells (Suc ti) (slot_of ti (cd_tools d1)) (evs @ filter (tool_event (Suc ti)) out) calls"
    using assms(1) announced_declare[of ti "sl_id ?s" "sl_name ?s" "sl_pending ?s"] small
    by (auto simp: slot_tells_def out d1(1) slot_of_flushed flushed_def chat_declare_def tool_index_small split: if_splits)
  show "calls \<noteq> [] \<Longrightarrow> sl_declared (slot_of ti (cd_tools d1))"
    using assms(1) by (auto simp: slot_tells_def d1(1) slot_of_flushed flushed_def)
  show "length (cd_tools d1) = length (cd_tools d)" by (simp add: d1(1))
qed

definition chat_choice_calls :: "json \<Rightarrow> json list" where
  "chat_choice_calls choice = (case jget ''delta'' choice of Some delta \<Rightarrow> chat_delta_calls delta | None \<Rightarrow> [])"

definition chat_chunk_calls :: "json \<Rightarrow> json list" where
  "chat_chunk_calls chunk = (if chat_error_field chunk \<noteq> None then []
     else case chat_choices chunk of [] \<Rightarrow> [] | choice # _ \<Rightarrow> chat_choice_calls choice)"

definition chat_frame_calls :: "codec_lib \<Rightarrow> sse_frame \<Rightarrow> json list" where
  "chat_frame_calls lib frame = (let data = trim (sf_data frame) in
     if data = [] \<or> data = ''[DONE]'' then []
     else case cl_parse lib data of None \<Rightarrow> [] | Some chunk \<Rightarrow> chat_chunk_calls chunk)"

definition decoder_tells :: "nat \<Rightarrow> chat_decoder \<Rightarrow> stream_event list \<Rightarrow> json list \<Rightarrow> bool" where
  "decoder_tells ti d evs calls \<longleftrightarrow> slot_tells (Suc ti) (slot_of ti (cd_tools d)) evs calls
     \<and> length (cd_tools d) \<le> 2 ^ 32 - 1"

lemma no_tools_in_delta: "filter (tool_event i) (chat_delta_events delta) = []"
  by (auto simp: chat_delta_events_def nonempty_event_def split: option.split)

lemma decoder_tells_flags [simp]:
  "decoder_tells ti (d\<lparr>cd_started := b\<rparr>) = decoder_tells ti d" "decoder_tells ti (d\<lparr>cd_done := b\<rparr>) = decoder_tells ti d"
  by (auto simp: decoder_tells_def fun_eq_iff)

lemma decoder_tells_flush:
  assumes "decoder_tells ti d evs calls" and "chat_flush d = (out, d1)"
  shows "decoder_tells ti d1 (evs @ filter (tool_event (Suc ti)) out) calls"
    and "calls \<noteq> [] \<Longrightarrow> sl_declared (slot_of ti (cd_tools d1))"
  using slot_tells_flush[of ti d evs calls out d1] assms by (auto simp: decoder_tells_def)

lemma decoder_tells_choice:
  assumes "decoder_tells ti d evs calls" and "chat_decode_choice choice d = (out, d1)"
    and "small_calls (chat_choice_calls choice)"
  shows "decoder_tells ti d1 (evs @ filter (tool_event (Suc ti)) out) (calls @ calls_at ti (chat_choice_calls choice))"
proof -
  define mid where "mid = (case jget ''delta'' choice of None \<Rightarrow> ([], d)
     | Some delta \<Rightarrow> let (cs, slots) = chat_tool_deltas (chat_delta_calls delta) (cd_tools d)
         in (chat_delta_events delta @ cs, d\<lparr>cd_tools := slots\<rparr>))"
  obtain out1 d2 where mid: "mid = (out1, d2)" by fastforce
  have m: "decoder_tells ti d2 (evs @ filter (tool_event (Suc ti)) out1) (calls @ calls_at ti (chat_choice_calls choice))"
  proof (cases "jget ''delta'' choice")
    case None
    then show ?thesis using assms(1) mid by (simp add: mid_def chat_choice_calls_def calls_at_def)
  next
    case (Some delta)
    obtain cs slots where r: "chat_tool_deltas (chat_delta_calls delta) (cd_tools d) = (cs, slots)" by fastforce
    have c: "chat_choice_calls choice = chat_delta_calls delta" by (simp add: chat_choice_calls_def Some)
    have "slot_tells (Suc ti) (slot_of ti slots) (evs @ filter (tool_event (Suc ti)) cs) (calls @ calls_at ti (chat_delta_calls delta))"
      using assms(1,3) by (intro slot_tells_deltas[OF _ _ r]) (simp_all add: decoder_tells_def c)
    moreover have "length slots \<le> 2 ^ 32 - 1"
      using deltas_length[of "chat_delta_calls delta" "cd_tools d"] assms(1,3) r by (simp add: decoder_tells_def c)
    ultimately show ?thesis using mid Some r
      by (auto simp: mid_def decoder_tells_def c no_tools_in_delta)
  qed
  show ?thesis
  proof (cases "get_str ''finish_reason'' choice")
    case None
    then show ?thesis using assms(2) m mid by (simp add: chat_decode_choice_def mid_def[symmetric])
  next
    case (Some reason)
    obtain f d3 where f: "chat_flush d2 = (f, d3)" by fastforce
    show ?thesis using assms(2) decoder_tells_flush(1)[OF m f] mid f Some
      by (auto simp: chat_decode_choice_def mid_def[symmetric])
  qed
qed

lemma decoder_tells_frame:
  assumes "decoder_tells ti d evs calls" and "chat_decode_frame lib f d = (out, d1)"
    and "small_calls (chat_frame_calls lib f)"
  shows "decoder_tells ti d1 (evs @ filter (tool_event (Suc ti)) out) (calls @ calls_at ti (chat_frame_calls lib f))"
proof -
  let ?data = "trim (sf_data f)"
  consider "?data = []" | "?data = ''[DONE]''" | "?data \<noteq> []" "?data \<noteq> ''[DONE]''" "cl_parse lib ?data = None"
    | chunk where "?data \<noteq> []" "?data \<noteq> ''[DONE]''" "cl_parse lib ?data = Some chunk" by blast
  then show ?thesis
  proof cases
    case 2
    obtain g d2 where g: "chat_flush (d\<lparr>cd_done := True\<rparr>) = (g, d2)" by fastforce
    have "decoder_tells ti (d\<lparr>cd_done := True\<rparr>) evs calls" using assms(1) by simp
    from decoder_tells_flush(1)[OF this g] show ?thesis using assms(2) g 2
      by (auto simp: chat_decode_frame_def chat_frame_calls_def calls_at_def)
  next
    case 4
    then have d: "chat_decode_chunk chunk d = (out, d1)" and c: "chat_frame_calls lib f = chat_chunk_calls chunk"
      using assms(2) by (simp_all add: chat_decode_frame_def chat_frame_calls_def Let_def)
    have usage: "filter (tool_event (Suc ti)) (case jget ''usage'' chunk of
        Some u \<Rightarrow> if is_object u then [UsageEvent (chat_parse_usage u)] else [] | None \<Rightarrow> []) = []"
      by (simp split: option.split)
    show ?thesis
    proof (cases "chat_error_field chunk \<noteq> None \<or> chat_choices chunk = []")
      case True
      then show ?thesis using d assms(1) usage
        by (auto simp: chat_decode_chunk_def c chat_chunk_calls_def calls_at_def Let_def split: option.splits list.splits)
    next
      case False
      then obtain choice rest where choice: "chat_choices chunk = choice # rest" by (cases "chat_choices chunk") auto
      obtain o2 d2 where r: "chat_decode_choice choice (d\<lparr>cd_started := True\<rparr>) = (o2, d2)" by fastforce
      have cc: "chat_chunk_calls chunk = chat_choice_calls choice" using False choice by (simp add: chat_chunk_calls_def)
      have "decoder_tells ti (d\<lparr>cd_started := True\<rparr>) evs calls" using assms(1) by simp
      from decoder_tells_choice[OF this r] show ?thesis using d assms(3) False choice usage r
        by (auto simp: chat_decode_chunk_def c cc Let_def)
    qed
  qed (use assms in \<open>auto simp: chat_decode_frame_def chat_frame_calls_def calls_at_def Let_def\<close>)
qed

lemma decoder_tells_all:
  "decoder_tells ti d evs calls \<Longrightarrow> chat_decode_all lib fs d = (out, d1) \<Longrightarrow> small_calls (concat (map (chat_frame_calls lib) fs)) \<Longrightarrow>
   decoder_tells ti d1 (evs @ filter (tool_event (Suc ti)) out) (calls @ calls_at ti (concat (map (chat_frame_calls lib) fs)))"
proof (induction fs arbitrary: d evs calls out)
  case (Cons f fs)
  obtain o1 d2 where r: "chat_decode_frame lib f d = (o1, d2)" by fastforce
  obtain o2 where s: "chat_decode_all lib fs d2 = (o2, d1)" "out = o1 @ o2"
    using Cons.prems(2) r by (auto split: prod.splits)
  have "decoder_tells ti d2 (evs @ filter (tool_event (Suc ti)) o1) (calls @ calls_at ti (chat_frame_calls lib f))"
    using Cons.prems(3) by (intro decoder_tells_frame[OF Cons.prems(1) r]) (simp add: small_calls_def)
  from Cons.IH[OF this s(1)] show ?case using Cons.prems(3) s(2) by (simp add: small_calls_def)
qed (simp add: calls_at_def)

lemma frame_keeps_open:
  "trim (sf_data f) \<noteq> ''[DONE]'' \<Longrightarrow> cd_done (snd (chat_decode_frame lib f d)) = cd_done d"
  by (auto simp: chat_decode_frame_def chat_decode_chunk_def chat_decode_choice_def chat_flush_def Let_def
      split: option.split list.split prod.split)

lemma frames_keep_open:
  "\<forall>f \<in> set fs. trim (sf_data f) \<noteq> ''[DONE]'' \<Longrightarrow> cd_done (snd (chat_decode_all lib fs d)) = cd_done d"
proof (induction fs arbitrary: d)
  case (Cons f fs)
  then show ?case using frame_keeps_open[of f lib d] by (simp add: case_prod_beta Let_def)
qed simp


subsection \<open>A stream is closed once\<close>

definition marks :: "chat_out list \<Rightarrow> nat" where
  "marks outs = length (filter (\<lambda>x. x = End_Mark) outs)"

lemma marks_simps [simp]:
  "marks [] = 0" "marks (x # xs) = (if x = End_Mark then 1 else 0) + marks xs" "marks (xs @ ys) = marks xs + marks ys"
  by (simp_all add: marks_def)

lemma chunk_no_mark [simp]: "chat_chunk e d f \<noteq> End_Mark" "chat_usage_frame e \<noteq> End_Mark"
  by (simp_all add: chat_chunk_def chat_usage_frame_def)

lemma chat_open_marks [simp]:
  "marks (fst (chat_open e)) = 0" "ce_done (snd (chat_open e)) = ce_done e"
  by (simp_all add: chat_open_def)

lemma chat_out_slot_done [simp]: "ce_done (snd (chat_out_slot i e)) = ce_done e"
  by (simp add: chat_out_slot_def split: option.split)

lemma chat_emit_marks [simp]:
  "marks (fst (chat_emit dl f e)) = 0" "ce_done (snd (chat_emit dl f e)) = ce_done e"
  "marks (fst (chat_emit_call i g e)) = 0" "ce_done (snd (chat_emit_call i g e)) = ce_done e"
  by (simp_all add: chat_emit_def chat_emit_call_def case_prod_beta Let_def)

lemma chat_wrap_up_marks:
  "marks (fst (chat_wrap_up e)) = (if ce_done e then 0 else 1)" "ce_done (snd (chat_wrap_up e))"
  "\<not> ce_done e \<Longrightarrow> last (fst (chat_wrap_up e)) = End_Mark"
  by (simp_all add: chat_wrap_up_def Let_def)

definition closed :: "chat_encoder \<Rightarrow> nat" where
  "closed e = (if ce_done e then 1 else 0)"

lemma chat_event_marks: "marks (fst (chat_encode_event v e)) + closed e = closed (snd (chat_encode_event v e))"
  by (cases "(v, e)" rule: chat_encode_event.cases)
     (simp_all add: closed_def case_prod_beta Let_def chat_wrap_up_marks split: option.split)

lemma chat_all_marks: "marks (fst (chat_encode_all vs e)) + closed e = closed (snd (chat_encode_all vs e))"
proof (induction vs arbitrary: e)
  case (Cons v vs)
  show ?case using chat_event_marks[of v e] Cons.IH[of "snd (chat_encode_event v e)"]
    unfolding chat_encode_all.simps case_prod_beta Let_def fst_conv snd_conv marks_simps by linarith
qed simp

lemma chat_event_goes_on: "\<not> is_terminal v \<Longrightarrow> ce_done (snd (chat_encode_event v e)) = ce_done e"
  by (cases "(v, e)" rule: chat_encode_event.cases) (simp_all add: case_prod_beta Let_def split: option.split)

lemma chat_all_goes_on: "list_all (\<lambda>v. \<not> is_terminal v) vs \<Longrightarrow> ce_done (snd (chat_encode_all vs e)) = ce_done e"
  by (induction vs arbitrary: e) (simp_all add: case_prod_beta Let_def chat_event_goes_on)

lemma chat_encode_all_snoc:
  "chat_encode_all (vs @ [v]) e = (let (out, e1) = chat_encode_all vs e; (out2, e2) = chat_encode_event v e1 in (out @ out2, e2))"
  by (induction vs arbitrary: e) (simp_all add: case_prod_beta Let_def)

definition chat_stream_out :: "stream_event list \<Rightarrow> chat_encoder \<Rightarrow> chat_out list" where
  "chat_stream_out vs e = (let (out, e1) = chat_encode_all vs e in out @ fst (chat_encode_finish e1))"

lemma chat_last_event:
  assumes "\<not> ce_done e"
  shows "fst (chat_encode_event v e) @ fst (chat_encode_finish (snd (chat_encode_event v e))) \<noteq> []
    \<and> last (fst (chat_encode_event v e) @ fst (chat_encode_finish (snd (chat_encode_event v e)))) = End_Mark"
proof (cases "is_terminal v")
  case True
  then show ?thesis using assms
    by (cases v) (auto simp: chat_encode_finish_def chat_wrap_up_def Let_def)
next
  case False
  then have "\<not> ce_done (snd (chat_encode_event v e))" using assms by (simp add: chat_event_goes_on)
  then show ?thesis by (simp add: chat_encode_finish_def chat_wrap_up_def Let_def)
qed

text \<open>A Chat client never waits for an end that does not come, nor sees two: whatever events the
  upstream's decoder gives, an error or a broken stream among them, the written stream has
  exactly one end mark, and it is the last frame unless events follow a terminal one.\<close>

theorem chat_stream_closed_once:
  "marks (chat_stream_out vs (chat_encoder_new uuid now)) = 1
   \<and> (list_all (\<lambda>v. \<not> is_terminal v) (butlast vs) \<longrightarrow>
        last (chat_stream_out vs (chat_encoder_new uuid now)) = End_Mark)"
proof (intro conjI impI)
  let ?e = "chat_encoder_new uuid now"
  have new: "\<not> ce_done ?e" by (simp add: chat_encoder_new_def)
  show "marks (chat_stream_out vs ?e) = 1"
    using chat_all_marks[of vs ?e] new
    by (simp add: chat_stream_out_def chat_encode_finish_def case_prod_beta Let_def chat_wrap_up_marks closed_def split: if_splits)
  assume calm: "list_all (\<lambda>v. \<not> is_terminal v) (butlast vs)"
  show "last (chat_stream_out vs ?e) = End_Mark"
  proof (cases vs rule: rev_cases)
    case Nil
    then show ?thesis using new by (simp add: chat_stream_out_def chat_encode_finish_def chat_wrap_up_marks)
  next
    case (snoc us v)
    then have "\<not> ce_done (snd (chat_encode_all us ?e))" using calm new by (simp add: chat_all_goes_on)
    from chat_last_event[OF this, of v] show ?thesis
      by (simp add: snoc chat_stream_out_def chat_encode_all_snoc case_prod_beta Let_def)
  qed
qed

text \<open>A broken stream: a start, a word, and nothing more.\<close>

theorem chat_stream_closed_once_witness:
  "last (chat_stream_out [Start ''x'' ''m'' None, TextDelta 0 ''hi''] (chat_encoder_new ''u'' 0)) = End_Mark"
  using chat_stream_closed_once[of "[Start ''x'' ''m'' None, TextDelta 0 ''hi'']" "''u''" 0] by simp

text \<open>A relay that sends the arguments of a call before its name.\<close>

definition early_args :: json where
  "early_args = JObj [(''choices'', JArr [JObj [(''delta'', JObj [(''tool_calls'', JArr [JObj [
     (''index'', jnat 0), (''function'', JObj [(''arguments'', JStr ''{'')])]])])]])]"

definition late_name :: json where
  "late_name = JObj [(''choices'', JArr [JObj [(''delta'', JObj [(''tool_calls'', JArr [JObj [
     (''index'', jnat 0), (''id'', JStr ''c1''),
     (''function'', JObj [(''name'', JStr ''scan''), (''arguments'', JStr ''}'')])]])])]])]"

definition early_lib :: codec_lib where
  "early_lib = tiny_codec_lib\<lparr>cl_parse := (\<lambda>s. if s = ''a'' then Some early_args else if s = ''b'' then Some late_name else None)\<rparr>"

definition early_frames :: "sse_frame list" where
  "early_frames = [data_frame ''a'', data_frame ''b'']"


subsection \<open>What is said arrives\<close>

fun said :: "part_kind \<Rightarrow> stream_event \<Rightarrow> string" where
  "said KText (TextDelta _ t) = t"
| "said KThinking (ThinkingDelta _ t) = t"
| "said KRefusal (RefusalDelta _ t) = t"
| "said _ _ = []"

definition all_said :: "part_kind \<Rightarrow> stream_event list \<Rightarrow> string" where
  "all_said k vs = concat (map (said k) vs)"

lemma all_said_simps [simp]:
  "all_said k [] = []" "all_said k (v # vs) = said k v @ all_said k vs" "all_said k (vs @ ws) = all_said k vs @ all_said k ws"
  by (simp_all add: all_said_def)

lemma said_tools [simp]: "said k (ToolCallStart i c n s) = []" "said k (ToolCallArgsDelta i a) = []"
  "said k (Start rid m u) = []" "said k (StopEvent r q) = []" "said k (UsageEvent us) = []" "said k (ErrorEvent em t) = []" "said k Done = []"
  by (cases k; simp)+

lemma all_said_declare: "all_said k (chat_declare ti s) = []"
  by (simp add: chat_declare_def all_said_def)

lemma all_said_flush [simp]: "all_said k (fst (chat_flush d)) = []"
proof -
  have "all_said k (fst (chat_flush_slots n ss)) = []" for n ss
    by (induction n ss rule: chat_flush_slots.induct) (auto simp: Let_def all_said_declare split: prod.split)
  then show ?thesis by (simp add: chat_flush_def case_prod_beta Let_def)
qed

lemma all_said_deltas [simp]: "all_said k (fst (chat_tool_deltas cs slots)) = []"
proof (induction cs arbitrary: slots)
  case (Cons c cs)
  have "all_said k (fst (chat_tool_delta c slots)) = []" for slots
    by (simp add: chat_tool_delta_def Let_def all_said_declare)
  then show ?case using Cons by (simp add: case_prod_beta Let_def)
qed simp

lemma all_said_chunk:
  "all_said k (fst (chat_decode_chunk j d)) = (if chat_error_field j \<noteq> None then []
     else case chat_choices j of [] \<Rightarrow> [] | choice # _ \<Rightarrow>
       (case jget ''delta'' choice of Some delta \<Rightarrow> all_said k (chat_delta_events delta) | None \<Rightarrow> []))"
  by (auto simp: chat_decode_chunk_def chat_decode_choice_def case_prod_beta Let_def split: option.split list.split)

text \<open>The printer and the parser agree on what this stream writes.\<close>

definition reads_back :: "codec_lib \<Rightarrow> chat_out list \<Rightarrow> bool" where
  "reads_back lib outs \<longleftrightarrow> (\<forall>j. Chunk j \<in> set outs \<longrightarrow> cl_parse lib (trim (cl_print lib j)) = Some j
     \<and> trim (cl_print lib j) \<noteq> [] \<and> trim (cl_print lib j) \<noteq> ''[DONE]'')"

definition wire_said :: "part_kind \<Rightarrow> chat_out \<Rightarrow> string" where
  "wire_said k x = (case x of End_Mark \<Rightarrow> [] | Chunk j \<Rightarrow> all_said k (fst (chat_decode_chunk j chat_decoder_new)))"

lemma decode_outs_said:
  "reads_back lib outs \<Longrightarrow> all_said k (fst (chat_decode_all lib (map (chat_frame lib) outs) d)) = concat (map (wire_said k) outs)"
proof (induction outs arbitrary: d)
  case (Cons x outs)
  have "all_said k (fst (chat_decode_frame lib (chat_frame lib x) d)) = wire_said k x"
  proof (cases x)
    case End_Mark
    moreover have "trim ''[DONE]'' = ''[DONE]''" by code_simp
    ultimately show ?thesis by (simp add: chat_decode_frame_def data_frame_def wire_said_def case_prod_beta Let_def)
  next
    case (Chunk j)
    then show ?thesis using Cons.prems
      by (simp add: reads_back_def chat_decode_frame_def data_frame_def wire_said_def Let_def all_said_chunk)
  qed
  moreover have "reads_back lib outs" using Cons.prems by (simp add: reads_back_def)
  ultimately show ?case using Cons.IH by (simp add: case_prod_beta Let_def)
qed simp

lemma wire_said_chunk: "wire_said k (chat_chunk e delta f) = all_said k (chat_delta_events delta)"
  by (simp add: chat_chunk_def wire_said_def all_said_chunk chat_error_field_def chat_choices_def)

lemma wire_said_usage: "wire_said k (chat_usage_frame e) = []"
  by (simp add: chat_usage_frame_def wire_said_def all_said_chunk chat_error_field_def chat_choices_def)

lemma wire_said_end: "wire_said k End_Mark = []"
  by (simp add: wire_said_def)

lemma wire_said_open: "concat (map (wire_said k) (fst (chat_open e))) = []"
  by (simp add: chat_open_def wire_said_chunk chat_delta_events_def chat_delta_text_def nonempty_event_def)

lemma wire_said_wrap_up: "concat (map (wire_said k) (fst (chat_wrap_up e))) = []"
  by (auto simp: chat_wrap_up_def Let_def wire_said_chunk wire_said_usage wire_said_end chat_delta_events_def chat_delta_text_def nonempty_event_def)

lemma wire_said_event: "concat (map (wire_said k) (fst (chat_encode_event v e))) = said k v"
proof (cases v)
  case (ErrorEvent m t)
  then show ?thesis by (simp add: wire_said_def all_said_chunk chat_error_field_def is_null_def)
qed (cases k; auto simp: chat_emit_def chat_emit_call_def case_prod_beta Let_def wire_said_open wire_said_chunk wire_said_wrap_up
    chat_delta_events_def chat_delta_text_def nonempty_event_def)+

text \<open>\<open>C14\<close>. A Chat client reads what the model said: the text, the thinking and the refusal in the frames
  are, joined, exactly those of the events, whatever kinds of events lie between them.\<close>

theorem chat_stream_says_the_same:
  assumes "reads_back lib (chat_stream_out vs e)"
  shows "all_said k (fst (chat_decode_all lib (map (chat_frame lib) (chat_stream_out vs e)) d)) = all_said k vs"
proof -
  have "concat (map (wire_said k) (fst (chat_encode_all vs e))) = all_said k vs" for vs e
    by (induction vs arbitrary: e) (simp_all add: case_prod_beta Let_def wire_said_event)
  then have "concat (map (wire_said k) (chat_stream_out vs e)) = all_said k vs"
    by (simp add: chat_stream_out_def case_prod_beta Let_def chat_encode_finish_def wire_said_wrap_up)
  then show ?thesis by (simp add: decode_outs_said[OF assms])
qed

text \<open>A greeting, with a library that prints its three frames as digits.\<close>

definition greeting_out :: "chat_out list" where
  "greeting_out = chat_stream_out [TextDelta 0 ''hi''] (chat_encoder_new ''u'' 0)"

fun out_json :: "chat_out \<Rightarrow> json" where
  "out_json (Chunk j) = j"
| "out_json End_Mark = JNull"

definition greeting_lib :: codec_lib where
  "greeting_lib = (let a = out_json (greeting_out ! 0); b = out_json (greeting_out ! 1); c = out_json (greeting_out ! 2) in
     tiny_codec_lib\<lparr>cl_print := (\<lambda>j. if j = a then ''1'' else if j = b then ''2'' else ''3''),
       cl_parse := (\<lambda>s. if s = ''1'' then Some a else if s = ''2'' then Some b else Some c)\<rparr>)"

theorem chat_stream_says_the_same_witness:
  "all_said KText (fst (chat_decode_all greeting_lib (map (chat_frame greeting_lib) greeting_out) chat_decoder_new)) = ''hi''"
proof -
  have t: "trim ''1'' = ''1''" "trim ''2'' = ''2''" "trim ''3'' = ''3''" by code_simp+
  have "\<exists>a b c. greeting_out = [Chunk a, Chunk b, Chunk c, End_Mark] \<and> a \<noteq> b \<and> a \<noteq> c \<and> b \<noteq> c"
    by (simp add: greeting_out_def chat_stream_out_def chat_encoder_new_def chat_emit_def chat_open_def
        chat_chunk_def chat_encode_finish_def chat_wrap_up_def Let_def usage_is_empty_def usage_default_def)
  then obtain a b c where g: "greeting_out = [Chunk a, Chunk b, Chunk c, End_Mark]" "a \<noteq> b" "a \<noteq> c" "b \<noteq> c" by blast
  then have "reads_back greeting_lib (chat_stream_out [TextDelta 0 ''hi''] (chat_encoder_new ''u'' 0))"
    unfolding greeting_out_def[symmetric] by (auto simp: g(1) reads_back_def greeting_lib_def Let_def t eval_nat_numeral)
  from chat_stream_says_the_same[OF this, of KText chat_decoder_new] show ?thesis by (simp add: greeting_out_def)
qed

end
