(* ===== verification/Turns.thy ===== *)
theory Turns
  imports Codec_Base
begin

section \<open>Turns of a conversation\<close>

text \<open>
  The Anthropic and the Gemini codec both bring a conversation into turns of alternating roles:
  a loop that puts the blocks of a message to the turn before it when the roles agree and
  leaves out what is empty. The step of that loop and its laws, for any blocks.
\<close>

type_synonym 'b turns = "(string \<times> 'b list) list"

definition merge_turn :: "string \<Rightarrow> 'b list \<Rightarrow> 'b turns \<Rightarrow> 'b turns" where
  "merge_turn role blocks turns = (
     if blocks = [] then turns
     else if turns \<noteq> [] \<and> fst (last turns) = role
     then butlast turns @ [(role, snd (last turns) @ blocks)]
     else turns @ [(role, blocks)])"

fun alternate :: "'a list \<Rightarrow> bool" where
  "alternate (x # y # xs) = (x \<noteq> y \<and> alternate (y # xs))"
| "alternate _ = True"

lemma alternate_snoc: "alternate (xs @ [x]) \<longleftrightarrow> alternate xs \<and> (xs \<noteq> [] \<longrightarrow> last xs \<noteq> x)"
  by (induction xs rule: alternate.induct) auto

lemma alternate_append: "alternate (xs @ ys) \<Longrightarrow> alternate xs"
  by (induction xs rule: alternate.induct) auto

lemma alternate_inj: "inj f \<Longrightarrow> alternate (map f xs) = alternate xs"
  by (induction xs rule: alternate.induct) (auto simp: inj_eq)

definition turns_ok :: "string set \<Rightarrow> 'b turns \<Rightarrow> bool" where
  "turns_ok roles turns \<longleftrightarrow> alternate (map fst turns) \<and> (\<forall>t \<in> set turns. fst t \<in> roles \<and> snd t \<noteq> [])"

definition turn_blocks :: "'b turns \<Rightarrow> 'b list" where
  "turn_blocks turns = concat (map snd turns)"

lemma turns_ok_Nil [simp]: "turns_ok roles []"
  by (simp add: turns_ok_def)

lemma turn_blocks_simps [simp]:
  "turn_blocks [] = []" "turn_blocks (t # ts) = snd t @ turn_blocks ts" "turn_blocks (ts @ us) = turn_blocks ts @ turn_blocks us"
  by (simp_all add: turn_blocks_def)

lemma merge_turn_ok:
  assumes "turns_ok roles turns" and "role \<in> roles"
  shows "turns_ok roles (merge_turn role blocks turns)
    \<and> turn_blocks (merge_turn role blocks turns) = turn_blocks turns @ blocks"
proof -
  consider "blocks = []" | "blocks \<noteq> []" "turns \<noteq> []" "fst (last turns) = role"
    | "blocks \<noteq> []" "\<not> (turns \<noteq> [] \<and> fst (last turns) = role)" by blast
  then show ?thesis
  proof cases
    case 1
    then show ?thesis using assms by (simp add: merge_turn_def)
  next
    case 2
    then obtain init l where turns: "turns = init @ [l]" by (metis append_butlast_last_id)
    have "merge_turn role blocks turns = init @ [(role, snd l @ blocks)]" using 2 by (simp add: merge_turn_def turns)
    then show ?thesis using assms 2 by (auto simp: turns turns_ok_def alternate_snoc)
  next
    case 3
    then have "merge_turn role blocks turns = turns @ [(role, blocks)]" by (auto simp: merge_turn_def)
    then show ?thesis using assms 3 by (auto simp: turns_ok_def alternate_snoc last_map)
  qed
qed

lemma fold_turns_ok:
  assumes "\<And>m. role m \<in> roles"
  shows "turns_ok roles turns \<Longrightarrow> turns_ok roles (fold (\<lambda>m. merge_turn (role m) (blocks m)) ms turns)
    \<and> turn_blocks (fold (\<lambda>m. merge_turn (role m) (blocks m)) ms turns) = turn_blocks turns @ concat (map blocks ms)"
proof (induction ms arbitrary: turns)
  case (Cons m ms)
  then show ?case using merge_turn_ok[OF Cons.prems assms, of m "blocks m"] by simp
qed simp

text \<open>Messages that alternate and are not empty are the turns themselves.\<close>

lemma fold_turns_plain:
  "list_all (\<lambda>m. blocks m \<noteq> []) ms \<Longrightarrow> alternate (map fst turns @ map role ms) \<Longrightarrow>
   fold (\<lambda>m. merge_turn (role m) (blocks m)) ms turns = turns @ map (\<lambda>m. (role m, blocks m)) ms"
proof (induction ms arbitrary: turns)
  case (Cons m ms)
  have "alternate (map fst turns @ [role m])"
    using alternate_append[of "map fst turns @ [role m]"] Cons.prems(2) by simp
  then have "turns = [] \<or> fst (last turns) \<noteq> role m" by (auto simp: alternate_snoc last_map)
  then have "merge_turn (role m) (blocks m) turns = turns @ [(role m, blocks m)]"
    using Cons.prems(1) by (auto simp: merge_turn_def)
  then show ?case using Cons.IH[of "turns @ [(role m, blocks m)]"] Cons.prems by simp
qed simp

end
