(* ===== verification/Messages_Request.thy ===== *)
theory Messages_Request
  imports Turns
begin

section \<open>Anthropic Messages: requests\<close>

text \<open>
  The request half of \<open>crates/refract-protocol/src/codec/messages.rs\<close>. The protocol asks for
  \<open>max_tokens\<close>, has no role for tool results, refuses two messages of one role in a row, and
  restricts sampling and budget while the model thinks; the encoder brings any request into
  that form. Content blocks nest through tool results, so reading and writing them is
  recursive on the JSON value and on the content. Log lines are left out.
\<close>

definition msgs_ext :: string where
  "msgs_ext = ''messages.''"

definition msgs_default_max_tokens :: "32 word" where
  "msgs_default_max_tokens = 4096"

definition msgs_dynamic_budget :: "32 word" where
  "msgs_dynamic_budget = 8192"

definition msgs_known_request :: "string list" where
  "msgs_known_request = [''model'', ''max_tokens'', ''stream'', ''system'', ''messages'', ''tools'',
     ''tool_choice'', ''thinking'', ''temperature'', ''top_p'', ''top_k'', ''stop_sequences'', ''metadata'']"

subsection \<open>Reading content blocks\<close>

text \<open>\<open>v as u32\<close> keeps the low 32 bits.\<close>

definition as_u32_wrap :: "json \<Rightarrow> 32 word option" where
  "as_u32_wrap v = map_option word_of_nat (as_u64 v)"

fun has_cache_control :: "json \<Rightarrow> bool" where
  "has_cache_control (JObj m) = (map_of m ''cache_control'' \<noteq> None)"
| "has_cache_control (JArr items) = list_ex has_cache_control items"
| "has_cache_control _ = False"

definition msgs_decode_source :: "json option \<Rightarrow> gateway_error + media_source \<times> string option" where
  "msgs_decode_source raw = (case Option.bind raw as_object of
     None \<Rightarrow> Inl (ge_invalid_request ''media block requires a `source` object'')
   | Some m \<Rightarrow> let obj = JObj m; mime = get_str ''media_type'' obj in
      (case get_str ''type'' obj of
        None \<Rightarrow> Inl (ge_invalid_request ''media `source` requires a `type` field'')
      | Some t \<Rightarrow>
          if t = ''base64'' then (case get_str ''data'' obj of
              None \<Rightarrow> Inl (ge_invalid_request ''base64 source requires a `data` field'')
            | Some d \<Rightarrow> Inr (Base64 d, mime))
          else if t = ''url'' then (case get_str ''url'' obj of
              None \<Rightarrow> Inl (ge_invalid_request ''url source requires a `url` field'')
            | Some u \<Rightarrow> Inr (Url u, mime))
          else if t = ''file'' then (case get_str ''file_id'' obj of
              None \<Rightarrow> Inl (ge_invalid_request ''file source requires a `file_id` field'')
            | Some i \<Rightarrow> Inr (FileId i, mime))
          else if t = ''text'' then Inr (TextSource (str_or [] (get_str ''data'' obj)), mime)
          else Inl (ge_invalid_request (''unsupported source type `'' @ t @ ''`''))))"

text \<open>The arms of \<open>decode_block\<close> other than \<open>tool_result\<close>.\<close>

definition msgs_decode_tool_use :: "json \<Rightarrow> gateway_error + content_part list" where
  "msgs_decode_tool_use obj = (case get_str ''id'' obj of
     None \<Rightarrow> Inl (ge_invalid_request ''tool_use block requires `id`'')
   | Some i \<Rightarrow> (case get_str ''name'' obj of
       None \<Rightarrow> Inl (ge_invalid_request ''tool_use block requires `name`'')
     | Some n \<Rightarrow> Inr [ToolUsePart i n (case jget ''input'' obj of Some v \<Rightarrow> v | None \<Rightarrow> JObj []) None]))"

definition msgs_decode_leaf :: "string \<Rightarrow> json \<Rightarrow> gateway_error + content_part list" where
  "msgs_decode_leaf kind obj = (
     if kind = ''text'' then Inr [TextPart (str_or [] (get_str ''text'' obj))]
     else if kind = ''image'' then
       rbind (msgs_decode_source (jget ''source'' obj)) (\<lambda>(source, mime). Inr [ImagePart source mime None])
     else if kind = ''document'' then
       rbind (msgs_decode_source (jget ''source'' obj)) (\<lambda>(source, mime).
         Inr [FilePart source mime (get_str ''title'' obj)])
     else if kind = ''thinking'' then
       Inr [ThinkingPart (str_or [] (get_str ''thinking'' obj)) (get_str ''signature'' obj)]
     else if kind = ''redacted_thinking'' then Inr [RedactedThinking (str_or [] (get_str ''data'' obj))]
     else if kind = ''tool_use'' then msgs_decode_tool_use obj
     else if kind = [] then Inl (ge_invalid_request ''content block requires a `type` field'')
     else Inr [Opaque ''messages'' obj])"

function msgs_decode_block :: "codec_lib \<Rightarrow> json \<Rightarrow> gateway_error + content_part list"
  and msgs_decode_blocks :: "codec_lib \<Rightarrow> json list \<Rightarrow> gateway_error + content_part list"
  and msgs_result_content :: "codec_lib \<Rightarrow> json option \<Rightarrow> gateway_error + content_part list"
where
  "msgs_decode_block lib (JStr s) = Inr [TextPart s]"
| "msgs_decode_block lib (JObj m) = (
     let kind = str_or [] (get_str ''type'' (JObj m)) in
     if kind = ''tool_result'' then (case get_str ''tool_use_id'' (JObj m) of
         None \<Rightarrow> Inl (ge_invalid_request ''tool_result block requires `tool_use_id`'')
       | Some tid \<Rightarrow> rbind (msgs_result_content lib (map_of m ''content''))
           (\<lambda>content. Inr [ToolResult tid None content (get_bool ''is_error'' (JObj m) = Some True)]))
     else msgs_decode_leaf kind (JObj m))"
| "msgs_decode_block lib JNull = Inl (ge_invalid_request ''content block must be an object'')"
| "msgs_decode_block lib (JBool b) = Inl (ge_invalid_request ''content block must be an object'')"
| "msgs_decode_block lib (JNum n) = Inl (ge_invalid_request ''content block must be an object'')"
| "msgs_decode_block lib (JArr a) = Inl (ge_invalid_request ''content block must be an object'')"
| "msgs_decode_blocks lib [] = Inr []"
| "msgs_decode_blocks lib (v # vs) =
     rbind (msgs_decode_block lib v) (\<lambda>ps. rbind (msgs_decode_blocks lib vs) (\<lambda>qs. Inr (ps @ qs)))"
| "msgs_result_content lib None = Inr []"
| "msgs_result_content lib (Some v) = (case v of
     JStr s \<Rightarrow> Inr [TextPart s]
   | JArr items \<Rightarrow> msgs_decode_blocks lib items
   | JNull \<Rightarrow> Inr []
   | other \<Rightarrow> Inr [TextPart (cl_print lib other)])"
  by pat_completeness auto

termination msgs_decode_block
  by (relation "measure (\<lambda>x. case x of Inl (_, v) \<Rightarrow> 2 * size v + 1
        | Inr (Inl (_, vs)) \<Rightarrow> 2 * size_list size vs
        | Inr (Inr (_, c)) \<Rightarrow> (case c of None \<Rightarrow> 0 | Some v \<Rightarrow> 2 * size v))")
     (auto dest!: map_of_size split: option.split)

definition msgs_decode_system :: "codec_lib \<Rightarrow> json \<Rightarrow> gateway_error + content_part list" where
  "msgs_decode_system lib raw = (case raw of
     JStr s \<Rightarrow> Inr (if s = [] then [] else [TextPart s])
   | JArr items \<Rightarrow> msgs_decode_blocks lib items
   | JNull \<Rightarrow> Inr []
   | _ \<Rightarrow> Inl (ge_invalid_request ''field `system` must be a string or an array of content blocks''))"

definition msgs_content :: "codec_lib \<Rightarrow> nat \<Rightarrow> json option \<Rightarrow> gateway_error + content_part list" where
  "msgs_content lib i v = (case v of
     Some (JStr s) \<Rightarrow> Inr [TextPart s]
   | Some (JArr items) \<Rightarrow> msgs_decode_blocks lib items
   | Some JNull \<Rightarrow> Inr []
   | None \<Rightarrow> Inr []
   | Some _ \<Rightarrow> Inl (ge_invalid_request (''messages['' @ nat_to_string i
       @ ''].content must be a string or an array of content blocks'')))"

fun is_tool_result :: "content_part \<Rightarrow> bool" where
  "is_tool_result (ToolResult _ _ _ _) = True"
| "is_tool_result _ = False"

definition msgs_decode_role :: "nat \<Rightarrow> string option \<Rightarrow> gateway_error + role" where
  "msgs_decode_role i r = (case r of
     None \<Rightarrow> Inl (ge_invalid_request (''messages['' @ nat_to_string i @ ''].role is required''))
   | Some s \<Rightarrow> if s = ''user'' then Inr User else if s = ''assistant'' then Inr Assistant
       else if s = ''system'' then Inr System
       else Inl (ge_invalid_request (''messages['' @ nat_to_string i
         @ ''].role must be `user` or `assistant`, got `'' @ s @ ''`'')))"

definition msgs_decode_message :: "codec_lib \<Rightarrow> nat \<Rightarrow> json \<Rightarrow> gateway_error + message" where
  "msgs_decode_message lib i raw = (case as_object raw of
     None \<Rightarrow> Inl (ge_invalid_request (''messages['' @ nat_to_string i @ ''] must be an object''))
   | Some m \<Rightarrow> rbind (msgs_decode_role i (get_str ''role'' raw)) (\<lambda>role.
       rbind (msgs_content lib i (jget ''content'' raw)) (\<lambda>content.
         Inr (message_new (if role = User \<and> content \<noteq> [] \<and> list_all is_tool_result content then Tool else role)
           content))))"

fun msgs_decode_messages :: "codec_lib \<Rightarrow> nat \<Rightarrow> json list \<Rightarrow> gateway_error + message list" where
  "msgs_decode_messages lib i [] = Inr []"
| "msgs_decode_messages lib i (m # ms) =
     rbind (msgs_decode_message lib i m) (\<lambda>x. rbind (msgs_decode_messages lib (Suc i) ms) (\<lambda>xs. Inr (x # xs)))"


subsection \<open>Reading a request\<close>

definition msgs_decode_tool :: "json \<Rightarrow> gateway_error + tool_def" where
  "msgs_decode_tool raw = (case get_str ''name'' raw of
     None \<Rightarrow> Inl (ge_invalid_request ''each tool requires a `name`'')
   | Some name \<Rightarrow> Inr \<lparr>td_name = name, td_description = get_str ''description'' raw,
       td_parameters = (case jget ''input_schema'' raw of Some p \<Rightarrow> p
         | None \<Rightarrow> JObj [(''type'', JStr ''object''), (''properties'', JObj [])]),
       td_strict = None\<rparr>)"

text \<open>Tools without a schema run on the server and are kept as they are; the order within each of
  the two lists is that of the request.\<close>

definition msgs_function_tools :: "json list \<Rightarrow> json list" where
  "msgs_function_tools ts = filter (\<lambda>t. jget ''input_schema'' t \<noteq> None) ts"

definition msgs_server_tools :: "json list \<Rightarrow> json list" where
  "msgs_server_tools ts = filter (\<lambda>t. jget ''input_schema'' t = None) ts"

definition msgs_tools_ext :: "json list \<Rightarrow> extensions \<Rightarrow> extensions" where
  "msgs_tools_ext ts ext = (
     let fn = msgs_function_tools ts; server = msgs_server_tools ts;
         ext1 = (if server = [] then ext else btree_insert (msgs_ext @ ''server_tools'') (JArr server) ext)
     in if list_ex has_cache_control fn then btree_insert (msgs_ext @ ''tools_raw'') (JArr fn) ext1 else ext1)"

definition msgs_decode_tool_choice :: "json \<Rightarrow> tool_choice \<times> bool option" where
  "msgs_decode_tool_choice raw = (
     (let t = str_or [] (get_str ''type'' raw) in
        if t = ''auto'' then AutoChoice else if t = ''any'' then Required else if t = ''none'' then NoTool
        else if t = ''tool'' then (case get_str ''name'' raw of Some n \<Rightarrow> NamedTool n | None \<Rightarrow> Required)
        else Unspecified),
     map_option Not (get_bool ''disable_parallel_tool_use'' raw))"

definition msgs_decode_thinking :: "json \<Rightarrow> reasoning_config option" where
  "msgs_decode_thinking raw = (
     let t = str_or [] (get_str ''type'' raw) in
     if t = ''enabled'' then Some \<lparr>rc_effort = None,
         rc_budget_tokens = Option.bind (jget ''budget_tokens'' raw) as_u32_wrap, rc_include_thoughts = Some True\<rparr>
     else if t = ''disabled'' then Some \<lparr>rc_effort = Some ''none'', rc_budget_tokens = None,
         rc_include_thoughts = Some False\<rparr>
     else None)"

definition msgs_decode_sampling :: "json \<Rightarrow> sampling" where
  "msgs_decode_sampling q = sampling_default\<lparr>sa_temperature := get_f64 ''temperature'' q,
     sa_top_p := get_f64 ''top_p'' q, sa_top_k := Option.bind (jget ''top_k'' q) as_u32_wrap,
     sa_stop := (case get_array ''stop_sequences'' q of Some a \<Rightarrow> filter_map as_str a | None \<Rightarrow> [])\<rparr>"

definition msgs_decode_max_tokens :: "json option \<Rightarrow> gateway_error + 32 word" where
  "msgs_decode_max_tokens v = (
     let bad = ge_invalid_request ''field `max_tokens` must be a positive integer'' in
     case v of
       Some (JNum n) \<Rightarrow> (case as_u32_wrap (JNum n) of Some w \<Rightarrow> Inr w | None \<Rightarrow> Inl bad)
     | Some _ \<Rightarrow> Inl bad
     | None \<Rightarrow> Inl (ge_invalid_request ''field `max_tokens` is required by the Anthropic Messages API''))"

definition msgs_metadata_rest :: "json \<Rightarrow> jmap" where
  "msgs_metadata_rest raw = (case Option.bind (jget ''metadata'' raw) as_object of
     None \<Rightarrow> [] | Some meta \<Rightarrow> filter (\<lambda>e. fst e \<noteq> ''user_id'') meta)"

definition msgs_system_ext :: "json option \<Rightarrow> extensions" where
  "msgs_system_ext system = (case system of
     Some v \<Rightarrow> if has_cache_control v then btree_insert (msgs_ext @ ''system_raw'') v [] else []
   | None \<Rightarrow> [])"

text \<open>The request, once nothing can fail any more.\<close>

definition msgs_start_ext :: "json \<Rightarrow> json list \<Rightarrow> extensions" where
  "msgs_start_ext raw ts = (
     let ext = msgs_tools_ext ts (msgs_system_ext (jget ''system'' raw)); rest = msgs_metadata_rest raw
     in if rest = [] then ext else btree_insert (msgs_ext @ ''metadata'') (JObj rest) ext)"

definition msgs_build_request ::
  "json \<Rightarrow> jmap \<Rightarrow> string \<Rightarrow> 32 word \<Rightarrow> content_part list \<Rightarrow> message list \<Rightarrow> json list \<Rightarrow> tool_def list \<Rightarrow> unified_request"
where
  "msgs_build_request raw obj model max_tokens sys ms ts tools = (
     let choice = (case jget ''tool_choice'' raw of
           Some c \<Rightarrow> msgs_decode_tool_choice c | None \<Rightarrow> (Unspecified, None));
         stream = (get_bool ''stream'' raw = Some True)
     in (request_new model ms)\<lparr>ur_system := sys, ur_tools := tools, ur_tool_choice := fst choice,
          ur_parallel_tool_calls := snd choice, ur_sampling := msgs_decode_sampling raw,
          ur_max_output_tokens := Some max_tokens, ur_stream := stream, ur_stream_include_usage := stream,
          ur_reasoning := Option.bind (jget ''thinking'' raw) msgs_decode_thinking,
          ur_user := Option.bind (jget ''metadata'' raw) (get_str ''user_id''),
          ur_extensions := collect_unknown msgs_ext msgs_known_request obj (msgs_start_ext raw ts)\<rparr>)"

definition msgs_decode_request :: "codec_lib \<Rightarrow> json \<Rightarrow> gateway_error + unified_request" where
  "msgs_decode_request lib raw = (case as_object raw of
     None \<Rightarrow> Inl (ge_invalid_request ''request body must be a JSON object'')
   | Some obj \<Rightarrow> (case get_nonempty ''model'' raw of
     None \<Rightarrow> Inl (ge_invalid_request ''field `model` is required'')
   | Some model \<Rightarrow>
       rbind (msgs_decode_max_tokens (jget ''max_tokens'' raw)) (\<lambda>max_tokens.
       rbind (case jget ''system'' raw of Some v \<Rightarrow> msgs_decode_system lib v | None \<Rightarrow> Inr []) (\<lambda>sys.
       (case get_array ''messages'' raw of
         None \<Rightarrow> Inl (ge_invalid_request ''field `messages` must be an array'')
       | Some raw_messages \<Rightarrow> rbind (msgs_decode_messages lib 0 raw_messages) (\<lambda>ms.
         let ts = (case get_array ''tools'' raw of Some ts \<Rightarrow> ts | None \<Rightarrow> []) in
         rbind (map_ok msgs_decode_tool (msgs_function_tools ts)) (\<lambda>tools.
           Inr (msgs_build_request raw obj model max_tokens sys ms ts tools))))))))"

subsection \<open>Writing content blocks\<close>

definition msgs_encode_source :: "media_source \<Rightarrow> string option \<Rightarrow> json" where
  "msgs_encode_source source mime = (
     let base64 = (\<lambda>m d. JObj [(''type'', JStr ''base64''),
            (''media_type'', JStr (str_or ''application/octet-stream'' m)), (''data'', JStr d)]) in
     case source of
       Base64 d \<Rightarrow> base64 mime d
     | Url u \<Rightarrow> (case parse_data_uri u of
         (Base64 d, parsed_mime) \<Rightarrow> base64 (case parsed_mime of Some m \<Rightarrow> Some m | None \<Rightarrow> mime) d
       | _ \<Rightarrow> JObj [(''type'', JStr ''url''), (''url'', JStr u)])
     | FileId i \<Rightarrow> JObj [(''type'', JStr ''file''), (''file_id'', JStr i)]
     | TextSource t \<Rightarrow> JObj [(''type'', JStr ''text''),
          (''media_type'', JStr (str_or ''text/plain'' mime)), (''data'', JStr t)])"

definition msgs_text_block :: "string \<Rightarrow> json" where
  "msgs_text_block t = JObj [(''type'', JStr ''text''), (''text'', JStr t)]"

fun msgs_encode_block :: "content_part \<Rightarrow> json option" where
  "msgs_encode_block (TextPart t) = Some (msgs_text_block t)"
| "msgs_encode_block (ImagePart source mime _) = Some (JObj [(''type'', JStr ''image''),
     (''source'', msgs_encode_source source mime)])"
| "msgs_encode_block (FilePart source mime name) = Some (JObj ([(''type'', JStr ''document''),
     (''source'', msgs_encode_source source mime)] @ if_some ''title'' name JStr))"
| "msgs_encode_block (AudioPart source format) = Some (JObj [(''type'', JStr ''document''),
     (''source'', msgs_encode_source source format)])"
| "msgs_encode_block (ThinkingPart t sig) = Some (JObj ([(''type'', JStr ''thinking''),
     (''thinking'', JStr t)] @ if_some ''signature'' sig JStr))"
| "msgs_encode_block (RedactedThinking d) = Some (JObj [(''type'', JStr ''redacted_thinking''), (''data'', JStr d)])"
| "msgs_encode_block (ToolUsePart i n input _) = Some (JObj [(''type'', JStr ''tool_use''), (''id'', JStr i),
     (''name'', JStr n), (''input'', input)])"
| "msgs_encode_block (ToolResult i _ content is_error) = Some (JObj ([(''type'', JStr ''tool_result''),
     (''tool_use_id'', JStr i),
     (''content'', if content = [] then JStr []
        else if list_all is_text content then JStr (text_of_parts content)
        else JArr (filter_map msgs_encode_block content))]
     @ if_true ''is_error'' is_error (JBool True)))"
| "msgs_encode_block (RefusalPart t) = Some (msgs_text_block t)"
| "msgs_encode_block (Opaque p v) = (if p = ''messages'' then Some v else None)"

definition msgs_encode_blocks :: "content_part list \<Rightarrow> json list" where
  "msgs_encode_blocks parts = filter_map msgs_encode_block parts"

definition msgs_encode_system :: "content_part list \<Rightarrow> json" where
  "msgs_encode_system parts = (if list_all is_text parts then JStr (system_text_from [] parts)
     else JArr (msgs_encode_blocks parts))"

subsection \<open>Writing messages\<close>

fun msgs_role :: "role \<Rightarrow> string" where
  "msgs_role Assistant = ''assistant''"
| "msgs_role _ = ''user''"

text \<open>One step of the loop that merges neighbours of one role; \<open>merged\<close> is built at its end.\<close>

definition msgs_merge :: "message \<Rightarrow> json turns \<Rightarrow> json turns" where
  "msgs_merge m merged = merge_turn (msgs_role (msg_role m)) (msgs_encode_blocks (msg_content m)) merged"

definition msgs_pad_start :: "(string \<times> json list) list \<Rightarrow> (string \<times> json list) list" where
  "msgs_pad_start merged = (case merged of
     (r, _) # _ \<Rightarrow> if r = ''assistant'' then (''user'', [msgs_text_block ''.'']) # merged else merged
   | [] \<Rightarrow> [])"

definition msgs_squeeze :: "json list \<Rightarrow> json" where
  "msgs_squeeze blocks = (case blocks of
     [only] \<Rightarrow> if get_str ''type'' only = Some ''text''
       then (case jget ''text'' only of Some t \<Rightarrow> t | None \<Rightarrow> JStr []) else JArr blocks
   | _ \<Rightarrow> JArr blocks)"

definition msgs_message_json :: "string \<times> json list \<Rightarrow> json" where
  "msgs_message_json m = JObj [(''role'', JStr (fst m)), (''content'', msgs_squeeze (snd m))]"

definition msgs_encode_messages :: "message list \<Rightarrow> json list" where
  "msgs_encode_messages ms = map msgs_message_json (msgs_pad_start (fold msgs_merge ms []))"

subsection \<open>Writing tools, thinking and sampling\<close>

definition msgs_encode_tool :: "tool_def \<Rightarrow> json" where
  "msgs_encode_tool t = JObj ([(''name'', JStr (td_name t)), (''input_schema'', td_parameters t)]
     @ if_some ''description'' (td_description t) JStr)"

definition msgs_encode_tool_choice :: "tool_choice \<Rightarrow> bool option \<Rightarrow> json option" where
  "msgs_encode_tool_choice choice par = map_option (\<lambda>m. JObj (m
       @ if_true ''disable_parallel_tool_use'' (par = Some False) (JBool True)))
     (case choice of
       Unspecified \<Rightarrow> if par = Some False then Some [(''type'', JStr ''auto'')] else None
     | AutoChoice \<Rightarrow> Some [(''type'', JStr ''auto'')]
     | Required \<Rightarrow> Some [(''type'', JStr ''any'')]
     | NoTool \<Rightarrow> Some [(''type'', JStr ''none'')]
     | NamedTool n \<Rightarrow> Some [(''type'', JStr ''tool''), (''name'', JStr n)])"

text \<open>The field \<open>thinking\<close>: \<open>None\<close> for disabled, else the budget.\<close>

definition msgs_thinking_budget :: "reasoning_config \<Rightarrow> 32 word option \<Rightarrow> 32 word option" where
  "msgs_thinking_budget cfg max_output = (
     if rc_include_thoughts cfg = Some False then None
     else case (case budget_or_from_effort max_output cfg of
           Some b \<Rightarrow> Some b
         | None \<Rightarrow> if rc_include_thoughts cfg = Some True then Some msgs_dynamic_budget else None) of
       None \<Rightarrow> None
     | Some budget \<Rightarrow> (case max_output of
         None \<Rightarrow> Some (max budget 1024)
       | Some m \<Rightarrow> let ceiling = (if m = 0 then 0 else m - 1)
           in if ceiling < 1024 then None else Some (min (max budget 1024) ceiling)))"

definition msgs_thinking_json :: "32 word option \<Rightarrow> json" where
  "msgs_thinking_json b = (case b of None \<Rightarrow> JObj [(''type'', JStr ''disabled'')]
     | Some n \<Rightarrow> JObj [(''type'', JStr ''enabled''), (''budget_tokens'', jnat (unat n))])"

definition msgs_encode_thinking :: "reasoning_config \<Rightarrow> 32 word option \<Rightarrow> json" where
  "msgs_encode_thinking cfg max_output = msgs_thinking_json (msgs_thinking_budget cfg max_output)"

text \<open>Comparisons of \<open>f64\<close> on the bits. \<open>(t - 1.0).abs() > EPSILON\<close>: the subtraction is exact near 1 and
  far from the bound elsewhere, so it fails for the floats from \<open>1 - EPSILON\<close> to \<open>1 + EPSILON\<close> and
  for what is not a number.\<close>

definition f64_nan :: "f64 \<Rightarrow> bool" where
  "f64_nan x \<longleftrightarrow> x AND 0x7FFFFFFFFFFFFFFF > 0x7FF0000000000000"

definition f64_key :: "f64 \<Rightarrow> int" where
  "f64_key x = (let m = uint (x AND 0x7FFFFFFFFFFFFFFF) in if x AND 0x8000000000000000 = 0 then m else - m)"

definition f64_less :: "f64 \<Rightarrow> f64 \<Rightarrow> bool" where
  "f64_less x y \<longleftrightarrow> \<not> f64_nan x \<and> \<not> f64_nan y \<and> f64_key x < f64_key y"

definition f64_off_one :: "f64 \<Rightarrow> bool" where
  "f64_off_one t \<longleftrightarrow> \<not> f64_nan t \<and> \<not> (0x3FEFFFFFFFFFFFFE \<le> t \<and> t \<le> 0x3FF0000000000001)"

definition f64_0_95 :: f64 where
  "f64_0_95 = 0x3FEE666666666666"


subsection \<open>Writing a request\<close>

definition msgs_ext_list :: "unified_request \<Rightarrow> string \<Rightarrow> json list option" where
  "msgs_ext_list ir k = Option.bind (req_extension ir (msgs_ext @ k)) as_array"

definition msgs_tools_field :: "unified_request \<Rightarrow> json list option" where
  "msgs_tools_field ir = (
     let own = (case msgs_ext_list ir ''tools_raw'' of
           Some raw \<Rightarrow> Some raw
         | None \<Rightarrow> if ur_tools ir = [] then None else Some (map msgs_encode_tool (ur_tools ir)))
     in case msgs_ext_list ir ''server_tools'' of
          None \<Rightarrow> own
        | Some server \<Rightarrow> Some ((case own of Some ts \<Rightarrow> ts | None \<Rightarrow> []) @ server))"

definition msgs_system_field :: "unified_request \<Rightarrow> json option" where
  "msgs_system_field ir = (case req_extension ir (msgs_ext @ ''system_raw'') of
     Some v \<Rightarrow> Some v
   | None \<Rightarrow> if ur_system ir = [] then None else Some (msgs_encode_system (ur_system ir)))"

definition msgs_metadata :: "unified_request \<Rightarrow> jmap" where
  "msgs_metadata ir = (
     let own = (case Option.bind (req_extension ir (msgs_ext @ ''metadata'')) as_object of Some m \<Rightarrow> m | None \<Rightarrow> [])
     in case ur_user ir of Some u \<Rightarrow> map_insert ''user_id'' (JStr u) own | None \<Rightarrow> own)"

definition msgs_max_tokens :: "unified_request \<Rightarrow> 32 word" where
  "msgs_max_tokens ir = (case ur_max_output_tokens ir of Some n \<Rightarrow> n | None \<Rightarrow> msgs_default_max_tokens)"

definition msgs_thinking :: "unified_request \<Rightarrow> 32 word option option" where
  "msgs_thinking ir = map_option (\<lambda>r. msgs_thinking_budget r (Some (msgs_max_tokens ir))) (ur_reasoning ir)"

definition msgs_thinks :: "unified_request \<Rightarrow> bool" where
  "msgs_thinks ir \<longleftrightarrow> (case msgs_thinking ir of Some (Some _) \<Rightarrow> True | _ \<Rightarrow> False)"

definition keep_if :: "('a \<Rightarrow> bool) \<Rightarrow> 'a option \<Rightarrow> 'a option" where
  "keep_if P x = (case x of Some y \<Rightarrow> if P y then x else None | None \<Rightarrow> None)"

definition msgs_request_body :: "unified_request \<Rightarrow> jmap" where
  "msgs_request_body ir = (let s = ur_sampling ir; on = msgs_thinks ir in
     [(''model'', JStr (ur_model ir)), (''max_tokens'', jnat (unat (msgs_max_tokens ir)))]
     @ if_true ''stream'' (ur_stream ir) (JBool True)
     @ if_some ''system'' (msgs_system_field ir) (\<lambda>v. v)
     @ [(''messages'', JArr (msgs_encode_messages (ur_messages ir)))]
     @ if_some ''tools'' (msgs_tools_field ir) JArr
     @ if_some ''tool_choice'' (msgs_encode_tool_choice (ur_tool_choice ir) (ur_parallel_tool_calls ir)) (\<lambda>v. v)
     @ if_some ''temperature'' (keep_if (\<lambda>t. \<not> (on \<and> f64_off_one t)) (sa_temperature s)) jfloat
     @ if_some ''top_p'' (keep_if (\<lambda>p. \<not> (on \<and> f64_less p f64_0_95)) (sa_top_p s)) jfloat
     @ if_some ''top_k'' (keep_if (\<lambda>_. \<not> on) (sa_top_k s)) (\<lambda>k. jnat (unat k))
     @ if_true ''stop_sequences'' (sa_stop s \<noteq> []) (JArr (map JStr (sa_stop s)))
     @ if_some ''thinking'' (msgs_thinking ir) msgs_thinking_json
     @ if_true ''metadata'' (msgs_metadata ir \<noteq> []) (JObj (msgs_metadata ir)))"

text \<open>Unlike the Chat codec this one restores a field with an empty name too.\<close>

definition msgs_restore_extensions :: "string list \<Rightarrow> extensions \<Rightarrow> jmap \<Rightarrow> jmap" where
  "msgs_restore_extensions skip ext body = fold (\<lambda>(k, v) out. case strip_prefix msgs_ext k of
       None \<Rightarrow> out
     | Some f \<Rightarrow> if f \<in> set skip \<or> map_of out f \<noteq> None then out else map_insert f v out) ext body"

definition msgs_carried :: "string list" where
  "msgs_carried = [''server_tools'', ''metadata'', ''system_raw'', ''tools_raw'']"

definition msgs_encode_request :: "unified_request \<Rightarrow> gateway_error + json" where
  "msgs_encode_request ir =
     Inr (JObj (msgs_restore_extensions msgs_carried (ur_extensions ir) (msgs_request_body ir)))"

subsection \<open>Messages alternate and nothing is lost\<close>

definition msgs_all_blocks :: "message list \<Rightarrow> json list" where
  "msgs_all_blocks ms = concat (map (\<lambda>m. msgs_encode_blocks (msg_content m)) ms)"

abbreviation msgs_turns_ok :: "json turns \<Rightarrow> bool" where
  "msgs_turns_ok \<equiv> turns_ok {''user'', ''assistant''}"

lemma msgs_fold_merge:
  "msgs_turns_ok (fold msgs_merge ms []) \<and> turn_blocks (fold msgs_merge ms []) = msgs_all_blocks ms"
proof -
  have role: "msgs_role (msg_role m) \<in> {''user'', ''assistant''}" for m by (cases "msg_role m") simp_all
  show ?thesis
    using fold_turns_ok[where role = "\<lambda>m. msgs_role (msg_role m)" and blocks = "\<lambda>m. msgs_encode_blocks (msg_content m)"
        and roles = "{''user'', ''assistant''}" and turns = "[]" and ms = ms, OF role]
    by (simp add: msgs_all_blocks_def msgs_merge_def[abs_def])
qed

text \<open>What an upstream reads as the blocks of a message.\<close>

definition msgs_role_of :: "json \<Rightarrow> string option" where
  "msgs_role_of m = get_str ''role'' m"

definition msgs_blocks_of :: "json \<Rightarrow> json list" where
  "msgs_blocks_of m = (case jget ''content'' m of
     Some (JStr t) \<Rightarrow> [msgs_text_block t] | Some (JArr bs) \<Rightarrow> bs | _ \<Rightarrow> [])"

definition msgs_plain_text_block :: "json \<Rightarrow> bool" where
  "msgs_plain_text_block b \<longleftrightarrow> (get_str ''type'' b = Some ''text'' \<longrightarrow> (\<exists>t. b = msgs_text_block t))"

lemma msgs_squeeze_back:
  "\<forall>b \<in> set bs. msgs_plain_text_block b \<Longrightarrow> msgs_blocks_of (msgs_message_json (r, bs)) = bs"
  by (cases bs rule: list.exhaust[case_names Nil Cons], simp_all add: msgs_blocks_of_def msgs_message_json_def msgs_squeeze_def)
     (auto simp: msgs_plain_text_block_def msgs_text_block_def split: list.split)


definition msgs_opaque_ok :: "content_part \<Rightarrow> bool" where
  "msgs_opaque_ok p \<longleftrightarrow> (case p of Opaque _ v \<Rightarrow> get_str ''type'' v \<noteq> Some ''text'' | _ \<Rightarrow> True)"

lemma msgs_encode_plain: "msgs_encode_block p = Some b \<Longrightarrow> msgs_opaque_ok p \<Longrightarrow> msgs_plain_text_block b"
  by (cases p) (auto simp: msgs_plain_text_block_def msgs_opaque_ok_def split: if_splits)

lemma set_filter_map: "set (filter_map f xs) = {y. \<exists>x \<in> set xs. f x = Some y}"
  by (induction xs) (auto split: option.split)

lemma msgs_all_plain:
  "\<forall>m \<in> set ms. list_all msgs_opaque_ok (msg_content m) \<Longrightarrow> b \<in> set (msgs_all_blocks ms) \<Longrightarrow> msgs_plain_text_block b"
  by (fastforce simp: msgs_all_blocks_def msgs_encode_blocks_def set_filter_map list_all_iff intro: msgs_encode_plain)

lemma msgs_pad_ok:
  assumes "msgs_turns_ok merged"
  shows "msgs_turns_ok (msgs_pad_start merged) \<and> (msgs_pad_start merged = [] \<or> fst (hd (msgs_pad_start merged)) = ''user'')
    \<and> (msgs_pad_start merged = merged \<or> (fst (hd merged) = ''assistant''
        \<and> msgs_pad_start merged = (''user'', [msgs_text_block ''.'']) # merged))"
proof (cases merged)
  case (Cons m ms)
  obtain r bs where m: "m = (r, bs)" by fastforce
  show ?thesis
  proof (cases "r = ''assistant''")
    case True
    then have "msgs_pad_start merged = (''user'', [msgs_text_block ''.'']) # merged" by (simp add: msgs_pad_start_def Cons m)
    then show ?thesis using assms True by (simp add: turns_ok_def Cons m)
  next
    case False
    then have "msgs_pad_start merged = merged" by (simp add: msgs_pad_start_def Cons m)
    then show ?thesis using assms False by (auto simp: turns_ok_def Cons m)
  qed
qed (simp add: msgs_pad_start_def turns_ok_def)

lemma msgs_roles_of: "map msgs_role_of (map msgs_message_json merged) = map (Some \<circ> fst) merged"
  by (simp add: msgs_role_of_def msgs_message_json_def)

lemma msgs_blocks_of_all:
  "\<forall>b \<in> set (concat (map snd merged)). msgs_plain_text_block b \<Longrightarrow>
   map msgs_blocks_of (map msgs_message_json merged) = map snd merged"
  using msgs_squeeze_back by fastforce

definition msgs_placeholder :: "json list \<Rightarrow> bool" where
  "msgs_placeholder bs \<longleftrightarrow> bs = [] \<or> bs = [msgs_text_block ''.'']"

text \<open>\<open>C15\<close>. Whatever conversation comes in, the messages written for the upstream begin with the user,
  never have two neighbours of one role and are never empty; and the blocks in them are
  exactly those of the conversation in their order, behind at most one placeholder: merging
  and squeezing neither lose nor reorder a tool result, a call or a thought.\<close>

theorem msgs_messages_alternate:
  assumes "\<forall>m \<in> set ms. list_all msgs_opaque_ok (msg_content m)"
  shows "let out = msgs_encode_messages ms in
    alternate (map msgs_role_of out) \<and> (out \<noteq> [] \<longrightarrow> msgs_role_of (hd out) = Some ''user'')
    \<and> list_all (\<lambda>m. msgs_blocks_of m \<noteq> []) out
    \<and> (\<exists>pad. msgs_placeholder pad \<and> concat (map msgs_blocks_of out) = pad @ msgs_all_blocks ms)"
proof -
  define merged where "merged = fold msgs_merge ms []"
  have ok: "msgs_turns_ok merged" and blocks: "concat (map snd merged) = msgs_all_blocks ms"
    using msgs_fold_merge[of ms] by (simp_all add: merged_def turn_blocks_def)
  define full where "full = msgs_pad_start merged"
  note pad = msgs_pad_ok[OF ok, folded full_def]
  then consider "full = merged" | "full = (''user'', [msgs_text_block ''.'']) # merged" by blast
  then have "\<exists>p. msgs_placeholder p \<and> concat (map snd full) = p @ msgs_all_blocks ms"
    by cases (simp_all add: blocks msgs_placeholder_def)
  then obtain p where p: "msgs_placeholder p" "concat (map snd full) = p @ msgs_all_blocks ms" by blast
  have "msgs_plain_text_block b" if "b \<in> set (concat (map snd full))" for b
    using that msgs_all_plain[OF assms] p by (auto simp: msgs_placeholder_def msgs_plain_text_block_def)
  then have bs: "map msgs_blocks_of (map msgs_message_json full) = map snd full" by (intro msgs_blocks_of_all) blast
  have "alternate (map msgs_role_of (map msgs_message_json full))"
    unfolding msgs_roles_of using pad alternate_inj[of Some "map fst full"] by (simp add: turns_ok_def)
  moreover have "full = [] \<or> fst (hd full) = ''user''" using pad by blast
  then have "map msgs_message_json full \<noteq> [] \<longrightarrow> msgs_role_of (hd (map msgs_message_json full)) = Some ''user''"
    by (cases full) (simp_all add: msgs_role_of_def msgs_message_json_def)
  moreover have "list_all (\<lambda>m. msgs_blocks_of m \<noteq> []) (map msgs_message_json full)"
    using bs pad by (simp add: list_all_iff turns_ok_def)
  moreover have "concat (map msgs_blocks_of (map msgs_message_json full)) = p @ msgs_all_blocks ms" unfolding bs by (rule p(2))
  moreover have out: "msgs_encode_messages ms = map msgs_message_json full"
    by (simp add: msgs_encode_messages_def full_def merged_def)
  ultimately show ?thesis using p(1) unfolding Let_def out by blast
qed

text \<open>Two parallel tool results after a call that opens the conversation.\<close>

definition two_results :: "message list" where
  "two_results = [message_new Assistant [ToolUsePart ''a'' ''f'' (JObj []) None, ToolUsePart ''b'' ''g'' (JObj []) None],
     message_new Tool [ToolResult ''a'' None [TextPart ''1''] False],
     message_new Tool [ToolResult ''b'' None [TextPart ''2''] True]]"

theorem msgs_messages_alternate_witness:
  "let out = msgs_encode_messages two_results in
     alternate (map msgs_role_of out) \<and> (\<exists>pad. msgs_placeholder pad
       \<and> concat (map msgs_blocks_of out) = pad @ msgs_all_blocks two_results)"
proof -
  have "\<forall>m \<in> set two_results. list_all msgs_opaque_ok (msg_content m)"
    by (simp add: two_results_def message_new_def msgs_opaque_ok_def)
  from msgs_messages_alternate[OF this] show ?thesis unfolding Let_def by blast
qed

lemma two_results_merged:
  "map msgs_role_of (msgs_encode_messages two_results) = [Some ''user'', Some ''assistant'', Some ''user'']"
  by (simp add: two_results_def message_new_def msgs_encode_messages_def msgs_merge_def merge_turn_def msgs_pad_start_def
      msgs_encode_blocks_def msgs_role_of_def msgs_message_json_def)


subsection \<open>What the upstream asks of thinking\<close>

definition msgs_ext_clean :: "extensions \<Rightarrow> bool" where
  "msgs_ext_clean ext \<longleftrightarrow> (\<forall>k \<in> set msgs_known_request - {''metadata''}. map_of ext (msgs_ext @ k) = None)"

lemma msgs_restore_absent:
  "map_of ext (msgs_ext @ k) = None \<or> k \<in> set skip \<Longrightarrow> map_of (msgs_restore_extensions skip ext body) k = map_of body k"
proof (induction ext arbitrary: body)
  case (Cons e ext)
  have IH: "map_of (msgs_restore_extensions skip ext b) k = map_of b k" for b
    using Cons.prems by (intro Cons.IH) (auto split: if_splits)
  obtain key v where e: "e = (key, v)" by fastforce
  show ?case
  proof (cases "strip_prefix msgs_ext key")
    case None
    then show ?thesis using IH by (simp add: msgs_restore_extensions_def e)
  next
    case (Some f)
    then have "key = msgs_ext @ f" by (auto simp: strip_prefix_def prefix_def split: if_splits)
    then have "f \<in> set skip \<or> f \<noteq> k" using Cons.prems by (auto simp: e)
    then show ?thesis using IH Some by (auto simp: msgs_restore_extensions_def e)
  qed
qed (simp add: msgs_restore_extensions_def)

lemma msgs_encoded_field:
  assumes "msgs_ext_clean (ur_extensions ir)" and "k \<in> set msgs_known_request"
  shows "map_of (msgs_restore_extensions msgs_carried (ur_extensions ir) (msgs_request_body ir)) k
    = map_of (msgs_request_body ir) k"
  using assms by (intro msgs_restore_absent) (auto simp: msgs_ext_clean_def msgs_carried_def)

lemma msgs_budget_range:
  assumes "msgs_thinking_budget cfg (Some m) = Some b"
  shows "1024 \<le> b \<and> b < m"
proof -
  obtain x where m: "\<not> (if m = 0 then 0 else m - 1) < 1024" and b: "b = min (max x 1024) (m - 1)"
    using assms by (auto simp: msgs_thinking_budget_def Let_def split: option.splits if_splits)
  then have "m \<noteq> 0" "\<not> m - 1 < 1024" by (auto split: if_splits)
  then have "1024 \<le> m - 1" "m - 1 < m" by (simp, unat_arith)
  then show ?thesis unfolding b by (auto simp: min_def max_def)
qed

lemma keep_if_Some: "keep_if P x = Some y \<longleftrightarrow> x = Some y \<and> P y"
  by (auto simp: keep_if_def split: option.splits)

lemma msgs_thinking_fields:
  assumes "get_in ''thinking'' ''type'' (JObj (msgs_request_body ir)) = Some (JStr ''enabled'')"
  obtains b where "msgs_thinking ir = Some (Some b)"
  using assms by (auto simp: get_in_def msgs_request_body_def Let_def msgs_thinking_json_def
      msgs_thinks_def split: option.splits if_splits)



text \<open>High effort over a limit of 2000 tokens, with a temperature, a low \<open>top_p\<close> and a \<open>top_k\<close>.\<close>

definition thinking_request :: unified_request where
  "thinking_request = (request_new ''claude'' [])\<lparr>ur_max_output_tokens := Some 2000,
     ur_reasoning := Some \<lparr>rc_effort = Some ''high'', rc_budget_tokens = None, rc_include_thoughts = None\<rparr>,
     ur_sampling := sampling_default\<lparr>sa_temperature := Some 0, sa_top_p := Some 0, sa_top_k := Some 5\<rparr>\<rparr>"


lemma thinking_request_budget: "msgs_thinking thinking_request = Some (Some 1600)"
  by code_simp

subsection \<open>What a decoded request carries\<close>

lemma collect_unknown_other:
  "(\<And>f. k = pre @ f \<Longrightarrow> f \<in> set known) \<Longrightarrow> map_of (collect_unknown pre known obj ext) k = map_of ext k"
proof (induction obj arbitrary: ext)
  case (Cons e obj)
  then show ?case by (cases e) (auto simp: collect_unknown_def)
qed (simp add: collect_unknown_def)

lemma collect_unknown_absent:
  "map_of obj f = None \<or> f \<in> set known \<Longrightarrow> map_of (collect_unknown pre known obj ext) (pre @ f) = map_of ext (pre @ f)"
proof (induction obj arbitrary: ext)
  case (Cons e obj)
  then show ?case by (cases e) (auto simp: collect_unknown_def split: if_splits)
qed (simp add: collect_unknown_def)

definition msgs_raw_tools :: "json \<Rightarrow> json list" where
  "msgs_raw_tools raw = (case get_array ''tools'' raw of Some ts \<Rightarrow> ts | None \<Rightarrow> [])"

lemma msgs_decoded_ext:
  assumes "msgs_decode_request lib (JObj m) = Inr ir"
  shows "ur_extensions ir = collect_unknown msgs_ext msgs_known_request m (msgs_start_ext (JObj m) (msgs_raw_tools (JObj m)))"
proof -
  obtain model where model: "get_nonempty ''model'' (JObj m) = Some model"
    using assms by (cases "get_nonempty ''model'' (JObj m)") (simp_all add: msgs_decode_request_def)
  obtain raw_ms where raw_ms: "get_array ''messages'' (JObj m) = Some raw_ms"
    using assms by (cases "get_array ''messages'' (JObj m)") (simp_all add: msgs_decode_request_def rbind_Inr model)
  obtain mt sys ms tools where "ir = msgs_build_request (JObj m) m model mt sys ms (msgs_raw_tools (JObj m)) tools"
    using assms unfolding msgs_decode_request_def Let_def rbind_Inr as_object.simps option.case model raw_ms msgs_raw_tools_def
    by blast
  then show ?thesis by (simp add: msgs_build_request_def Let_def)
qed

lemma msgs_start_ext_other:
  "f \<notin> set msgs_carried \<Longrightarrow> map_of (msgs_start_ext raw ts) (msgs_ext @ f) = None"
  by (simp add: msgs_start_ext_def Let_def msgs_tools_ext_def msgs_system_ext_def msgs_carried_def split: option.split)

lemma msgs_decoded_clean:
  assumes "msgs_decode_request lib raw = Inr ir"
  shows "msgs_ext_clean (ur_extensions ir)"
proof -
  obtain m where raw: "raw = JObj m"
    using assms by (cases raw) (auto simp: msgs_decode_request_def)
  have "f \<notin> set msgs_carried" if "f \<in> set msgs_known_request - {''metadata''}" for f
    using that by (auto simp: msgs_known_request_def msgs_carried_def)
  then show ?thesis unfolding msgs_ext_clean_def msgs_decoded_ext[OF assms[unfolded raw]]
    by (simp add: collect_unknown_absent msgs_start_ext_other)
qed

text \<open>Cache breakpoints survive the way through the gateway: when a Messages request marks its
  system prompt or one of its tools with \<open>cache_control\<close>, the request sent to a Messages
  upstream has the system value, and the function tools followed by the server tools, as they
  came in; the reserved names must not be fields of the request itself.\<close>

theorem msgs_cache_breakpoints_kept:
  assumes "msgs_decode_request lib raw = Inr ir" and "msgs_encode_request ir = Inr j"
    and "list_all (\<lambda>k. jget k raw = None) msgs_carried"
  shows "(\<forall>v. jget ''system'' raw = Some v \<and> has_cache_control v \<longrightarrow> jget ''system'' j = Some v)
    \<and> (\<forall>ts. jget ''tools'' raw = Some (JArr ts) \<and> list_ex has_cache_control (msgs_function_tools ts)
        \<longrightarrow> jget ''tools'' j = Some (JArr (msgs_function_tools ts @ msgs_server_tools ts)))"
proof -
  obtain m where raw: "raw = JObj m" using assms(1) by (cases raw) (auto simp: msgs_decode_request_def)
  have none: "map_of m ''system_raw'' = None" "map_of m ''tools_raw'' = None" "map_of m ''server_tools'' = None"
    using assms(3) by (simp_all add: raw msgs_carried_def)
  have ext: "req_extension ir (msgs_ext @ k) = map_of (msgs_start_ext raw (msgs_raw_tools raw)) (msgs_ext @ k)" if "map_of m k = None" for k
    using that unfolding req_extension_def msgs_decoded_ext[OF assms(1)[unfolded raw]] raw
    by (simp add: collect_unknown_absent)
  have j: "j = JObj (msgs_restore_extensions msgs_carried (ur_extensions ir) (msgs_request_body ir))"
    using assms(2) by (simp add: msgs_encode_request_def)
  have f: "jget k j = map_of (msgs_request_body ir) k" if "k \<in> set msgs_known_request" for k
    using msgs_encoded_field[OF msgs_decoded_clean[OF assms(1)] that] by (simp add: j)
  have system: "jget ''system'' j = msgs_system_field ir"
    by (subst f, simp add: msgs_known_request_def)
       (simp add: msgs_request_body_def Let_def map_option_case option_again cong: option.case_cong)
  have tools: "jget ''tools'' j = map_option JArr (msgs_tools_field ir)"
    by (subst f, simp add: msgs_known_request_def)
       (simp add: msgs_request_body_def Let_def map_option_case option_again cong: option.case_cong)
  note start = msgs_raw_tools_def msgs_start_ext_def msgs_tools_ext_def msgs_system_ext_def msgs_ext_def Let_def
  have "jget ''system'' j = Some v" if "jget ''system'' raw = Some v" "has_cache_control v" for v
  proof -
    have "map_of (msgs_start_ext raw (msgs_raw_tools raw)) (msgs_ext @ ''system_raw'') = Some v" using that by (simp add: start)
    then show ?thesis using ext[OF none(1)] by (simp add: system msgs_system_field_def)
  qed
  moreover have "jget ''tools'' j = Some (JArr (msgs_function_tools ts @ msgs_server_tools ts))"
    if t: "jget ''tools'' raw = Some (JArr ts)" "list_ex has_cache_control (msgs_function_tools ts)" for ts
  proof -
    have ts: "get_array ''tools'' raw = Some ts" using t(1) by (simp add: get_array_def)
    have "map_of (msgs_start_ext raw (msgs_raw_tools raw)) (msgs_ext @ ''tools_raw'') = Some (JArr (msgs_function_tools ts))"
      using t(2) ts by (simp add: start)
    moreover have "map_of (msgs_start_ext raw (msgs_raw_tools raw)) (msgs_ext @ ''server_tools'')
        = (if msgs_server_tools ts = [] then None else Some (JArr (msgs_server_tools ts)))"
      using t(2) ts by (simp add: start split: option.split)
    ultimately show ?thesis using ext[OF none(2)] ext[OF none(3)]
      by (simp add: tools msgs_tools_field_def msgs_ext_list_def)
  qed
  ultimately show ?thesis by blast
qed


definition cached_request :: json where
  "cached_request = JObj [(''model'', JStr ''claude''), (''max_tokens'', jnat 100),
     (''system'', JArr [JObj [(''type'', JStr ''text''), (''text'', JStr ''be kind''),
        (''cache_control'', JObj [(''type'', JStr ''ephemeral'')])]]),
     (''messages'', JArr [JObj [(''role'', JStr ''user''), (''content'', JStr ''hi'')]])]"

definition plain_lib :: codec_lib where
  "plain_lib = \<lparr>cl_parse = (\<lambda>s. None), cl_print = (\<lambda>v. ''?''), cl_base64 = (\<lambda>s. s)\<rparr>"

theorem msgs_cache_breakpoints_kept_witness:
  "\<exists>ir j. msgs_decode_request plain_lib cached_request = Inr ir \<and> msgs_encode_request ir = Inr j
     \<and> jget ''system'' j = jget ''system'' cached_request"
proof -
  have "case msgs_decode_request plain_lib cached_request of Inr ir \<Rightarrow> True | Inl e \<Rightarrow> False" by code_simp
  then obtain ir where ir: "msgs_decode_request plain_lib cached_request = Inr ir" by (auto split: sum.splits)
  obtain j where j: "msgs_encode_request ir = Inr j" by (simp add: msgs_encode_request_def)
  have v: "jget ''system'' cached_request = Some (the (jget ''system'' cached_request))"
    "has_cache_control (the (jget ''system'' cached_request))" by code_simp+
  have "list_all (\<lambda>k. jget k cached_request = None) msgs_carried" by code_simp
  then have "\<forall>w. jget ''system'' cached_request = Some w \<and> has_cache_control w \<longrightarrow> jget ''system'' j = Some w"
    using msgs_cache_breakpoints_kept[OF ir j] by blast
  then show ?thesis using ir j v by metis
qed

text \<open>The reserved names are not protected: a field \<open>system_raw\<close> of the request itself takes the place of
  the system prompt.\<close>

lemma msgs_reserved_name_replaces_system:
  "case msgs_decode_request plain_lib (JObj [(''model'', JStr ''m''), (''max_tokens'', jnat 1),
       (''system'', JStr ''be kind''), (''messages'', JArr []), (''system_raw'', JStr ''be rude'')]) of
     Inr ir \<Rightarrow> (case msgs_encode_request ir of Inr j \<Rightarrow> jget ''system'' j = Some (JStr ''be rude'') | _ \<Rightarrow> False)
   | _ \<Rightarrow> False"
  by code_simp

text \<open>The limit is cut to 32 bits: one past the largest value is read as zero.\<close>

lemma msgs_max_tokens_wraps: "msgs_decode_max_tokens (Some (jnat (2 ^ 32))) = Inr 0"
  by (simp add: msgs_decode_max_tokens_def as_u32_wrap_def jnat_def)

subsection \<open>Blocks go round\<close>

definition msgs_kinds :: "string list" where
  "msgs_kinds = [[], ''text'', ''image'', ''document'', ''thinking'', ''redacted_thinking'', ''tool_use'', ''tool_result'']"

fun msgs_source_ok :: "media_source \<Rightarrow> string option \<Rightarrow> bool" where
  "msgs_source_ok (Url u) mime = (mime = None \<and> \<not> prefix ''data:'' u)"
| "msgs_source_ok (FileId _) mime = (mime = None)"
| "msgs_source_ok _ mime = (mime \<noteq> None)"

fun msgs_part_ok :: "content_part \<Rightarrow> bool" where
  "msgs_part_ok (TextPart _) = True"
| "msgs_part_ok (ImagePart source mime detail) = (msgs_source_ok source mime \<and> detail = None)"
| "msgs_part_ok (FilePart source mime _) = msgs_source_ok source mime"
| "msgs_part_ok (ThinkingPart _ _) = True"
| "msgs_part_ok (RedactedThinking _) = True"
| "msgs_part_ok (ToolUsePart _ _ _ sig) = (sig = None)"
| "msgs_part_ok (ToolResult _ name content _) = (name = None
     \<and> ((\<exists>s. content = [TextPart s]) \<or> (\<not> list_all is_text content \<and> list_all msgs_part_ok content)))"
| "msgs_part_ok (Opaque p v) = (p = ''messages'' \<and> (case v of JObj _ \<Rightarrow> str_or [] (get_str ''type'' v) \<notin> set msgs_kinds | _ \<Rightarrow> False))"
| "msgs_part_ok _ = False"

lemma msgs_source_back: "msgs_source_ok source mime \<Longrightarrow> msgs_decode_source (Some (msgs_encode_source source mime)) = Inr (source, mime)"
  by (cases source) (auto simp: msgs_decode_source_def msgs_encode_source_def parse_data_uri_def strip_prefix_def Let_def)

lemma msgs_part_back: "msgs_part_ok p \<Longrightarrow> \<exists>v. msgs_encode_block p = Some v \<and> msgs_decode_block lib v = Inr [p]"
proof (induction p)
  case (ToolResult i name content e)
  have parts: "msgs_decode_blocks lib (filter_map msgs_encode_block ps) = Inr ps"
    if "set ps \<subseteq> set content" "list_all msgs_part_ok ps" for ps
    using that
  proof (induction ps)
    case (Cons p ps)
    then obtain v where "msgs_encode_block p = Some v" "msgs_decode_block lib v = Inr [p]"
      using ToolResult.IH[of p] by auto
    then show ?case using Cons by simp
  qed simp
  show ?case using ToolResult.prems parts[of content] by (auto simp: msgs_text_block_def)
next
  case (Opaque p v)
  then show ?case by (auto simp: msgs_kinds_def msgs_decode_leaf_def Let_def split: json.splits)
qed (auto simp: msgs_text_block_def msgs_decode_leaf_def msgs_decode_tool_use_def msgs_source_back)

lemma msgs_parts_back: "list_all msgs_part_ok ps \<Longrightarrow> msgs_decode_blocks lib (msgs_encode_blocks ps) = Inr ps"
proof (induction ps)
  case (Cons p ps)
  then obtain v where "msgs_encode_block p = Some v" "msgs_decode_block lib v = Inr [p]"
    using msgs_part_back[of p lib] by auto
  then show ?case using Cons by (simp add: msgs_encode_blocks_def)
qed (simp add: msgs_encode_blocks_def)

end
