(* ===== verification/Messages_Roundtrip.thy ===== *)
theory Messages_Roundtrip
  imports Messages_Request
begin

section \<open>Anthropic Messages: requests go round\<close>

text \<open>
  Which unified requests have a Messages form, and the proof that writing one and reading it
  back changes nothing: the conversation with its nested tool results, tools and their
  choice, thinking, sampling, metadata and the fields kept in the extensions.
\<close>

subsection \<open>The conversation\<close>

definition msgs_message_ok :: "message \<Rightarrow> bool" where
  "msgs_message_ok m \<longleftrightarrow> msg_name m = None \<and> msg_content m \<noteq> [] \<and> list_all msgs_part_ok (msg_content m)
     \<and> (case msg_role m of System \<Rightarrow> False | Assistant \<Rightarrow> True
        | User \<Rightarrow> \<not> list_all is_tool_result (msg_content m) | Tool \<Rightarrow> list_all is_tool_result (msg_content m))"

definition msgs_talk_ok :: "message list \<Rightarrow> bool" where
  "msgs_talk_ok ms \<longleftrightarrow> list_all msgs_message_ok ms \<and> alternate (map (\<lambda>m. msgs_role (msg_role m)) ms)
     \<and> (case ms of [] \<Rightarrow> True | m # _ \<Rightarrow> msg_role m \<noteq> Assistant)"

definition msgs_plain :: "message \<Rightarrow> string \<times> json list" where
  "msgs_plain m = (msgs_role (msg_role m), msgs_encode_blocks (msg_content m))"

lemma msgs_ok_blocks: "list_all msgs_part_ok ps \<Longrightarrow> msgs_encode_blocks ps = [] \<longleftrightarrow> ps = []"
  by (cases ps) (auto simp: msgs_encode_blocks_def dest!: msgs_part_back[of _ undefined])

lemma msgs_encode_talk:
  assumes "msgs_talk_ok ms"
  shows "msgs_encode_messages ms = map (msgs_message_json \<circ> msgs_plain) ms"
proof -
  have "list_all (\<lambda>m. msgs_encode_blocks (msg_content m) \<noteq> []) ms"
    using assms msgs_ok_blocks by (auto simp: msgs_talk_ok_def msgs_message_ok_def list_all_iff)
  then have "fold msgs_merge ms [] = map msgs_plain ms"
    using assms fold_turns_plain[where role = "\<lambda>m. msgs_role (msg_role m)" and turns = "[]" and ms = ms
        and blocks = "\<lambda>m. msgs_encode_blocks (msg_content m)"]
    by (simp add: msgs_talk_ok_def msgs_merge_def[abs_def] msgs_plain_def[abs_def])
  moreover have "msgs_pad_start (map msgs_plain ms) = map msgs_plain ms"
    using assms by (cases ms) (auto simp: msgs_pad_start_def msgs_plain_def msgs_talk_ok_def
        elim: msgs_role.elims)
  ultimately show ?thesis by (simp add: msgs_encode_messages_def)
qed

lemma msgs_one_block:
  "msgs_part_ok p \<Longrightarrow> msgs_encode_block p = Some b \<Longrightarrow> get_str ''type'' b = Some ''text'' \<Longrightarrow> \<exists>s. p = TextPart s"
  by (cases p) (auto simp: msgs_kinds_def split: json.splits)

lemma msgs_content_back:
  assumes "list_all msgs_part_ok ps" and "ps \<noteq> []"
  shows "msgs_content lib i (Some (msgs_squeeze (msgs_encode_blocks ps))) = Inr ps"
proof (cases "\<exists>s. ps = [TextPart s]")
  case True
  then show ?thesis by (auto simp: msgs_encode_blocks_def msgs_squeeze_def msgs_content_def msgs_text_block_def)
next
  case False
  have "msgs_squeeze (msgs_encode_blocks ps) = JArr (msgs_encode_blocks ps)"
  proof (cases "\<exists>p. ps = [p]")
    case True
    then obtain p b where "ps = [p]" "msgs_encode_block p = Some b" using assms(1) msgs_part_back by fastforce
    moreover from this have "get_str ''type'' b \<noteq> Some ''text''" using msgs_one_block[of p b] assms(1) False by auto
    ultimately show ?thesis by (simp add: msgs_encode_blocks_def msgs_squeeze_def)
  next
    case many: False
    then obtain p q rest where "ps = p # q # rest" using assms(2) by (cases ps rule: alternate.cases) auto
    moreover from this obtain a b where "msgs_encode_block p = Some a" "msgs_encode_block q = Some b"
      using assms(1) msgs_part_back by fastforce
    ultimately show ?thesis by (simp add: msgs_encode_blocks_def msgs_squeeze_def)
  qed
  then show ?thesis using msgs_parts_back[OF assms(1)] by (simp add: msgs_content_def)
qed

lemma msgs_message_back:
  assumes "msgs_message_ok m"
  shows "msgs_decode_message lib i (msgs_message_json (msgs_plain m)) = Inr m"
proof -
  have "msgs_content lib i (Some (msgs_squeeze (msgs_encode_blocks (msg_content m)))) = Inr (msg_content m)"
    using assms by (intro msgs_content_back) (simp_all add: msgs_message_ok_def)
  then show ?thesis using assms
    by (cases "msg_role m") (auto simp: msgs_decode_message_def msgs_message_json_def msgs_plain_def
        msgs_decode_role_def msgs_message_ok_def message_new_def intro!: message.equality)
qed

lemma msgs_talk_back:
  "list_all msgs_message_ok ms \<Longrightarrow>
   msgs_decode_messages lib i (map (msgs_message_json \<circ> msgs_plain) ms) = Inr ms"
  by (induction ms arbitrary: i) (simp_all add: msgs_message_back)


subsection \<open>Tools, their choice, thinking\<close>

lemma msgs_tool_back: "td_strict t = None \<Longrightarrow> msgs_decode_tool (msgs_encode_tool t) = Inr t"
  by (simp add: msgs_decode_tool_def msgs_encode_tool_def)

lemma msgs_tools_back: "list_all (\<lambda>t. td_strict t = None) ts \<Longrightarrow> map_ok msgs_decode_tool (map msgs_encode_tool ts) = Inr ts"
  by (induction ts) (simp_all add: msgs_tool_back)

lemma msgs_tool_has_schema: "jget ''input_schema'' (msgs_encode_tool t) = Some (td_parameters t)"
  by (simp add: msgs_encode_tool_def)

lemma msgs_split_tools:
  assumes "list_all (\<lambda>t. jget ''input_schema'' t = None) server"
  shows "msgs_function_tools (map msgs_encode_tool ts @ server) = map msgs_encode_tool ts"
    and "msgs_server_tools (map msgs_encode_tool ts @ server) = server"
  using assms by (simp_all add: msgs_function_tools_def msgs_server_tools_def msgs_tool_has_schema
      filter_empty_conv filter_id_conv list_all_iff)

lemma msgs_tools_uncached: "\<not> list_ex has_cache_control (map msgs_encode_tool ts)"
  by (induction ts) (simp_all add: msgs_encode_tool_def)

definition msgs_choice_ok :: "tool_choice \<Rightarrow> bool option \<Rightarrow> bool" where
  "msgs_choice_ok choice par \<longleftrightarrow> par \<noteq> Some True \<and> (choice = Unspecified \<longrightarrow> par = None)"

lemma msgs_choice_back:
  assumes "msgs_choice_ok choice par"
  shows "(case msgs_encode_tool_choice choice par of Some c \<Rightarrow> msgs_decode_tool_choice c
    | None \<Rightarrow> (Unspecified, None)) = (choice, par)"
  using assms by (cases choice; cases par)
    (auto simp: msgs_choice_ok_def msgs_encode_tool_choice_def msgs_decode_tool_choice_def Let_def)

definition msgs_reasoning_ok :: "reasoning_config option \<Rightarrow> 32 word \<Rightarrow> bool" where
  "msgs_reasoning_ok r m \<longleftrightarrow> (case r of None \<Rightarrow> True | Some c \<Rightarrow>
     c = \<lparr>rc_effort = Some ''none'', rc_budget_tokens = None, rc_include_thoughts = Some False\<rparr>
     \<or> (\<exists>b. c = \<lparr>rc_effort = None, rc_budget_tokens = Some b, rc_include_thoughts = Some True\<rparr> \<and> 1024 \<le> b \<and> b < m))"

lemma msgs_budget_kept:
  assumes "1024 \<le> b" and "b < m"
  shows "msgs_thinking_budget \<lparr>rc_effort = e, rc_budget_tokens = Some b, rc_include_thoughts = Some True\<rparr> (Some m) = Some b"
proof -
  have "\<not> (if m = 0 then 0 else m - 1) < 1024" "b \<le> m - 1" using assms by (unat_arith+)
  moreover have "m \<noteq> 0" using assms(2) by auto
  ultimately show ?thesis using assms(1) by (simp add: msgs_thinking_budget_def budget_or_from_effort_def Let_def)
qed

lemma msgs_thinking_back:
  assumes "msgs_reasoning_ok r m"
  shows "Option.bind (map_option (\<lambda>c. msgs_thinking_json (msgs_thinking_budget c (Some m))) r) msgs_decode_thinking = r"
proof (cases r)
  case (Some c)
  then consider "c = \<lparr>rc_effort = Some ''none'', rc_budget_tokens = None, rc_include_thoughts = Some False\<rparr>"
    | b where "c = \<lparr>rc_effort = None, rc_budget_tokens = Some b, rc_include_thoughts = Some True\<rparr>" "1024 \<le> b" "b < m"
    using assms by (auto simp: msgs_reasoning_ok_def)
  then show ?thesis
  proof cases
    case 1
    then show ?thesis by (simp add: Some msgs_thinking_budget_def msgs_thinking_json_def msgs_decode_thinking_def)
  next
    case 2
    then show ?thesis
      by (simp add: Some msgs_budget_kept msgs_thinking_json_def msgs_decode_thinking_def as_u32_wrap_def Let_def)
  qed
qed simp

subsection \<open>Requests that have a Messages form\<close>

definition msgs_optional :: "('a \<Rightarrow> bool) \<Rightarrow> 'a option \<Rightarrow> bool" where
  "msgs_optional P x \<longleftrightarrow> (case x of Some y \<Rightarrow> P y | None \<Rightarrow> True)"

definition msgs_sampling_ok :: "bool \<Rightarrow> sampling \<Rightarrow> bool" where
  "msgs_sampling_ok on s \<longleftrightarrow> sa_frequency_penalty s = None \<and> sa_presence_penalty s = None \<and> sa_seed s = None
     \<and> sa_candidate_count s = None
     \<and> msgs_optional (\<lambda>t. finite_f64 t \<and> \<not> (on \<and> f64_off_one t)) (sa_temperature s)
     \<and> msgs_optional (\<lambda>p. finite_f64 p \<and> \<not> (on \<and> f64_less p f64_0_95)) (sa_top_p s)
     \<and> (on \<longrightarrow> sa_top_k s = None)"

definition msgs_entry_ok :: "string \<times> json \<Rightarrow> bool" where
  "msgs_entry_ok e \<longleftrightarrow> prefix msgs_ext (fst e) \<and> fst e \<noteq> msgs_ext
     \<and> fst (ext_field msgs_ext e) \<notin> set msgs_known_request - {''metadata''}
     \<and> fst (ext_field msgs_ext e) \<notin> {''system_raw'', ''tools_raw''}
     \<and> (fst e = ''messages.metadata'' \<longrightarrow> (case snd e of JObj m \<Rightarrow> m \<noteq> [] \<and> map_of m ''user_id'' = None | _ \<Rightarrow> False))
     \<and> (fst e = ''messages.server_tools'' \<longrightarrow>
          (case snd e of JArr ts \<Rightarrow> ts \<noteq> [] \<and> list_all (\<lambda>t. jget ''input_schema'' t = None) ts | _ \<Rightarrow> False))"

definition msgs_extensions_ok :: "extensions \<Rightarrow> bool" where
  "msgs_extensions_ok ext \<longleftrightarrow> sorted_wrt (<) (map fst ext) \<and> list_all msgs_entry_ok ext"

definition msgs_request_ok :: "unified_request \<Rightarrow> bool" where
  "msgs_request_ok r \<longleftrightarrow> ur_model r \<noteq> [] \<and> ur_max_output_tokens r \<noteq> None
     \<and> (case ur_system r of [] \<Rightarrow> True | [TextPart s] \<Rightarrow> s \<noteq> [] | _ \<Rightarrow> False)
     \<and> msgs_talk_ok (ur_messages r) \<and> list_all (\<lambda>t. td_strict t = None) (ur_tools r)
     \<and> msgs_choice_ok (ur_tool_choice r) (ur_parallel_tool_calls r)
     \<and> msgs_reasoning_ok (ur_reasoning r) (msgs_max_tokens r)
     \<and> msgs_sampling_ok (msgs_thinks r) (ur_sampling r)
     \<and> ur_stream_include_usage r = ur_stream r \<and> ur_response_format r = None
     \<and> msgs_extensions_ok (ur_extensions r)"


subsection \<open>The extensions come back\<close>

definition msgs_free_ext :: "extensions \<Rightarrow> extensions" where
  "msgs_free_ext ext = filter (\<lambda>e. fst (ext_field msgs_ext e) \<notin> set msgs_carried) ext"

definition msgs_carried_ext :: "extensions \<Rightarrow> extensions" where
  "msgs_carried_ext ext = filter (\<lambda>e. fst (ext_field msgs_ext e) \<in> set msgs_carried) ext"

lemma msgs_restore_eq:
  "list_all msgs_entry_ok ext \<Longrightarrow> msgs_restore_extensions msgs_carried ext body
    = restore_extensions msgs_ext msgs_carried (msgs_free_ext ext) body"
proof (induction ext arbitrary: body)
  case (Cons e ext)
  obtain f where f: "fst e = msgs_ext @ f" "f \<noteq> []" using Cons.prems by (auto simp: msgs_entry_ok_def prefix_def)
  then have s: "strip_prefix msgs_ext (fst e) = Some f" by (simp add: strip_prefix_def)
  have field: "fst (ext_field msgs_ext e) = f" by (simp add: ext_field_def f)
  have IH: "msgs_restore_extensions msgs_carried ext b = restore_extensions msgs_ext msgs_carried (msgs_free_ext ext) b" for b
    using Cons by simp
  show ?case using IH s field f(2)
    by (auto simp: msgs_restore_extensions_def restore_extensions_def msgs_free_ext_def case_prod_beta)
qed (simp add: msgs_restore_extensions_def restore_extensions_def msgs_free_ext_def)

lemma msgs_body_keys: "fst ` set (msgs_request_body r) \<subseteq> set msgs_known_request"
  by (simp only: msgs_request_body_def Let_def set_append image_Un)
     (intro Un_least keys_within; simp add: msgs_known_request_def)

lemma msgs_free_names:
  assumes "msgs_extensions_ok ext" and "e \<in> set (msgs_free_ext ext)"
  shows "prefix msgs_ext (fst e) \<and> fst e \<noteq> msgs_ext \<and> fst (ext_field msgs_ext e) \<notin> set msgs_known_request"
  using assms by (auto simp: msgs_extensions_ok_def list_all_iff msgs_entry_ok_def msgs_free_ext_def msgs_carried_def)

lemma msgs_free_distinct: "msgs_extensions_ok ext \<Longrightarrow> distinct (map fst (msgs_free_ext ext))"
  by (simp add: msgs_extensions_ok_def msgs_free_ext_def strict_sorted_iff distinct_map_filter)

lemma msgs_restored:
  assumes "msgs_extensions_ok ext" and "fst ` set body \<subseteq> set msgs_known_request"
  shows "msgs_restore_extensions msgs_carried ext body = body @ map (ext_field msgs_ext) (msgs_free_ext ext)"
proof -
  have "msgs_restore_extensions msgs_carried ext body = restore_extensions msgs_ext msgs_carried (msgs_free_ext ext) body"
    using assms(1) by (intro msgs_restore_eq) (simp add: msgs_extensions_ok_def)
  also have "\<dots> = body @ map (ext_field msgs_ext)
      (filter (\<lambda>e. fst (ext_field msgs_ext e) \<notin> set msgs_carried) (msgs_free_ext ext))"
    using msgs_free_names[OF assms(1)] msgs_free_distinct[OF assms(1)] assms(2)
    by (intro restore_extensions_append) auto
  finally show ?thesis by (simp add: msgs_free_ext_def)
qed

lemma msgs_full_lookup:
  assumes "msgs_extensions_ok ext" and "k \<in> set msgs_known_request"
  shows "map_of (body @ map (ext_field msgs_ext) (msgs_free_ext ext)) k = map_of body k"
proof -
  have "map_of (map (ext_field msgs_ext) (msgs_free_ext ext)) k = None"
    using msgs_free_names[OF assms(1)] assms(2) by (intro ext_field_absent) auto
  then show ?thesis by (cases "map_of body k") simp_all
qed

lemma map_of_filter_key: "map_of (filter (\<lambda>e. P (fst e)) m) k = (if P k then map_of m k else None)"
  by (induction m) auto

text \<open>What the decoder puts back beside the unknown fields: metadata and server tools.\<close>

definition msgs_back_ext :: "extensions \<Rightarrow> extensions" where
  "msgs_back_ext ext = (let server = (case map_of ext ''messages.server_tools'' of
         Some v \<Rightarrow> btree_insert ''messages.server_tools'' v [] | None \<Rightarrow> [])
     in case map_of ext ''messages.metadata'' of Some v \<Rightarrow> btree_insert ''messages.metadata'' v server | None \<Rightarrow> server)"

lemma map_of_back_ext:
  "map_of (msgs_back_ext ext) k = (if k = ''messages.metadata'' \<or> k = ''messages.server_tools'' then map_of ext k else None)"
  by (cases "map_of ext ''messages.metadata''"; cases "map_of ext ''messages.server_tools''") (simp_all add: msgs_back_ext_def)

lemma msgs_entry_none:
  assumes "msgs_extensions_ok ext" and "k \<in> {''messages.system_raw'', ''messages.tools_raw''}"
  shows "map_of ext k = None"
proof (rule ccontr)
  assume "map_of ext k \<noteq> None"
  then obtain v where "(k, v) \<in> set ext" by (auto dest: map_of_SomeD)
  then have "msgs_entry_ok (k, v)" using assms(1) by (auto simp: msgs_extensions_ok_def list_all_iff)
  then have "fst (ext_field msgs_ext (k, v)) \<notin> {''system_raw'', ''tools_raw''}" unfolding msgs_entry_ok_def by blast
  moreover have "fst (ext_field msgs_ext (k, v)) \<in> {''system_raw'', ''tools_raw''}"
    using assms(2) by (auto simp: ext_field_def msgs_ext_def)
  ultimately show False by blast
qed

lemma msgs_extensions_back:
  assumes "msgs_extensions_ok ext" and "fst ` set body \<subseteq> set msgs_known_request"
  shows "collect_unknown msgs_ext msgs_known_request (body @ map (ext_field msgs_ext) (msgs_free_ext ext))
    (msgs_back_ext ext) = ext"
proof (rule sorted_maps_eq)
  have sorted: "sorted_wrt (<) (map fst ext)" using assms(1) by (simp add: msgs_extensions_ok_def)
  then show "sorted_wrt (<) (map fst ext)" .
  show "sorted_wrt (<) (map fst (collect_unknown msgs_ext msgs_known_request
      (body @ map (ext_field msgs_ext) (msgs_free_ext ext)) (msgs_back_ext ext)))"
    by (rule collect_unknown_sorted) (auto simp: msgs_back_ext_def Let_def split: option.split intro!: btree_insert_sorted)
  have "map_of (collect_unknown msgs_ext msgs_known_request (map (ext_field msgs_ext) (msgs_free_ext ext)) (msgs_back_ext ext))
      = map_of (msgs_back_ext ext) ++ map_of (msgs_free_ext ext)"
    using msgs_free_names[OF assms(1)] msgs_free_distinct[OF assms(1)] by (intro collect_unknown_map) auto
  also have "\<dots> = map_of ext"
  proof
    fix k
    have free: "map_of (msgs_free_ext ext) k = (if drop (length msgs_ext) k \<in> set msgs_carried then None else map_of ext k)"
      using map_of_filter_key[of "\<lambda>k. drop (length msgs_ext) k \<notin> set msgs_carried" ext k]
      by (simp add: msgs_free_ext_def ext_field_def)
    have carried: "k \<in> {''messages.server_tools'', ''messages.metadata'', ''messages.system_raw'', ''messages.tools_raw''}"
      if d: "drop (length msgs_ext) k \<in> set msgs_carried" and n: "map_of ext k \<noteq> None"
    proof -
      obtain v where "(k, v) \<in> set ext" using n by (auto dest: map_of_SomeD)
      then have "prefix msgs_ext k" using assms(1) by (auto simp: msgs_extensions_ok_def list_all_iff msgs_entry_ok_def)
      then show ?thesis using d by (auto simp: prefix_def msgs_carried_def msgs_ext_def)
    qed
    have others: "drop (length msgs_ext) k \<in> set msgs_carried"
      if "k \<in> {''messages.server_tools'', ''messages.metadata''}" using that by (auto simp: msgs_ext_def msgs_carried_def)
    note none = msgs_entry_none[OF assms(1)]
    show "(map_of (msgs_back_ext ext) ++ map_of (msgs_free_ext ext)) k = map_of ext k"
    proof (cases "drop (length msgs_ext) k \<in> set msgs_carried")
      case True
      have "map_of (msgs_back_ext ext) k = map_of ext k"
        using carried[OF True] none[of k] unfolding map_of_back_ext by (metis insert_iff empty_iff)
      then show ?thesis using True free by simp
    next
      case False
      then have "map_of (msgs_back_ext ext) k = None" using others unfolding map_of_back_ext by (metis insert_iff)
      then show ?thesis using False free by (cases "map_of ext k") simp_all
    qed
  qed
  finally show "map_of (collect_unknown msgs_ext msgs_known_request
      (body @ map (ext_field msgs_ext) (msgs_free_ext ext)) (msgs_back_ext ext)) = map_of ext"
    by (simp only: collect_unknown_known[OF assms(2)])
qed


subsection \<open>Requests go round\<close>

lemma msgs_body_fields:
  "map_of (msgs_request_body r) ''model'' = Some (JStr (ur_model r))"
  "map_of (msgs_request_body r) ''max_tokens'' = Some (jnat (unat (msgs_max_tokens r)))"
  "map_of (msgs_request_body r) ''stream'' = (if ur_stream r then Some (JBool True) else None)"
  "map_of (msgs_request_body r) ''system'' = msgs_system_field r"
  "map_of (msgs_request_body r) ''messages'' = Some (JArr (msgs_encode_messages (ur_messages r)))"
  "map_of (msgs_request_body r) ''tools'' = map_option JArr (msgs_tools_field r)"
  "map_of (msgs_request_body r) ''tool_choice'' = msgs_encode_tool_choice (ur_tool_choice r) (ur_parallel_tool_calls r)"
  "map_of (msgs_request_body r) ''stop_sequences'' = (if sa_stop (ur_sampling r) = [] then None
     else Some (JArr (map JStr (sa_stop (ur_sampling r)))))"
  "map_of (msgs_request_body r) ''thinking'' = map_option msgs_thinking_json (msgs_thinking r)"
  "map_of (msgs_request_body r) ''metadata'' = (if msgs_metadata r = [] then None else Some (JObj (msgs_metadata r)))"
  by (simp_all add: msgs_request_body_def Let_def map_option_case option_again cong: option.case_cong)

lemma msgs_body_sampling:
  assumes "msgs_sampling_ok (msgs_thinks r) (ur_sampling r)"
  shows "map_of (msgs_request_body r) ''temperature'' = map_option jfloat (sa_temperature (ur_sampling r))"
    and "map_of (msgs_request_body r) ''top_p'' = map_option jfloat (sa_top_p (ur_sampling r))"
    and "map_of (msgs_request_body r) ''top_k'' = map_option (\<lambda>k. jnat (unat k)) (sa_top_k (ur_sampling r))"
proof -
  let ?s = "ur_sampling r"
  have "keep_if (\<lambda>t. \<not> (msgs_thinks r \<and> f64_off_one t)) (sa_temperature ?s) = sa_temperature ?s"
    "keep_if (\<lambda>p. \<not> (msgs_thinks r \<and> f64_less p f64_0_95)) (sa_top_p ?s) = sa_top_p ?s"
    "keep_if (\<lambda>_. \<not> msgs_thinks r) (sa_top_k ?s) = sa_top_k ?s"
    using assms by (auto simp: keep_if_def msgs_sampling_ok_def msgs_optional_def split: option.splits)
  then show "map_of (msgs_request_body r) ''temperature'' = map_option jfloat (sa_temperature ?s)"
    "map_of (msgs_request_body r) ''top_p'' = map_option jfloat (sa_top_p ?s)"
    "map_of (msgs_request_body r) ''top_k'' = map_option (\<lambda>k. jnat (unat k)) (sa_top_k ?s)"
    by (simp_all add: msgs_request_body_def Let_def map_option_case option_again cong: option.case_cong)
qed

lemma filter_map_strings: "filter_map as_str (map JStr xs) = xs"
  by (induction xs) simp_all

lemma u32_wrap_back: "Option.bind (map_option (\<lambda>k. jnat (unat k)) x) as_u32_wrap = x"
  by (cases x) (simp_all add: as_u32_wrap_def)

lemma msgs_sampling_back:
  assumes "msgs_sampling_ok on s"
    and "map_of m ''temperature'' = map_option jfloat (sa_temperature s)" "map_of m ''top_p'' = map_option jfloat (sa_top_p s)"
    and "map_of m ''top_k'' = map_option (\<lambda>k. jnat (unat k)) (sa_top_k s)"
    and "map_of m ''stop_sequences'' = (if sa_stop s = [] then None else Some (JArr (map JStr (sa_stop s))))"
  shows "msgs_decode_sampling (JObj m) = s"
proof -
  have "case sa_temperature s of Some y \<Rightarrow> finite_f64 y | None \<Rightarrow> True"
    "case sa_top_p s of Some y \<Rightarrow> finite_f64 y | None \<Rightarrow> True"
    using assms(1) by (auto simp: msgs_sampling_ok_def msgs_optional_def split: option.splits)
  then show ?thesis using assms
    by (simp add: msgs_decode_sampling_def sampling_default_def bind_back_f64 u32_wrap_back filter_map_strings msgs_sampling_ok_def)
qed

lemma msgs_ext_lookup:
  assumes "msgs_extensions_ok (ur_extensions r)"
  shows "req_extension r (msgs_ext @ ''system_raw'') = None" "msgs_ext_list r ''tools_raw'' = None"
  using msgs_entry_none[OF assms] by (simp_all add: req_extension_def msgs_ext_list_def msgs_ext_def)

lemma msgs_entry_value:
  assumes "msgs_extensions_ok ext" and "map_of ext k = Some v"
  shows "msgs_entry_ok (k, v)"
  using assms map_of_SomeD[OF assms(2)] by (auto simp: msgs_extensions_ok_def list_all_iff)

lemma msgs_server_back:
  assumes "msgs_extensions_ok (ur_extensions r)"
  obtains server where "list_all (\<lambda>t. jget ''input_schema'' t = None) server"
    "msgs_tools_field r = (if ur_tools r = [] \<and> server = [] then None else Some (map msgs_encode_tool (ur_tools r) @ server))"
    "map_of (ur_extensions r) ''messages.server_tools'' = (if server = [] then None else Some (JArr server))"
proof (cases "map_of (ur_extensions r) ''messages.server_tools''")
  case None
  then have "msgs_ext_list r ''server_tools'' = None" by (simp add: msgs_ext_list_def req_extension_def msgs_ext_def)
  then show thesis using None msgs_ext_lookup[OF assms] by (intro that[of "[]"]) (simp_all add: msgs_tools_field_def)
next
  case (Some v)
  then obtain ts where ts: "v = JArr ts" "ts \<noteq> []" "list_all (\<lambda>t. jget ''input_schema'' t = None) ts"
    using msgs_entry_value[OF assms Some] by (auto simp: msgs_entry_ok_def split: json.splits)
  then have "msgs_ext_list r ''server_tools'' = Some ts" using Some by (simp add: msgs_ext_list_def req_extension_def msgs_ext_def)
  then show thesis using Some ts msgs_ext_lookup[OF assms] by (intro that[of ts]) (simp_all add: msgs_tools_field_def)
qed

lemma msgs_metadata_back:
  assumes "msgs_extensions_ok (ur_extensions r)"
    and "map_of m ''metadata'' = (if msgs_metadata r = [] then None else Some (JObj (msgs_metadata r)))"
  shows "Option.bind (map_of m ''metadata'') (get_str ''user_id'') = ur_user r"
    and "map_of (ur_extensions r) ''messages.metadata''
      = (if msgs_metadata_rest (JObj m) = [] then None else Some (JObj (msgs_metadata_rest (JObj m))))"
proof -
  obtain own where own: "map_of (ur_extensions r) ''messages.metadata'' = (if own = [] then None else Some (JObj own))"
    "map_of own ''user_id'' = None"
  proof (cases "map_of (ur_extensions r) ''messages.metadata''")
    case None
    then show thesis by (intro that[of "[]"]) simp_all
  next
    case (Some v)
    then obtain x where "v = JObj x" "x \<noteq> []" "map_of x ''user_id'' = None"
      using msgs_entry_value[OF assms(1) Some] by (auto simp: msgs_entry_ok_def split: json.splits)
    then show thesis using Some by (intro that[of x]) simp_all
  qed
  have "(case Option.bind (req_extension r (msgs_ext @ ''metadata'')) as_object of Some m \<Rightarrow> m | None \<Rightarrow> []) = own"
    using own(1) by (simp add: req_extension_def msgs_ext_def)
  then have meta: "msgs_metadata r = (case ur_user r of Some u \<Rightarrow> own @ [(''user_id'', JStr u)] | None \<Rightarrow> own)"
    using own(2) by (simp add: msgs_metadata_def map_insert_def al_put_def split: option.split)
  have "filter (\<lambda>e. fst e \<noteq> ''user_id'') own = own"
    using own(2) by (force simp: map_of_eq_None_iff filter_id_conv)
  then have "msgs_metadata_rest (JObj m) = own" using assms(2) by (simp add: msgs_metadata_rest_def meta split: option.split)
  then show "map_of (ur_extensions r) ''messages.metadata''
      = (if msgs_metadata_rest (JObj m) = [] then None else Some (JObj (msgs_metadata_rest (JObj m))))"
    using own(1) by simp
  show "Option.bind (map_of m ''metadata'') (get_str ''user_id'') = ur_user r"
    using assms(2) own(2) by (cases "ur_user r") (simp_all add: meta)
qed


lemma msgs_max_tokens_back: "msgs_decode_max_tokens (Some (jnat (unat w))) = Inr w"
  using uint_bounded[of w] by (simp add: msgs_decode_max_tokens_def as_u32_wrap_def jnat_def)

lemma msgs_system_back:
  assumes "case ur_system r of [] \<Rightarrow> True | [TextPart s] \<Rightarrow> s \<noteq> [] | _ \<Rightarrow> False"
    and "req_extension r (msgs_ext @ ''system_raw'') = None"
  shows "(case msgs_system_field r of Some v \<Rightarrow> msgs_decode_system lib v | None \<Rightarrow> Inr []) = Inr (ur_system r)
    \<and> msgs_system_ext (msgs_system_field r) = []"
proof (cases "ur_system r")
  case Nil
  then show ?thesis using assms(2) by (simp add: msgs_system_field_def msgs_system_ext_def)
next
  case (Cons p ps)
  then obtain s where "ur_system r = [TextPart s]" "s \<noteq> []"
    using assms(1) by (auto split: content_part.splits list.splits)
  then show ?thesis using assms(2)
    by (simp add: msgs_system_field_def msgs_encode_system_def msgs_decode_system_def msgs_system_ext_def)
qed

lemma msgs_start_back:
  assumes "msgs_extensions_ok (ur_extensions r)"
    and "map_of m ''metadata'' = (if msgs_metadata r = [] then None else Some (JObj (msgs_metadata r)))"
    and "msgs_system_ext (map_of m ''system'') = []"
    and "list_all (\<lambda>t. jget ''input_schema'' t = None) server"
    and "map_of (ur_extensions r) ''messages.server_tools'' = (if server = [] then None else Some (JArr server))"
  shows "msgs_start_ext (JObj m) (map msgs_encode_tool (ur_tools r) @ server) = msgs_back_ext (ur_extensions r)"
proof -
  have "msgs_tools_ext (map msgs_encode_tool (ur_tools r) @ server) []
      = (if server = [] then [] else btree_insert ''messages.server_tools'' (JArr server) [])"
    using msgs_tools_uncached[of "ur_tools r"] by (simp add: msgs_tools_ext_def msgs_split_tools[OF assms(4)] msgs_ext_def)
  then show ?thesis using msgs_metadata_back(2)[OF assms(1,2)] assms(3,5)
    by (simp add: msgs_start_ext_def msgs_back_ext_def Let_def msgs_ext_def)
qed

text \<open>\<open>C17\<close>. A request in Messages form loses nothing: written for an Anthropic upstream and read again it
  is the same request, with every block of the conversation, tool results that hold blocks
  of their own, signatures, tools, thinking budget, metadata and extensions.\<close>

theorem msgs_request_roundtrip:
  assumes "msgs_request_ok r"
  shows "rbind (msgs_encode_request r) (msgs_decode_request lib) = Inr r"
proof -
  define full where "full = msgs_request_body r @ map (ext_field msgs_ext) (msgs_free_ext (ur_extensions r))"
  have ok: "msgs_extensions_ok (ur_extensions r)" "msgs_sampling_ok (msgs_thinks r) (ur_sampling r)"
    "msgs_talk_ok (ur_messages r)" "list_all (\<lambda>t. td_strict t = None) (ur_tools r)"
    "msgs_reasoning_ok (ur_reasoning r) (msgs_max_tokens r)"
    "msgs_choice_ok (ur_tool_choice r) (ur_parallel_tool_calls r)"
    using assms by (simp_all add: msgs_request_ok_def)
  have f: "map_of full k = map_of (msgs_request_body r) k" if "k \<in> set msgs_known_request" for k
    unfolding full_def by (rule msgs_full_lookup[OF ok(1) that])
  note fs = f[unfolded msgs_known_request_def] msgs_body_fields
  have enc: "msgs_encode_request r = Inr (JObj full)"
    by (simp add: msgs_encode_request_def full_def msgs_restored[OF ok(1) msgs_body_keys])
  have sys: "(case map_of full ''system'' of Some v \<Rightarrow> msgs_decode_system lib v | None \<Rightarrow> Inr []) = Inr (ur_system r)"
    "msgs_system_ext (map_of full ''system'') = []"
    using assms msgs_system_back[OF _ msgs_ext_lookup(1)[OF ok(1)], of lib] by (simp_all add: msgs_request_ok_def fs)
  have ms: "msgs_decode_messages lib 0 (msgs_encode_messages (ur_messages r)) = Inr (ur_messages r)"
    unfolding msgs_encode_talk[OF ok(3)] using ok(3) by (intro msgs_talk_back) (simp add: msgs_talk_ok_def)
  obtain server where server: "list_all (\<lambda>t. jget ''input_schema'' t = None) server"
    "msgs_tools_field r = (if ur_tools r = [] \<and> server = [] then None else Some (map msgs_encode_tool (ur_tools r) @ server))"
    "map_of (ur_extensions r) ''messages.server_tools'' = (if server = [] then None else Some (JArr server))"
    by (rule msgs_server_back[OF ok(1)])
  let ?ts = "map msgs_encode_tool (ur_tools r) @ server"
  have tools: "(case get_array ''tools'' (JObj full) of Some ts \<Rightarrow> ts | None \<Rightarrow> []) = ?ts" by (simp add: fs server(2))
  have meta: "map_of full ''metadata'' = (if msgs_metadata r = [] then None else Some (JObj (msgs_metadata r)))"
    by (simp add: fs)
  have exts: "collect_unknown msgs_ext msgs_known_request full (msgs_start_ext (JObj full) ?ts) = ur_extensions r"
    unfolding msgs_start_back[OF ok(1) meta sys(2) server(1,3)] unfolding full_def
    by (rule msgs_extensions_back[OF ok(1) msgs_body_keys])
  have sampling: "msgs_decode_sampling (JObj full) = ur_sampling r"
    by (rule msgs_sampling_back[OF ok(2)]) (simp_all add: fs msgs_body_sampling[OF ok(2)])
  have choice: "(case jget ''tool_choice'' (JObj full) of Some c \<Rightarrow> msgs_decode_tool_choice c
      | None \<Rightarrow> (Unspecified, None)) = (ur_tool_choice r, ur_parallel_tool_calls r)"
    using msgs_choice_back[OF ok(6)] by (simp add: fs)
  have thinking: "Option.bind (jget ''thinking'' (JObj full)) msgs_decode_thinking = ur_reasoning r"
    using msgs_thinking_back[OF ok(5)] by (simp add: fs msgs_thinking_def option.map_comp comp_def)
  have user: "Option.bind (jget ''metadata'' (JObj full)) (get_str ''user_id'') = ur_user r"
    using msgs_metadata_back(1)[OF ok(1) meta] by simp
  obtain mt where mt: "ur_max_output_tokens r = Some mt" using assms by (auto simp: msgs_request_ok_def)
  have heads: "get_nonempty ''model'' (JObj full) = Some (ur_model r)"
    "msgs_decode_max_tokens (jget ''max_tokens'' (JObj full)) = Inr mt"
    "get_array ''messages'' (JObj full) = Some (msgs_encode_messages (ur_messages r))"
    "get_bool ''stream'' (JObj full) = Some True \<longleftrightarrow> ur_stream r"
    using assms by (simp_all add: get_nonempty_def fs msgs_request_ok_def msgs_max_tokens_back msgs_max_tokens_def mt)

  have "msgs_build_request (JObj full) full (ur_model r) mt (ur_system r) (ur_messages r) ?ts (ur_tools r) = r"
    using assms mt unfolding msgs_build_request_def Let_def choice exts sampling thinking user heads(4)
    by (intro unified_request.equality) (simp_all add: msgs_request_ok_def request_new_def)
  moreover have "map_ok msgs_decode_tool (msgs_function_tools ?ts) = Inr (ur_tools r)"
    by (simp add: msgs_split_tools[OF server(1)] msgs_tools_back[OF ok(4)])
  ultimately show ?thesis
    by (simp add: enc msgs_decode_request_def Let_def heads(1,3) heads(2)[unfolded jget.simps] ms tools sys(1) del: field_simps)
qed


text \<open>A conversation with a signed thought, a call, its result with a picture, a server tool, metadata
  and a field of the vendor's own.\<close>

definition msgs_talk :: unified_request where
  "msgs_talk = (request_new ''claude''
     [message_new User [TextPart ''scan this'', ImagePart (Base64 ''QQ'') (Some ''image/png'') None],
      message_new Assistant [ThinkingPart ''hm'' (Some ''sig''), ToolUsePart ''t1'' ''scan'' (JObj []) None],
      message_new Tool [ToolResult ''t1'' None [TextPart ''done'', ImagePart (Url ''https://x/y'') None None] False]])
     \<lparr>ur_system := [TextPart ''be kind''], ur_max_output_tokens := Some 4000, ur_user := Some ''u1'',
       ur_reasoning := Some \<lparr>rc_effort = None, rc_budget_tokens = Some 2000, rc_include_thoughts = Some True\<rparr>,
       ur_tool_choice := AutoChoice, ur_parallel_tool_calls := Some False,
       ur_extensions := [(''messages.metadata'', JObj [(''team'', JStr ''a'')]),
         (''messages.server_tools'', JArr [JObj [(''type'', JStr ''web_search'')]]),
         (''messages.service_tier'', JStr ''auto'')]\<rparr>"

theorem msgs_request_roundtrip_witness:
  "rbind (msgs_encode_request msgs_talk) (msgs_decode_request plain_lib) = Inr msgs_talk"
proof (rule msgs_request_roundtrip)
  have "msgs_extensions_ok (ur_extensions msgs_talk)" by code_simp
  moreover have "msgs_talk_ok (ur_messages msgs_talk)"
    by (simp add: msgs_talk_def request_new_def message_new_def msgs_talk_ok_def msgs_message_ok_def)
  ultimately show "msgs_request_ok msgs_talk"
    by (simp add: msgs_request_ok_def msgs_talk_def request_new_def msgs_choice_ok_def msgs_reasoning_ok_def
        msgs_max_tokens_def msgs_sampling_ok_def sampling_default_def msgs_optional_def)
qed

end
