(* ===== verification/Messages_Response.thy ===== *)
theory Messages_Response
  imports Messages_Roundtrip
begin

section \<open>Anthropic Messages: responses\<close>

text \<open>
  The response half of \<open>crates/refract-protocol/src/codec/messages.rs\<close>: stop reasons, usage, error
  bodies, and the answer itself, whose blocks are read and written as those of requests.
\<close>

definition msgs_known_response :: "string list" where
  "msgs_known_response = [''id'', ''type'', ''role'', ''model'', ''content'', ''stop_reason'', ''stop_sequence'', ''usage'']"

definition msgs_decode_stop :: "string \<Rightarrow> stop_reason" where
  "msgs_decode_stop s = (if s = ''end_turn'' then Stop else if s = ''max_tokens'' then MaxTokens
     else if s = ''stop_sequence'' then StopSequence else if s = ''tool_use'' then ToolUseStop
     else if s = ''refusal'' then RefusalStop else if s = ''pause_turn'' then PauseTurn else OtherStop)"

fun msgs_encode_stop :: "stop_reason \<Rightarrow> string" where
  "msgs_encode_stop Stop = ''end_turn''"
| "msgs_encode_stop MaxTokens = ''max_tokens''"
| "msgs_encode_stop StopSequence = ''stop_sequence''"
| "msgs_encode_stop ToolUseStop = ''tool_use''"
| "msgs_encode_stop RefusalStop = ''refusal''"
| "msgs_encode_stop PauseTurn = ''pause_turn''"
| "msgs_encode_stop ContentFilter = ''refusal''"
| "msgs_encode_stop OtherStop = ''end_turn''"

definition msgs_decode_usage :: "json \<Rightarrow> usage" where
  "msgs_decode_usage raw = (let n = (\<lambda>k. case get_u64 k raw of Some x \<Rightarrow> x | None \<Rightarrow> 0) in
     \<lparr>us_input_tokens = n ''input_tokens'', us_output_tokens = n ''output_tokens'',
      us_cached_input_tokens = n ''cache_read_input_tokens'', us_cache_write_tokens = n ''cache_creation_input_tokens'',
      us_reasoning_tokens = 0\<rparr>)"

definition msgs_encode_usage :: "usage \<Rightarrow> json" where
  "msgs_encode_usage u = JObj (
     [(''input_tokens'', jnat (us_input_tokens u)), (''output_tokens'', jnat (us_output_tokens u))]
     @ if_true ''cache_creation_input_tokens'' (us_cache_write_tokens u > 0) (jnat (us_cache_write_tokens u))
     @ if_true ''cache_read_input_tokens'' (us_cached_input_tokens u > 0) (jnat (us_cached_input_tokens u)))"

definition msgs_error_kind :: "string \<Rightarrow> error_kind" where
  "msgs_error_kind t = (
     if t = ''invalid_request_error'' then InvalidRequest
     else if t = ''authentication_error'' then Unauthenticated
     else if t = ''permission_error'' then PermissionDenied
     else if t = ''not_found_error'' then NotFound
     else if t = ''request_too_large'' then PayloadTooLarge
     else if t = ''rate_limit_error'' then RateLimited
     else if t = ''api_error'' \<or> t = ''overloaded_error'' then UpstreamError
     else if t = ''timeout_error'' then Timeout else UpstreamError)"

definition msgs_decode_error :: "json \<Rightarrow> gateway_error" where
  "msgs_decode_error raw = (
     let err = jget ''error'' raw in
     with_protocol Messages (gateway_error_new (msgs_error_kind (str_or [] (Option.bind err (get_str ''type''))))
       (str_or ''upstream returned an error without a message'' (Option.bind err (get_str ''message'')))))"

definition msgs_decode_response :: "codec_lib \<Rightarrow> int \<Rightarrow> json \<Rightarrow> gateway_error + unified_response" where
  "msgs_decode_response lib now raw = (case as_object raw of
     None \<Rightarrow> Inl (ge_invalid_request ''response body must be a JSON object'')
   | Some obj \<Rightarrow> if get_str ''type'' raw = Some ''error'' then Inl (msgs_decode_error raw)
     else rbind (case get_array ''content'' raw of Some items \<Rightarrow> msgs_decode_blocks lib items | None \<Rightarrow> Inr [])
       (\<lambda>content. Inr ((response_new (str_or [] (get_str ''id'' raw)) (str_or [] (get_str ''model'' raw)) now)
          \<lparr>rs_content := content,
           rs_stop_reason := map_option msgs_decode_stop (get_str ''stop_reason'' raw),
           rs_stop_sequence := get_str ''stop_sequence'' raw,
           rs_usage := (case jget ''usage'' raw of Some u \<Rightarrow> msgs_decode_usage u | None \<Rightarrow> usage_default),
           rs_extensions := collect_unknown msgs_ext msgs_known_response obj []\<rparr>)))"

definition msgs_response_body :: "unified_response \<Rightarrow> jmap" where
  "msgs_response_body r =
     [(''id'', JStr (rs_id r)), (''type'', JStr ''message''), (''role'', JStr ''assistant''),
      (''model'', JStr (rs_model r)), (''content'', JArr (msgs_encode_blocks (rs_content r))),
      (''stop_reason'', case rs_stop_reason r of Some s \<Rightarrow> JStr (msgs_encode_stop s) | None \<Rightarrow> JNull),
      (''stop_sequence'', case rs_stop_sequence r of Some s \<Rightarrow> JStr s | None \<Rightarrow> JNull),
      (''usage'', msgs_encode_usage (rs_usage r))]"

definition msgs_encode_response :: "unified_response \<Rightarrow> gateway_error + json" where
  "msgs_encode_response r = Inr (JObj (msgs_restore_extensions [] (rs_extensions r) (msgs_response_body r)))"

subsection \<open>Responses go round\<close>

lemma msgs_stop_back: "s \<noteq> ContentFilter \<Longrightarrow> s \<noteq> OtherStop \<Longrightarrow> msgs_decode_stop (msgs_encode_stop s) = s"
  by (cases s) (simp_all add: msgs_decode_stop_def)

definition msgs_usage_ok :: "usage \<Rightarrow> bool" where
  "msgs_usage_ok u \<longleftrightarrow> us_reasoning_tokens u = 0 \<and> list_all (\<lambda>n. n < 2 ^ 64)
     [us_input_tokens u, us_output_tokens u, us_cached_input_tokens u, us_cache_write_tokens u]"

lemma msgs_usage_back: "msgs_usage_ok u \<Longrightarrow> msgs_decode_usage (msgs_encode_usage u) = u"
  by (cases u) (simp add: msgs_usage_ok_def msgs_decode_usage_def msgs_encode_usage_def)

definition msgs_response_ext_ok :: "extensions \<Rightarrow> bool" where
  "msgs_response_ext_ok ext \<longleftrightarrow> sorted_wrt (<) (map fst ext)
     \<and> list_all (\<lambda>e. prefix msgs_ext (fst e) \<and> fst e \<noteq> msgs_ext
         \<and> fst (ext_field msgs_ext e) \<notin> set msgs_known_response) ext"

definition msgs_response_ok :: "unified_response \<Rightarrow> bool" where
  "msgs_response_ok r \<longleftrightarrow> list_all msgs_part_ok (rs_content r)
     \<and> rs_stop_reason r \<notin> {Some ContentFilter, Some OtherStop} \<and> msgs_usage_ok (rs_usage r)
     \<and> msgs_response_ext_ok (rs_extensions r)"

lemma msgs_restore_all:
  "list_all (\<lambda>e. prefix msgs_ext (fst e) \<and> fst e \<noteq> msgs_ext) ext \<Longrightarrow>
   msgs_restore_extensions [] ext body = restore_extensions msgs_ext [] ext body"
proof (induction ext arbitrary: body)
  case (Cons e ext)
  obtain f where f: "fst e = msgs_ext @ f" "f \<noteq> []" using Cons.prems by (auto simp: prefix_def)
  then have "strip_prefix msgs_ext (fst e) = Some f" by (simp add: strip_prefix_def)
  moreover have "msgs_restore_extensions [] ext b = restore_extensions msgs_ext [] ext b" for b using Cons by simp
  ultimately show ?case using f(2)
    by (auto simp: msgs_restore_extensions_def restore_extensions_def case_prod_beta)
qed (simp add: msgs_restore_extensions_def restore_extensions_def)

lemma msgs_response_keys: "fst ` set (msgs_response_body r) \<subseteq> set msgs_known_response"
  by (simp add: msgs_response_body_def msgs_known_response_def)

lemma msgs_response_restored:
  assumes "msgs_response_ext_ok ext"
  shows "msgs_restore_extensions [] ext (msgs_response_body r) = msgs_response_body r @ map (ext_field msgs_ext) ext"
proof -
  have "msgs_restore_extensions [] ext (msgs_response_body r) = restore_extensions msgs_ext [] ext (msgs_response_body r)"
    using assms by (intro msgs_restore_all) (auto simp: msgs_response_ext_ok_def list_all_iff)
  also have "\<dots> = msgs_response_body r @ map (ext_field msgs_ext)
      (filter (\<lambda>e. fst (ext_field msgs_ext e) \<notin> set []) ext)"
    using assms msgs_response_keys[of r]
    by (intro restore_extensions_append) (auto simp: msgs_response_ext_ok_def list_all_iff strict_sorted_iff)
  finally show ?thesis by (simp add: filter_id_conv)
qed

lemma msgs_response_ext_back:
  assumes "msgs_response_ext_ok ext"
  shows "collect_unknown msgs_ext msgs_known_response (msgs_response_body r @ map (ext_field msgs_ext) ext) [] = ext"
proof (rule sorted_maps_eq)
  show sorted: "sorted_wrt (<) (map fst ext)" using assms by (simp add: msgs_response_ext_ok_def)
  show "sorted_wrt (<) (map fst (collect_unknown msgs_ext msgs_known_response
      (msgs_response_body r @ map (ext_field msgs_ext) ext) []))"
    by (rule collect_unknown_sorted) simp
  have "map_of (collect_unknown msgs_ext msgs_known_response (map (ext_field msgs_ext) ext) []) = map_of [] ++ map_of ext"
    using assms sorted by (intro collect_unknown_map) (auto simp: msgs_response_ext_ok_def list_all_iff strict_sorted_iff)
  then show "map_of (collect_unknown msgs_ext msgs_known_response
      (msgs_response_body r @ map (ext_field msgs_ext) ext) []) = map_of ext"
    by (simp add: collect_unknown_known[OF msgs_response_keys] fun_eq_iff split: option.split)
qed

text \<open>\<open>C18\<close>. An answer in Messages form loses nothing on its way to a Messages client and back but the
  time of its creation, which the protocol has no field for: every block with its signature,
  the stop reason and sequence, the usage with its cache counts and the extensions return.\<close>

theorem msgs_response_roundtrip:
  assumes "msgs_response_ok r"
  shows "rbind (msgs_encode_response r) (msgs_decode_response lib now) = Inr (r\<lparr>rs_created := now\<rparr>)"
proof -
  define full where "full = msgs_response_body r @ map (ext_field msgs_ext) (rs_extensions r)"
  have ext: "msgs_response_ext_ok (rs_extensions r)" using assms by (simp add: msgs_response_ok_def)
  have enc: "msgs_encode_response r = Inr (JObj full)"
    by (simp add: msgs_encode_response_def full_def msgs_response_restored[OF ext])
  have exts: "collect_unknown msgs_ext msgs_known_response full [] = rs_extensions r"
    unfolding full_def by (rule msgs_response_ext_back[OF ext])
  have fields: "get_str ''type'' (JObj full) = Some ''message''" "get_str ''id'' (JObj full) = Some (rs_id r)"
    "get_str ''model'' (JObj full) = Some (rs_model r)"
    "get_array ''content'' (JObj full) = Some (msgs_encode_blocks (rs_content r))"
    "get_str ''stop_reason'' (JObj full) = map_option msgs_encode_stop (rs_stop_reason r)"
    "get_str ''stop_sequence'' (JObj full) = rs_stop_sequence r"
    "jget ''usage'' (JObj full) = Some (msgs_encode_usage (rs_usage r))"
    by (simp_all add: full_def msgs_response_body_def split: option.split)
  have content: "msgs_decode_blocks lib (msgs_encode_blocks (rs_content r)) = Inr (rs_content r)"
    using assms by (intro msgs_parts_back) (simp add: msgs_response_ok_def)
  have stop: "map_option msgs_decode_stop (map_option msgs_encode_stop (rs_stop_reason r)) = rs_stop_reason r"
    using assms msgs_stop_back by (cases "rs_stop_reason r") (auto simp: msgs_response_ok_def)
  have usage: "msgs_decode_usage (msgs_encode_usage (rs_usage r)) = rs_usage r"
    using assms by (intro msgs_usage_back) (simp add: msgs_response_ok_def)
  show ?thesis
    by (simp add: enc msgs_decode_response_def fields content stop usage exts response_new_def
        del: field_simps jget.simps)
qed

definition msgs_answer :: unified_response where
  "msgs_answer = (response_new ''m1'' ''claude'' 0)
     \<lparr>rs_content := [ThinkingPart ''hm'' (Some ''sig''), TextPart ''one'', RedactedThinking ''xx'',
         ToolUsePart ''t1'' ''scan'' (JObj []) None],
       rs_stop_reason := Some ToolUseStop,
       rs_usage := usage_default\<lparr>us_input_tokens := 12, us_output_tokens := 7, us_cache_write_tokens := 3\<rparr>,
       rs_extensions := [(''messages.container'', JStr ''c'')]\<rparr>"

theorem msgs_response_roundtrip_witness:
  "rbind (msgs_encode_response msgs_answer) (msgs_decode_response plain_lib 5) = Inr (msgs_answer\<lparr>rs_created := 5\<rparr>)"
proof (rule msgs_response_roundtrip)
  have "msgs_response_ext_ok (rs_extensions msgs_answer)" by code_simp
  then show "msgs_response_ok msgs_answer"
    by (simp add: msgs_response_ok_def msgs_answer_def response_new_def msgs_usage_ok_def usage_default_def)
qed

end
