(* ===== verification/Messages_Stream.thy ===== *)
theory Messages_Stream
  imports Messages_Response Stream_Agg Sse
begin

section \<open>Anthropic Messages: streams\<close>

text \<open>
  The stream half of \<open>crates/refract-protocol/src/codec/messages.rs\<close>. The decoder opens blocks a relay
  did not open; the encoder brings any sequence of events into the strict order of the
  protocol: one \<open>message_start\<close>, blocks one after the other, one \<open>message_delta\<close>, one
  \<open>message_stop\<close>. The identifiers the encoder draws are a supply \<open>uuid\<close>, the n-th draw being
  \<open>uuid n\<close>. Block indices stay far below the 32 bits of the code.
\<close>

subsection \<open>The decoder\<close>

record msgs_decoder =
  md_started :: "nat list"
  md_done :: bool

definition msgs_decoder_new :: msgs_decoder where
  "msgs_decoder_new = \<lparr>md_started = [], md_done = False\<rparr>"

definition msgs_block_index :: "json \<Rightarrow> nat" where
  "msgs_block_index v = min (case get_u64 ''index'' v of Some n \<Rightarrow> n | None \<Rightarrow> 0) (2 ^ 32 - 1)"

definition msgs_ensure_started :: "nat \<Rightarrow> part_kind \<Rightarrow> msgs_decoder \<Rightarrow> stream_event list \<times> msgs_decoder" where
  "msgs_ensure_started i k d = (if i \<in> set (md_started d) then ([], d)
     else ([ContentStart i k], d\<lparr>md_started := md_started d @ [i]\<rparr>))"

definition msgs_nonempty :: "(string \<Rightarrow> stream_event) \<Rightarrow> string option \<Rightarrow> stream_event list" where
  "msgs_nonempty f t = (case t of Some s \<Rightarrow> if s = [] then [] else [f s] | None \<Rightarrow> [])"

definition msgs_block_kind :: "string \<Rightarrow> part_kind" where
  "msgs_block_kind t = (if t = ''thinking'' \<or> t = ''redacted_thinking'' then KThinking
     else if t = ''tool_use'' \<or> t = ''server_tool_use'' then KToolUse else KText)"

definition msgs_decode_start :: "json \<Rightarrow> stream_event list" where
  "msgs_decode_start v = (let msg = jget ''message'' v in
     [Start (str_or [] (Option.bind msg (get_str ''id''))) (str_or [] (Option.bind msg (get_str ''model'')))
        (map_option msgs_decode_usage (Option.bind msg (jget ''usage'')))])"

definition msgs_decode_block_start :: "json \<Rightarrow> msgs_decoder \<Rightarrow> stream_event list \<times> msgs_decoder" where
  "msgs_decode_block_start v d = (
     let i = msgs_block_index v; block = jget ''content_block'' v;
         kind = msgs_block_kind (str_or [] (Option.bind block (get_str ''type'')));
         d1 = (if i \<in> set (md_started d) then d else d\<lparr>md_started := md_started d @ [i]\<rparr>)
     in ([ContentStart i kind]
         @ (if kind = KToolUse then [ToolCallStart i (str_or [] (Option.bind block (get_str ''id'')))
                (str_or [] (Option.bind block (get_str ''name''))) None] else [])
         @ msgs_nonempty (TextDelta i) (Option.bind block (get_str ''text''))
         @ msgs_nonempty (ThinkingDelta i) (Option.bind block (get_str ''thinking'')), d1))"

definition msgs_decode_delta :: "json \<Rightarrow> msgs_decoder \<Rightarrow> stream_event list \<times> msgs_decoder" where
  "msgs_decode_delta v d = (
     let i = msgs_block_index v; delta = jget ''delta'' v;
         dtype = str_or [] (Option.bind delta (get_str ''type''));
         field = (\<lambda>k. str_or [] (Option.bind delta (get_str k)));
         emit = (\<lambda>kind e. let (out, d1) = msgs_ensure_started i kind d in (out @ [e], d1))
     in if dtype = ''text_delta'' then emit KText (TextDelta i (field ''text''))
        else if dtype = ''thinking_delta'' then emit KThinking (ThinkingDelta i (field ''thinking''))
        else if dtype = ''signature_delta'' then emit KThinking (ThinkingSignature i (field ''signature''))
        else if dtype = ''input_json_delta'' then emit KToolUse (ToolCallArgsDelta i (field ''partial_json''))
        else ([], d))"

definition msgs_decode_message_delta :: "json \<Rightarrow> stream_event list" where
  "msgs_decode_message_delta v = (let delta = jget ''delta'' v in
     (case jget ''usage'' v of Some u \<Rightarrow> [UsageEvent (msgs_decode_usage u)] | None \<Rightarrow> [])
     @ (case Option.bind delta (get_str ''stop_reason'') of
          Some r \<Rightarrow> [StopEvent (msgs_decode_stop r) (Option.bind delta (get_str ''stop_sequence''))] | None \<Rightarrow> []))"

definition msgs_decode_event :: "string \<Rightarrow> json \<Rightarrow> msgs_decoder \<Rightarrow> stream_event list \<times> msgs_decoder" where
  "msgs_decode_event event v d = (
     if event = ''message_start'' then (msgs_decode_start v, d)
     else if event = ''content_block_start'' then msgs_decode_block_start v d
     else if event = ''content_block_delta'' then msgs_decode_delta v d
     else if event = ''content_block_stop'' then ([ContentStop (msgs_block_index v)], d)
     else if event = ''message_delta'' then (msgs_decode_message_delta v, d)
     else if event = ''message_stop'' then ([Done], d\<lparr>md_done := True\<rparr>)
     else if event = ''ping'' then ([Ping], d)
     else if event = ''error'' then (let err = jget ''error'' v in
       ([ErrorEvent (str_or ''upstream stream error'' (Option.bind err (get_str ''message'')))
          (str_or ''api_error'' (Option.bind err (get_str ''type'')))], d))
     else ([], d))"

definition msgs_decode_frame :: "codec_lib \<Rightarrow> sse_frame \<Rightarrow> msgs_decoder \<Rightarrow> stream_event list \<times> msgs_decoder" where
  "msgs_decode_frame lib frame d = (let data = trim (sf_data frame) in
     if data = [] then ([], d)
     else if data = ''[DONE]'' then (if md_done d then ([], d) else ([Done], d\<lparr>md_done := True\<rparr>))
     else case cl_parse lib data of
       None \<Rightarrow> ([], d)
     | Some v \<Rightarrow> msgs_decode_event (case sf_event frame of Some e \<Rightarrow> e
          | None \<Rightarrow> str_or [] (get_str ''type'' v)) v d)"

definition msgs_decode_finish :: "msgs_decoder \<Rightarrow> stream_event list \<times> msgs_decoder" where
  "msgs_decode_finish d = (if md_done d then ([], d) else ([Done], d\<lparr>md_done := True\<rparr>))"

subsection \<open>The encoder\<close>

record msgs_encoder =
  me_started :: bool
  me_id :: string
  me_model :: string
  me_input_usage :: usage
  me_remap :: "(nat \<times> nat) list"
  me_open :: "(nat \<times> part_kind) option"
  me_next_index :: nat
  me_usage :: usage
  me_stop_reason :: "stop_reason option"
  me_stop_sequence :: "string option"
  me_finished :: bool
  me_draws :: nat

definition msgs_encoder_new :: msgs_encoder where
  "msgs_encoder_new = \<lparr>me_started = False, me_id = [], me_model = [], me_input_usage = usage_default, me_remap = [],
     me_open = None, me_next_index = 0, me_usage = usage_default, me_stop_reason = None, me_stop_sequence = None,
     me_finished = False, me_draws = 0\<rparr>"

text \<open>A frame is its event name and its payload.\<close>

type_synonym msgs_out = "string \<times> json"

definition msgs_frame :: "codec_lib \<Rightarrow> msgs_out \<Rightarrow> sse_frame" where
  "msgs_frame lib x = named_frame (fst x) (cl_print lib (snd x))"

definition msgs_open_message :: "(nat \<Rightarrow> string) \<Rightarrow> msgs_encoder \<Rightarrow> msgs_out list \<times> msgs_encoder" where
  "msgs_open_message uuid e = (if me_started e then ([], e)
     else let drawn = (me_id e = []);
              e1 = e\<lparr>me_started := True, me_id := (if drawn then ''msg_'' @ uuid (me_draws e) else me_id e),
                     me_draws := (if drawn then Suc (me_draws e) else me_draws e)\<rparr>
          in ([(''message_start'', JObj [(''type'', JStr ''message_start''), (''message'', JObj [
                 (''id'', JStr (me_id e1)), (''type'', JStr ''message''), (''role'', JStr ''assistant''),
                 (''model'', JStr (me_model e1)), (''content'', JArr []), (''stop_reason'', JNull),
                 (''stop_sequence'', JNull), (''usage'', msgs_encode_usage (me_input_usage e1))])])], e1))"

definition msgs_anth_index :: "nat \<Rightarrow> msgs_encoder \<Rightarrow> nat \<times> msgs_encoder" where
  "msgs_anth_index i e = (case map_of (me_remap e) i of
     Some mapped \<Rightarrow> (mapped, e)
   | None \<Rightarrow> (me_next_index e, e\<lparr>me_next_index := Suc (me_next_index e),
       me_remap := me_remap e @ [(i, me_next_index e)]\<rparr>))"

definition msgs_close_open :: "msgs_encoder \<Rightarrow> msgs_out list \<times> msgs_encoder" where
  "msgs_close_open e = (case me_open e of
     Some (i, _) \<Rightarrow> ([(''content_block_stop'', JObj [(''type'', JStr ''content_block_stop''), (''index'', jnat i)])],
       e\<lparr>me_open := None\<rparr>)
   | None \<Rightarrow> ([], e))"

fun msgs_empty_block :: "part_kind \<Rightarrow> json" where
  "msgs_empty_block KText = JObj [(''type'', JStr ''text''), (''text'', JStr [])]"
| "msgs_empty_block KThinking = JObj [(''type'', JStr ''thinking''), (''thinking'', JStr []), (''signature'', JStr [])]"
| "msgs_empty_block KRefusal = JObj [(''type'', JStr ''text''), (''text'', JStr [])]"
| "msgs_empty_block KToolUse = JObj [(''type'', JStr ''tool_use''), (''id'', JStr []), (''name'', JStr []),
     (''input'', JObj [])]"

definition msgs_block_start :: "nat \<Rightarrow> json \<Rightarrow> msgs_out" where
  "msgs_block_start i block = (''content_block_start'', JObj [(''type'', JStr ''content_block_start''),
     (''index'', jnat i), (''content_block'', block)])"

definition msgs_open_block :: "(nat \<Rightarrow> string) \<Rightarrow> nat \<Rightarrow> part_kind \<Rightarrow> msgs_encoder \<Rightarrow> nat \<times> msgs_out list \<times> msgs_encoder" where
  "msgs_open_block uuid ir k e = (
     let (out1, e1) = msgs_open_message uuid e; (i, e2) = msgs_anth_index ir e1
     in if me_open e2 = Some (i, k) then (i, out1, e2)
        else let (out2, e3) = msgs_close_open e2
             in (i, out1 @ out2 @ [msgs_block_start i (msgs_empty_block k)], e3\<lparr>me_open := Some (i, k)\<rparr>))"

definition msgs_open_tool_block ::
  "(nat \<Rightarrow> string) \<Rightarrow> nat \<Rightarrow> string \<Rightarrow> string \<Rightarrow> msgs_encoder \<Rightarrow> nat \<times> msgs_out list \<times> msgs_encoder"
where
  "msgs_open_tool_block uuid ir tid name e = (
     let (out1, e1) = msgs_open_message uuid e; (i, e2) = msgs_anth_index ir e1;
         (out2, e3) = msgs_close_open e2;
         tid1 = (if tid = [] then ''toolu_'' @ uuid (me_draws e3) else tid);
         e4 = (if tid = [] then e3\<lparr>me_draws := Suc (me_draws e3)\<rparr> else e3)
     in (i, out1 @ out2 @ [msgs_block_start i (JObj [(''type'', JStr ''tool_use''), (''id'', JStr tid1),
            (''name'', JStr name), (''input'', JObj [])])], e4\<lparr>me_open := Some (i, KToolUse)\<rparr>))"

definition msgs_wrap_up :: "(nat \<Rightarrow> string) \<Rightarrow> msgs_encoder \<Rightarrow> msgs_out list \<times> msgs_encoder" where
  "msgs_wrap_up uuid e = (if me_finished e then ([], e)
     else let (out1, e1) = msgs_open_message uuid (e\<lparr>me_finished := True\<rparr>); (out2, e2) = msgs_close_open e1;
              reason = (case me_stop_reason e2 of Some r \<Rightarrow> r | None \<Rightarrow> Stop)
          in (out1 @ out2 @ [(''message_delta'', JObj [(''type'', JStr ''message_delta''), (''delta'', JObj [
                (''stop_reason'', JStr (msgs_encode_stop reason)),
                (''stop_sequence'', case me_stop_sequence e2 of Some s \<Rightarrow> JStr s | None \<Rightarrow> JNull)]),
                (''usage'', msgs_encode_usage (me_usage e2))]),
              (''message_stop'', JObj [(''type'', JStr ''message_stop'')])], e2))"

definition msgs_delta :: "nat \<Rightarrow> jmap \<Rightarrow> msgs_out" where
  "msgs_delta i delta = (''content_block_delta'', JObj [(''type'', JStr ''content_block_delta''),
     (''index'', jnat i), (''delta'', JObj delta)])"

definition msgs_emit :: "(nat \<Rightarrow> string) \<Rightarrow> nat \<Rightarrow> part_kind \<Rightarrow> jmap \<Rightarrow> msgs_encoder \<Rightarrow> msgs_out list \<times> msgs_encoder" where
  "msgs_emit uuid ir k delta e = (let (i, out, e1) = msgs_open_block uuid ir k e in (out @ [msgs_delta i delta], e1))"

text \<open>The arms of \<open>encode\<close>, for an encoder that has not finished.\<close>

fun msgs_encode_step :: "(nat \<Rightarrow> string) \<Rightarrow> stream_event \<Rightarrow> msgs_encoder \<Rightarrow> msgs_out list \<times> msgs_encoder" where
  "msgs_encode_step uuid (Start i m u) e = msgs_open_message uuid (if me_started e then e
     else (let e1 = e\<lparr>me_id := i, me_model := m\<rparr> in
       case u of Some v \<Rightarrow> e1\<lparr>me_input_usage := v, me_usage := v\<rparr> | None \<Rightarrow> e1))"
| "msgs_encode_step uuid (ContentStart ir k) e = (if k = KToolUse then ([], e)
     else (let (i, out, e1) = msgs_open_block uuid ir k e in (out, e1)))"
| "msgs_encode_step uuid (TextDelta ir t) e =
     msgs_emit uuid ir KText [(''type'', JStr ''text_delta''), (''text'', JStr t)] e"
| "msgs_encode_step uuid (RefusalDelta ir t) e =
     msgs_emit uuid ir KRefusal [(''type'', JStr ''text_delta''), (''text'', JStr t)] e"
| "msgs_encode_step uuid (ThinkingDelta ir t) e =
     msgs_emit uuid ir KThinking [(''type'', JStr ''thinking_delta''), (''thinking'', JStr t)] e"
| "msgs_encode_step uuid (ThinkingSignature ir s) e =
     msgs_emit uuid ir KThinking [(''type'', JStr ''signature_delta''), (''signature'', JStr s)] e"
| "msgs_encode_step uuid (ToolCallStart ir tid name _) e =
     (let (i, out, e1) = msgs_open_tool_block uuid ir tid name e in (out, e1))"
| "msgs_encode_step uuid (ToolCallArgsDelta ir fragment) e =
     (let (mapped, e1) = msgs_anth_index ir e;
          (i, out, e2) = (if me_open e1 = Some (mapped, KToolUse) then (mapped, [], e1)
            else msgs_open_tool_block uuid ir [] [] e1)
      in (out @ [msgs_delta i [(''type'', JStr ''input_json_delta''), (''partial_json'', JStr fragment)]], e2))"
| "msgs_encode_step uuid (ContentStop ir) e =
     (let (i, e1) = msgs_anth_index ir e
      in if map_option fst (me_open e1) = Some i then msgs_close_open e1 else ([], e1))"
| "msgs_encode_step uuid (UsageEvent u) e = ([], e\<lparr>me_usage := merge_max (me_usage e) u\<rparr>)"
| "msgs_encode_step uuid (StopEvent reason seq) e = ([], e\<lparr>me_stop_reason := Some reason,
     me_stop_sequence := (if seq \<noteq> None then seq else me_stop_sequence e)\<rparr>)"
| "msgs_encode_step uuid Done e = msgs_wrap_up uuid e"
| "msgs_encode_step uuid Ping e = ([(''ping'', JObj [(''type'', JStr ''ping'')])], e)"
| "msgs_encode_step uuid (ErrorEvent message kind) e =
     ([(''error'', JObj [(''type'', JStr ''error''), (''error'', JObj [(''type'', JStr kind), (''message'', JStr message)])])],
      e\<lparr>me_finished := True\<rparr>)"

definition msgs_encode_event :: "(nat \<Rightarrow> string) \<Rightarrow> stream_event \<Rightarrow> msgs_encoder \<Rightarrow> msgs_out list \<times> msgs_encoder" where
  "msgs_encode_event uuid v e = (if me_finished e then ([], e) else msgs_encode_step uuid v e)"

definition msgs_encode_finish :: "(nat \<Rightarrow> string) \<Rightarrow> msgs_encoder \<Rightarrow> msgs_out list \<times> msgs_encoder" where
  "msgs_encode_finish uuid e = msgs_wrap_up uuid e"

fun msgs_decode_all :: "codec_lib \<Rightarrow> sse_frame list \<Rightarrow> msgs_decoder \<Rightarrow> stream_event list \<times> msgs_decoder" where
  "msgs_decode_all lib [] d = ([], d)"
| "msgs_decode_all lib (f # fs) d = (let (out, d1) = msgs_decode_frame lib f d;
     (out2, d2) = msgs_decode_all lib fs d1 in (out @ out2, d2))"

fun msgs_encode_all :: "(nat \<Rightarrow> string) \<Rightarrow> stream_event list \<Rightarrow> msgs_encoder \<Rightarrow> msgs_out list \<times> msgs_encoder" where
  "msgs_encode_all uuid [] e = ([], e)"
| "msgs_encode_all uuid (v # vs) e = (let (out, e1) = msgs_encode_event uuid v e;
     (out2, e2) = msgs_encode_all uuid vs e1 in (out @ out2, e2))"

definition msgs_stream_out :: "(nat \<Rightarrow> string) \<Rightarrow> stream_event list \<Rightarrow> msgs_out list" where
  "msgs_stream_out uuid vs = (let (out, e) = msgs_encode_all uuid vs msgs_encoder_new
     in out @ fst (msgs_encode_finish uuid e))"


subsection \<open>Streams are well formed\<close>

datatype msgs_phase = MBefore | MIdle | MBlock json | MClosing | MEnd

text \<open>The order a Messages client insists on. Pings may come at any time before the end.\<close>

definition msgs_accept :: "msgs_phase \<Rightarrow> msgs_out \<Rightarrow> msgs_phase option" where
  "msgs_accept p x = (let (n, v) = x; at = (case jget ''index'' v of Some i \<Rightarrow> i | None \<Rightarrow> JNull) in
     if p = MEnd then None
     else if n = ''ping'' then (if p = MClosing then None else Some p)
     else if n = ''error'' then (if p = MClosing then None else Some MEnd)
     else if n = ''message_start'' then (if p = MBefore then Some MIdle else None)
     else if n = ''content_block_start'' then (if p = MIdle then Some (MBlock at) else None)
     else if n = ''content_block_delta'' then (if p = MBlock at then Some p else None)
     else if n = ''content_block_stop'' then (if p = MBlock at then Some MIdle else None)
     else if n = ''message_delta'' then (if p = MIdle then Some MClosing else None)
     else if n = ''message_stop'' then (if p = MClosing then Some MEnd else None)
     else None)"

fun msgs_accept_all :: "msgs_phase \<Rightarrow> msgs_out list \<Rightarrow> msgs_phase option" where
  "msgs_accept_all p [] = Some p"
| "msgs_accept_all p (x # xs) = Option.bind (msgs_accept p x) (\<lambda>q. msgs_accept_all q xs)"

lemma msgs_accept_append [simp]:
  "msgs_accept_all p (xs @ ys) = Option.bind (msgs_accept_all p xs) (\<lambda>q. msgs_accept_all q ys)"
  by (induction xs arbitrary: p) (auto split: bind_splits)

definition msgs_phase_of :: "msgs_encoder \<Rightarrow> msgs_phase" where
  "msgs_phase_of e = (if \<not> me_started e then MBefore
     else case me_open e of Some (i, _) \<Rightarrow> MBlock (jnat i) | None \<Rightarrow> MIdle)"

definition msgs_encoder_ok :: "msgs_encoder \<Rightarrow> bool" where
  "msgs_encoder_ok e \<longleftrightarrow> (\<not> me_started e \<longrightarrow> me_open e = None)"

text \<open>A piece of output moves a client from the phase of one state to that of the next.\<close>

definition msgs_moves :: "msgs_encoder \<Rightarrow> msgs_out list \<Rightarrow> msgs_encoder \<Rightarrow> bool" where
  "msgs_moves e out e' \<longleftrightarrow> msgs_encoder_ok e' \<and> me_finished e' = me_finished e
     \<and> msgs_accept_all (msgs_phase_of e) out = Some (msgs_phase_of e')"

lemma msgs_moves_trans: "msgs_moves e out1 e1 \<Longrightarrow> msgs_moves e1 out2 e2 \<Longrightarrow> msgs_moves e (out1 @ out2) e2"
  by (simp add: msgs_moves_def)

lemma msgs_open_message_moves:
  assumes "msgs_encoder_ok e" and "msgs_open_message uuid e = (out, e1)"
  shows "msgs_moves e out e1 \<and> me_started e1 \<and> me_open e1 = me_open e \<and> me_remap e1 = me_remap e"
  using assms by (auto simp: msgs_open_message_def msgs_moves_def msgs_encoder_ok_def msgs_phase_of_def msgs_accept_def
      Let_def split: if_splits)

lemma msgs_anth_index_same:
  assumes "msgs_anth_index ir e = (i, e1)"
  shows "me_started e1 = me_started e \<and> me_open e1 = me_open e \<and> me_finished e1 = me_finished e
    \<and> msgs_phase_of e1 = msgs_phase_of e"
  using assms by (auto simp: msgs_anth_index_def msgs_phase_of_def split: option.splits)

lemma msgs_close_open_moves:
  assumes "me_started e" and "msgs_close_open e = (out, e1)"
  shows "msgs_moves e out e1 \<and> me_started e1 \<and> me_open e1 = None"
  using assms by (auto simp: msgs_close_open_def msgs_moves_def msgs_encoder_ok_def msgs_phase_of_def msgs_accept_def
      split: option.splits)

lemma msgs_start_block_moves:
  assumes "me_started e" and "me_open e = None"
  shows "msgs_moves e [msgs_block_start i b] (e\<lparr>me_open := Some (i, k)\<rparr>)"
  using assms by (simp add: msgs_moves_def msgs_encoder_ok_def msgs_phase_of_def msgs_accept_def msgs_block_start_def)

lemma msgs_delta_moves: "me_started e \<Longrightarrow> me_open e = Some (i, k) \<Longrightarrow> msgs_moves e [msgs_delta i d] e"
  by (simp add: msgs_moves_def msgs_encoder_ok_def msgs_phase_of_def msgs_accept_def msgs_delta_def)

lemma msgs_moves_phase:
  "msgs_moves e out e1 \<Longrightarrow> msgs_phase_of e2 = msgs_phase_of e1 \<Longrightarrow> msgs_encoder_ok e2 = msgs_encoder_ok e1 \<Longrightarrow>
   me_finished e2 = me_finished e1 \<Longrightarrow> msgs_moves e out e2"
  by (simp add: msgs_moves_def)

lemma msgs_open_block_moves:
  assumes "msgs_encoder_ok e" and "msgs_open_block uuid ir k e = (i, out, e1)"
  shows "msgs_moves e out e1 \<and> me_started e1 \<and> me_open e1 = Some (i, k)"
proof -
  obtain out1 ea where a: "msgs_open_message uuid e = (out1, ea)" by fastforce
  obtain j eb where b: "msgs_anth_index ir ea = (j, eb)" by fastforce
  obtain out2 ec where c: "msgs_close_open eb = (out2, ec)" by fastforce
  note open_msg = msgs_open_message_moves[OF assms(1) a] and same = msgs_anth_index_same[OF b]
  have eb: "msgs_moves e out1 eb" "me_started eb"
    using open_msg same by (auto intro: msgs_moves_phase simp: msgs_encoder_ok_def)
  show ?thesis
  proof (cases "me_open eb = Some (j, k)")
    case True
    then show ?thesis using assms(2) eb by (simp add: msgs_open_block_def a b)
  next
    case False
    then have res: "i = j" "out = out1 @ out2 @ [msgs_block_start j (msgs_empty_block k)]" "e1 = ec\<lparr>me_open := Some (j, k)\<rparr>"
      using assms(2) by (auto simp: msgs_open_block_def a b c)
    note closed = msgs_close_open_moves[OF eb(2) c]
    have "msgs_moves ec [msgs_block_start j (msgs_empty_block k)] e1"
      unfolding res(3) using closed by (intro msgs_start_block_moves) simp_all
    then show ?thesis unfolding res(2) using eb(1) closed by (auto intro: msgs_moves_trans simp: res)
  qed
qed

lemma msgs_open_tool_block_moves:
  assumes "msgs_encoder_ok e" and "msgs_open_tool_block uuid ir tid name e = (i, out, e1)"
  shows "msgs_moves e out e1 \<and> me_started e1 \<and> me_open e1 = Some (i, KToolUse)"
proof -
  obtain out1 ea where a: "msgs_open_message uuid e = (out1, ea)" by fastforce
  obtain j eb where b: "msgs_anth_index ir ea = (j, eb)" by fastforce
  obtain out2 ec where c: "msgs_close_open eb = (out2, ec)" by fastforce
  define ed where "ed = (if tid = [] then ec\<lparr>me_draws := Suc (me_draws ec)\<rparr> else ec)"
  note open_msg = msgs_open_message_moves[OF assms(1) a] and same = msgs_anth_index_same[OF b]
  have eb: "msgs_moves e out1 eb" "me_started eb"
    using open_msg same by (auto intro: msgs_moves_phase simp: msgs_encoder_ok_def)
  note closed = msgs_close_open_moves[OF eb(2) c]
  have ed: "msgs_moves eb out2 ed" "me_started ed" "me_open ed = None"
    using closed by (auto simp: ed_def msgs_moves_def msgs_encoder_ok_def msgs_phase_of_def)
  obtain blk where "i = j" "out = out1 @ out2 @ [msgs_block_start j blk]" "e1 = ed\<lparr>me_open := Some (j, KToolUse)\<rparr>"
    using assms(2) by (auto simp: msgs_open_tool_block_def a b c ed_def Let_def)
  moreover from this have "msgs_moves ed [msgs_block_start j blk] e1" using msgs_start_block_moves ed by simp
  ultimately show ?thesis using eb(1) ed by (auto intro: msgs_moves_trans)
qed


definition msgs_state_of :: "msgs_encoder \<Rightarrow> msgs_phase" where
  "msgs_state_of e = (if me_finished e then MEnd else msgs_phase_of e)"

text \<open>What one event adds is accepted, and leaves the encoder and the client in step.\<close>

definition msgs_serves :: "msgs_encoder \<Rightarrow> msgs_out list \<Rightarrow> msgs_encoder \<Rightarrow> bool" where
  "msgs_serves e out e' \<longleftrightarrow> msgs_encoder_ok e' \<and> msgs_accept_all (msgs_state_of e) out = Some (msgs_state_of e')"

lemma msgs_moves_serves: "\<not> me_finished e \<Longrightarrow> msgs_moves e out e' \<Longrightarrow> msgs_serves e out e'"
  by (simp add: msgs_moves_def msgs_serves_def msgs_state_of_def)

lemma msgs_wrap_up_serves:
  assumes "msgs_encoder_ok e" and "msgs_wrap_up uuid e = (out, e1)"
  shows "msgs_serves e out e1 \<and> me_finished e1"
proof (cases "me_finished e")
  case True
  then show ?thesis using assms by (simp add: msgs_wrap_up_def msgs_serves_def)
next
  case False
  obtain out1 ea where a: "msgs_open_message uuid (e\<lparr>me_finished := True\<rparr>) = (out1, ea)" by fastforce
  obtain out2 eb where b: "msgs_close_open ea = (out2, eb)" by fastforce
  have "msgs_encoder_ok (e\<lparr>me_finished := True\<rparr>)" using assms(1) by (simp add: msgs_encoder_ok_def)
  note opened = msgs_open_message_moves[OF this a]
  then have closed: "msgs_moves ea out2 eb \<and> me_started eb \<and> me_open eb = None"
    using msgs_close_open_moves[OF _ b] by blast
  have moves: "msgs_moves (e\<lparr>me_finished := True\<rparr>) (out1 @ out2) eb"
    using opened closed by (blast intro: msgs_moves_trans)
  have "msgs_phase_of (e\<lparr>me_finished := True\<rparr>) = msgs_phase_of e" by (simp add: msgs_phase_of_def)
  then have "msgs_accept_all (msgs_phase_of e) (out1 @ out2) = Some MIdle" "me_finished eb" "msgs_encoder_ok eb"
    using moves closed by (simp_all add: msgs_moves_def msgs_phase_of_def[of eb])
  moreover obtain d where "out = (out1 @ out2) @ [(''message_delta'', d), (''message_stop'', JObj [(''type'', JStr ''message_stop'')])]"
    "e1 = eb"
    using assms(2) False by (auto simp: msgs_wrap_up_def a b Let_def)
  ultimately show ?thesis using False
    by (simp only: msgs_serves_def msgs_state_of_def msgs_accept_append) (simp add: msgs_accept_def)
qed

lemma msgs_emit_serves:
  assumes "msgs_encoder_ok e" and "\<not> me_finished e" and "msgs_emit uuid ir k d e = (out, e1)"
  shows "msgs_serves e out e1"
proof -
  obtain i out1 where o: "msgs_open_block uuid ir k e = (i, out1, e1)" "out = out1 @ [msgs_delta i d]"
    using assms(3) by (auto simp: msgs_emit_def split: prod.splits)
  note opened = msgs_open_block_moves[OF assms(1) o(1)]
  then have "msgs_moves e1 [msgs_delta i d] e1" by (blast intro: msgs_delta_moves)
  then show ?thesis using opened assms(2) o(2) by (blast intro: msgs_moves_serves msgs_moves_trans)
qed

lemma msgs_args_serves:
  assumes "msgs_encoder_ok e" and "\<not> me_finished e" and "msgs_encode_step uuid (ToolCallArgsDelta ir f) e = (out, e1)"
  shows "msgs_serves e out e1"
proof -
  obtain mapped ea where a: "msgs_anth_index ir e = (mapped, ea)" by fastforce
  note same = msgs_anth_index_same[OF a]
  then have ea: "msgs_encoder_ok ea" "msgs_moves e [] ea" using assms(1) by (simp_all add: msgs_encoder_ok_def msgs_moves_def)
  obtain i out1 e2 where o: "(if me_open ea = Some (mapped, KToolUse) then (mapped, [], ea)
      else msgs_open_tool_block uuid ir [] [] ea) = (i, out1, e2)" by (metis prod_cases3)
  then have res: "\<exists>d. out = out1 @ [msgs_delta i d] \<and> e1 = e2" using assms(3) by (auto simp: a)
  have "msgs_moves ea out1 e2 \<and> me_started e2 \<and> me_open e2 = Some (i, KToolUse)"
  proof (cases "me_open ea = Some (mapped, KToolUse)")
    case True
    then show ?thesis using o ea(1) by (auto simp: msgs_moves_def msgs_encoder_ok_def)
  next
    case False
    then show ?thesis using o msgs_open_tool_block_moves[OF ea(1)] by simp
  qed
  then obtain d where "msgs_moves e (out1 @ [msgs_delta i d]) e1" "out = out1 @ [msgs_delta i d]"
    using ea(2) res msgs_delta_moves msgs_moves_trans by (metis append_Nil)
  then show ?thesis using assms(2) msgs_moves_serves by blast
qed

lemma msgs_quiet_serves:
  "msgs_encoder_ok e \<Longrightarrow> \<not> me_finished e \<Longrightarrow> msgs_phase_of e1 = msgs_phase_of e \<Longrightarrow> me_started e1 = me_started e \<Longrightarrow>
   me_open e1 = me_open e \<Longrightarrow> me_finished e1 = me_finished e \<Longrightarrow> msgs_serves e [] e1"
  by (simp add: msgs_serves_def msgs_state_of_def msgs_encoder_ok_def)

lemma msgs_step_serves:
  assumes "msgs_encoder_ok e" and "\<not> me_finished e" and "msgs_encode_step uuid v e = (out, e1)"
  shows "msgs_serves e out e1"
proof (cases v)
  case (Start i m u)
  let ?e = "if me_started e then e else (let e1 = e\<lparr>me_id := i, me_model := m\<rparr> in
      case u of Some v \<Rightarrow> e1\<lparr>me_input_usage := v, me_usage := v\<rparr> | None \<Rightarrow> e1)"
  have "msgs_encoder_ok ?e" "msgs_phase_of ?e = msgs_phase_of e" "me_finished ?e = me_finished e"
    using assms(1) by (auto simp: msgs_encoder_ok_def msgs_phase_of_def Let_def split: option.split)
  moreover from this(1) have "msgs_moves ?e out e1"
    using assms(3) Start msgs_open_message_moves[of ?e uuid out e1] by simp
  ultimately show ?thesis using assms(2) by (simp add: msgs_moves_def msgs_serves_def msgs_state_of_def)
next
  case (ContentStart ir k)
  show ?thesis
  proof (cases "k = KToolUse")
    case True
    then show ?thesis using assms ContentStart by (auto intro: msgs_quiet_serves)
  next
    case False
    then obtain i where "msgs_open_block uuid ir k e = (i, out, e1)"
      using assms(3) ContentStart by (auto split: prod.splits)
    then show ?thesis using msgs_open_block_moves[OF assms(1)] assms(2) msgs_moves_serves by blast
  qed
next
  case (ToolCallStart ir tid name s)
  then obtain i where "msgs_open_tool_block uuid ir tid name e = (i, out, e1)" using assms(3) by (auto split: prod.splits)
  then show ?thesis using msgs_open_tool_block_moves[OF assms(1)] assms(2) msgs_moves_serves by blast
next
  case (ToolCallArgsDelta ir f)
  then show ?thesis using msgs_args_serves assms by blast
next
  case (ContentStop ir)
  obtain i ea where a: "msgs_anth_index ir e = (i, ea)" by fastforce
  note same = msgs_anth_index_same[OF a]
  show ?thesis
  proof (cases "map_option fst (me_open ea) = Some i")
    case True
    then have c: "msgs_close_open ea = (out, e1)" using assms(3) ContentStop by (simp add: a)
    have "me_started ea" using True same assms(1) by (auto simp: msgs_encoder_ok_def)
    then have "msgs_moves ea out e1" using msgs_close_open_moves[OF _ c] by blast
    then show ?thesis using same assms(2) by (simp add: msgs_moves_def msgs_serves_def msgs_state_of_def)
  next
    case False
    then have "out = []" "e1 = ea" using assms(3) ContentStop by (auto simp: a)
    then show ?thesis using same assms by (auto intro: msgs_quiet_serves)
  qed
next
  case Done
  then show ?thesis using msgs_wrap_up_serves[OF assms(1)] assms(3) by simp
next
  case (ErrorEvent m t)
  have "msgs_phase_of e \<noteq> MEnd" "msgs_phase_of e \<noteq> MClosing" by (auto simp: msgs_phase_of_def split: option.split)
  then show ?thesis using assms ErrorEvent
    by (auto simp: msgs_serves_def msgs_state_of_def msgs_encoder_ok_def msgs_accept_def Let_def)
next
  case Ping
  have "msgs_phase_of e \<noteq> MEnd" "msgs_phase_of e \<noteq> MClosing" by (auto simp: msgs_phase_of_def split: option.split)
  then show ?thesis using assms Ping by (auto simp: msgs_serves_def msgs_state_of_def msgs_accept_def Let_def)
qed (use assms in \<open>auto intro: msgs_emit_serves msgs_quiet_serves simp: msgs_phase_of_def\<close>)

lemma msgs_event_serves:
  assumes "msgs_encoder_ok e" and "msgs_encode_event uuid v e = (out, e1)"
  shows "msgs_serves e out e1"
  using assms msgs_step_serves[OF assms(1)] by (auto simp: msgs_encode_event_def msgs_serves_def split: if_splits)

lemma msgs_encode_all_serves:
  "msgs_encoder_ok e \<Longrightarrow> msgs_encode_all uuid vs e = (out, e1) \<Longrightarrow> msgs_serves e out e1"
proof (induction vs arbitrary: e out e1)
  case (Cons v vs)
  obtain out1 ea where a: "msgs_encode_event uuid v e = (out1, ea)" by fastforce
  obtain out2 eb where b: "msgs_encode_all uuid vs ea = (out2, eb)" by fastforce
  have "msgs_serves e out1 ea" using msgs_event_serves Cons.prems(1) a .
  moreover from this have "msgs_encoder_ok ea" by (simp add: msgs_serves_def)
  then have "msgs_serves ea out2 eb" using b by (rule Cons.IH)
  ultimately show ?case using Cons.prems(2) by (auto simp: a b msgs_serves_def)
qed (simp add: msgs_serves_def)



text \<open>Numbering blocks afresh goes by the index of the event alone. A Chat upstream that thinks before it
  answers sends both at index 0, so a Messages client is told twice that block 0 begins.\<close>

lemma msgs_index_reused:
  "map (\<lambda>x. (fst x, jget ''index'' (snd x))) (msgs_stream_out uuid [ThinkingDelta 0 ''hm'', TextDelta 0 ''hi'']) =
    [(''message_start'', None),
     (''content_block_start'', Some (jnat 0)), (''content_block_delta'', Some (jnat 0)), (''content_block_stop'', Some (jnat 0)),
     (''content_block_start'', Some (jnat 0)), (''content_block_delta'', Some (jnat 0)), (''content_block_stop'', Some (jnat 0)),
     (''message_delta'', None), (''message_stop'', None)]"
  by (simp add: msgs_stream_out_def msgs_encode_event_def msgs_encoder_new_def msgs_emit_def msgs_open_block_def
      msgs_open_message_def msgs_anth_index_def msgs_close_open_def msgs_block_start_def msgs_delta_def
      msgs_encode_finish_def msgs_wrap_up_def)

subsection \<open>What is said arrives\<close>

datatype msgs_word = MText string | MThought string | MSignature string | MArgs string

text \<open>The content of an event, its place in the stream left aside; a refusal is told as text.\<close>

fun msgs_words :: "stream_event \<Rightarrow> msgs_word list" where
  "msgs_words (TextDelta _ t) = [MText t]"
| "msgs_words (RefusalDelta _ t) = [MText t]"
| "msgs_words (ThinkingDelta _ t) = [MThought t]"
| "msgs_words (ThinkingSignature _ s) = [MSignature s]"
| "msgs_words (ToolCallArgsDelta _ f) = [MArgs f]"
| "msgs_words _ = []"

definition msgs_all_words :: "stream_event list \<Rightarrow> msgs_word list" where
  "msgs_all_words vs = concat (map msgs_words vs)"

lemma msgs_all_words_simps [simp]:
  "msgs_all_words [] = []" "msgs_all_words (v # vs) = msgs_words v @ msgs_all_words vs"
  "msgs_all_words (vs @ ws) = msgs_all_words vs @ msgs_all_words ws"
  by (simp_all add: msgs_all_words_def)

definition msgs_reads_back :: "codec_lib \<Rightarrow> msgs_out list \<Rightarrow> bool" where
  "msgs_reads_back lib out \<longleftrightarrow> list_all (\<lambda>x. let t = trim (cl_print lib (snd x)) in
     cl_parse lib t = Some (snd x) \<and> t \<noteq> [] \<and> t \<noteq> ''[DONE]'') out"

definition msgs_wire_words :: "msgs_out \<Rightarrow> msgs_word list" where
  "msgs_wire_words x = msgs_all_words (fst (msgs_decode_event (fst x) (snd x) msgs_decoder_new))"

lemma msgs_ensure_words [simp]: "msgs_all_words (fst (msgs_ensure_started i k d)) = []"
  by (simp add: msgs_ensure_started_def)

lemma msgs_decode_event_words:
  "msgs_all_words (fst (msgs_decode_event n v d)) = msgs_all_words (fst (msgs_decode_event n v msgs_decoder_new))"
  by (simp add: msgs_decode_event_def msgs_decode_block_start_def msgs_decode_delta_def case_prod_beta Let_def)

lemma msgs_decode_all_words:
  "msgs_reads_back lib out \<Longrightarrow>
   msgs_all_words (fst (msgs_decode_all lib (map (msgs_frame lib) out) d)) = concat (map msgs_wire_words out)"
proof (induction out arbitrary: d)
  case (Cons x out)
  have "msgs_decode_frame lib (msgs_frame lib x) d = msgs_decode_event (fst x) (snd x) d"
    using Cons.prems by (simp add: msgs_reads_back_def msgs_decode_frame_def msgs_frame_def named_frame_def Let_def)
  moreover have "msgs_reads_back lib out" using Cons.prems by (simp add: msgs_reads_back_def)
  ultimately show ?case using Cons.IH msgs_decode_event_words[of "fst x" "snd x" d]
    by (simp add: case_prod_beta Let_def msgs_wire_words_def)
qed simp

definition msgs_wire :: "msgs_out list \<Rightarrow> msgs_word list" where
  "msgs_wire out = concat (map msgs_wire_words out)"

lemma msgs_wire_simps [simp]:
  "msgs_wire [] = []" "msgs_wire (x # xs) = msgs_wire_words x @ msgs_wire xs" "msgs_wire (xs @ ys) = msgs_wire xs @ msgs_wire ys"
  by (simp_all add: msgs_wire_def)

lemma msgs_silent [simp]:
  "msgs_wire_words (''message_start'', v) = []" "msgs_wire_words (''message_delta'', v) = []"
  "msgs_wire_words (''message_stop'', v) = []" "msgs_wire_words (''content_block_stop'', v) = []"
  "msgs_wire_words (''ping'', v) = []" "msgs_wire_words (''error'', v) = []"
  by (simp_all add: msgs_wire_words_def msgs_decode_event_def msgs_decode_start_def msgs_decode_message_delta_def Let_def
      split: option.split)

lemma msgs_wire_block_start:
  "get_str ''text'' b \<in> {None, Some []} \<Longrightarrow> get_str ''thinking'' b \<in> {None, Some []} \<Longrightarrow>
   msgs_wire_words (msgs_block_start i b) = []"
  by (auto simp: msgs_wire_words_def msgs_block_start_def msgs_decode_event_def msgs_decode_block_start_def
      msgs_nonempty_def Let_def)

lemma msgs_wire_open_message [simp]: "msgs_wire (fst (msgs_open_message uuid e)) = []"
  by (simp add: msgs_open_message_def Let_def)

lemma msgs_wire_close [simp]: "msgs_wire (fst (msgs_close_open e)) = []"
  by (simp add: msgs_close_open_def split: option.split)

lemma msgs_wire_open_block: "msgs_wire (fst (snd (msgs_open_block uuid ir k e))) = []"
  by (cases k) (auto simp: msgs_open_block_def case_prod_beta Let_def msgs_wire_block_start)

lemma msgs_wire_open_tool: "msgs_wire (fst (snd (msgs_open_tool_block uuid ir tid name e))) = []"
  by (auto simp: msgs_open_tool_block_def case_prod_beta Let_def msgs_wire_block_start)

lemma msgs_wire_delta:
  "msgs_wire_words (msgs_delta i [(''type'', JStr ''text_delta''), (''text'', JStr t)]) = [MText t]"
  "msgs_wire_words (msgs_delta i [(''type'', JStr ''thinking_delta''), (''thinking'', JStr t)]) = [MThought t]"
  "msgs_wire_words (msgs_delta i [(''type'', JStr ''signature_delta''), (''signature'', JStr t)]) = [MSignature t]"
  "msgs_wire_words (msgs_delta i [(''type'', JStr ''input_json_delta''), (''partial_json'', JStr t)]) = [MArgs t]"
  by (simp_all add: msgs_wire_words_def msgs_delta_def msgs_decode_event_def msgs_decode_delta_def case_prod_beta Let_def)

lemma msgs_wire_wrap_up [simp]: "msgs_wire (fst (msgs_wrap_up uuid e)) = []"
  by (simp add: msgs_wrap_up_def case_prod_beta Let_def)

lemma msgs_wire_step: "msgs_wire (fst (msgs_encode_step uuid v e)) = msgs_words v"
  by (cases v) (auto simp: msgs_emit_def case_prod_beta Let_def msgs_wire_open_block msgs_wire_open_tool msgs_wire_delta)

lemma msgs_step_finished: "\<not> me_finished e \<Longrightarrow> me_finished (snd (msgs_encode_step uuid v e)) = is_terminal v"
  by (cases v) (auto simp: msgs_emit_def msgs_open_block_def msgs_open_tool_block_def msgs_open_message_def msgs_anth_index_def
      msgs_close_open_def msgs_wrap_up_def case_prod_beta Let_def split: option.split)

lemma msgs_wire_all:
  "msgs_wire (fst (msgs_encode_all uuid vs e)) = (if me_finished e then [] else msgs_all_words (takeWhile (\<lambda>v. \<not> is_terminal v) vs))"
proof (induction vs arbitrary: e)
  case (Cons v vs)
  have "is_terminal v \<Longrightarrow> msgs_words v = []" by (cases v) simp_all
  then show ?case using Cons.IH msgs_step_finished[of e uuid v]
    by (auto simp: msgs_encode_event_def case_prod_beta Let_def msgs_wire_step)
qed simp

text \<open>\<open>C20\<close>. A Messages client hears what the model said up to the end of the stream, in order: text and
  refusals, thoughts, the signatures that prove them and the arguments of calls, piece by
  piece, whatever other events lie between them.\<close>

theorem msgs_stream_says_the_same:
  assumes "msgs_reads_back lib (msgs_stream_out uuid vs)"
  shows "msgs_all_words (fst (msgs_decode_all lib (map (msgs_frame lib) (msgs_stream_out uuid vs)) d))
    = msgs_all_words (takeWhile (\<lambda>v. \<not> is_terminal v) vs)"
proof -
  have "msgs_wire (msgs_stream_out uuid vs) = msgs_all_words (takeWhile (\<lambda>v. \<not> is_terminal v) vs)"
    using msgs_wire_all[of uuid vs msgs_encoder_new]
    by (simp add: msgs_stream_out_def case_prod_beta Let_def msgs_encode_finish_def msgs_encoder_new_def)
  then show ?thesis using msgs_decode_all_words[OF assms] by (simp add: msgs_wire_def)
qed


definition thinking_events :: "stream_event list" where
  "thinking_events = [ThinkingDelta 0 ''hm'', ThinkingSignature 0 ''sig'', TextDelta 1 ''hi'', Done, TextDelta 1 ''late'']"

theorem msgs_stream_says_the_same_witness:
  "let out = msgs_stream_out (\<lambda>n. ''u'') thinking_events; lib = table_lib (map snd out) in
     msgs_all_words (fst (msgs_decode_all lib (map (msgs_frame lib) out) msgs_decoder_new))
       = [MThought ''hm'', MSignature ''sig'', MText ''hi'']"
proof -
  let ?out = "msgs_stream_out (\<lambda>n. ''u'') thinking_events"
  have "msgs_reads_back (table_lib (map snd ?out)) ?out"
    by (auto simp: msgs_reads_back_def list_all_iff Let_def table_lib_back)
  from msgs_stream_says_the_same[OF this, of msgs_decoder_new] show ?thesis by (simp add: Let_def thinking_events_def)
qed

subsection \<open>Blocks are opened before they are filled\<close>

text \<open>Every piece of content has its block opened somewhere before it.\<close>

fun msgs_fills :: "stream_event \<Rightarrow> nat option" where
  "msgs_fills (TextDelta i _) = Some i"
| "msgs_fills (ThinkingDelta i _) = Some i"
| "msgs_fills (ThinkingSignature i _) = Some i"
| "msgs_fills (RefusalDelta i _) = Some i"
| "msgs_fills (ToolCallStart i _ _ _) = Some i"
| "msgs_fills (ToolCallArgsDelta i _) = Some i"
| "msgs_fills _ = None"

fun msgs_opens :: "stream_event \<Rightarrow> nat set" where
  "msgs_opens (ContentStart i _) = {i}"
| "msgs_opens _ = {}"

fun msgs_all_opened :: "nat set \<Rightarrow> stream_event list \<Rightarrow> bool" where
  "msgs_all_opened S [] = True"
| "msgs_all_opened S (v # vs) = ((case msgs_fills v of Some i \<Rightarrow> i \<in> S | None \<Rightarrow> True)
     \<and> msgs_all_opened (S \<union> msgs_opens v) vs)"

definition msgs_opened :: "stream_event list \<Rightarrow> nat set" where
  "msgs_opened vs = \<Union> (msgs_opens ` set vs)"

lemma msgs_all_opened_append:
  "msgs_all_opened S (xs @ ys) \<longleftrightarrow> msgs_all_opened S xs \<and> msgs_all_opened (S \<union> msgs_opened xs) ys"
  by (induction xs arbitrary: S) (auto simp: msgs_opened_def Un_assoc)

lemma msgs_decode_event_opens:
  assumes "msgs_decode_event n v d = (out, d1)"
  shows "msgs_all_opened (set (md_started d)) out \<and> set (md_started d1) = set (md_started d) \<union> msgs_opened out"
  using assms
  by (auto simp: msgs_decode_event_def msgs_decode_start_def msgs_decode_block_start_def msgs_decode_delta_def
      msgs_ensure_started_def msgs_decode_message_delta_def msgs_nonempty_def msgs_opened_def Let_def
      split: if_splits option.splits)

lemma msgs_decode_frame_opens:
  assumes "msgs_decode_frame lib f d = (out, d1)"
  shows "msgs_all_opened (set (md_started d)) out \<and> set (md_started d1) = set (md_started d) \<union> msgs_opened out"
  using assms msgs_decode_event_opens
  by (auto simp: msgs_decode_frame_def Let_def msgs_opened_def split: if_splits option.splits)

lemma msgs_decode_all_opens:
  "msgs_decode_all lib fs d = (out, d1) \<Longrightarrow>
   msgs_all_opened (set (md_started d)) out \<and> set (md_started d1) = set (md_started d) \<union> msgs_opened out"
proof (induction fs arbitrary: d out d1)
  case (Cons f fs)
  obtain out1 da where a: "msgs_decode_frame lib f d = (out1, da)" by fastforce
  obtain out2 db where b: "msgs_decode_all lib fs da = (out2, db)" by fastforce
  show ?case using msgs_decode_frame_opens[OF a] Cons.IH[OF b] Cons.prems
    by (auto simp: a b msgs_all_opened_append msgs_opened_def)
qed (simp add: msgs_opened_def)

text \<open>However a relay abbreviates an Anthropic stream, what is handed on is complete: no text, thought,
  signature or tool call comes before the opening of its block.\<close>

theorem msgs_blocks_opened_first: "msgs_all_opened {} (fst (msgs_decode_all lib fs msgs_decoder_new))"
  using msgs_decode_all_opens[of lib fs msgs_decoder_new]
  by (cases "msgs_decode_all lib fs msgs_decoder_new") (simp add: msgs_decoder_new_def)

end
