(* ===== verification/Gemini_Request.thy ===== *)
theory Gemini_Request
  imports Turns
begin

section \<open>Google Gemini: requests\<close>

text \<open>
  The request half of \<open>crates/refract-protocol/src/codec/gemini.rs\<close>. Field names come in two
  spellings; the model is in the URL; a call may lack an identifier, and a result is found
  by the name of its function; turns alternate. Log lines are left out.
\<close>

definition gem_known_request :: "string list" where
  "gem_known_request = [''model'', ''contents'', ''systemInstruction'', ''system_instruction'', ''tools'',
     ''toolConfig'', ''tool_config'', ''generationConfig'', ''generation_config'', ''safetySettings'',
     ''safety_settings'', ''cachedContent'', ''cached_content'']"

definition gem_known_generation :: "string list" where
  "gem_known_generation = [''temperature'', ''topP'', ''top_p'', ''topK'', ''top_k'', ''maxOutputTokens'',
     ''max_output_tokens'', ''stopSequences'', ''stop_sequences'', ''candidateCount'', ''candidate_count'', ''seed'',
     ''responseMimeType'', ''response_mime_type'', ''responseSchema'', ''response_schema'', ''thinkingConfig'',
     ''thinking_config'']"

definition gem_field :: "jmap \<Rightarrow> string \<Rightarrow> string \<Rightarrow> json option" where
  "gem_field obj camel snake = (case map_of obj camel of Some v \<Rightarrow> Some v | None \<Rightarrow> map_of obj snake)"

definition gem_object :: "jmap \<Rightarrow> string \<Rightarrow> string \<Rightarrow> jmap option" where
  "gem_object obj camel snake = Option.bind (gem_field obj camel snake) as_object"

definition non_empty_str :: "json option \<Rightarrow> string option" where
  "non_empty_str v = (case Option.bind v as_str of Some s \<Rightarrow> if s = [] then None else Some s | None \<Rightarrow> None)"

subsection \<open>Call identifiers\<close>

definition fallback_call_id :: "json option \<Rightarrow> string \<Rightarrow> nat \<Rightarrow> string" where
  "fallback_call_id i name index = (case non_empty_str i of Some s \<Rightarrow> s | None \<Rightarrow> name @ ''#'' @ nat_to_string index)"

definition gem_digits :: "string \<Rightarrow> bool" where
  "gem_digits s \<longleftrightarrow> s \<noteq> [] \<and> list_all (\<lambda>c. 48 \<le> byte c \<and> byte c \<le> 57) s"

definition is_synthetic_call_id :: "string \<Rightarrow> string \<Rightarrow> bool" where
  "is_synthetic_call_id i name \<longleftrightarrow> i = name
     \<or> (case Option.bind (strip_prefix name i) (strip_prefix ''#'') of Some digits \<Rightarrow> gem_digits digits | None \<Rightarrow> False)"

subsection \<open>Parts\<close>

definition media_part :: "media_source \<Rightarrow> string option \<Rightarrow> content_part" where
  "media_part source mime = (
     let kind = str_or [] mime; pieces = split_on (CHR ''/'') kind;
         audio_format = (case pieces of _ # f # _ \<Rightarrow> Some f | _ \<Rightarrow> None)
     in if prefix ''image/'' kind then ImagePart source mime None
        else if prefix ''audio/'' kind then AudioPart source audio_format
        else FilePart source mime None)"

fun part_mime :: "content_part \<Rightarrow> string option" where
  "part_mime (ImagePart _ mime _) = mime"
| "part_mime (FilePart _ mime _) = mime"
| "part_mime (AudioPart _ format) = map_option (\<lambda>f. ''audio/'' @ f) format"
| "part_mime _ = None"

definition gem_decode_call :: "jmap \<Rightarrow> jmap \<Rightarrow> nat \<Rightarrow> content_part" where
  "gem_decode_call obj call i = (let name = str_or [] (get_str ''name'' (JObj call)) in
     ToolUsePart (fallback_call_id (map_of call ''id'') name i) name
       (case map_of call ''args'' of Some v \<Rightarrow> v | None \<Rightarrow> JObj [])
       (non_empty_str (gem_field obj ''thoughtSignature'' ''thought_signature'')))"

definition gem_decode_result :: "codec_lib \<Rightarrow> jmap \<Rightarrow> nat \<Rightarrow> content_part" where
  "gem_decode_result lib resp i = (
     let name = str_or [] (get_str ''name'' (JObj resp));
         payload = (case map_of resp ''response'' of Some v \<Rightarrow> v | None \<Rightarrow> JObj []);
         text = (case payload of JStr s \<Rightarrow> s | other \<Rightarrow> cl_print lib other)
     in ToolResult (fallback_call_id (map_of resp ''id'') name i) (if name = [] then None else Some name)
          [TextPart text] (jget ''error'' payload \<noteq> None))"

definition gem_decode_part :: "codec_lib \<Rightarrow> json \<Rightarrow> nat \<Rightarrow> content_part option" where
  "gem_decode_part lib part i = map_option (\<lambda>obj.
     case get_str ''text'' part of
       Some t \<Rightarrow> if get_bool ''thought'' part = Some True
         then ThinkingPart t (non_empty_str (gem_field obj ''thoughtSignature'' ''thought_signature''))
         else TextPart t
     | None \<Rightarrow> (case gem_object obj ''inlineData'' ''inline_data'' of
       Some inline \<Rightarrow> media_part (Base64 (str_or [] (get_str ''data'' (JObj inline))))
         (non_empty_str (gem_field inline ''mimeType'' ''mime_type''))
     | None \<Rightarrow> (case gem_object obj ''fileData'' ''file_data'' of
       Some f \<Rightarrow> media_part (FileId (str_or [] (Option.bind (gem_field f ''fileUri'' ''file_uri'') as_str)))
         (non_empty_str (gem_field f ''mimeType'' ''mime_type''))
     | None \<Rightarrow> (case gem_object obj ''functionCall'' ''function_call'' of
       Some call \<Rightarrow> gem_decode_call obj call i
     | None \<Rightarrow> (case gem_object obj ''functionResponse'' ''function_response'' of
       Some resp \<Rightarrow> gem_decode_result lib resp i
     | None \<Rightarrow> Opaque ''gemini'' part))))) (as_object part)"

definition gem_is_tool :: "json \<Rightarrow> bool" where
  "gem_is_tool part \<longleftrightarrow> (case as_object part of None \<Rightarrow> False
     | Some obj \<Rightarrow> gem_field obj ''functionCall'' ''function_call'' \<noteq> None
         \<or> gem_field obj ''functionResponse'' ''function_response'' \<noteq> None)"

fun gem_decode_part_list :: "codec_lib \<Rightarrow> nat \<Rightarrow> json list \<Rightarrow> content_part list" where
  "gem_decode_part_list lib i [] = []"
| "gem_decode_part_list lib i (p # ps) =
     (case gem_decode_part lib p i of Some x \<Rightarrow> [x] | None \<Rightarrow> [])
     @ gem_decode_part_list lib (if gem_is_tool p then Suc i else i) ps"

definition gem_decode_parts :: "codec_lib \<Rightarrow> json option \<Rightarrow> content_part list" where
  "gem_decode_parts lib v = (case Option.bind v as_array of
     Some ps \<Rightarrow> gem_decode_part_list lib 0 ps | None \<Rightarrow> [])"

text \<open>The names of the calls by their identifiers; of two calls with one identifier the later counts.\<close>

type_synonym gem_names = "(string \<times> string) list"

definition gem_name_of :: "gem_names \<Rightarrow> string \<Rightarrow> string option" where
  "gem_name_of names i = map_of (rev names) i"

definition gem_media :: "codec_lib \<Rightarrow> media_source \<Rightarrow> string option \<Rightarrow> json" where
  "gem_media lib source mime = (
     let inline = (\<lambda>m d. JObj [(''inlineData'', JObj [(''mimeType'', JStr m), (''data'', JStr d)])]);
         file = (\<lambda>u. JObj [(''fileData'', JObj [(''mimeType'', JStr (str_or ''application/octet-stream'' mime)),
            (''fileUri'', JStr u)])])
     in case source of
          Base64 d \<Rightarrow> inline (str_or ''application/octet-stream'' mime) d
        | TextSource t \<Rightarrow> inline (str_or ''text/plain'' mime) (cl_base64 lib t)
        | FileId u \<Rightarrow> file u
        | Url u \<Rightarrow> file u)"

definition gem_call_json :: "string \<Rightarrow> string \<Rightarrow> json \<Rightarrow> string option \<Rightarrow> json" where
  "gem_call_json i name input sig = JObj ([(''functionCall'', JObj (
       if_true ''id'' (i \<noteq> [] \<and> \<not> is_synthetic_call_id i name) (JStr i)
       @ [(''name'', JStr name), (''args'', input)]))]
     @ if_some ''thoughtSignature'' sig JStr)"

definition gem_payload :: "codec_lib \<Rightarrow> content_part list \<Rightarrow> bool \<Rightarrow> json" where
  "gem_payload lib content is_error = (let text = concat (filter_map as_text content) in
     case cl_parse lib text of
       Some (JObj m) \<Rightarrow> JObj m
     | _ \<Rightarrow> JObj [(if is_error then ''error'' else ''output'', JStr text)])"

definition gem_result_json :: "codec_lib \<Rightarrow> gem_names \<Rightarrow> string \<Rightarrow> string option \<Rightarrow> content_part list \<Rightarrow> bool \<Rightarrow> json" where
  "gem_result_json lib names i name content is_error = (
     let resolved = (case name of Some n \<Rightarrow> n | None \<Rightarrow> (case gem_name_of names i of Some n \<Rightarrow> n | None \<Rightarrow> i))
     in JObj [(''functionResponse'', JObj (
          if_true ''id'' (i \<noteq> [] \<and> \<not> is_synthetic_call_id i resolved) (JStr i)
          @ [(''name'', JStr resolved), (''response'', gem_payload lib content is_error)]))])"

fun gem_encode_part :: "codec_lib \<Rightarrow> gem_names \<Rightarrow> content_part \<Rightarrow> json option" where
  "gem_encode_part lib names (TextPart t) = Some (JObj [(''text'', JStr t)])"
| "gem_encode_part lib names (ThinkingPart t sig) = Some (JObj ([(''text'', JStr t), (''thought'', JBool True)]
     @ if_some ''thoughtSignature'' sig JStr))"
| "gem_encode_part lib names (ImagePart source mime d) = Some (gem_media lib source mime)"
| "gem_encode_part lib names (AudioPart source f) = Some (gem_media lib source (part_mime (AudioPart source f)))"
| "gem_encode_part lib names (FilePart source mime n) = Some (gem_media lib source mime)"
| "gem_encode_part lib names (ToolUsePart i name input sig) = Some (gem_call_json i name input sig)"
| "gem_encode_part lib names (ToolResult i name content is_error) =
     Some (gem_result_json lib names i name content is_error)"
| "gem_encode_part lib names (Opaque p v) = (if p = ''gemini'' then Some v else None)"
| "gem_encode_part lib names (RefusalPart _) = None"
| "gem_encode_part lib names (RedactedThinking _) = None"

definition gem_encode_parts :: "codec_lib \<Rightarrow> gem_names \<Rightarrow> content_part list \<Rightarrow> json list" where
  "gem_encode_parts lib names parts = filter_map (gem_encode_part lib names) parts"

fun role_to_gemini :: "role \<Rightarrow> string" where
  "role_to_gemini Assistant = ''model''"
| "role_to_gemini _ = ''user''"


subsection \<open>Reading a request\<close>

definition gem_decode_content :: "codec_lib \<Rightarrow> json \<Rightarrow> gateway_error + message" where
  "gem_decode_content lib v = (case as_object v of
     None \<Rightarrow> Inl (ge_invalid_request ''each item in `contents` must be an object'')
   | Some entry \<Rightarrow>
       let parts = gem_decode_parts lib (map_of entry ''parts''); r = get_str ''role'' v;
           role = (if r = Some ''model'' then Assistant else if r = Some ''function'' then Tool else User);
           results = list_all (\<lambda>p. case p of ToolResult _ _ _ _ \<Rightarrow> True | _ \<Rightarrow> False) parts
       in Inr (message_new (if role = User \<and> parts \<noteq> [] \<and> results then Tool else role) parts))"

definition gem_decode_system :: "codec_lib \<Rightarrow> json option \<Rightarrow> content_part list" where
  "gem_decode_system lib v = (case v of
     Some (JStr s) \<Rightarrow> [TextPart s] | Some (JObj m) \<Rightarrow> gem_decode_parts lib (map_of m ''parts'') | _ \<Rightarrow> [])"

text \<open>The declarations of all tools in their order, and what the tools hold beside them.\<close>

definition gem_declarations :: "json list \<Rightarrow> jmap list" where
  "gem_declarations tools = concat (map (\<lambda>obj.
     case Option.bind (gem_field obj ''functionDeclarations'' ''function_declarations'') as_array of
       Some decls \<Rightarrow> filter_map as_object decls | None \<Rightarrow> []) (filter_map as_object tools))"

definition gem_builtins :: "json list \<Rightarrow> json list" where
  "gem_builtins tools = map JObj (filter (\<lambda>m. m \<noteq> []) (map (filter (\<lambda>e.
     fst e \<noteq> ''functionDeclarations'' \<and> fst e \<noteq> ''function_declarations'')) (filter_map as_object tools)))"

definition gem_decode_decl :: "jmap \<Rightarrow> gateway_error + tool_def" where
  "gem_decode_decl decl = (case get_str ''name'' (JObj decl) of
     None \<Rightarrow> Inl (ge_invalid_request ''each functionDeclaration requires a `name`'')
   | Some name \<Rightarrow> Inr \<lparr>td_name = name, td_description = non_empty_str (map_of decl ''description''),
       td_parameters = (case map_of decl ''parameters'' of Some p \<Rightarrow> p | None \<Rightarrow> JObj [(''type'', JStr ''object'')]),
       td_strict = None\<rparr>)"

definition gem_calling_config :: "jmap \<Rightarrow> jmap option" where
  "gem_calling_config obj = Option.bind (gem_object obj ''toolConfig'' ''tool_config'')
     (\<lambda>cfg. gem_object cfg ''functionCallingConfig'' ''function_calling_config'')"

definition gem_tool_choice :: "jmap option \<Rightarrow> tool_choice" where
  "gem_tool_choice fc = (case fc of None \<Rightarrow> Unspecified
   | Some m \<Rightarrow>
       let mode = str_or [] (get_str ''mode'' (JObj m));
           single = (case Option.bind (gem_field m ''allowedFunctionNames'' ''allowed_function_names'') as_array of
                Some [v] \<Rightarrow> as_str v | _ \<Rightarrow> None)
       in if mode = ''AUTO'' then AutoChoice
          else if mode = ''ANY'' then (case single of Some n \<Rightarrow> NamedTool n | None \<Rightarrow> Required)
          else if mode = ''NONE'' then NoTool else Unspecified)"

definition gem_u32 :: "jmap \<Rightarrow> string \<Rightarrow> string \<Rightarrow> 32 word option" where
  "gem_u32 g camel snake = map_option word_of_nat (Option.bind (gem_field g camel snake) as_u64)"

definition gem_decode_sampling :: "jmap \<Rightarrow> sampling" where
  "gem_decode_sampling g = \<lparr>sa_temperature = Option.bind (map_of g ''temperature'') as_f64,
     sa_top_p = Option.bind (gem_field g ''topP'' ''top_p'') as_f64, sa_top_k = gem_u32 g ''topK'' ''top_k'',
     sa_frequency_penalty = None, sa_presence_penalty = None,
     sa_stop = (case Option.bind (gem_field g ''stopSequences'' ''stop_sequences'') as_array of
        Some a \<Rightarrow> filter_map as_str a | None \<Rightarrow> []),
     sa_seed = map_option word_of_int (Option.bind (map_of g ''seed'') as_i64),
     sa_candidate_count = gem_u32 g ''candidateCount'' ''candidate_count''\<rparr>"

definition gem_mime :: "jmap \<Rightarrow> string option" where
  "gem_mime g = Option.bind (gem_field g ''responseMimeType'' ''response_mime_type'') as_str"

definition gem_decode_format :: "jmap \<Rightarrow> response_format option" where
  "gem_decode_format g = (case gem_mime g of None \<Rightarrow> None
   | Some m \<Rightarrow> if m = ''application/json'' then (case gem_field g ''responseSchema'' ''response_schema'' of
         Some schema \<Rightarrow> Some (JsonSchemaFormat ''response'' schema True) | None \<Rightarrow> Some JsonObjectFormat)
       else if m = ''text/plain'' then Some TextFormat else None)"

definition gem_thinking_config :: "jmap \<Rightarrow> jmap option" where
  "gem_thinking_config g = gem_object g ''thinkingConfig'' ''thinking_config''"

definition gem_budget :: "jmap \<Rightarrow> int option" where
  "gem_budget tc = Option.bind (gem_field tc ''thinkingBudget'' ''thinking_budget'') as_i64"

definition gem_decode_thinking :: "jmap \<Rightarrow> reasoning_config option" where
  "gem_decode_thinking g = Option.bind (gem_thinking_config g) (\<lambda>tc.
     let budget = Option.bind (gem_budget tc) (\<lambda>v. if 0 \<le> v \<and> v < 2 ^ 32 then Some (word_of_int v) else None);
         include = Option.bind (gem_field tc ''includeThoughts'' ''include_thoughts'') as_bool
     in if budget \<noteq> None \<or> include \<noteq> None
        then Some \<lparr>rc_effort = None, rc_budget_tokens = budget, rc_include_thoughts = include\<rparr> else None)"

definition ext_opt :: "string \<Rightarrow> json option \<Rightarrow> extensions \<Rightarrow> extensions" where
  "ext_opt k v ext = (case v of Some x \<Rightarrow> btree_insert k x ext | None \<Rightarrow> ext)"

definition ext_list :: "string \<Rightarrow> json list \<Rightarrow> extensions \<Rightarrow> extensions" where
  "ext_list k vs ext = (if vs = [] then ext else btree_insert k (JArr vs) ext)"

definition gem_generation_ext :: "jmap \<Rightarrow> extensions \<Rightarrow> extensions" where
  "gem_generation_ext g ext0 = (
     let ext1 = ext_opt ''gemini.responseMimeType'' (case gem_mime g of
            Some m \<Rightarrow> if m = ''application/json'' \<or> m = ''text/plain'' then None else Some (JStr m) | None \<Rightarrow> None) ext0;
         ext2 = (if Option.bind (gem_thinking_config g) gem_budget = Some (- 1)
            then btree_insert ''gemini.dynamicThinking'' (JBool True) ext1 else ext1);
         unknown = filter (\<lambda>e. fst e \<notin> set gem_known_generation) g
     in if unknown = [] then ext2 else btree_insert ''gemini.generationConfig'' (JObj unknown) ext2)"

definition gem_request_ext :: "jmap \<Rightarrow> json list \<Rightarrow> jmap \<Rightarrow> extensions" where
  "gem_request_ext obj tools g = (
     let fc = gem_calling_config obj;
         ext1 = ext_list ''gemini.builtinTools'' (gem_builtins tools) [];
         ext2 = (if gem_tool_choice fc = Required then ext_opt ''gemini.allowedFunctionNames''
            (Option.bind fc (\<lambda>m. gem_field m ''allowedFunctionNames'' ''allowed_function_names'')) ext1 else ext1);
         ext3 = gem_generation_ext g ext2;
         ext4 = ext_opt ''gemini.safetySettings'' (gem_field obj ''safetySettings'' ''safety_settings'') ext3;
         ext5 = ext_opt ''gemini.cachedContent'' (gem_field obj ''cachedContent'' ''cached_content'') ext4
     in collect_unknown ''gemini.'' gem_known_request obj ext5)"

definition gem_decode_request :: "codec_lib \<Rightarrow> json \<Rightarrow> gateway_error + unified_request" where
  "gem_decode_request lib raw = (case as_object raw of
     None \<Rightarrow> Inl (ge_invalid_request ''request body must be a JSON object'')
   | Some obj \<Rightarrow> (case map_of obj ''contents'' of
     None \<Rightarrow> Inl (ge_invalid_request ''missing required field `contents`'')
   | Some v \<Rightarrow> (case as_array v of
     None \<Rightarrow> Inl (ge_invalid_request ''field `contents` must be an array of Content objects'')
   | Some contents \<Rightarrow>
       rbind (map_ok (gem_decode_content lib) contents) (\<lambda>ms.
       let raw_tools = (case get_array ''tools'' raw of Some ts \<Rightarrow> ts | None \<Rightarrow> []) in
       rbind (map_ok gem_decode_decl (gem_declarations raw_tools)) (\<lambda>tools.
       let g = (case gem_object obj ''generationConfig'' ''generation_config'' of Some g \<Rightarrow> g | None \<Rightarrow> [])
       in Inr ((request_new (str_or [] (non_empty_str (map_of obj ''model''))) ms)
            \<lparr>ur_system := gem_decode_system lib (gem_field obj ''systemInstruction'' ''system_instruction''),
             ur_tools := tools, ur_tool_choice := gem_tool_choice (gem_calling_config obj),
             ur_sampling := gem_decode_sampling g,
             ur_max_output_tokens := gem_u32 g ''maxOutputTokens'' ''max_output_tokens'',
             ur_response_format := gem_decode_format g, ur_reasoning := gem_decode_thinking g,
             ur_stream_include_usage := True,
             ur_extensions := gem_request_ext obj raw_tools g\<rparr>))))))"

subsection \<open>Writing a request\<close>

fun gem_calls_of :: "content_part list \<Rightarrow> gem_names" where
  "gem_calls_of [] = []"
| "gem_calls_of (p # ps) = (case p of ToolUsePart i n _ _ \<Rightarrow> (i, n) # gem_calls_of ps | _ \<Rightarrow> gem_calls_of ps)"

definition gem_tool_names :: "message list \<Rightarrow> gem_names" where
  "gem_tool_names ms = concat (map (\<lambda>m. gem_calls_of (msg_content m)) ms)"

definition gem_turn :: "codec_lib \<Rightarrow> gem_names \<Rightarrow> message \<Rightarrow> json turns \<Rightarrow> json turns" where
  "gem_turn lib names m turns = (if msg_role m = System then turns
     else merge_turn (role_to_gemini (msg_role m)) (gem_encode_parts lib names (msg_content m)) turns)"

definition gem_turn_json :: "string \<times> json list \<Rightarrow> json" where
  "gem_turn_json t = JObj [(''role'', JStr (fst t)), (''parts'', JArr (snd t))]"

definition gem_encode_contents :: "codec_lib \<Rightarrow> gem_names \<Rightarrow> message list \<Rightarrow> json list" where
  "gem_encode_contents lib names ms = map gem_turn_json (fold (gem_turn lib names) ms [])"

definition gem_system_parts :: "codec_lib \<Rightarrow> gem_names \<Rightarrow> unified_request \<Rightarrow> json list" where
  "gem_system_parts lib names ir = gem_encode_parts lib names (ur_system ir)
     @ concat (map (\<lambda>m. if msg_role m = System then gem_encode_parts lib names (msg_content m) else []) (ur_messages ir))"

definition gem_decl_json :: "tool_def \<Rightarrow> json" where
  "gem_decl_json t = JObj ([(''name'', JStr (td_name t))] @ if_some ''description'' (td_description t) JStr
     @ [(''parameters'', td_parameters t)])"

definition gem_encode_tools :: "unified_request \<Rightarrow> json list" where
  "gem_encode_tools ir =
     (if ur_tools ir = [] then [] else [JObj [(''functionDeclarations'', JArr (map gem_decl_json (ur_tools ir)))]])
     @ (case Option.bind (req_extension ir ''gemini.builtinTools'') as_array of Some b \<Rightarrow> b | None \<Rightarrow> [])"

definition gem_calling_json :: "unified_request \<Rightarrow> json option" where
  "gem_calling_json ir = (case ur_tool_choice ir of
     Unspecified \<Rightarrow> None
   | AutoChoice \<Rightarrow> Some (JObj [(''mode'', JStr ''AUTO'')])
   | NoTool \<Rightarrow> Some (JObj [(''mode'', JStr ''NONE'')])
   | Required \<Rightarrow> Some (JObj ([(''mode'', JStr ''ANY'')]
        @ if_some ''allowedFunctionNames'' (req_extension ir ''gemini.allowedFunctionNames'') (\<lambda>v. v)))
   | NamedTool n \<Rightarrow> Some (JObj [(''mode'', JStr ''ANY''), (''allowedFunctionNames'', JArr [JStr n])]))"

text \<open>The fields are put into the map one by one, over what the extension brings.\<close>

definition put_some :: "string \<Rightarrow> 'a option \<Rightarrow> ('a \<Rightarrow> json) \<Rightarrow> jmap \<Rightarrow> jmap" where
  "put_some k x f m = (case x of Some y \<Rightarrow> map_insert k (f y) m | None \<Rightarrow> m)"

definition gem_thinking_fields :: "unified_request \<Rightarrow> reasoning_config \<Rightarrow> jmap" where
  "gem_thinking_fields ir r =
     (if req_extension ir ''gemini.dynamicThinking'' = Some (JBool True)
      then [(''thinkingBudget'', JNum (JInt (- 1)))]
      else if_some ''thinkingBudget'' (budget_or_from_effort (ur_max_output_tokens ir) r) (\<lambda>b. jnat (unat b)))
     @ if_some ''includeThoughts'' (rc_include_thoughts r) JBool"

definition gem_format_fields :: "unified_request \<Rightarrow> jmap \<Rightarrow> jmap" where
  "gem_format_fields ir m = (case ur_response_format ir of
     Some JsonObjectFormat \<Rightarrow> map_insert ''responseMimeType'' (JStr ''application/json'') m
   | Some (JsonSchemaFormat _ schema _) \<Rightarrow> map_insert ''responseSchema'' schema
        (map_insert ''responseMimeType'' (JStr ''application/json'') m)
   | Some TextFormat \<Rightarrow> map_insert ''responseMimeType'' (JStr ''text/plain'') m
   | None \<Rightarrow> put_some ''responseMimeType'' (req_extension ir ''gemini.responseMimeType'') (\<lambda>v. v) m)"

definition gem_generation :: "unified_request \<Rightarrow> jmap" where
  "gem_generation ir = (
     let s = ur_sampling ir;
         g0 = (case Option.bind (req_extension ir ''gemini.generationConfig'') as_object of
            Some extra \<Rightarrow> fold (\<lambda>(k, v). map_insert k v) extra [] | None \<Rightarrow> []);
         g1 = put_some ''temperature'' (sa_temperature s) jfloat g0;
         g2 = put_some ''topP'' (sa_top_p s) jfloat g1;
         g3 = put_some ''topK'' (sa_top_k s) (\<lambda>k. jnat (unat k)) g2;
         g4 = put_some ''seed'' (sa_seed s) (\<lambda>w. JNum (JInt (sint w))) g3;
         g5 = put_some ''candidateCount'' (sa_candidate_count s) (\<lambda>n. jnat (unat n)) g4;
         g6 = (if sa_stop s = [] then g5 else map_insert ''stopSequences'' (JArr (map JStr (sa_stop s))) g5);
         g7 = put_some ''maxOutputTokens'' (ur_max_output_tokens ir) (\<lambda>n. jnat (unat n)) g6;
         g8 = gem_format_fields ir g7
     in case ur_reasoning ir of None \<Rightarrow> g8
        | Some r \<Rightarrow> if gem_thinking_fields ir r = [] then g8
            else map_insert ''thinkingConfig'' (JObj (gem_thinking_fields ir r)) g8)"

definition gem_request_body :: "codec_lib \<Rightarrow> unified_request \<Rightarrow> jmap" where
  "gem_request_body lib ir = (
     let names = gem_tool_names (ur_messages ir); sys = gem_system_parts lib names ir;
         tools = gem_encode_tools ir; g = gem_generation ir
     in [(''contents'', JArr (gem_encode_contents lib names (ur_messages ir)))]
        @ if_true ''systemInstruction'' (sys \<noteq> []) (JObj [(''parts'', JArr sys)])
        @ if_true ''tools'' (tools \<noteq> []) (JArr tools)
        @ if_some ''toolConfig'' (gem_calling_json ir) (\<lambda>fc. JObj [(''functionCallingConfig'', fc)])
        @ if_true ''generationConfig'' (g \<noteq> []) (JObj g)
        @ if_some ''safetySettings'' (req_extension ir ''gemini.safetySettings'') (\<lambda>v. v)
        @ if_some ''cachedContent'' (req_extension ir ''gemini.cachedContent'') (\<lambda>v. v))"

definition gem_encode_request :: "codec_lib \<Rightarrow> unified_request \<Rightarrow> gateway_error + json" where
  "gem_encode_request lib ir = Inr (JObj (gem_request_body lib ir))"


subsection \<open>Turns alternate\<close>

definition gem_parts_of :: "json \<Rightarrow> json list" where
  "gem_parts_of t = (case get_array ''parts'' t of Some ps \<Rightarrow> ps | None \<Rightarrow> [])"

definition gem_all_parts :: "codec_lib \<Rightarrow> gem_names \<Rightarrow> message list \<Rightarrow> json list" where
  "gem_all_parts lib names ms =
     concat (map (\<lambda>m. gem_encode_parts lib names (msg_content m)) (filter (\<lambda>m. msg_role m \<noteq> System) ms))"

lemma gem_turns_filter: "fold (gem_turn lib names) ms turns
    = fold (\<lambda>m. merge_turn (role_to_gemini (msg_role m)) (gem_encode_parts lib names (msg_content m)))
        (filter (\<lambda>m. msg_role m \<noteq> System) ms) turns"
  by (induction ms arbitrary: turns) (simp_all add: gem_turn_def)

lemma gem_turns_ok:
  "turns_ok {''user'', ''model''} (fold (gem_turn lib names) ms [])
   \<and> turn_blocks (fold (gem_turn lib names) ms []) = gem_all_parts lib names ms"
proof -
  have role: "role_to_gemini (msg_role m) \<in> {''user'', ''model''}" for m by (cases "msg_role m") simp_all
  show ?thesis unfolding gem_turns_filter
    using fold_turns_ok[where role = "\<lambda>m. role_to_gemini (msg_role m)" and turns = "[]" and roles = "{''user'', ''model''}"
        and blocks = "\<lambda>m. gem_encode_parts lib names (msg_content m)" and ms = "filter (\<lambda>m. msg_role m \<noteq> System) ms", OF role]
    by (simp add: gem_all_parts_def)
qed

text \<open>Whatever conversation comes in, a Gemini upstream gets turns of the user and the model that
  strictly alternate, none of them empty, with every part of the conversation in its order,
  and a body without a \<open>model\<close> field, which it would refuse.\<close>

theorem gem_contents_alternate:
  "let names = gem_tool_names (ur_messages ir); out = gem_encode_contents lib names (ur_messages ir) in
     alternate (map (get_str ''role'') out)
     \<and> list_all (\<lambda>t. get_str ''role'' t \<in> {Some ''user'', Some ''model''} \<and> gem_parts_of t \<noteq> []) out
     \<and> concat (map gem_parts_of out) = gem_all_parts lib names (ur_messages ir)
     \<and> get_array ''contents'' (JObj (gem_request_body lib ir)) = Some out
     \<and> jget ''model'' (JObj (gem_request_body lib ir)) = None"
proof -
  define names where "names = gem_tool_names (ur_messages ir)"
  define turns where "turns = fold (gem_turn lib names) (ur_messages ir) []"
  have ok: "turns_ok {''user'', ''model''} turns" "turn_blocks turns = gem_all_parts lib names (ur_messages ir)"
    using gem_turns_ok[of lib names "ur_messages ir"] by (simp_all add: turns_def)
  have out: "gem_encode_contents lib names (ur_messages ir) = map gem_turn_json turns"
    by (simp add: gem_encode_contents_def turns_def)
  have roles: "map (get_str ''role'') (map gem_turn_json turns) = map Some (map fst turns)"
    by (simp add: gem_turn_json_def)
  have parts: "map gem_parts_of (map gem_turn_json turns) = map snd turns"
    by (simp add: gem_turn_json_def gem_parts_of_def)
  have alt: "alternate (map (get_str ''role'') (map gem_turn_json turns))"
    unfolding roles using ok(1) alternate_inj[of Some "map fst turns"] by (simp add: turns_ok_def)
  have all: "list_all (\<lambda>t. get_str ''role'' t \<in> {Some ''user'', Some ''model''} \<and> gem_parts_of t \<noteq> []) (map gem_turn_json turns)"
    using ok(1) by (auto simp: list_all_iff turns_ok_def gem_turn_json_def gem_parts_of_def)
  have blocks: "concat (map gem_parts_of (map gem_turn_json turns)) = gem_all_parts lib names (ur_messages ir)"
    unfolding parts using ok(2) by (simp add: turn_blocks_def)
  have body: "get_array ''contents'' (JObj (gem_request_body lib ir)) = Some (map gem_turn_json turns)"
    "jget ''model'' (JObj (gem_request_body lib ir)) = None"
    by (simp_all add: gem_request_body_def Let_def out[unfolded names_def] names_def)
  show ?thesis unfolding Let_def names_def[symmetric] out using alt all blocks body by blast
qed

subsection \<open>Results find their functions\<close>

lemma gem_calls_of_mem: "(i, n) \<in> set (gem_calls_of ps) \<longleftrightarrow> (\<exists>v s. ToolUsePart i n v s \<in> set ps)"
  by (induction ps) (auto split: content_part.split)

lemma gem_tool_names_mem:
  "(i, n) \<in> set (gem_tool_names ms) \<longleftrightarrow> (\<exists>m \<in> set ms. \<exists>v s. ToolUsePart i n v s \<in> set (msg_content m))"
  by (auto simp: gem_tool_names_def gem_calls_of_mem)

lemma gem_name_found:
  assumes "(i, n) \<in> set names" and "\<forall>n'. (i, n') \<in> set names \<longrightarrow> n' = n"
  shows "gem_name_of names i = Some n"
proof -
  obtain n' where "map_of (rev names) i = Some n'"
    using assms(1) by (metis not_None_eq map_of_eq_None_iff fst_conv image_eqI set_rev)
  then show ?thesis using assms(2) map_of_SomeD[of "rev names" i n'] by (auto simp: gem_name_of_def)
qed

text \<open>A tool result that comes from a protocol without function names reaches Gemini under the name
  of the function that was called, with its identifier unless the gateway made it up, and
  with an object as its response, as Gemini demands.\<close>

theorem gem_results_named:
  assumes "\<exists>m \<in> set (ur_messages ir). \<exists>v s. ToolUsePart i n v s \<in> set (msg_content m)"
    and "\<forall>m \<in> set (ur_messages ir). \<forall>n' v s. ToolUsePart i n' v s \<in> set (msg_content m) \<longrightarrow> n' = n"
  shows "\<exists>j. gem_encode_part lib (gem_tool_names (ur_messages ir)) (ToolResult i None content e) = Some j
    \<and> get_in ''functionResponse'' ''name'' j = Some (JStr n)
    \<and> get_in ''functionResponse'' ''id'' j = (if i = [] \<or> is_synthetic_call_id i n then None else Some (JStr i))
    \<and> (\<exists>m. get_in ''functionResponse'' ''response'' j = Some (JObj m))"
proof -
  have "gem_name_of (gem_tool_names (ur_messages ir)) i = Some n"
    using assms by (intro gem_name_found) (auto simp: gem_tool_names_mem)
  moreover have "\<exists>m. gem_payload lib content e = JObj m"
    by (simp add: gem_payload_def Let_def split: option.split json.split)
  ultimately show ?thesis by (auto simp: gem_result_json_def get_in_def)
qed

definition gem_two_turns :: unified_request where
  "gem_two_turns = request_new [] [message_new Assistant [ToolUsePart ''c1'' ''scan'' (JObj []) None],
     message_new Tool [ToolResult ''c1'' None [TextPart ''ok''] False]]"

theorem gem_results_named_witness:
  "\<exists>j. gem_encode_part (table_lib []) (gem_tool_names (ur_messages gem_two_turns)) (ToolResult ''c1'' None [TextPart ''ok''] False) = Some j
     \<and> get_in ''functionResponse'' ''name'' j = Some (JStr ''scan'')"
proof -
  have ms: "ur_messages gem_two_turns = [message_new Assistant [ToolUsePart ''c1'' ''scan'' (JObj []) None],
     message_new Tool [ToolResult ''c1'' None [TextPart ''ok''] False]]"
    by (simp add: gem_two_turns_def request_new_def)
  show ?thesis
    using gem_results_named[of gem_two_turns "''c1''" "''scan''" "table_lib []" "[TextPart ''ok'']" False]
    unfolding ms by (auto simp: message_new_def)
qed

end
