(* ===== verification/Gemini_Response.thy ===== *)
theory Gemini_Response
  imports Gemini_Request
begin

section \<open>Google Gemini: responses\<close>

text \<open>
  The response half of \<open>crates/refract-protocol/src/codec/gemini.rs\<close>: finish reasons, usage, error
  bodies, and the answer itself. Gemini ends a turn that calls a tool as any other turn, so
  the decoder looks at the parts; the finer reasons travel as an extension. The identifier
  the decoder draws when the upstream gave none is the parameter \<open>uuid\<close>.
\<close>

definition gem_stop_reason :: "string \<Rightarrow> stop_reason" where
  "gem_stop_reason raw = (if raw = ''STOP'' then Stop else if raw = ''MAX_TOKENS'' then MaxTokens
     else if raw \<in> {''SAFETY'', ''RECITATION'', ''BLOCKLIST'', ''PROHIBITED_CONTENT'', ''SPII''} then ContentFilter
     else OtherStop)"

fun gem_finish_reason :: "stop_reason \<Rightarrow> string" where
  "gem_finish_reason Stop = ''STOP''"
| "gem_finish_reason ToolUseStop = ''STOP''"
| "gem_finish_reason StopSequence = ''STOP''"
| "gem_finish_reason MaxTokens = ''MAX_TOKENS''"
| "gem_finish_reason ContentFilter = ''SAFETY''"
| "gem_finish_reason RefusalStop = ''OTHER''"
| "gem_finish_reason PauseTurn = ''OTHER''"
| "gem_finish_reason OtherStop = ''OTHER''"

text \<open>The counts of the model and of its thoughts are summed in 64 bits.\<close>

definition gem_parse_usage :: "json option \<Rightarrow> usage" where
  "gem_parse_usage raw = (case Option.bind raw as_object of
     None \<Rightarrow> usage_default
   | Some obj \<Rightarrow>
       let num = (\<lambda>camel snake. case Option.bind (gem_field obj camel snake) as_u64 of Some n \<Rightarrow> n | None \<Rightarrow> 0);
           reasoning = num ''thoughtsTokenCount'' ''thoughts_token_count''
       in \<lparr>us_input_tokens = num ''promptTokenCount'' ''prompt_token_count'',
           us_output_tokens = (num ''candidatesTokenCount'' ''candidates_token_count'' + reasoning) mod 2 ^ 64,
           us_cached_input_tokens = num ''cachedContentTokenCount'' ''cached_content_token_count'',
           us_cache_write_tokens = 0, us_reasoning_tokens = reasoning\<rparr>)"

definition gem_encode_usage :: "usage \<Rightarrow> json" where
  "gem_encode_usage u = JObj (
     [(''promptTokenCount'', jnat (us_input_tokens u)),
      (''candidatesTokenCount'', jnat (us_output_tokens u - us_reasoning_tokens u)),
      (''totalTokenCount'', jnat ((us_input_tokens u + us_output_tokens u) mod 2 ^ 64))]
     @ if_true ''cachedContentTokenCount'' (us_cached_input_tokens u > 0) (jnat (us_cached_input_tokens u))
     @ if_true ''thoughtsTokenCount'' (us_reasoning_tokens u > 0) (jnat (us_reasoning_tokens u)))"

definition gem_code_kind :: "nat option \<Rightarrow> error_kind" where
  "gem_code_kind code = (
     if code = Some 400 then InvalidRequest else if code = Some 401 then Unauthenticated
     else if code = Some 403 then PermissionDenied else if code = Some 404 then NotFound
     else if code = Some 429 then RateLimited else if code = Some 503 then NoAvailableChannel
     else if code = Some 504 then Timeout else UpstreamError)"

definition gem_error_kind :: "string \<Rightarrow> nat option \<Rightarrow> error_kind" where
  "gem_error_kind status code = (
     if status \<in> {''INVALID_ARGUMENT'', ''FAILED_PRECONDITION'', ''OUT_OF_RANGE''} then InvalidRequest
     else if status = ''UNAUTHENTICATED'' then Unauthenticated
     else if status = ''PERMISSION_DENIED'' then PermissionDenied
     else if status = ''NOT_FOUND'' then NotFound
     else if status = ''RESOURCE_EXHAUSTED'' then RateLimited
     else if status = ''UNAVAILABLE'' then NoAvailableChannel
     else if status = ''DEADLINE_EXCEEDED'' then Timeout
     else gem_code_kind code)"

definition gem_error_body :: "codec_lib \<Rightarrow> json \<Rightarrow> gateway_error option" where
  "gem_error_body lib raw = map_option (\<lambda>err.
     let message = str_or ''upstream returned an error without a message'' (get_str ''message'' (JObj err));
         code = get_u64 ''code'' (JObj err);
         e = with_protocol Gemini (gateway_error_new
           (gem_error_kind (str_or [] (get_str ''status'' (JObj err))) code) message)
     in case code of Some c \<Rightarrow> with_upstream (if c < 2 ^ 16 then c else 502) (cl_print lib raw) e | None \<Rightarrow> e)
     (Option.bind (jget ''error'' raw) as_object)"

definition first_candidate :: "jmap \<Rightarrow> jmap option" where
  "first_candidate obj = (case Option.bind (map_of obj ''candidates'') as_array of
     Some (c # _) \<Rightarrow> as_object c | _ \<Rightarrow> None)"

definition gem_response_id :: "string \<Rightarrow> jmap \<Rightarrow> string" where
  "gem_response_id uuid obj = (case non_empty_str (gem_field obj ''responseId'' ''response_id'') of
     Some i \<Rightarrow> i | None \<Rightarrow> ''gemini-'' @ uuid)"

fun is_tool_use :: "content_part \<Rightarrow> bool" where
  "is_tool_use (ToolUsePart _ _ _ _) = True"
| "is_tool_use _ = False"

text \<open>A turn that stopped as usual stopped for its tool when it called one.\<close>

definition gem_turn_stop :: "bool \<Rightarrow> string \<Rightarrow> stop_reason" where
  "gem_turn_stop called raw = (if gem_stop_reason raw = Stop \<and> called then ToolUseStop else gem_stop_reason raw)"

definition gem_finish :: "jmap option \<Rightarrow> string option" where
  "gem_finish candidate = Option.bind candidate (\<lambda>c. Option.bind (gem_field c ''finishReason'' ''finish_reason'') as_str)"

definition gem_content_parts :: "jmap option \<Rightarrow> json option" where
  "gem_content_parts candidate = Option.bind (Option.bind (Option.bind candidate (\<lambda>c. map_of c ''content'')) as_object)
     (\<lambda>c. map_of c ''parts'')"

definition gem_response_ext :: "jmap \<Rightarrow> extensions" where
  "gem_response_ext obj = (
     let candidate = first_candidate obj;
         of_candidate = (\<lambda>camel snake. Option.bind candidate (\<lambda>c. gem_field c camel snake));
         extra = (case Option.bind (map_of obj ''candidates'') as_array of
            Some (c # cs) \<Rightarrow> if cs = [] then None else Some (JArr cs) | _ \<Rightarrow> None)
     in ext_opt ''gemini.promptFeedback'' (gem_field obj ''promptFeedback'' ''prompt_feedback'')
          (ext_opt ''gemini.extraCandidates'' extra
          (ext_opt ''gemini.citationMetadata'' (of_candidate ''citationMetadata'' ''citation_metadata'')
          (ext_opt ''gemini.safetyRatings'' (of_candidate ''safetyRatings'' ''safety_ratings'')
          (ext_opt ''gemini.finishReason'' (map_option JStr (gem_finish candidate)) [])))))"

definition gem_prompt_blocked :: "jmap \<Rightarrow> bool" where
  "gem_prompt_blocked obj \<longleftrightarrow> Option.bind (gem_object obj ''promptFeedback'' ''prompt_feedback'')
     (\<lambda>f. gem_field f ''blockReason'' ''block_reason'') \<noteq> None"

definition gem_decode_response :: "codec_lib \<Rightarrow> string \<Rightarrow> int \<Rightarrow> json \<Rightarrow> gateway_error + unified_response" where
  "gem_decode_response lib uuid now raw = (case as_object raw of
     None \<Rightarrow> Inl (ge_invalid_request ''response body must be a JSON object'')
   | Some obj \<Rightarrow> (case gem_error_body lib raw of
     Some err \<Rightarrow> Inl err
   | None \<Rightarrow>
       let candidate = first_candidate obj;
           content = gem_decode_parts lib (gem_content_parts candidate);
           stop = map_option (gem_turn_stop (list_ex is_tool_use content)) (gem_finish candidate)
       in Inr ((response_new (gem_response_id uuid obj)
              (str_or [] (non_empty_str (gem_field obj ''modelVersion'' ''model_version''))) now)
            \<lparr>rs_content := content,
             rs_stop_reason := (if stop = None \<and> gem_prompt_blocked obj then Some ContentFilter else stop),
             rs_usage := gem_parse_usage (gem_field obj ''usageMetadata'' ''usage_metadata''),
             rs_extensions := gem_response_ext obj\<rparr>)))"

definition rs_extension :: "unified_response \<Rightarrow> string \<Rightarrow> json option" where
  "rs_extension r k = map_of (rs_extensions r) k"

definition gem_candidate :: "codec_lib \<Rightarrow> unified_response \<Rightarrow> jmap" where
  "gem_candidate lib r = (
     let finish = (case Option.bind (rs_extension r ''gemini.finishReason'') as_str of
            Some f \<Rightarrow> Some f | None \<Rightarrow> map_option gem_finish_reason (rs_stop_reason r))
     in [(''content'', JObj [(''parts'', JArr (gem_encode_parts lib [] (rs_content r))), (''role'', JStr ''model'')])]
        @ if_some ''finishReason'' finish JStr
        @ [(''index'', jnat 0)]
        @ if_some ''safetyRatings'' (rs_extension r ''gemini.safetyRatings'') (\<lambda>v. v)
        @ if_some ''citationMetadata'' (rs_extension r ''gemini.citationMetadata'') (\<lambda>v. v))"

definition gem_response_body :: "codec_lib \<Rightarrow> unified_response \<Rightarrow> jmap" where
  "gem_response_body lib r =
     [(''candidates'', JArr (JObj (gem_candidate lib r) #
        (case Option.bind (rs_extension r ''gemini.extraCandidates'') as_array of Some extra \<Rightarrow> extra | None \<Rightarrow> []))),
      (''usageMetadata'', gem_encode_usage (rs_usage r))]
     @ if_true ''modelVersion'' (rs_model r \<noteq> []) (JStr (rs_model r))
     @ [(''responseId'', JStr (rs_id r))]
     @ if_some ''promptFeedback'' (rs_extension r ''gemini.promptFeedback'') (\<lambda>v. v)"

definition gem_encode_response :: "codec_lib \<Rightarrow> unified_response \<Rightarrow> gateway_error + json" where
  "gem_encode_response lib r = Inr (JObj (gem_response_body lib r))"

end
