(* ===== verification/Gemini_Roundtrip.thy ===== *)
theory Gemini_Roundtrip
  imports Gemini_Response Messages_Request
begin

section \<open>Google Gemini: there and back\<close>

text \<open>
  What the codec of \<open>crates/refract-protocol/src/codec/gemini.rs\<close> writes it reads again: parts with the
  identifiers it makes up by their position, answers, and requests.
\<close>

subsection \<open>Parts\<close>

definition gem_id_ok :: "nat \<Rightarrow> string \<Rightarrow> string \<Rightarrow> bool" where
  "gem_id_ok k i name \<longleftrightarrow> i = name @ ''#'' @ nat_to_string k \<or> i \<noteq> [] \<and> \<not> is_synthetic_call_id i name"

fun gem_source_ok :: "media_source \<Rightarrow> bool" where
  "gem_source_ok (Base64 _) = True"
| "gem_source_ok (FileId _) = True"
| "gem_source_ok _ = False"

fun gem_payload_ok :: "codec_lib \<Rightarrow> content_part list \<Rightarrow> bool \<Rightarrow> bool" where
  "gem_payload_ok lib [TextPart t] e = (case cl_parse lib t of
     Some (JObj m) \<Rightarrow> cl_print lib (JObj m) = t \<and> e = (map_of m ''error'' \<noteq> None) | _ \<Rightarrow> False)"
| "gem_payload_ok lib _ e = False"

text \<open>The parts Gemini has, the \<open>k\<close>-th tool part of its message.\<close>

fun gem_part_ok :: "codec_lib \<Rightarrow> nat \<Rightarrow> content_part \<Rightarrow> bool" where
  "gem_part_ok lib k (TextPart t) = True"
| "gem_part_ok lib k (ThinkingPart t sig) = (sig \<noteq> Some [])"
| "gem_part_ok lib k (ImagePart s mime d) = (gem_source_ok s \<and> d = None
     \<and> (case mime of Some m \<Rightarrow> prefix ''image/'' m | None \<Rightarrow> False))"
| "gem_part_ok lib k (AudioPart s f) = (gem_source_ok s
     \<and> (case f of Some g \<Rightarrow> CHR ''/'' \<notin> set g | None \<Rightarrow> False))"
| "gem_part_ok lib k (FilePart s mime n) = (gem_source_ok s \<and> n = None
     \<and> (case mime of Some m \<Rightarrow> m \<noteq> [] \<and> \<not> prefix ''image/'' m \<and> \<not> prefix ''audio/'' m | None \<Rightarrow> False))"
| "gem_part_ok lib k (ToolUsePart i name v sig) = (gem_id_ok k i name \<and> sig \<noteq> Some [])"
| "gem_part_ok lib k (ToolResult i name content e) = ((case name of Some n \<Rightarrow> n \<noteq> [] \<and> gem_id_ok k i n | None \<Rightarrow> False)
     \<and> gem_payload_ok lib content e)"
| "gem_part_ok lib k (Opaque p v) = (p = ''gemini'' \<and> gem_decode_part lib v k = Some (Opaque ''gemini'' v))"
| "gem_part_ok lib k _ = False"

fun gem_counts :: "content_part \<Rightarrow> bool" where
  "gem_counts (ToolUsePart _ _ _ _) = True"
| "gem_counts (ToolResult _ _ _ _) = True"
| "gem_counts (Opaque _ v) = gem_is_tool v"
| "gem_counts _ = False"

fun gem_parts_ok :: "codec_lib \<Rightarrow> nat \<Rightarrow> content_part list \<Rightarrow> bool" where
  "gem_parts_ok lib k [] = True"
| "gem_parts_ok lib k (p # ps) = (gem_part_ok lib k p \<and> gem_parts_ok lib (if gem_counts p then Suc k else k) ps)"

lemma synthetic_made_up: "is_synthetic_call_id (name @ ''#'' @ nat_to_string k) name"
  using nat_to_string_digits[of k] by (simp add: is_synthetic_call_id_def strip_prefix_def gem_digits_def)

lemma gem_id_back:
  assumes "gem_id_ok k i name"
  shows "fallback_call_id (if i \<noteq> [] \<and> \<not> is_synthetic_call_id i name then Some (JStr i) else None) name k = i"
  using assms synthetic_made_up[of name k] by (auto simp: gem_id_ok_def fallback_call_id_def non_empty_str_def)

lemma non_empty_back: "sig \<noteq> Some [] \<Longrightarrow> non_empty_str (map_option JStr sig) = sig"
  by (cases sig) (simp_all add: non_empty_str_def)

lemma media_part_image: "prefix ''image/'' m \<Longrightarrow> media_part s (Some m) = ImagePart s (Some m) None"
  by (simp add: media_part_def)

lemma media_part_audio: "CHR ''/'' \<notin> set g \<Longrightarrow> media_part s (Some (''audio/'' @ g)) = AudioPart s (Some g)"
  by (simp add: media_part_def split_on_none)

lemma media_part_file: "\<not> prefix ''image/'' m \<Longrightarrow> \<not> prefix ''audio/'' m \<Longrightarrow> media_part s (Some m) = FilePart s (Some m) None"
  by (simp add: media_part_def Let_def)

lemma gem_media_back:
  assumes "gem_source_ok s" and "m \<noteq> []"
  shows "gem_decode_part lib (gem_media lib s (Some m)) k = Some (media_part s (Some m)) \<and> \<not> gem_is_tool (gem_media lib s (Some m))"
  using assms by (cases s) (simp_all add: gem_decode_part_def gem_media_def gem_object_def gem_field_def
      non_empty_str_def gem_is_tool_def)

lemma gem_call_back:
  assumes "gem_id_ok k i name" and "sig \<noteq> Some []"
  shows "gem_decode_part lib (gem_call_json i name v sig) k = Some (ToolUsePart i name v sig) \<and> gem_is_tool (gem_call_json i name v sig)"
  using gem_id_back[OF assms(1)] non_empty_back[OF assms(2), unfolded map_option_case]
  by (simp add: gem_decode_part_def gem_call_json_def gem_object_def gem_field_def gem_decode_call_def gem_is_tool_def
      map_option_case option_again cong: if_cong option.case_cong)

lemma gem_result_back:
  assumes "gem_id_ok k i n" and "n \<noteq> []" and "gem_payload_ok lib content e"
  shows "gem_decode_part lib (gem_result_json lib names i (Some n) content e) k = Some (ToolResult i (Some n) content e)
    \<and> gem_is_tool (gem_result_json lib names i (Some n) content e)"
proof -
  obtain t m where c: "content = [TextPart t]" "cl_parse lib t = Some (JObj m)" "cl_print lib (JObj m) = t"
    "e = (map_of m ''error'' \<noteq> None)"
    using assms(3) by (auto elim!: gem_payload_ok.elims split: option.splits json.splits)
  have p: "gem_payload lib [TextPart t] b = JObj m" for b by (simp add: gem_payload_def c(2))
  show ?thesis using gem_id_back[OF assms(1)] assms(2)
    by (auto simp: gem_decode_part_def gem_result_json_def p gem_object_def gem_field_def gem_decode_result_def
        gem_is_tool_def c(1,3,4) Let_def split: if_splits)
qed

lemma gem_part_back:
  assumes "gem_part_ok lib k p"
  shows "\<exists>j. gem_encode_part lib names p = Some j \<and> gem_decode_part lib j k = Some p \<and> gem_is_tool j = gem_counts p"
proof (cases p)
  case (TextPart t)
  then show ?thesis by (simp add: gem_decode_part_def gem_is_tool_def gem_field_def)
next
  case (ThinkingPart t sig)
  then show ?thesis using assms non_empty_back[of sig, unfolded map_option_case]
    by (simp add: gem_decode_part_def gem_is_tool_def gem_field_def map_option_case option_again cong: option.case_cong)
next
  case (ImagePart s mime d)
  then obtain m where m: "mime = Some m" "prefix ''image/'' m" "d = None" "gem_source_ok s"
    using assms by (auto split: option.splits)
  then have "m \<noteq> []" by auto
  then show ?thesis using gem_media_back[OF m(4), of m lib k] m media_part_image[OF m(2), of s] ImagePart by auto
next
  case (AudioPart s f)
  then obtain g where g: "f = Some g" "CHR ''/'' \<notin> set g" "gem_source_ok s"
    using assms by (auto split: option.splits)
  then show ?thesis using gem_media_back[OF g(3), of "''audio/'' @ g" lib k] media_part_audio[OF g(2), of s] AudioPart by auto
next
  case (FilePart s mime n)
  then obtain m where m: "mime = Some m" "m \<noteq> []" "\<not> prefix ''image/'' m" "\<not> prefix ''audio/'' m" "n = None" "gem_source_ok s"
    using assms by (auto split: option.splits)
  then show ?thesis using gem_media_back[OF m(6,2), of lib k] media_part_file[OF m(3,4), of s] FilePart by auto
next
  case (ToolUsePart i name v sig)
  then show ?thesis using assms gem_call_back[of k i name sig lib v] by auto
next
  case (ToolResult i name content e)
  then obtain n where "name = Some n" "n \<noteq> []" "gem_id_ok k i n" "gem_payload_ok lib content e"
    using assms by (auto split: option.splits)
  then show ?thesis using gem_result_back[of k i n lib content e names] ToolResult by auto
qed (use assms in auto)

lemma gem_parts_back:
  "gem_parts_ok lib k ps \<Longrightarrow> gem_decode_part_list lib k (gem_encode_parts lib names ps) = ps"
proof (induction ps arbitrary: k)
  case (Cons p ps)
  obtain j where j: "gem_encode_part lib names p = Some j" "gem_decode_part lib j k = Some p" "gem_is_tool j = gem_counts p"
    using gem_part_back[of lib k p names] Cons.prems by auto
  then show ?case using Cons by (simp add: gem_encode_parts_def)
qed (simp add: gem_encode_parts_def)

lemma gem_part_list_back:
  "gem_parts_ok lib 0 ps \<Longrightarrow> gem_decode_parts lib (Some (JArr (gem_encode_parts lib names ps))) = ps"
  by (simp add: gem_decode_parts_def gem_parts_back)

subsection \<open>Responses\<close>

lemma map_of_ext_opt: "map_of (ext_opt k v ext) k' = (if k' = k \<and> v \<noteq> None then v else map_of ext k')"
  by (simp add: ext_opt_def split: option.split)

lemma ext_opt_sorted: "sorted_wrt (<) (map fst ext) \<Longrightarrow> sorted_wrt (<) (map fst (ext_opt k v ext))"
  by (auto simp: ext_opt_def intro: btree_insert_sorted split: option.split)

definition gem_response_keys :: "string list" where
  "gem_response_keys = [''gemini.finishReason'', ''gemini.safetyRatings'', ''gemini.citationMetadata'',
     ''gemini.extraCandidates'', ''gemini.promptFeedback'']"

definition gem_response_ext_ok :: "unified_response \<Rightarrow> bool" where
  "gem_response_ext_ok r \<longleftrightarrow> sorted_wrt (<) (map fst (rs_extensions r))
     \<and> list_all (\<lambda>e. fst e \<in> set gem_response_keys) (rs_extensions r)
     \<and> (case rs_extension r ''gemini.finishReason'' of Some v \<Rightarrow> as_str v \<noteq> None | None \<Rightarrow> True)
     \<and> (case rs_extension r ''gemini.extraCandidates'' of Some v \<Rightarrow> as_array v \<notin> {None, Some []} | None \<Rightarrow> True)"

definition gem_usage_ok :: "usage \<Rightarrow> bool" where
  "gem_usage_ok u \<longleftrightarrow> us_cache_write_tokens u = 0 \<and> us_reasoning_tokens u \<le> us_output_tokens u
     \<and> list_all (\<lambda>n. n < 2 ^ 64) [us_input_tokens u, us_output_tokens u, us_cached_input_tokens u]"

text \<open>The reason it stopped for is the one Gemini gave, and a blocked prompt is no answer.\<close>

definition gem_stop_ok :: "unified_response \<Rightarrow> bool" where
  "gem_stop_ok r \<longleftrightarrow> rs_stop_sequence r = None
     \<and> rs_stop_reason r = map_option (gem_turn_stop (list_ex is_tool_use (rs_content r)))
          (Option.bind (rs_extension r ''gemini.finishReason'') as_str)
     \<and> (rs_stop_reason r = None \<longrightarrow> Option.bind (Option.bind (rs_extension r ''gemini.promptFeedback'') as_object)
          (\<lambda>f. gem_field f ''blockReason'' ''block_reason'') = None)"

definition gem_response_ok :: "codec_lib \<Rightarrow> unified_response \<Rightarrow> bool" where
  "gem_response_ok lib r \<longleftrightarrow> rs_id r \<noteq> [] \<and> gem_parts_ok lib 0 (rs_content r)
     \<and> gem_usage_ok (rs_usage r) \<and> gem_response_ext_ok r \<and> gem_stop_ok r"

lemma gem_usage_back:
  assumes "gem_usage_ok u"
  shows "gem_parse_usage (Some (gem_encode_usage u)) = u"
proof -
  have "us_output_tokens u - us_reasoning_tokens u < 2 ^ 64" "us_reasoning_tokens u < 2 ^ 64"
    using assms by (auto simp: gem_usage_ok_def)
  then show ?thesis using assms
    by (cases u) (simp add: gem_usage_ok_def gem_parse_usage_def gem_encode_usage_def gem_field_def Let_def)
qed

lemma gem_field_alone: "map_of obj snake = None \<Longrightarrow> gem_field obj camel snake = map_of obj camel"
  by (cases "map_of obj camel") (simp_all add: gem_field_def)

lemma gem_first_candidate: "first_candidate (gem_response_body lib r) = Some (gem_candidate lib r)"
  by (simp add: first_candidate_def gem_response_body_def)

lemma gem_finish_back:
  assumes "gem_stop_ok r"
  shows "gem_finish (Some (gem_candidate lib r)) = Option.bind (rs_extension r ''gemini.finishReason'') as_str"
proof (cases "Option.bind (rs_extension r ''gemini.finishReason'') as_str")
  case None
  then have "rs_stop_reason r = None" using assms by (simp add: gem_stop_ok_def)
  then show ?thesis using None
    by (cases "rs_extension r ''gemini.safetyRatings''"; cases "rs_extension r ''gemini.citationMetadata''")
      (simp_all add: gem_finish_def gem_candidate_def gem_field_def Let_def)
qed (simp add: gem_finish_def gem_candidate_def gem_field_def Let_def)

lemma gem_candidate_fields:
  "gem_field (gem_candidate lib r) ''safetyRatings'' ''safety_ratings'' = rs_extension r ''gemini.safetyRatings''"
  "gem_field (gem_candidate lib r) ''citationMetadata'' ''citation_metadata'' = rs_extension r ''gemini.citationMetadata''"
  by (cases "rs_extension r ''gemini.safetyRatings''"; cases "rs_extension r ''gemini.citationMetadata''";
      simp add: gem_candidate_def gem_field_alone Let_def)+

lemma gem_response_ext_back:
  assumes "gem_response_ext_ok r" and "gem_stop_ok r"
  shows "gem_response_ext (gem_response_body lib r) = rs_extensions r"
proof (rule sorted_maps_eq)
  show sorted: "sorted_wrt (<) (map fst (rs_extensions r))" using assms(1) by (simp add: gem_response_ext_ok_def)
  show "sorted_wrt (<) (map fst (gem_response_ext (gem_response_body lib r)))"
    unfolding gem_response_ext_def Let_def by (intro ext_opt_sorted) simp
  have finish: "map_option JStr (gem_finish (Some (gem_candidate lib r))) = rs_extension r ''gemini.finishReason''"
    unfolding gem_finish_back[OF assms(2)] using assms(1)
    by (cases "rs_extension r ''gemini.finishReason''") (auto simp: gem_response_ext_ok_def split: option.splits elim: as_str.elims)
  have extra: "(case Option.bind (map_of (gem_response_body lib r) ''candidates'') as_array of
      Some (c # cs) \<Rightarrow> if cs = [] then None else Some (JArr cs) | _ \<Rightarrow> None) = rs_extension r ''gemini.extraCandidates''"
    using assms(1) by (cases "rs_extension r ''gemini.extraCandidates''")
      (auto simp: gem_response_ext_ok_def gem_response_body_def split: option.splits elim: as_array.elims)
  have feedback: "gem_field (gem_response_body lib r) ''promptFeedback'' ''prompt_feedback'' = rs_extension r ''gemini.promptFeedback''"
    by (cases "rs_extension r ''gemini.promptFeedback''") (simp_all add: gem_response_body_def gem_field_alone)
  have none: "map_of (rs_extensions r) k = None" if "k \<notin> set gem_response_keys" for k
    using assms(1) that by (auto simp: gem_response_ext_ok_def list_all_iff map_of_eq_None_iff)
  show "map_of (gem_response_ext (gem_response_body lib r)) = map_of (rs_extensions r)"
  proof
    fix k
    show "map_of (gem_response_ext (gem_response_body lib r)) k = map_of (rs_extensions r) k"
      using none[of k]
      unfolding gem_response_ext_def Let_def gem_first_candidate bind.simps finish extra feedback gem_candidate_fields
        map_of_ext_opt rs_extension_def gem_response_keys_def
      by (simp split: if_split) metis
  qed
qed

text \<open>\<open>C21\<close>. An answer in Gemini form loses nothing on its way to a Gemini client and back but the time
  of its creation: every part with its signature, its media and the identifier of its call,
  the reason it stopped for down to the upstream's own word, the counts with the thoughts
  told apart, and the ratings, citations and further candidates.\<close>

theorem gem_response_roundtrip:
  assumes "gem_response_ok lib r"
  shows "rbind (gem_encode_response lib r) (gem_decode_response lib uuid now) = Inr (r\<lparr>rs_created := now\<rparr>)"
proof -
  define body where "body = gem_response_body lib r"
  have ok: "rs_id r \<noteq> []" "gem_parts_ok lib 0 (rs_content r)" "gem_usage_ok (rs_usage r)" "gem_response_ext_ok r" "gem_stop_ok r"
    using assms by (simp_all add: gem_response_ok_def)
  have candidate: "first_candidate body = Some (gem_candidate lib r)" by (simp add: body_def gem_first_candidate)
  have noerr: "gem_error_body lib (JObj body) = None"
    by (simp add: gem_error_body_def body_def gem_response_body_def)
  have "gem_content_parts (Some (gem_candidate lib r)) = Some (JArr (gem_encode_parts lib [] (rs_content r)))"
    by (simp add: gem_content_parts_def gem_candidate_def Let_def)
  then have content: "gem_decode_parts lib (gem_content_parts (Some (gem_candidate lib r))) = rs_content r"
    using gem_part_list_back[OF ok(2)] by simp
  have ident: "gem_response_id uuid body = rs_id r"
    using ok(1) by (simp add: gem_response_id_def body_def gem_response_body_def gem_field_def non_empty_str_def)
  have model: "str_or [] (non_empty_str (gem_field body ''modelVersion'' ''model_version'')) = rs_model r"
    by (cases "rs_model r = []"; simp add: body_def gem_response_body_def gem_field_alone non_empty_str_def)
  have usage: "gem_parse_usage (gem_field body ''usageMetadata'' ''usage_metadata'') = rs_usage r"
    using gem_usage_back[OF ok(3)] by (simp add: body_def gem_response_body_def gem_field_def)
  have blocked: "gem_prompt_blocked body \<longleftrightarrow> Option.bind (Option.bind (rs_extension r ''gemini.promptFeedback'') as_object)
      (\<lambda>f. gem_field f ''blockReason'' ''block_reason'') \<noteq> None"
    by (cases "rs_extension r ''gemini.promptFeedback''")
      (simp_all add: gem_prompt_blocked_def gem_object_def body_def gem_response_body_def gem_field_alone)
  have ext: "gem_response_ext body = rs_extensions r" unfolding body_def by (rule gem_response_ext_back[OF ok(4,5)])
  define stop where "stop = map_option (gem_turn_stop (list_ex is_tool_use (rs_content r)))
      (Option.bind (rs_extension r ''gemini.finishReason'') as_str)"
  have reason: "rs_stop_reason r = stop" "stop = None \<longrightarrow> \<not> gem_prompt_blocked body" "rs_stop_sequence r = None"
    using ok(5) unfolding gem_stop_ok_def blocked stop_def by simp_all
  have "(if stop = None \<and> gem_prompt_blocked body then Some ContentFilter else stop) = stop"
    using reason(2) by (cases stop) simp_all
  then have "gem_decode_response lib uuid now (JObj body) = Inr ((response_new (rs_id r) (rs_model r) now)
      \<lparr>rs_content := rs_content r, rs_stop_reason := stop, rs_usage := rs_usage r, rs_extensions := rs_extensions r\<rparr>)"
    unfolding gem_decode_response_def as_object.simps option.case noerr Let_def candidate content ident model
        usage ext gem_finish_back[OF ok(5)] stop_def[symmetric] by simp
  then show ?thesis using reason(1,3)
    by (simp add: gem_encode_response_def body_def[symmetric] response_new_def)
qed

definition gem_answer :: unified_response where
  "gem_answer = (response_new ''r1'' ''gemini'' 0)
     \<lparr>rs_content := [ThinkingPart ''hm'' (Some ''sig''), TextPart ''one'', ToolUsePart ''scan#0'' ''scan'' (JObj []) (Some ''s2''),
         ToolUsePart ''c7'' ''scan'' (JObj []) None],
       rs_stop_reason := Some ToolUseStop,
       rs_usage := usage_default\<lparr>us_input_tokens := 12, us_output_tokens := 7, us_reasoning_tokens := 3\<rparr>,
       rs_extensions := [(''gemini.finishReason'', JStr ''STOP'')]\<rparr>"

theorem gem_response_roundtrip_witness:
  "rbind (gem_encode_response plain_lib gem_answer) (gem_decode_response plain_lib ''u'' 5) = Inr (gem_answer\<lparr>rs_created := 5\<rparr>)"
proof (rule gem_response_roundtrip)
  have parts: "gem_parts_ok plain_lib 0 (rs_content gem_answer)" by code_simp
  have stop: "gem_stop_ok gem_answer" by code_simp
  show "gem_response_ok plain_lib gem_answer"
    using parts stop by (simp add: gem_response_ok_def gem_answer_def response_new_def gem_usage_ok_def usage_default_def
        gem_response_ext_ok_def rs_extension_def gem_response_keys_def)
qed

subsection \<open>What is lost or doubled\<close>

text \<open>Two calls of one function in different turns get one identifier, which ties both results to both.\<close>

lemma gem_ids_repeat:
  "let call = JObj [(''role'', JStr ''model''), (''parts'', JArr [JObj [(''functionCall'', JObj [(''name'', JStr ''scan'')])]])]
   in map_ok (\<lambda>v. case gem_decode_content plain_lib v of Inr m \<Rightarrow> Inr (gem_calls_of (msg_content m)) | Inl e \<Rightarrow> Inl e)
        [call, call] = Inr [[(''scan#0'', ''scan'')], [(''scan#0'', ''scan'')]]"
  by code_simp

text \<open>A request for dynamic thinking without \<open>includeThoughts\<close> goes on without it, and a field the
  codec does not know is kept under a name nobody puts back.\<close>

lemma gem_dynamic_thinking_lost:
  "(case gem_decode_request plain_lib (JObj [(''contents'', JArr []), (''labels'', JNull), (''generationConfig'',
        JObj [(''thinkingConfig'', JObj [(''thinkingBudget'', JNum (JInt (- 1)))])])]) of
      Inr ir \<Rightarrow> Some (map fst (ur_extensions ir), gem_request_body plain_lib ir) | Inl e \<Rightarrow> None)
   = Some ([''gemini.dynamicThinking'', ''gemini.labels''], [(''contents'', JArr [])])"
  by code_simp

end
