(* ===== verification/Gemini_Stream.thy ===== *)
theory Gemini_Stream
  imports Gemini_Roundtrip Stream_Agg Sse
begin

section \<open>Google Gemini: streams\<close>

text \<open>
  The stream half of \<open>crates/refract-protocol/src/codec/gemini.rs\<close>. Every frame is a whole response
  with the parts that are new; there are no block events and no sentinel. The decoder makes
  the blocks up from the kinds of the parts, the encoder keeps the pieces of a call until
  its block ends and the usage until the last frame. Block indices stay far below the 32 bits
  of the code; \<open>uuid\<close> is the identifier drawn when the upstream names none.
\<close>

subsection \<open>The decoder\<close>

record gem_decoder =
  gd_started :: bool
  gd_index :: nat
  gd_open :: "part_kind option"
  gd_stopped :: bool
  gd_done :: bool
  gd_saw_tool_call :: bool
  gd_tool_index :: nat

definition gem_decoder_new :: gem_decoder where
  "gem_decoder_new = \<lparr>gd_started = False, gd_index = 0, gd_open = None, gd_stopped = False, gd_done = False,
     gd_saw_tool_call = False, gd_tool_index = 0\<rparr>"

definition gem_switch :: "part_kind \<Rightarrow> gem_decoder \<Rightarrow> stream_event list \<times> gem_decoder" where
  "gem_switch kind d = (case gd_open d of
     Some current \<Rightarrow> if current = kind \<and> kind \<noteq> KToolUse then ([], d)
       else ([ContentStop (gd_index d), ContentStart (Suc (gd_index d)) kind],
             d\<lparr>gd_index := Suc (gd_index d), gd_open := Some kind\<rparr>)
   | None \<Rightarrow> ([ContentStart (gd_index d) kind], d\<lparr>gd_open := Some kind\<rparr>))"

fun gem_part_events :: "codec_lib \<Rightarrow> content_part \<Rightarrow> gem_decoder \<Rightarrow> stream_event list \<times> gem_decoder" where
  "gem_part_events lib (TextPart t) d = (let (out, d1) = gem_switch KText d in (out @ [TextDelta (gd_index d1) t], d1))"
| "gem_part_events lib (ThinkingPart t sig) d = (let (out, d1) = gem_switch KThinking d in
     (out @ [ThinkingDelta (gd_index d1) t]
      @ (case sig of Some s \<Rightarrow> [ThinkingSignature (gd_index d1) s] | None \<Rightarrow> []), d1))"
| "gem_part_events lib (ToolUsePart i name input sig) d = (
     let (out, d1) = gem_switch KToolUse (d\<lparr>gd_tool_index := Suc (gd_tool_index d)\<rparr>); k = gd_index d1
     in (out @ [ToolCallStart k i name sig, ToolCallArgsDelta k (cl_print lib input), ContentStop k],
         d1\<lparr>gd_open := None, gd_index := Suc k, gd_saw_tool_call := True\<rparr>))"
| "gem_part_events lib _ d = ([], d)"

fun gem_stream_parts :: "codec_lib \<Rightarrow> json list \<Rightarrow> gem_decoder \<Rightarrow> stream_event list \<times> gem_decoder" where
  "gem_stream_parts lib [] d = ([], d)"
| "gem_stream_parts lib (p # ps) d = (
     let (out1, d1) = (case gem_decode_part lib p (gd_tool_index d) of
            Some x \<Rightarrow> gem_part_events lib x d | None \<Rightarrow> ([], d));
         (out2, d2) = gem_stream_parts lib ps d1
     in (out1 @ out2, d2))"

definition gem_stream_stop :: "string option \<Rightarrow> gem_decoder \<Rightarrow> stream_event list \<times> gem_decoder" where
  "gem_stream_stop finish d = (case finish of
     None \<Rightarrow> ([], d)
   | Some f \<Rightarrow> if gd_stopped d then ([], d)
       else ((if gd_open d \<noteq> None then [ContentStop (gd_index d)] else [])
               @ [StopEvent (gem_turn_stop (gd_saw_tool_call d) f) None],
             d\<lparr>gd_stopped := True, gd_open := None\<rparr>))"

definition gem_new_parts :: "jmap option \<Rightarrow> json list" where
  "gem_new_parts candidate = (case Option.bind (gem_content_parts candidate) as_array of Some ps \<Rightarrow> ps | None \<Rightarrow> [])"

definition gem_decode_chunk :: "codec_lib \<Rightarrow> string \<Rightarrow> jmap \<Rightarrow> gem_decoder \<Rightarrow> stream_event list \<times> gem_decoder" where
  "gem_decode_chunk lib uuid obj d = (
     let candidate = first_candidate obj;
         start = (if gd_started d then [] else [Start (gem_response_id uuid obj)
            (str_or [] (non_empty_str (gem_field obj ''modelVersion'' ''model_version''))) None]);
         (out1, d1) = gem_stream_parts lib (gem_new_parts candidate) (d\<lparr>gd_started := True\<rparr>);
         used = (case gem_field obj ''usageMetadata'' ''usage_metadata'' of
            Some u \<Rightarrow> [UsageEvent (gem_parse_usage (Some u))] | None \<Rightarrow> []);
         (out2, d2) = gem_stream_stop (gem_finish candidate) d1
     in (start @ out1 @ used @ out2, d2))"

definition gem_decode_value :: "codec_lib \<Rightarrow> string \<Rightarrow> json \<Rightarrow> gem_decoder \<Rightarrow> stream_event list \<times> gem_decoder" where
  "gem_decode_value lib uuid v d = (case gem_error_body lib v of
     Some err \<Rightarrow> ([ErrorEvent (ge_message err) (openai_type (ge_kind err))], d)
   | None \<Rightarrow> (case as_object v of None \<Rightarrow> ([], d) | Some obj \<Rightarrow> gem_decode_chunk lib uuid obj d))"

definition gem_decode_frame :: "codec_lib \<Rightarrow> string \<Rightarrow> sse_frame \<Rightarrow> gem_decoder \<Rightarrow> stream_event list \<times> gem_decoder" where
  "gem_decode_frame lib uuid frame d = (let data = trim (sf_data frame) in
     if data = [] \<or> data = ''[DONE]'' then ([], d)
     else case cl_parse lib data of None \<Rightarrow> ([], d) | Some v \<Rightarrow> gem_decode_value lib uuid v d)"

definition gem_decode_finish :: "gem_decoder \<Rightarrow> stream_event list \<times> gem_decoder" where
  "gem_decode_finish d = (
     (if gd_open d \<noteq> None then [ContentStop (gd_index d)] else []) @ (if gd_done d then [] else [Done]),
     d\<lparr>gd_open := None, gd_done := True\<rparr>)"

subsection \<open>The encoder\<close>

record tool_call_buf =
  tb_id :: string
  tb_name :: string
  tb_args :: string
  tb_signature :: "string option"

record gem_encoder =
  gc_pending_usage :: "usage option"
  gc_finished :: bool
  gc_tool_calls :: "tool_call_buf option list"

definition gem_encoder_new :: gem_encoder where
  "gem_encoder_new = \<lparr>gc_pending_usage = None, gc_finished = False, gc_tool_calls = []\<rparr>"

text \<open>The payloads the frames carry.\<close>

definition gem_frame :: "codec_lib \<Rightarrow> json \<Rightarrow> sse_frame" where
  "gem_frame lib v = data_frame (cl_print lib v)"

definition gem_chunk :: "json list \<Rightarrow> json" where
  "gem_chunk parts = JObj [(''candidates'', JArr [JObj [
     (''content'', JObj [(''parts'', JArr parts), (''role'', JStr ''model'')]), (''index'', jnat 0)]])]"

definition gem_part_frame :: "json \<Rightarrow> json" where
  "gem_part_frame part = gem_chunk [part]"

definition gem_merge_usage :: "usage \<Rightarrow> gem_encoder \<Rightarrow> gem_encoder" where
  "gem_merge_usage u e = e\<lparr>gc_pending_usage := Some (merge_max
     (case gc_pending_usage e of Some v \<Rightarrow> v | None \<Rightarrow> usage_default) u)\<rparr>"

text \<open>The slot of a block; the list grows up to it.\<close>

definition gem_slots :: "nat \<Rightarrow> tool_call_buf option list \<Rightarrow> tool_call_buf option list" where
  "gem_slots i slots = slots @ replicate (Suc i - length slots) None"

definition gem_put_slot :: "nat \<Rightarrow> tool_call_buf option \<Rightarrow> gem_encoder \<Rightarrow> gem_encoder" where
  "gem_put_slot i b e = e\<lparr>gc_tool_calls := (gem_slots i (gc_tool_calls e))[i := b]\<rparr>"

definition gem_slot :: "nat \<Rightarrow> gem_encoder \<Rightarrow> tool_call_buf option" where
  "gem_slot i e = gem_slots i (gc_tool_calls e) ! i"

definition gem_buffered_args :: "codec_lib \<Rightarrow> string \<Rightarrow> json" where
  "gem_buffered_args lib args = (if trim args = [] then JObj []
     else case cl_parse lib args of Some v \<Rightarrow> v | None \<Rightarrow> JObj [])"

definition gem_call_frame :: "codec_lib \<Rightarrow> tool_call_buf \<Rightarrow> json" where
  "gem_call_frame lib b = gem_part_frame (gem_call_json (tb_id b) (tb_name b)
     (gem_buffered_args lib (tb_args b)) (tb_signature b))"

definition gem_flush_tool_call :: "codec_lib \<Rightarrow> nat \<Rightarrow> gem_encoder \<Rightarrow> json list \<times> gem_encoder" where
  "gem_flush_tool_call lib i e = (
     (case gem_slot i e of Some b \<Rightarrow> [gem_call_frame lib b] | None \<Rightarrow> []), gem_put_slot i None e)"

definition gem_stop_frame :: "stop_reason \<Rightarrow> gem_encoder \<Rightarrow> json \<times> gem_encoder" where
  "gem_stop_frame reason e = (JObj ([(''candidates'', JArr [JObj [
       (''content'', JObj [(''parts'', JArr []), (''role'', JStr ''model'')]),
       (''finishReason'', JStr (gem_finish_reason reason)), (''index'', jnat 0)]])]
     @ if_some ''usageMetadata'' (gc_pending_usage e) gem_encode_usage), e\<lparr>gc_pending_usage := None\<rparr>)"

definition gem_new_buf :: "string \<Rightarrow> string \<Rightarrow> string option \<Rightarrow> tool_call_buf" where
  "gem_new_buf i name sig = \<lparr>tb_id = i, tb_name = name, tb_args = [], tb_signature = sig\<rparr>"

fun gem_encode_event :: "codec_lib \<Rightarrow> stream_event \<Rightarrow> gem_encoder \<Rightarrow> json list \<times> gem_encoder" where
  "gem_encode_event lib (TextDelta _ t) e = ([gem_part_frame (JObj [(''text'', JStr t)])], e)"
| "gem_encode_event lib (ThinkingDelta _ t) e =
     ([gem_part_frame (JObj [(''text'', JStr t), (''thought'', JBool True)])], e)"
| "gem_encode_event lib (ThinkingSignature _ s) e =
     ([gem_part_frame (JObj [(''text'', JStr []), (''thought'', JBool True), (''thoughtSignature'', JStr s)])], e)"
| "gem_encode_event lib (RefusalDelta _ t) e = ([gem_part_frame (JObj [(''text'', JStr t)])], e)"
| "gem_encode_event lib (ToolCallStart i c name sig) e = ([], gem_put_slot i (Some (gem_new_buf c name sig)) e)"
| "gem_encode_event lib (ToolCallArgsDelta i fragment) e = (
     let b = (case gem_slot i e of Some b \<Rightarrow> b | None \<Rightarrow> gem_new_buf [] [] None)
     in ([], gem_put_slot i (Some (b\<lparr>tb_args := tb_args b @ fragment\<rparr>)) e))"
| "gem_encode_event lib (ContentStop i) e = gem_flush_tool_call lib i e"
| "gem_encode_event lib (UsageEvent u) e = ([], gem_merge_usage u e)"
| "gem_encode_event lib (StopEvent reason _) e = (
     let (frame, e1) = gem_stop_frame reason (e\<lparr>gc_finished := True\<rparr>) in ([frame], e1))"
| "gem_encode_event lib (ErrorEvent message kind) e = ([JObj [(''error'', JObj [(''code'', jnat 500),
     (''message'', JStr message), (''status'', JStr kind)])]], e)"
| "gem_encode_event lib (Start _ _ u) e = ([], case u of Some v \<Rightarrow> gem_merge_usage v e | None \<Rightarrow> e)"
| "gem_encode_event lib Done e = ([], e)"
| "gem_encode_event lib (ContentStart _ _) e = ([], e)"
| "gem_encode_event lib Ping e = ([], e)"

fun gem_flush_all :: "codec_lib \<Rightarrow> nat list \<Rightarrow> gem_encoder \<Rightarrow> json list \<times> gem_encoder" where
  "gem_flush_all lib [] e = ([], e)"
| "gem_flush_all lib (i # is) e = (
     let (out1, e1) = gem_flush_tool_call lib i e; (out2, e2) = gem_flush_all lib is e1 in (out1 @ out2, e2))"

definition gem_encode_finish :: "codec_lib \<Rightarrow> gem_encoder \<Rightarrow> json list \<times> gem_encoder" where
  "gem_encode_finish lib e = (
     let (out, e1) = gem_flush_all lib [0..<length (gc_tool_calls e)] e
     in if \<not> gc_finished e1 then let (frame, e2) = gem_stop_frame Stop (e1\<lparr>gc_finished := True\<rparr>) in (out @ [frame], e2)
        else case gc_pending_usage e1 of
          Some u \<Rightarrow> (out @ [JObj [(''candidates'', JArr [JObj [
               (''content'', JObj [(''parts'', JArr []), (''role'', JStr ''model'')]), (''index'', jnat 0)]]),
             (''usageMetadata'', gem_encode_usage u)]], e1\<lparr>gc_pending_usage := None\<rparr>)
        | None \<Rightarrow> (out, e1))"

fun gem_decode_all :: "codec_lib \<Rightarrow> string \<Rightarrow> sse_frame list \<Rightarrow> gem_decoder \<Rightarrow> stream_event list \<times> gem_decoder" where
  "gem_decode_all lib uuid [] d = ([], d)"
| "gem_decode_all lib uuid (f # fs) d = (
     let (out1, d1) = gem_decode_frame lib uuid f d; (out2, d2) = gem_decode_all lib uuid fs d1 in (out1 @ out2, d2))"

fun gem_encode_all :: "codec_lib \<Rightarrow> stream_event list \<Rightarrow> gem_encoder \<Rightarrow> json list \<times> gem_encoder" where
  "gem_encode_all lib [] e = ([], e)"
| "gem_encode_all lib (v # vs) e = (
     let (out1, e1) = gem_encode_event lib v e; (out2, e2) = gem_encode_all lib vs e1 in (out1 @ out2, e2))"

definition gem_stream_out :: "codec_lib \<Rightarrow> stream_event list \<Rightarrow> json list" where
  "gem_stream_out lib vs = (let (out, e) = gem_encode_all lib vs gem_encoder_new in out @ fst (gem_encode_finish lib e))"

subsection \<open>What the client hears\<close>

datatype gem_word = GText string | GThought string | GSignature string

definition gem_word :: "(string \<Rightarrow> gem_word) \<Rightarrow> string \<Rightarrow> gem_word list" where
  "gem_word f t = (if t = [] then [] else [f t])"

fun gem_words :: "stream_event \<Rightarrow> gem_word list" where
  "gem_words (TextDelta _ t) = gem_word GText t"
| "gem_words (RefusalDelta _ t) = gem_word GText t"
| "gem_words (ThinkingDelta _ t) = gem_word GThought t"
| "gem_words (ThinkingSignature _ s) = gem_word GSignature s"
| "gem_words _ = []"

definition gem_all_words :: "stream_event list \<Rightarrow> gem_word list" where
  "gem_all_words vs = concat (map gem_words vs)"

lemma gem_all_words_simps [simp]:
  "gem_all_words [] = []" "gem_all_words (v # vs) = gem_words v @ gem_all_words vs"
  "gem_all_words (vs @ ws) = gem_all_words vs @ gem_all_words ws"
  by (simp_all add: gem_all_words_def)

definition gem_reads_back :: "codec_lib \<Rightarrow> json list \<Rightarrow> bool" where
  "gem_reads_back lib out \<longleftrightarrow> list_all (\<lambda>v. let t = trim (cl_print lib v) in
     cl_parse lib t = Some v \<and> t \<noteq> [] \<and> t \<noteq> ''[DONE]'') out"

lemma gem_reads_back_simps [simp]:
  "gem_reads_back lib []" "gem_reads_back lib (xs @ ys) \<longleftrightarrow> gem_reads_back lib xs \<and> gem_reads_back lib ys"
  by (simp_all add: gem_reads_back_def)

lemma gem_words_switch [simp]: "gem_all_words (fst (gem_switch k d)) = []"
  by (simp add: gem_switch_def split: option.split)

lemma gem_words_stop [simp]: "gem_all_words (fst (gem_stream_stop f d)) = []"
  by (simp add: gem_stream_stop_def split: option.split)

definition gem_wire_words :: "codec_lib \<Rightarrow> json \<Rightarrow> gem_word list" where
  "gem_wire_words lib v = gem_all_words (fst (gem_decode_value lib [] v gem_decoder_new))"

text \<open>A chunk says what its parts say, whatever the decoder has seen before.\<close>

fun gem_part_words :: "content_part \<Rightarrow> gem_word list" where
  "gem_part_words (TextPart t) = gem_word GText t"
| "gem_part_words (ThinkingPart t sig) = gem_word GThought t @ gem_word GSignature (case sig of Some s \<Rightarrow> s | None \<Rightarrow> [])"
| "gem_part_words _ = []"

lemma gem_part_events_words: "gem_all_words (fst (gem_part_events lib p d)) = gem_part_words p"
  by (cases p) (auto simp: case_prod_beta Let_def gem_word_def split: option.split)

lemma gem_decode_part_words:
  "gem_part_words (case gem_decode_part lib p k of Some x \<Rightarrow> x | None \<Rightarrow> TextPart [])
   = gem_part_words (case gem_decode_part lib p 0 of Some x \<Rightarrow> x | None \<Rightarrow> TextPart [])"
  by (cases p) (auto simp: gem_decode_part_def gem_decode_call_def gem_decode_result_def Let_def split: option.split)

lemma gem_stream_parts_words:
  "gem_all_words (fst (gem_stream_parts lib ps d)) =
   concat (map (\<lambda>p. gem_part_words (case gem_decode_part lib p 0 of Some x \<Rightarrow> x | None \<Rightarrow> TextPart [])) ps)"
proof (induction ps arbitrary: d)
  case (Cons p ps)
  have "gem_all_words (fst (case gem_decode_part lib p (gd_tool_index d) of Some x \<Rightarrow> gem_part_events lib x d | None \<Rightarrow> ([], d)))
      = gem_part_words (case gem_decode_part lib p (gd_tool_index d) of Some x \<Rightarrow> x | None \<Rightarrow> TextPart [])"
    by (simp add: gem_part_events_words gem_word_def split: option.split)
  then show ?case using Cons by (simp add: case_prod_beta Let_def gem_decode_part_words[of lib p "gd_tool_index d"])
qed simp

lemma gem_value_words: "gem_all_words (fst (gem_decode_value lib uuid v d)) = gem_wire_words lib v"
  unfolding gem_wire_words_def gem_decode_value_def gem_decode_chunk_def
  by (simp add: gem_stream_parts_words case_prod_beta Let_def split: option.split)

lemma gem_chunk_wire:
  assumes "gem_error_body lib (JObj obj) = None"
  shows "gem_wire_words lib (JObj obj) = concat (map (\<lambda>p. gem_part_words
    (case gem_decode_part lib p 0 of Some x \<Rightarrow> x | None \<Rightarrow> TextPart [])) (gem_new_parts (first_candidate obj)))"
  unfolding gem_wire_words_def gem_decode_value_def assms gem_decode_chunk_def
  by (simp add: gem_stream_parts_words case_prod_beta Let_def split: option.split)

definition gem_wire :: "codec_lib \<Rightarrow> json list \<Rightarrow> gem_word list" where
  "gem_wire lib out = concat (map (gem_wire_words lib) out)"

lemma gem_wire_simps [simp]:
  "gem_wire lib [] = []" "gem_wire lib (v # vs) = gem_wire_words lib v @ gem_wire lib vs"
  "gem_wire lib (vs @ ws) = gem_wire lib vs @ gem_wire lib ws"
  by (simp_all add: gem_wire_def)

lemma gem_decode_all_words:
  "gem_reads_back lib out \<Longrightarrow>
   gem_all_words (fst (gem_decode_all lib uuid (map (gem_frame lib) out) d)) = gem_wire lib out"
proof (induction out arbitrary: d)
  case (Cons v out)
  have "gem_decode_frame lib uuid (gem_frame lib v) d = gem_decode_value lib uuid v d"
    using Cons.prems by (simp add: gem_reads_back_def gem_decode_frame_def gem_frame_def data_frame_def Let_def)
  moreover have "gem_reads_back lib out" using Cons.prems by (simp add: gem_reads_back_def)
  ultimately show ?case using Cons.IH by (simp add: case_prod_beta Let_def gem_value_words)
qed simp

lemma gem_part_frame_words: "gem_wire_words lib (gem_part_frame p)
  = gem_part_words (case gem_decode_part lib p 0 of Some x \<Rightarrow> x | None \<Rightarrow> TextPart [])"
proof -
  obtain obj where "gem_part_frame p = JObj obj" "gem_error_body lib (JObj obj) = None" "gem_new_parts (first_candidate obj) = [p]"
    by (simp add: gem_part_frame_def gem_chunk_def gem_error_body_def first_candidate_def gem_new_parts_def gem_content_parts_def)
  then show ?thesis by (simp add: gem_chunk_wire)
qed

lemma gem_call_frame_words [simp]: "gem_wire_words lib (gem_call_frame lib b) = []"
  by (simp add: gem_call_frame_def gem_part_frame_words gem_call_json_def gem_decode_part_def gem_decode_call_def
      gem_object_def gem_field_def Let_def)

lemma gem_stop_frame_words [simp]: "gem_wire_words lib (fst (gem_stop_frame reason e)) = []"
  by (simp add: gem_stop_frame_def gem_chunk_wire gem_error_body_def first_candidate_def gem_new_parts_def gem_content_parts_def)

lemma gem_usage_frame_words [simp]:
  "gem_wire_words lib (JObj [(''candidates'', JArr [JObj [(''content'', JObj [(''parts'', JArr []), (''role'', JStr ''model'')]),
     (''index'', jnat 0)]]), (''usageMetadata'', u)]) = []"
  by (simp add: gem_chunk_wire gem_error_body_def first_candidate_def gem_new_parts_def gem_content_parts_def)

lemma gem_error_frame_words [simp]: "gem_wire_words lib (JObj [(''error'', JObj err)]) = []"
  by (simp add: gem_wire_words_def gem_decode_value_def gem_error_body_def Let_def)

lemma gem_flush_words [simp]: "gem_wire lib (fst (gem_flush_tool_call lib i e)) = []"
  by (cases "gem_slot i e") (simp_all add: gem_flush_tool_call_def)

lemma gem_flush_all_words [simp]: "gem_wire lib (fst (gem_flush_all lib is e)) = []"
  by (induction "is" arbitrary: e) (simp_all add: case_prod_beta Let_def)

lemma gem_text_part_words:
  "gem_wire_words lib (gem_part_frame (JObj [(''text'', JStr t)])) = gem_word GText t"
  "gem_wire_words lib (gem_part_frame (JObj [(''text'', JStr t), (''thought'', JBool True)])) = gem_word GThought t"
  "gem_wire_words lib (gem_part_frame (JObj [(''text'', JStr []), (''thought'', JBool True), (''thoughtSignature'', JStr t)]))
     = gem_word GSignature t"
  by (simp_all add: gem_part_frame_words gem_decode_part_def gem_field_def gem_word_def non_empty_str_def)

lemma gem_event_words: "gem_wire lib (fst (gem_encode_event lib v e)) = gem_words v"
  by (cases v) (simp_all add: gem_text_part_words case_prod_beta Let_def)

lemma gem_encode_all_words: "gem_wire lib (fst (gem_encode_all lib vs e)) = gem_all_words vs"
  by (induction vs arbitrary: e) (simp_all add: case_prod_beta Let_def gem_event_words)

lemma gem_finish_words: "gem_wire lib (fst (gem_encode_finish lib e)) = []"
  by (simp add: gem_encode_finish_def case_prod_beta Let_def split: option.split)

text \<open>\<open>C22\<close>. A Gemini client hears what the model said, in order and with nothing added: text, refusals as
  text, thoughts and the signatures that prove them, whatever other events lie between them.\<close>

theorem gem_stream_says_the_same:
  assumes "gem_reads_back lib (gem_stream_out lib vs)"
  shows "gem_all_words (fst (gem_decode_all lib uuid (map (gem_frame lib) (gem_stream_out lib vs)) d)) = gem_all_words vs"
  unfolding gem_decode_all_words[OF assms]
  by (simp add: gem_stream_out_def case_prod_beta Let_def gem_encode_all_words gem_finish_words)

definition gem_events :: "stream_event list" where
  "gem_events = [ThinkingDelta 0 ''hm'', ThinkingSignature 0 ''sig'', ContentStart 1 KText, TextDelta 1 ''hi'', Done]"

theorem gem_stream_says_the_same_witness:
  "let out = gem_stream_out (table_lib []) gem_events; lib = table_lib out in
     gem_stream_out lib gem_events = out \<and>
     gem_all_words (fst (gem_decode_all lib ''u'' (map (gem_frame lib) out) gem_decoder_new))
       = [GThought ''hm'', GSignature ''sig'', GText ''hi'']"
proof -
  define out where "out = gem_stream_out (table_lib []) gem_events"
  have same: "gem_stream_out (table_lib js) gem_events = out" for js
    unfolding out_def by (simp add: gem_stream_out_def gem_events_def gem_encode_finish_def gem_encoder_new_def)
  have "gem_reads_back (table_lib out) out"
    by (auto simp: gem_reads_back_def list_all_iff Let_def table_lib_back)
  then have "gem_all_words (fst (gem_decode_all (table_lib out) ''u'' (map (gem_frame (table_lib out)) out) gem_decoder_new))
      = gem_all_words gem_events"
    using gem_stream_says_the_same[of "table_lib out" gem_events] by (simp add: same)
  then show ?thesis unfolding same Let_def by (simp add: gem_events_def gem_word_def)
qed

subsection \<open>Calls are sent whole\<close>

lemma gem_slots_nth: "j < length (gem_slots i slots) \<Longrightarrow>
   gem_slots i slots ! j = (if j < length slots then slots ! j else None)"
  by (auto simp: gem_slots_def nth_append)

lemma gem_slot_alt: "gem_slot i e = (if i < length (gc_tool_calls e) then gc_tool_calls e ! i else None)"
  unfolding gem_slot_def by (rule gem_slots_nth) (simp add: gem_slots_def)

lemma gem_slot_put [simp]: "gem_slot i (gem_put_slot j b e) = (if i = j then b else gem_slot i e)"
  by (auto simp: gem_slot_alt gem_put_slot_def gem_slots_def nth_list_update nth_append)

lemma gem_slot_updates [simp]:
  "gem_slot i (e\<lparr>gc_pending_usage := u\<rparr>) = gem_slot i e" "gem_slot i (e\<lparr>gc_finished := b\<rparr>) = gem_slot i e"
  by (simp_all add: gem_slot_def)

text \<open>Events that leave the buffer of block \<open>i\<close> be or add to it.\<close>

fun gem_keeps_call :: "nat \<Rightarrow> stream_event \<Rightarrow> bool" where
  "gem_keeps_call i (ToolCallStart j _ _ _) = (j \<noteq> i)"
| "gem_keeps_call i (ContentStop j) = (j \<noteq> i)"
| "gem_keeps_call i _ = True"

fun gem_fragments :: "nat \<Rightarrow> stream_event list \<Rightarrow> string" where
  "gem_fragments i [] = []"
| "gem_fragments i (v # vs) = (case v of ToolCallArgsDelta j f \<Rightarrow> if j = i then f else [] | _ \<Rightarrow> []) @ gem_fragments i vs"

lemma gem_slot_kept:
  assumes "gem_keeps_call i v" and "gem_slot i e = Some b"
  shows "gem_slot i (snd (gem_encode_event lib v e)) = Some (b\<lparr>tb_args := tb_args b @ gem_fragments i [v]\<rparr>)"
  using assms by (cases v)
    (auto simp: gem_merge_usage_def gem_stop_frame_def gem_flush_tool_call_def Let_def split: option.split)

lemma gem_slots_kept:
  "list_all (gem_keeps_call i) vs \<Longrightarrow> gem_slot i e = Some b \<Longrightarrow>
   gem_slot i (snd (gem_encode_all lib vs e)) = Some (b\<lparr>tb_args := tb_args b @ gem_fragments i vs\<rparr>)"
proof (induction vs arbitrary: e b)
  case (Cons v vs)
  have "gem_slot i (snd (gem_encode_event lib v e)) = Some (b\<lparr>tb_args := tb_args b @ gem_fragments i [v]\<rparr>)"
    using Cons.prems by (intro gem_slot_kept) simp_all
  then show ?case using Cons.IH Cons.prems by (simp add: case_prod_beta Let_def)
qed simp

lemma gem_encode_all_append: "gem_encode_all lib (vs @ ws) e =
   (fst (gem_encode_all lib vs e) @ fst (gem_encode_all lib ws (snd (gem_encode_all lib vs e))),
    snd (gem_encode_all lib ws (snd (gem_encode_all lib vs e))))"
  by (induction vs arbitrary: e) (simp_all add: case_prod_beta Let_def)

lemma gem_flush_all_mem:
  "i \<in> set is \<Longrightarrow> gem_slot i e = Some b \<Longrightarrow> gem_call_frame lib b \<in> set (fst (gem_flush_all lib is e))"
proof (induction "is" arbitrary: e)
  case (Cons j js)
  show ?case
  proof (cases "j = i")
    case True
    then show ?thesis using Cons.prems by (simp add: gem_flush_tool_call_def case_prod_beta Let_def)
  next
    case False
    then show ?thesis using Cons by (simp add: gem_flush_tool_call_def case_prod_beta Let_def)
  qed
qed simp

lemma gem_finish_flushes:
  assumes "gem_slot i e = Some b"
  shows "gem_call_frame lib b \<in> set (fst (gem_encode_finish lib e))"
proof -
  have "i < length (gc_tool_calls e)" using assms by (simp add: gem_slot_alt split: if_splits)
  then have "gem_call_frame lib b \<in> set (fst (gem_flush_all lib [0..<length (gc_tool_calls e)] e))"
    using assms by (intro gem_flush_all_mem) simp_all
  then show ?thesis by (simp add: gem_encode_finish_def case_prod_beta Let_def split: option.split)
qed



subsection \<open>The end of the stream\<close>

definition gem_frame_finish :: "json \<Rightarrow> string option" where
  "gem_frame_finish v = Option.bind (as_object v) (\<lambda>obj. gem_finish (first_candidate obj))"

definition gem_frame_usage :: "json \<Rightarrow> usage option" where
  "gem_frame_usage v = Option.bind (as_object v) (\<lambda>obj. map_option (\<lambda>u. gem_parse_usage (Some u))
     (gem_field obj ''usageMetadata'' ''usage_metadata''))"

fun event_usage :: "stream_event \<Rightarrow> usage option" where
  "event_usage (UsageEvent u) = Some u"
| "event_usage (Start _ _ u) = u"
| "event_usage _ = None"

definition merge_all :: "usage list \<Rightarrow> usage" where
  "merge_all us = foldr merge_max us usage_default"

lemma merge_all_append: "merge_all (us @ vs) = merge_max (merge_all us) (merge_all vs)"
  by (induction us) (simp_all add: merge_all_def merge_max_default merge_max_assoc)

lemma merge_all_simps [simp]: "merge_all [] = usage_default" "merge_all (u # us) = merge_max u (merge_all us)"
  by (simp_all add: merge_all_def)

fun is_stop :: "stream_event \<Rightarrow> bool" where
  "is_stop (StopEvent _ _) = True"
| "is_stop _ = False"

definition finish_frames :: "json list \<Rightarrow> nat" where
  "finish_frames out = length (filter (\<lambda>v. gem_frame_finish v \<noteq> None) out)"

lemma finish_frames_simps [simp]:
  "finish_frames [] = 0" "finish_frames (v # vs) = (if gem_frame_finish v \<noteq> None then 1 else 0) + finish_frames vs"
  "finish_frames (vs @ ws) = finish_frames vs + finish_frames ws"
  by (simp_all add: finish_frames_def)

lemma gem_frame_ends [simp]:
  "gem_frame_finish (gem_part_frame p) = None" "gem_frame_usage (gem_part_frame p) = None"
  "gem_frame_finish (JObj [(''error'', x)]) = None" "gem_frame_usage (JObj [(''error'', x)]) = None"
  "gem_frame_finish (fst (gem_stop_frame r e)) = Some (gem_finish_reason r)"
  "gem_frame_usage (fst (gem_stop_frame r e)) = map_option (\<lambda>u. gem_parse_usage (Some (gem_encode_usage u))) (gc_pending_usage e)"
  by (cases "gc_pending_usage e"; simp add: gem_frame_finish_def gem_frame_usage_def gem_part_frame_def gem_chunk_def first_candidate_def
      gem_finish_def gem_field_def gem_stop_frame_def)+

lemma gem_usage_frame_ends [simp]:
  "gem_frame_finish (JObj [(''candidates'', JArr [JObj [(''content'', c), (''index'', i)]]), (''usageMetadata'', u)]) = None"
  "gem_frame_usage (JObj [(''candidates'', cs), (''usageMetadata'', u)]) = Some (gem_parse_usage (Some u))"
  by (simp_all add: gem_frame_finish_def gem_frame_usage_def first_candidate_def gem_finish_def gem_field_def)

lemma gem_flush_ends:
  "finish_frames (fst (gem_flush_tool_call lib i e)) = 0" "filter_map gem_frame_usage (fst (gem_flush_tool_call lib i e)) = []"
  "gc_finished (snd (gem_flush_tool_call lib i e)) = gc_finished e"
  "gc_pending_usage (snd (gem_flush_tool_call lib i e)) = gc_pending_usage e"
  by (simp_all add: gem_flush_tool_call_def gem_call_frame_def gem_put_slot_def split: option.split)

lemma gem_flush_all_ends:
  "finish_frames (fst (gem_flush_all lib is e)) = 0" "filter_map gem_frame_usage (fst (gem_flush_all lib is e)) = []"
  "gc_finished (snd (gem_flush_all lib is e)) = gc_finished e"
  "gc_pending_usage (snd (gem_flush_all lib is e)) = gc_pending_usage e"
  by (induction "is" arbitrary: e) (simp_all add: gem_flush_ends case_prod_beta Let_def)

lemma gem_stop_frame_snd [simp]: "snd (gem_stop_frame r e) = e\<lparr>gc_pending_usage := None\<rparr>"
  by (simp add: gem_stop_frame_def)

lemma gem_event_ends:
  "finish_frames (fst (gem_encode_event lib v e)) = (if is_stop v then 1 else 0)"
  "gc_finished (snd (gem_encode_event lib v e)) = (gc_finished e \<or> is_stop v)"
  by (cases v; simp add: gem_flush_ends gem_put_slot_def gem_merge_usage_def case_prod_beta Let_def split: option.split)+

lemma gem_encode_all_ends:
  "finish_frames (fst (gem_encode_all lib vs e)) = length (filter is_stop vs)
   \<and> gc_finished (snd (gem_encode_all lib vs e)) = (gc_finished e \<or> list_ex is_stop vs)"
  by (induction vs arbitrary: e) (simp_all add: gem_event_ends case_prod_beta Let_def)

definition pending :: "gem_encoder \<Rightarrow> usage" where
  "pending e = (case gc_pending_usage e of Some u \<Rightarrow> u | None \<Rightarrow> usage_default)"

definition pending_ok :: "gem_encoder \<Rightarrow> bool" where
  "pending_ok e \<longleftrightarrow> gem_usage_ok (pending e)"

lemma gem_usage_ok_none [simp]: "gem_usage_ok usage_default"
  by (simp add: gem_usage_ok_def usage_default_def)

lemma gem_usage_ok_merge: "gem_usage_ok u \<Longrightarrow> gem_usage_ok v \<Longrightarrow> gem_usage_ok (merge_max u v)"
  by (auto simp: gem_usage_ok_def merge_max_def)

lemma merge_max_left_commute: "merge_max u (merge_max v w) = merge_max v (merge_max u w)"
  by (metis merge_max_assoc merge_max_commute)

lemmas merge_max_ac = merge_max_assoc merge_max_commute merge_max_left_commute

lemma merge_max_none [simp]: "merge_max u usage_default = u" "merge_max usage_default u = u"
  by (simp_all add: merge_max_default merge_max_commute[of u])

lemma pending_merge [simp]: "pending (gem_merge_usage u e) = merge_max (pending e) u"
  by (simp add: pending_def gem_merge_usage_def)

lemma pending_flush [simp]:
  "pending (snd (gem_flush_tool_call lib i e)) = pending e" "pending (snd (gem_flush_all lib is e)) = pending e"
  "pending (gem_put_slot i b e) = pending e" "pending (e\<lparr>gc_finished := f\<rparr>) = pending e"
  "pending (e\<lparr>gc_pending_usage := None\<rparr>) = usage_default"
  by (simp_all add: pending_def gem_flush_ends gem_flush_all_ends gem_put_slot_def)

text \<open>A frame that takes the pending counts tells them.\<close>

lemma gem_stop_frame_tells:
  "pending_ok e \<Longrightarrow> merge_all (filter_map gem_frame_usage [fst (gem_stop_frame r e)]) = pending e"
  by (cases "gc_pending_usage e") (simp_all add: pending_ok_def pending_def gem_usage_back)

lemma gem_event_usage:
  assumes "pending_ok e" and "list_all gem_usage_ok (filter_map event_usage [v])"
  shows "merge_max (merge_all (filter_map gem_frame_usage (fst (gem_encode_event lib v e)))) (pending (snd (gem_encode_event lib v e)))
      = merge_max (merge_all (filter_map event_usage [v])) (pending e) \<and> pending_ok (snd (gem_encode_event lib v e))"
proof (cases v)
  case (StopEvent r s)
  then show ?thesis using gem_stop_frame_tells[of "e\<lparr>gc_finished := True\<rparr>" r] assms(1)
    by (simp add: pending_ok_def case_prod_beta Let_def)
next
  case (Start i m u)
  then show ?thesis using assms by (cases u) (simp_all add: pending_ok_def gem_usage_ok_merge merge_max_commute)
qed (use assms in \<open>simp_all add: pending_ok_def gem_usage_ok_merge merge_max_commute gem_flush_ends Let_def\<close>)

lemma gem_encode_all_usage:
  "pending_ok e \<Longrightarrow> list_all gem_usage_ok (filter_map event_usage vs) \<Longrightarrow>
   merge_max (merge_all (filter_map gem_frame_usage (fst (gem_encode_all lib vs e)))) (pending (snd (gem_encode_all lib vs e)))
   = merge_max (merge_all (filter_map event_usage vs)) (pending e) \<and> pending_ok (snd (gem_encode_all lib vs e))"
proof (induction vs arbitrary: e)
  case (Cons v vs)
  let ?e = "snd (gem_encode_event lib v e)"
  have split: "filter_map event_usage (v # vs) = filter_map event_usage [v] @ filter_map event_usage vs"
    by (cases "event_usage v") simp_all
  have here: "list_all gem_usage_ok (filter_map event_usage [v])" "list_all gem_usage_ok (filter_map event_usage vs)"
    using Cons.prems(2) unfolding split by simp_all
  note one = gem_event_usage[OF Cons.prems(1) here(1), of lib]
  note rest = Cons.IH[OF conjunct2[OF one] here(2)]
  have "merge_max (merge_max (merge_all (filter_map gem_frame_usage (fst (gem_encode_event lib v e))))
        (merge_all (filter_map gem_frame_usage (fst (gem_encode_all lib vs ?e))))) (pending (snd (gem_encode_all lib vs ?e)))
      = merge_max (merge_max (merge_all (filter_map event_usage [v])) (merge_all (filter_map event_usage vs))) (pending e)"
    using one rest by (metis merge_max_assoc merge_max_left_commute)
  then show ?case using rest unfolding split
    by (simp add: merge_all_append case_prod_beta Let_def del: filter_map.simps)
qed simp



subsection \<open>The blocks the decoder makes up\<close>

text \<open>A reader of blocks: it is between blocks, the next index being at least a bound, or in one.\<close>

datatype block_phase = Between nat | Inside nat part_kind

fun block_accept :: "block_phase \<Rightarrow> stream_event \<Rightarrow> block_phase option" where
  "block_accept (Between n) (ContentStart i k) = (if n \<le> i then Some (Inside i k) else None)"
| "block_accept (Inside i k) (TextDelta j _) = (if j = i \<and> k = KText then Some (Inside i k) else None)"
| "block_accept (Inside i k) (ThinkingDelta j _) = (if j = i \<and> k = KThinking then Some (Inside i k) else None)"
| "block_accept (Inside i k) (ThinkingSignature j _) = (if j = i \<and> k = KThinking then Some (Inside i k) else None)"
| "block_accept (Inside i k) (ToolCallStart j _ _ _) = (if j = i \<and> k = KToolUse then Some (Inside i k) else None)"
| "block_accept (Inside i k) (ToolCallArgsDelta j _) = (if j = i \<and> k = KToolUse then Some (Inside i k) else None)"
| "block_accept (Inside i k) (ContentStop j) = (if j = i then Some (Between (Suc i)) else None)"
| "block_accept p (UsageEvent _) = Some p"
| "block_accept p (Start _ _ _) = Some p"
| "block_accept p (ErrorEvent _ _) = Some p"
| "block_accept (Between n) (StopEvent _ _) = Some (Between n)"
| "block_accept (Between n) Done = Some (Between n)"
| "block_accept _ _ = None"

fun block_accept_all :: "block_phase \<Rightarrow> stream_event list \<Rightarrow> block_phase option" where
  "block_accept_all p [] = Some p"
| "block_accept_all p (v # vs) = Option.bind (block_accept p v) (\<lambda>q. block_accept_all q vs)"

lemma block_accept_append [simp]:
  "block_accept_all p (vs @ ws) = Option.bind (block_accept_all p vs) (\<lambda>q. block_accept_all q ws)"
  by (induction vs arbitrary: p) (simp_all add: bind_assoc)

text \<open>Where the reader is when the decoder has not seen the end.\<close>

definition gem_phase :: "gem_decoder \<Rightarrow> block_phase" where
  "gem_phase d = (case gd_open d of Some k \<Rightarrow> Inside (gd_index d) k | None \<Rightarrow> Between (gd_index d))"

lemma gem_switch_accepts:
  "gem_switch k d = (out, d1) \<Longrightarrow> block_accept_all (gem_phase d) out = Some (Inside (gd_index d1) k) \<and> gem_phase d1 = Inside (gd_index d1) k"
  by (auto simp: gem_switch_def gem_phase_def split: option.splits if_splits)

lemma gem_part_accepts:
  "gem_part_events lib p d = (out, d1) \<Longrightarrow> block_accept_all (gem_phase d) out = Some (gem_phase d1)"
proof (cases p)
  case (TextPart t)
  assume run: "gem_part_events lib p d = (out, d1)"
  obtain out1 d2 where sw: "gem_switch KText d = (out1, d2)" by fastforce
  show ?thesis using run gem_switch_accepts[OF sw] by (auto simp: TextPart sw)
next
  case (ThinkingPart t sig)
  assume run: "gem_part_events lib p d = (out, d1)"
  obtain out1 d2 where sw: "gem_switch KThinking d = (out1, d2)" by fastforce
  show ?thesis using run gem_switch_accepts[OF sw] by (cases sig) (auto simp: ThinkingPart sw)
next
  case (ToolUsePart i name v sig)
  assume run: "gem_part_events lib p d = (out, d1)"
  obtain out1 d2 where sw: "gem_switch KToolUse (d\<lparr>gd_tool_index := Suc (gd_tool_index d)\<rparr>) = (out1, d2)" by fastforce
  have same: "gem_phase (d\<lparr>gd_tool_index := Suc (gd_tool_index d)\<rparr>) = gem_phase d"
    by (simp add: gem_phase_def split: option.split)
  show ?thesis using run gem_switch_accepts[OF sw] unfolding same
    by (auto simp: ToolUsePart sw Let_def gem_phase_def[of d1])
qed (auto)

lemma gem_parts_accepts:
  "gem_stream_parts lib ps d = (out, d1) \<Longrightarrow> block_accept_all (gem_phase d) out = Some (gem_phase d1)"
proof (induction ps arbitrary: d out)
  case (Cons p ps)
  obtain out1 da where one: "(case gem_decode_part lib p (gd_tool_index d) of Some x \<Rightarrow> gem_part_events lib x d | None \<Rightarrow> ([], d)) = (out1, da)"
    by fastforce
  then have "block_accept_all (gem_phase d) out1 = Some (gem_phase da)"
    using gem_part_accepts by (auto split: option.splits)
  moreover obtain out2 where "gem_stream_parts lib ps da = (out2, d1)" "out = out1 @ out2"
    using Cons.prems one by (auto split: prod.splits)
  ultimately show ?case using Cons.IH by simp
qed simp

text \<open>The parts leave the other flags alone; a reader that may see a chunk after the end sees no parts in it.\<close>

lemma gem_switch_flags: "gem_switch k d = (out, d1) \<Longrightarrow> gd_stopped d1 = gd_stopped d \<and> gd_done d1 = gd_done d"
  by (auto simp: gem_switch_def split: option.splits if_splits)

lemma gem_part_flags: "gem_part_events lib p d = (out, d1) \<Longrightarrow> gd_stopped d1 = gd_stopped d \<and> gd_done d1 = gd_done d"
  by (cases p) (auto dest!: gem_switch_flags simp: Let_def split: prod.splits)

lemma gem_parts_flags: "gem_stream_parts lib ps d = (out, d1) \<Longrightarrow> gd_stopped d1 = gd_stopped d \<and> gd_done d1 = gd_done d"
proof (induction ps arbitrary: d out)
  case (Cons p ps)
  obtain out1 da where one: "(case gem_decode_part lib p (gd_tool_index d) of Some x \<Rightarrow> gem_part_events lib x d | None \<Rightarrow> ([], d)) = (out1, da)"
    by fastforce
  then have "gd_stopped da = gd_stopped d \<and> gd_done da = gd_done d" using gem_part_flags by (auto split: option.splits)
  then show ?case using Cons one by (auto split: prod.splits)
qed simp

definition gem_frame_chunk :: "codec_lib \<Rightarrow> sse_frame \<Rightarrow> jmap option" where
  "gem_frame_chunk lib f = (let data = trim (sf_data f) in
     if data = [] \<or> data = ''[DONE]'' then None
     else Option.bind (cl_parse lib data) (\<lambda>v. if gem_error_body lib v = None then as_object v else None))"

definition gem_ends :: "codec_lib \<Rightarrow> sse_frame \<Rightarrow> bool" where
  "gem_ends lib f \<longleftrightarrow> (case gem_frame_chunk lib f of Some obj \<Rightarrow> gem_finish (first_candidate obj) \<noteq> None | None \<Rightarrow> False)"

definition gem_speaks :: "codec_lib \<Rightarrow> sse_frame \<Rightarrow> bool" where
  "gem_speaks lib f \<longleftrightarrow> (case gem_frame_chunk lib f of Some obj \<Rightarrow> gem_new_parts (first_candidate obj) \<noteq> [] | None \<Rightarrow> False)"

definition gem_at :: "gem_decoder \<Rightarrow> block_phase \<Rightarrow> bool" where
  "gem_at d p \<longleftrightarrow> (if gd_stopped d then gd_open d = None \<and> (\<exists>n. p = Between n) else p = gem_phase d)"

lemma gem_frame_cases:
  obtains "gem_frame_chunk lib f = None" "\<And>d. \<exists>out. gem_decode_frame lib uuid f d = (out, d) \<and> (\<forall>v \<in> set out. \<exists>m k. v = ErrorEvent m k)"
  | obj where "gem_frame_chunk lib f = Some obj" "\<And>d. gem_decode_frame lib uuid f d = gem_decode_chunk lib uuid obj d"
proof (cases "gem_frame_chunk lib f")
  case None
  then have "\<exists>out. gem_decode_frame lib uuid f d = (out, d) \<and> (\<forall>v \<in> set out. \<exists>m k. v = ErrorEvent m k)" for d
    by (auto simp: gem_frame_chunk_def gem_decode_frame_def gem_decode_value_def Let_def bind_eq_None_conv split: if_splits option.splits)
  then show ?thesis using that(1) None by blast
next
  case (Some obj)
  then have "gem_decode_frame lib uuid f d = gem_decode_chunk lib uuid obj d" for d
    by (auto simp: gem_frame_chunk_def gem_decode_frame_def gem_decode_value_def Let_def bind_eq_Some_conv split: if_splits option.splits)
  then show ?thesis using that(2) Some by blast
qed

lemma accept_errors:
  "\<forall>v \<in> set out. \<exists>m k. v = ErrorEvent m k \<Longrightarrow> block_accept_all p out = Some p \<and> Done \<notin> set out"
  by (induction out) (auto elim: block_accept.elims)

lemma gem_stop_accepts:
  assumes "gem_stream_stop fin d = (out, d1)" and "gem_at d p"
  shows "(\<exists>q. block_accept_all p out = Some q \<and> gem_at d1 q) \<and> gd_done d1 = gd_done d \<and> Done \<notin> set out
    \<and> gd_stopped d1 = (gd_stopped d \<or> fin \<noteq> None)"
  using assms by (cases "gd_open d")
    (auto simp: gem_stream_stop_def gem_at_def gem_phase_def split: option.splits if_splits)

lemma gem_part_no_done: "gem_part_events lib p d = (out, d1) \<Longrightarrow> Done \<notin> set out"
  by (cases p) (auto simp: gem_switch_def Let_def split: prod.splits option.splits if_splits)

lemma gem_parts_no_done: "gem_stream_parts lib ps d = (out, d1) \<Longrightarrow> Done \<notin> set out"
proof (induction ps arbitrary: d out)
  case (Cons p ps)
  obtain out1 da where one: "(case gem_decode_part lib p (gd_tool_index d) of Some x \<Rightarrow> gem_part_events lib x d | None \<Rightarrow> ([], d)) = (out1, da)"
    by fastforce
  then have "Done \<notin> set out1" using gem_part_no_done by (auto split: option.splits)
  then show ?case using Cons one by (auto split: prod.splits)
qed simp

lemma gem_chunk_accepts:
  assumes run: "gem_decode_chunk lib uuid obj d = (out, d1)" and at: "gem_at d p"
    and quiet: "gd_stopped d \<longrightarrow> gem_new_parts (first_candidate obj) = []"
  shows "(\<exists>q. block_accept_all p out = Some q \<and> gem_at d1 q) \<and> gd_done d1 = gd_done d \<and> Done \<notin> set out
    \<and> gd_stopped d1 = (gd_stopped d \<or> gem_finish (first_candidate obj) \<noteq> None)"
proof -
  define d0 where "d0 = d\<lparr>gd_started := True\<rparr>"
  obtain out1 da where parts: "gem_stream_parts lib (gem_new_parts (first_candidate obj)) d0 = (out1, da)" by fastforce
  obtain out2 db where stop: "gem_stream_stop (gem_finish (first_candidate obj)) da = (out2, db)" by fastforce
  define st where "st = (if gd_started d then [] else [Start (gem_response_id uuid obj)
      (str_or [] (non_empty_str (gem_field obj ''modelVersion'' ''model_version''))) None])"
  define us where "us = (case gem_field obj ''usageMetadata'' ''usage_metadata'' of
      Some u \<Rightarrow> [UsageEvent (gem_parse_usage (Some u))] | None \<Rightarrow> [])"
  have out: "out = st @ out1 @ us @ out2" "d1 = db"
    using run by (simp_all add: gem_decode_chunk_def d0_def[symmetric] parts stop st_def us_def)
  have at0: "gem_at d0 p" using at by (simp add: gem_at_def d0_def gem_phase_def split: option.splits)
  have flags: "gd_stopped da = gd_stopped d" "gd_done da = gd_done d"
    using gem_parts_flags[OF parts] by (simp_all add: d0_def)
  have "\<exists>q. block_accept_all p out1 = Some q \<and> gem_at da q"
  proof (cases "gd_stopped d")
    case True
    then have "out1 = [] \<and> da = d0" using parts quiet by simp
    then show ?thesis using at0 by simp
  next
    case False
    then have "p = gem_phase d0" using at0 by (simp add: gem_at_def d0_def)
    then show ?thesis using gem_parts_accepts[OF parts] False flags(1) by (simp add: gem_at_def)
  qed
  then obtain q where q: "block_accept_all p out1 = Some q" "gem_at da q" by blast
  have neutral: "block_accept_all r st = Some r" "block_accept_all r us = Some r" for r
    by (cases r; simp add: st_def us_def split: option.split)+
  have "Done \<notin> set st" "Done \<notin> set us" by (simp_all add: st_def us_def split: option.split)
  then show ?thesis
    using gem_stop_accepts[OF stop q(2)] gem_parts_no_done[OF parts] q(1) neutral flags out(1,2) by auto
qed

lemma gem_decode_all_accepts:
  assumes "gem_decode_all lib uuid fs d = (out, d1)" and "gem_at d p"
    and "sorted_wrt (\<lambda>f g. \<not> gem_ends lib f \<or> \<not> gem_speaks lib g) fs"
    and "gd_stopped d \<longrightarrow> (\<forall>f \<in> set fs. \<not> gem_speaks lib f)"
  shows "(\<exists>q. block_accept_all p out = Some q \<and> gem_at d1 q) \<and> gd_done d1 = gd_done d \<and> Done \<notin> set out"
  using assms
proof (induction fs arbitrary: d out p)
  case (Cons f fs)
  obtain out1 da where one: "gem_decode_frame lib uuid f d = (out1, da)" by fastforce
  obtain out2 where rest: "gem_decode_all lib uuid fs da = (out2, d1)" "out = out1 @ out2"
    using Cons.prems(1) one by (auto split: prod.splits)
  have "(\<exists>q. block_accept_all p out1 = Some q \<and> gem_at da q) \<and> gd_done da = gd_done d \<and> Done \<notin> set out1
      \<and> gd_stopped da = (gd_stopped d \<or> gem_ends lib f)"
  proof (rule gem_frame_cases[of lib f uuid])
    assume no: "gem_frame_chunk lib f = None"
      and "\<And>d. \<exists>out. gem_decode_frame lib uuid f d = (out, d) \<and> (\<forall>v \<in> set out. \<exists>m k. v = ErrorEvent m k)"
    then have "da = d" "\<forall>v \<in> set out1. \<exists>m k. v = ErrorEvent m k" using one by (metis Pair_inject)+
    then show ?thesis using accept_errors[of out1 p] Cons.prems(2) no by (simp add: gem_ends_def)
  next
    fix obj assume chunk: "gem_frame_chunk lib f = Some obj"
      and "\<And>d. gem_decode_frame lib uuid f d = gem_decode_chunk lib uuid obj d"
    then have run: "gem_decode_chunk lib uuid obj d = (out1, da)" using one by simp
    have "gd_stopped d \<longrightarrow> gem_new_parts (first_candidate obj) = []"
      using Cons.prems(4) chunk by (auto simp: gem_speaks_def)
    then show ?thesis using gem_chunk_accepts[OF run Cons.prems(2)] chunk by (simp add: gem_ends_def)
  qed
  moreover have "sorted_wrt (\<lambda>f g. \<not> gem_ends lib f \<or> \<not> gem_speaks lib g) fs"
    "gd_stopped d \<or> gem_ends lib f \<longrightarrow> (\<forall>g \<in> set fs. \<not> gem_speaks lib g)"
    using Cons.prems(3,4) by auto
  ultimately show ?case using Cons.IH[OF rest(1)] rest(2) by fastforce
qed auto

text \<open>\<open>C25\<close>. A Gemini stream that says nothing after its end is handed on with proper blocks: their indices
  increase, each piece lies in an open block of its kind, every block is closed, also when
  the upstream breaks off, and one \<open>Done\<close> comes at the very end.\<close>

theorem gem_blocks_well_formed:
  assumes "sorted_wrt (\<lambda>f g. \<not> gem_ends lib f \<or> \<not> gem_speaks lib g) fs"
  shows "case gem_decode_all lib uuid fs gem_decoder_new of (out, d) \<Rightarrow>
    (\<exists>n. block_accept_all (Between 0) (out @ fst (gem_decode_finish d)) = Some (Between n))
    \<and> (\<exists>rest. out @ fst (gem_decode_finish d) = rest @ [Done] \<and> Done \<notin> set rest)"
proof -
  obtain out d where run: "gem_decode_all lib uuid fs gem_decoder_new = (out, d)" by fastforce
  have start: "gem_at gem_decoder_new (Between 0)" "\<not> gd_stopped gem_decoder_new" "\<not> gd_done gem_decoder_new"
    by (simp_all add: gem_at_def gem_decoder_new_def gem_phase_def)
  obtain q where q: "block_accept_all (Between 0) out = Some q" "gem_at d q" "\<not> gd_done d" "Done \<notin> set out"
    using gem_decode_all_accepts[OF run start(1) assms] start(2,3) by auto
  have fin: "fst (gem_decode_finish d) = (if gd_open d \<noteq> None then [ContentStop (gd_index d)] else []) @ [Done]"
    using q(3) by (simp add: gem_decode_finish_def)
  have "\<exists>n. block_accept_all q (fst (gem_decode_finish d)) = Some (Between n)"
    unfolding fin using q(2) by (cases "gd_open d") (auto simp: gem_at_def gem_phase_def split: if_splits)
  moreover have "out @ fst (gem_decode_finish d) = (out @ (if gd_open d \<noteq> None then [ContentStop (gd_index d)] else [])) @ [Done]"
    "Done \<notin> set (out @ (if gd_open d \<noteq> None then [ContentStop (gd_index d)] else []))"
    using fin q(4) by auto
  ultimately show ?thesis using run q(1) by auto
qed

definition gem_two_frames :: "json list" where
  "gem_two_frames = [gem_part_frame (JObj [(''text'', JStr ''hi'')]),
     JObj [(''candidates'', JArr [JObj [(''finishReason'', JStr ''STOP'')]])]]"

theorem gem_blocks_well_formed_witness:
  "let lib = table_lib gem_two_frames in
   case gem_decode_all lib ''u'' (map (gem_frame lib) gem_two_frames) gem_decoder_new of (out, d) \<Rightarrow>
     \<exists>n. block_accept_all (Between 0) (out @ fst (gem_decode_finish d)) = Some (Between n)"
proof -
  let ?lib = "table_lib gem_two_frames"
  have "sorted_wrt (\<lambda>f g. \<not> gem_ends ?lib f \<or> \<not> gem_speaks ?lib g) (map (gem_frame ?lib) gem_two_frames)" by code_simp
  from gem_blocks_well_formed[OF this, of "''u''"] show ?thesis by (auto simp: Let_def)
qed

text \<open>A relay that says something after the end, as this codec's own encoder does with a call whose
  block was not closed, makes the decoder use the index of the last block again.\<close>

lemma gem_index_reused_after_end:
  "let lib = table_lib [];
       say = (\<lambda>t. [(''candidates'', JArr [JObj [(''content'', JObj [(''parts'', JArr [JObj [(''text'', JStr t)]])])]])]);
       stop = [(''candidates'', JArr [JObj [(''finishReason'', JStr ''STOP'')]])];
       (out1, d1) = gem_decode_chunk lib ''u'' (say ''a'') gem_decoder_new;
       (out2, d2) = gem_decode_chunk lib ''u'' stop d1;
       (out3, d3) = gem_decode_chunk lib ''u'' (say ''b'') d2
   in out1 @ out2 @ out3 = [Start ''gemini-u'' [] None, ContentStart 0 KText, TextDelta 0 ''a'', ContentStop 0,
        StopEvent Stop None, ContentStart 0 KText, TextDelta 0 ''b'']"
  by code_simp

lemma gem_call_after_end:
  "gem_stream_out lib [ToolCallStart 0 ''c1'' ''scan'' None, StopEvent ToolUseStop None, Done] =
     [fst (gem_stop_frame ToolUseStop gem_encoder_new), gem_call_frame lib (gem_new_buf ''c1'' ''scan'' None)]"
  by (simp add: gem_stream_out_def gem_encode_finish_def gem_flush_tool_call_def gem_put_slot_def gem_slot_def
      gem_slots_def gem_encoder_new_def gem_new_buf_def gem_stop_frame_def)

end
