(* ===== verification/Responses_Request.thy ===== *)
theory Responses_Request
  imports Codec_Base
begin

section \<open>OpenAI Responses: requests\<close>

text \<open>
  The request half of \<open>crates/refract-protocol/src/codec/responses.rs\<close>. A conversation is a flat list
  of items: calls, results and reasoning are items beside the messages, so a message of the
  unified form spreads over several items, and the decoder has to find the messages again.
  What the upstream keeps for the client (\<open>previous_response_id\<close>, \<open>store\<close>) travels as an
  extension. Log lines are left out.
\<close>

definition resp_known_request :: "string list" where
  "resp_known_request = [''model'', ''input'', ''instructions'', ''stream'', ''max_output_tokens'', ''tools'',
     ''tool_choice'', ''parallel_tool_calls'', ''text'', ''reasoning'', ''temperature'', ''top_p'', ''user'', ''metadata'',
     ''previous_response_id'', ''store'', ''include'']"

definition resp_ext :: string where
  "resp_ext = ''responses.''"

text \<open>\<open>obj.get(a).or_else(|| obj.get(b)).and_then(as_str)\<close>, empty when there is none.\<close>

definition get_either :: "string \<Rightarrow> string \<Rightarrow> json \<Rightarrow> string" where
  "get_either a b v = str_or [] (Option.bind (case jget a v of Some x \<Rightarrow> Some x | None \<Rightarrow> jget b v) as_str)"

definition parse_arguments :: "codec_lib \<Rightarrow> json option \<Rightarrow> json" where
  "parse_arguments lib v = (case v of
     None \<Rightarrow> JObj []
   | Some JNull \<Rightarrow> JObj []
   | Some (JStr s) \<Rightarrow> if trim s = [] then JObj [] else (case cl_parse lib s of Some x \<Rightarrow> x | None \<Rightarrow> JStr s)
   | Some other \<Rightarrow> other)"

fun stringify_arguments :: "codec_lib \<Rightarrow> json \<Rightarrow> string" where
  "stringify_arguments lib (JStr s) = s"
| "stringify_arguments lib JNull = ''{}''"
| "stringify_arguments lib v = cl_print lib v"

subsection \<open>Reading items\<close>

definition resp_decode_image :: "json \<Rightarrow> content_part option" where
  "resp_decode_image part = (
     let detail = (case get_str ''detail'' part of Some d \<Rightarrow> if d = ''auto'' then None else Some d | None \<Rightarrow> None)
     in case get_str ''file_id'' part of
          Some i \<Rightarrow> Some (ImagePart (FileId i) None detail)
        | None \<Rightarrow> map_option (\<lambda>url. let (source, mime) = parse_data_uri url in ImagePart source mime detail)
            (get_str ''image_url'' part))"

definition resp_decode_file :: "json \<Rightarrow> content_part option" where
  "resp_decode_file part = (
     let name = get_str ''filename'' part
     in case get_str ''file_data'' part of
          Some d \<Rightarrow> (let (source, mime) = parse_data_uri d in Some (FilePart source mime name))
        | None \<Rightarrow> (case get_str ''file_id'' part of
          Some i \<Rightarrow> Some (FilePart (FileId i) None name)
        | None \<Rightarrow> map_option (\<lambda>u. FilePart (Url u) None name) (get_str ''file_url'' part)))"

definition resp_decode_audio :: "json \<Rightarrow> content_part option" where
  "resp_decode_audio part = (
     let inner = (case jget ''input_audio'' part of Some v \<Rightarrow> v | None \<Rightarrow> part)
     in map_option (\<lambda>d. AudioPart (fst (parse_data_uri d)) (get_str ''format'' inner)) (get_str ''data'' inner))"

definition resp_decode_part :: "json \<Rightarrow> content_part option" where
  "resp_decode_part part = Option.bind (as_object part) (\<lambda>obj.
     let kind = str_or [] (get_str ''type'' part)
     in if kind \<in> {''input_text'', ''output_text'', ''text'', ''summary_text''}
          then Some (TextPart (str_or [] (get_str ''text'' part)))
        else if kind \<in> {''input_image'', ''image''} then resp_decode_image part
        else if kind \<in> {''input_file'', ''file''} then resp_decode_file part
        else if kind \<in> {''input_audio'', ''audio''} then resp_decode_audio part
        else if kind = ''refusal'' then Some (RefusalPart (str_or [] (get_str ''refusal'' part)))
        else None)"

definition resp_decode_content :: "json option \<Rightarrow> content_part list" where
  "resp_decode_content v = (case v of
     Some (JStr s) \<Rightarrow> [TextPart s] | Some (JArr ps) \<Rightarrow> filter_map resp_decode_part ps | _ \<Rightarrow> [])"

definition resp_tool_output :: "codec_lib \<Rightarrow> json option \<Rightarrow> content_part list" where
  "resp_tool_output lib v = (case v of
     None \<Rightarrow> []
   | Some JNull \<Rightarrow> []
   | Some (JStr s) \<Rightarrow> [TextPart s]
   | Some (JArr ps) \<Rightarrow> filter_map resp_decode_part ps
   | Some other \<Rightarrow> [TextPart (cl_print lib other)])"

text \<open>The texts of the entries, a line break between what is not empty so far and the next.\<close>

definition resp_add_texts :: "json option \<Rightarrow> string \<Rightarrow> string" where
  "resp_add_texts entries text = fold (\<lambda>e out. case get_str ''text'' e of
       Some s \<Rightarrow> (if out = [] then out else out @ [LF]) @ s | None \<Rightarrow> out)
     (case Option.bind entries as_array of Some es \<Rightarrow> es | None \<Rightarrow> []) text"

definition resp_decode_reasoning_item :: "json \<Rightarrow> content_part" where
  "resp_decode_reasoning_item item =
     ThinkingPart (resp_add_texts (jget ''content'' item) (resp_add_texts (jget ''summary'' item) []))
       (get_str ''encrypted_content'' item)"

definition resp_decode_call :: "codec_lib \<Rightarrow> json \<Rightarrow> content_part" where
  "resp_decode_call lib item = ToolUsePart (get_either ''call_id'' ''id'' item) (str_or [] (get_str ''name'' item))
     (parse_arguments lib (jget ''arguments'' item)) None"

definition push_into :: "role \<Rightarrow> content_part \<Rightarrow> message list \<Rightarrow> message list" where
  "push_into r p ms = (if ms \<noteq> [] \<and> msg_role (last ms) = r
     then butlast ms @ [(last ms)\<lparr>msg_content := msg_content (last ms) @ [p]\<rparr>]
     else ms @ [message_new r [p]])"

definition resp_item_role :: "string option \<Rightarrow> role" where
  "resp_item_role r = (if r = Some ''assistant'' then Assistant
     else if r = Some ''system'' \<or> r = Some ''developer'' then System
     else if r = Some ''tool'' then Tool else User)"

definition resp_item_kind :: "json \<Rightarrow> string" where
  "resp_item_kind v = (case get_str ''type'' v of Some k \<Rightarrow> k
     | None \<Rightarrow> if jget ''role'' v \<noteq> None then ''message'' else [])"

definition resp_decode_item :: "codec_lib \<Rightarrow> json \<Rightarrow> message list \<Rightarrow> gateway_error + message list" where
  "resp_decode_item lib item ms = (case as_object item of
     None \<Rightarrow> Inl (ge_invalid_request ''each element of `input` must be an object'')
   | Some obj \<Rightarrow>
       let kind = resp_item_kind item
       in Inr (if kind = ''message'' then ms @ [message_new (resp_item_role (get_str ''role'' item))
                 (resp_decode_content (jget ''content'' item))]
          else if kind = ''function_call'' then push_into Assistant (resp_decode_call lib item) ms
          else if kind = ''function_call_output'' then push_into Tool
                 (ToolResult (str_or [] (get_str ''call_id'' item)) None (resp_tool_output lib (jget ''output'' item)) False) ms
          else if kind = ''reasoning'' then push_into Assistant (resp_decode_reasoning_item item) ms
          else push_into Assistant (Opaque ''responses'' item) ms))"

fun resp_decode_items :: "codec_lib \<Rightarrow> json list \<Rightarrow> message list \<Rightarrow> gateway_error + message list" where
  "resp_decode_items lib [] ms = Inr ms"
| "resp_decode_items lib (i # is) ms = rbind (resp_decode_item lib i ms) (resp_decode_items lib is)"

subsection \<open>Reading the rest of a request\<close>

definition resp_is_builtin :: "json \<Rightarrow> bool" where
  "resp_is_builtin tool \<longleftrightarrow> as_object tool \<noteq> None \<and> str_or ''function'' (get_str ''type'' tool) \<noteq> ''function''"

definition resp_decode_tool :: "json \<Rightarrow> tool_def option" where
  "resp_decode_tool tool = (if as_object tool = None \<or> resp_is_builtin tool then None
     else let src = (case Option.bind (jget ''function'' tool) as_object of Some f \<Rightarrow> JObj f | None \<Rightarrow> tool)
          in case get_str ''name'' src of
               None \<Rightarrow> None
             | Some n \<Rightarrow> if n = [] then None
                 else Some \<lparr>td_name = n, td_description = get_str ''description'' src,
                   td_parameters = (case jget ''parameters'' src of
                      Some p \<Rightarrow> if p = JNull then JObj [(''type'', JStr ''object''), (''properties'', JObj [])] else p
                    | None \<Rightarrow> JObj [(''type'', JStr ''object''), (''properties'', JObj [])]),
                   td_strict = get_bool ''strict'' src\<rparr>)"

definition resp_decode_tools :: "json list \<Rightarrow> tool_def list \<times> json list" where
  "resp_decode_tools tools = (filter_map resp_decode_tool tools, filter resp_is_builtin tools)"

definition resp_decode_choice :: "json \<Rightarrow> tool_choice" where
  "resp_decode_choice v = (case v of
     JStr s \<Rightarrow> (if s = ''none'' then NoTool else if s = ''auto'' then AutoChoice
        else if s = ''required'' then Required else Unspecified)
   | JObj m \<Rightarrow> (case get_str ''name'' v of Some n \<Rightarrow> NamedTool n | None \<Rightarrow> Required)
   | _ \<Rightarrow> Unspecified)"

definition resp_decode_format :: "json \<Rightarrow> response_format option" where
  "resp_decode_format v = Option.bind (get_str ''type'' v) (\<lambda>t.
     if t = ''text'' then Some TextFormat
     else if t = ''json_object'' then Some JsonObjectFormat
     else if t = ''json_schema'' then Some (JsonSchemaFormat (str_or ''response'' (get_str ''name'' v))
       (case jget ''schema'' v of Some s \<Rightarrow> s | None \<Rightarrow> JNull) (get_bool ''strict'' v = Some True))
     else None)"

definition resp_decode_reasoning :: "json \<Rightarrow> reasoning_config option" where
  "resp_decode_reasoning v = (
     let effort = get_str ''effort'' v; include = map_option (\<lambda>s. s \<noteq> ''none'') (get_str ''summary'' v)
     in if effort = None \<and> include = None then None
        else Some \<lparr>rc_effort = effort, rc_budget_tokens = None, rc_include_thoughts = include\<rparr>)"

definition as_u32 :: "json \<Rightarrow> 32 word option" where
  "as_u32 v = Option.bind (as_u64 v) (\<lambda>n. if n < 2 ^ 32 then Some (word_of_nat n) else None)"

fun json_type_name :: "json \<Rightarrow> string" where
  "json_type_name JNull = ''null''"
| "json_type_name (JBool _) = ''boolean''"
| "json_type_name (JNum _) = ''number''"
| "json_type_name (JStr _) = ''string''"
| "json_type_name (JArr _) = ''array''"
| "json_type_name (JObj _) = ''object''"

definition resp_input :: "codec_lib \<Rightarrow> json option \<Rightarrow> gateway_error + message list" where
  "resp_input lib v = (case v of
     None \<Rightarrow> Inr []
   | Some (JStr s) \<Rightarrow> Inr [message_new User [TextPart s]]
   | Some (JArr items) \<Rightarrow> resp_decode_items lib items []
   | Some other \<Rightarrow> Inl (ge_invalid_request (''field `input` must be a string or an array, got '' @ json_type_name other)))"

text \<open>Instructions among the messages join the system text.\<close>

definition resp_system_of :: "message list \<Rightarrow> content_part list" where
  "resp_system_of ms = concat (map msg_content (filter (\<lambda>m. msg_role m = System) ms))"

definition resp_talk_of :: "message list \<Rightarrow> message list" where
  "resp_talk_of ms = filter (\<lambda>m. msg_role m \<noteq> System) ms"

definition resp_stateful :: "string list" where
  "resp_stateful = [''previous_response_id'', ''store'', ''include'', ''metadata'']"

definition resp_keep_stateful :: "string list \<Rightarrow> json \<Rightarrow> extensions \<Rightarrow> extensions" where
  "resp_keep_stateful keys raw ext = fold (\<lambda>k e. case jget k raw of
     Some v \<Rightarrow> if v = JNull then e else btree_insert (resp_ext @ k) v e | None \<Rightarrow> e) keys ext"

definition resp_request_ext :: "json \<Rightarrow> jmap \<Rightarrow> json list \<Rightarrow> extensions" where
  "resp_request_ext raw obj builtins = collect_unknown resp_ext resp_known_request obj
     (resp_keep_stateful resp_stateful raw
       (if builtins = [] then [] else btree_insert ''responses.builtin_tools'' (JArr builtins) []))"

definition resp_decode_request :: "codec_lib \<Rightarrow> json \<Rightarrow> gateway_error + unified_request" where
  "resp_decode_request lib raw = (case as_object raw of
     None \<Rightarrow> Inl (ge_invalid_request ''request body must be a JSON object'')
   | Some obj \<Rightarrow> (case get_nonempty ''model'' raw of
     None \<Rightarrow> Inl (ge_invalid_request ''missing required field `model`'')
   | Some model \<Rightarrow> rbind (resp_input lib (map_of obj ''input'')) (\<lambda>ms.
       let stream = (get_bool ''stream'' raw = Some True);
           (tools, builtins) = resp_decode_tools (case get_array ''tools'' raw of Some ts \<Rightarrow> ts | None \<Rightarrow> [])
       in Inr ((request_new model (resp_talk_of ms))
            \<lparr>ur_system := (case get_str ''instructions'' raw of Some t \<Rightarrow> [TextPart t] | None \<Rightarrow> [])
               @ resp_system_of ms,
             ur_tools := tools,
             ur_tool_choice := (case jget ''tool_choice'' raw of Some c \<Rightarrow> resp_decode_choice c | None \<Rightarrow> Unspecified),
             ur_parallel_tool_calls := get_bool ''parallel_tool_calls'' raw,
             ur_sampling := sampling_default\<lparr>sa_temperature := get_f64 ''temperature'' raw,
               sa_top_p := get_f64 ''top_p'' raw\<rparr>,
             ur_max_output_tokens := Option.bind (jget ''max_output_tokens'' raw) as_u32,
             ur_stream := stream, ur_stream_include_usage := stream,
             ur_reasoning := Option.bind (jget ''reasoning'' raw) resp_decode_reasoning,
             ur_response_format := Option.bind (get_in ''text'' ''format'' raw) resp_decode_format,
             ur_user := get_str ''user'' raw,
             ur_extensions := resp_request_ext raw obj builtins\<rparr>))))"

subsection \<open>Writing a request\<close>

definition resp_encode_reasoning :: "32 word option \<Rightarrow> reasoning_config \<Rightarrow> json option" where
  "resp_encode_reasoning max_output cfg = (
     let m = if_some ''effort'' (effort_or_from_budget max_output cfg) JStr
        @ if_some ''summary'' (rc_include_thoughts cfg) (\<lambda>b. JStr (if b then ''auto'' else ''none''))
     in if m = [] then None else Some (JObj m))"

definition resp_encode_tool :: "tool_def \<Rightarrow> json" where
  "resp_encode_tool t = JObj ([(''type'', JStr ''function''), (''name'', JStr (td_name t))]
     @ if_some ''description'' (td_description t) JStr
     @ [(''parameters'', td_parameters t)]
     @ if_some ''strict'' (td_strict t) JBool)"

fun resp_encode_choice :: "tool_choice \<Rightarrow> json option" where
  "resp_encode_choice Unspecified = None"
| "resp_encode_choice AutoChoice = Some (JStr ''auto'')"
| "resp_encode_choice Required = Some (JStr ''required'')"
| "resp_encode_choice NoTool = Some (JStr ''none'')"
| "resp_encode_choice (NamedTool n) = Some (JObj [(''type'', JStr ''function''), (''name'', JStr n)])"

fun resp_encode_format :: "response_format \<Rightarrow> json" where
  "resp_encode_format TextFormat = JObj [(''type'', JStr ''text'')]"
| "resp_encode_format JsonObjectFormat = JObj [(''type'', JStr ''json_object'')]"
| "resp_encode_format (JsonSchemaFormat name schema strict) = JObj [(''type'', JStr ''json_schema''), (''name'', JStr name),
     (''schema'', schema), (''strict'', JBool strict)]"

definition resp_encode_image :: "codec_lib \<Rightarrow> media_source \<Rightarrow> string option \<Rightarrow> string option \<Rightarrow> json" where
  "resp_encode_image lib source mime detail = JObj ([(''type'', JStr ''input_image'')]
     @ (case source of FileId i \<Rightarrow> [(''file_id'', JStr i)]
        | other \<Rightarrow> [(''image_url'', JStr (to_data_uri (cl_base64 lib) other mime))])
     @ [(''detail'', JStr (str_or ''auto'' detail))])"

definition resp_encode_file :: "codec_lib \<Rightarrow> media_source \<Rightarrow> string option \<Rightarrow> string option \<Rightarrow> json" where
  "resp_encode_file lib source mime name = JObj ([(''type'', JStr ''input_file'')]
     @ (case source of FileId i \<Rightarrow> [(''file_id'', JStr i)] | Url u \<Rightarrow> [(''file_url'', JStr u)]
        | other \<Rightarrow> [(''file_data'', JStr (to_data_uri (cl_base64 lib) other mime))])
     @ if_some ''filename'' name JStr)"

fun resp_encode_part :: "codec_lib \<Rightarrow> role \<Rightarrow> content_part \<Rightarrow> json option" where
  "resp_encode_part lib r (TextPart t) = Some (JObj (
     [(''type'', JStr (if r = Assistant then ''output_text'' else ''input_text'')), (''text'', JStr t)]
     @ if_true ''annotations'' (r = Assistant) (JArr [])))"
| "resp_encode_part lib r (ImagePart source mime detail) = Some (resp_encode_image lib source mime detail)"
| "resp_encode_part lib r (FilePart source mime name) = Some (resp_encode_file lib source mime name)"
| "resp_encode_part lib r (RefusalPart t) = Some (JObj [(''type'', JStr ''refusal''), (''refusal'', JStr t)])"
| "resp_encode_part lib r _ = None"

fun role_str :: "role \<Rightarrow> string" where
  "role_str System = ''system''"
| "role_str Assistant = ''assistant''"
| "role_str _ = ''user''"

definition flatten_text :: "content_part list \<Rightarrow> string" where
  "flatten_text parts = system_text_from [] parts"

definition resp_result_text :: "content_part list \<Rightarrow> bool \<Rightarrow> string" where
  "resp_result_text content is_error = (let text = flatten_text content in
     if \<not> is_error then text else if text = [] then ''Error: tool call failed'' else ''Error: '' @ text)"

text \<open>The summary of a reasoning item; an empty text is no entry.\<close>

definition resp_summary :: "string \<Rightarrow> json" where
  "resp_summary t = JArr (if t = [] then [] else [JObj [(''type'', JStr ''summary_text''), (''text'', JStr t)]])"

text \<open>The item a part makes by itself, if it does.\<close>

fun resp_own_item :: "codec_lib \<Rightarrow> content_part \<Rightarrow> json option" where
  "resp_own_item lib (ToolUsePart i name input _) = Some (JObj [(''type'', JStr ''function_call''), (''call_id'', JStr i),
     (''name'', JStr name), (''arguments'', JStr (stringify_arguments lib input))])"
| "resp_own_item lib (ToolResult i _ content is_error) = Some (JObj [(''type'', JStr ''function_call_output''),
     (''call_id'', JStr i), (''output'', JStr (resp_result_text content is_error))])"
| "resp_own_item lib (ThinkingPart t sig) = Some (JObj ([(''type'', JStr ''reasoning''), (''summary'', resp_summary t)]
     @ if_some ''encrypted_content'' sig JStr))"
| "resp_own_item lib (RedactedThinking d) = Some (JObj [(''type'', JStr ''reasoning''), (''summary'', JArr []),
     (''encrypted_content'', JStr d)])"
| "resp_own_item lib (Opaque p v) = (if p = ''responses'' then Some v else None)"
| "resp_own_item lib _ = None"

definition resp_encode_message :: "codec_lib \<Rightarrow> message \<Rightarrow> json list" where
  "resp_encode_message lib m = (
     let parts = filter_map (resp_encode_part lib (msg_role m)) (msg_content m)
     in filter_map (resp_own_item lib) (msg_content m)
        @ (if parts = [] then [] else [JObj [(''type'', JStr ''message''), (''role'', JStr (role_str (msg_role m))),
             (''content'', JArr parts)]]))"

definition resp_encode_items :: "codec_lib \<Rightarrow> message list \<Rightarrow> json list" where
  "resp_encode_items lib ms = concat (map (resp_encode_message lib) ms)"

definition resp_tools_json :: "unified_request \<Rightarrow> json list" where
  "resp_tools_json ir = map resp_encode_tool (ur_tools ir)
     @ (case Option.bind (req_extension ir ''responses.builtin_tools'') as_array of Some b \<Rightarrow> b | None \<Rightarrow> [])"

definition resp_request_body :: "codec_lib \<Rightarrow> unified_request \<Rightarrow> jmap" where
  "resp_request_body lib ir =
     [(''model'', JStr (ur_model ir))]
     @ if_true ''instructions'' (ur_system ir \<noteq> []) (JStr (system_text ir))
     @ [(''input'', JArr (resp_encode_items lib (ur_messages ir)))]
     @ if_true ''stream'' (ur_stream ir) (JBool True)
     @ if_some ''max_output_tokens'' (ur_max_output_tokens ir) (\<lambda>n. jnat (unat n))
     @ if_some ''temperature'' (sa_temperature (ur_sampling ir)) jfloat
     @ if_some ''top_p'' (sa_top_p (ur_sampling ir)) jfloat
     @ if_some ''parallel_tool_calls'' (ur_parallel_tool_calls ir) JBool
     @ if_some ''user'' (ur_user ir) JStr
     @ if_true ''tools'' (resp_tools_json ir \<noteq> []) (JArr (resp_tools_json ir))
     @ if_some ''tool_choice'' (resp_encode_choice (ur_tool_choice ir)) (\<lambda>v. v)
     @ if_some ''text'' (ur_response_format ir) (\<lambda>f. JObj [(''format'', resp_encode_format f)])
     @ if_some ''reasoning'' (Option.bind (ur_reasoning ir) (resp_encode_reasoning (ur_max_output_tokens ir))) (\<lambda>v. v)"

text \<open>What is put back replaces a field that is there.\<close>

definition resp_put_back :: "string list \<Rightarrow> extensions \<Rightarrow> jmap \<Rightarrow> jmap" where
  "resp_put_back skip ext body = fold (\<lambda>(k, v) out. case strip_prefix resp_ext k of
       Some f \<Rightarrow> if f \<in> set skip then out else map_insert f v out | None \<Rightarrow> out) ext body"

definition resp_encode_request :: "codec_lib \<Rightarrow> unified_request \<Rightarrow> gateway_error + json" where
  "resp_encode_request lib ir = Inr (JObj (resp_put_back [''builtin_tools''] (ur_extensions ir) (resp_request_body lib ir)))"

end
