(* ===== verification/Responses_Roundtrip.thy ===== *)
theory Responses_Roundtrip
  imports Responses_Request Chat_Request
begin

section \<open>OpenAI Responses: requests go round\<close>

text \<open>
  Which unified requests have a Responses form, and the proof that writing one and reading it
  back changes nothing. Since items of one role join the message before them, and the text of
  a message comes after its calls, such a conversation keeps items and text in messages of
  their own.
\<close>

subsection \<open>The conversation\<close>

definition resp_args_ok :: "codec_lib \<Rightarrow> json \<Rightarrow> bool" where
  "resp_args_ok lib v = (case v of
     JNull \<Rightarrow> False
   | JStr s \<Rightarrow> trim s \<noteq> [] \<and> cl_parse lib s = None
   | _ \<Rightarrow> trim (cl_print lib v) \<noteq> [] \<and> cl_parse lib (cl_print lib v) = Some v)"

fun resp_item_ok :: "codec_lib \<Rightarrow> role \<Rightarrow> content_part \<Rightarrow> bool" where
  "resp_item_ok lib r (ToolUsePart i name v None) = (r = Assistant \<and> resp_args_ok lib v)"
| "resp_item_ok lib r (ThinkingPart t sig) = (r = Assistant)"
| "resp_item_ok lib r (Opaque p v) = (r = Assistant \<and> p = ''responses'' \<and> as_object v \<noteq> None
     \<and> resp_item_kind v \<notin> {''message'', ''function_call'', ''function_call_output'', ''reasoning''})"
| "resp_item_ok lib r (ToolResult i None [TextPart t] False) = (r = Tool)"
| "resp_item_ok lib r _ = False"

fun resp_part_ok :: "content_part \<Rightarrow> bool" where
  "resp_part_ok (TextPart _) = True"
| "resp_part_ok (RefusalPart _) = True"
| "resp_part_ok (ImagePart (FileId _) None d) = (d \<noteq> Some ''auto'')"
| "resp_part_ok (ImagePart (Url u) None d) = (\<not> prefix ''data:'' u \<and> d \<noteq> Some ''auto'')"
| "resp_part_ok (ImagePart (Base64 _) (Some m) d) = (mime_ok m \<and> d \<noteq> Some ''auto'')"
| "resp_part_ok (FilePart (FileId _) None _) = True"
| "resp_part_ok (FilePart (Url _) None _) = True"
| "resp_part_ok (FilePart (Base64 _) (Some m) _) = mime_ok m"
| "resp_part_ok _ = False"

fun resp_talk_ok :: "codec_lib \<Rightarrow> role option \<Rightarrow> message list \<Rightarrow> bool" where
  "resp_talk_ok lib prev [] = True"
| "resp_talk_ok lib prev (m # ms) = (msg_name m = None \<and> msg_content m \<noteq> []
     \<and> (msg_role m \<in> {User, Assistant} \<and> list_all resp_part_ok (msg_content m)
        \<or> list_all (resp_item_ok lib (msg_role m)) (msg_content m) \<and> prev \<noteq> Some (msg_role m))
     \<and> resp_talk_ok lib (Some (msg_role m)) ms)"

lemma resp_detail_back:
  "d \<noteq> Some ''auto'' \<Longrightarrow> str_or ''auto'' d = ''auto'' \<Longrightarrow> d = None"
  "d \<noteq> Some ''auto'' \<Longrightarrow> str_or ''auto'' d \<noteq> ''auto'' \<Longrightarrow> d = Some (str_or ''auto'' d)"
  by (cases d; simp)+

lemma resp_part_back:
  "resp_part_ok p \<Longrightarrow> resp_own_item lib p = None \<and> (\<exists>j. resp_encode_part lib r p = Some j \<and> resp_decode_part j = Some p)"
  by (induction p rule: resp_part_ok.induct)
    (auto simp: resp_decode_part_def resp_encode_image_def resp_encode_file_def resp_decode_image_def resp_decode_file_def
       parse_plain_uri mime_ok_def data_uri_roundtrip simp del: to_data_uri.simps(2) split: option.split
       dest: resp_detail_back)

lemma resp_parts_back:
  "list_all resp_part_ok ps \<Longrightarrow> filter_map resp_decode_part (filter_map (resp_encode_part lib r) ps) = ps
     \<and> filter_map (resp_own_item lib) ps = []"
proof (induction ps)
  case (Cons p ps)
  then obtain j where "resp_own_item lib p = None" "resp_encode_part lib r p = Some j" "resp_decode_part j = Some p"
    using resp_part_back[of p lib r] by auto
  then show ?case using Cons by simp
qed simp

lemma resp_arguments_back: "resp_args_ok lib v \<Longrightarrow> parse_arguments lib (Some (JStr (stringify_arguments lib v))) = v"
  by (cases v) (auto simp: resp_args_ok_def parse_arguments_def)

lemma resp_summary_text [simp]: "resp_add_texts (Some (resp_summary t)) [] = t"
  by (simp add: resp_add_texts_def resp_summary_def)

lemma resp_add_none [simp]: "resp_add_texts None t = t"
  by (simp add: resp_add_texts_def)

lemma resp_item_back:
  assumes "resp_item_ok lib r p"
  shows "resp_encode_part lib r p = None
    \<and> (\<exists>j. resp_own_item lib p = Some j \<and> (\<forall>ms. resp_decode_item lib j ms = Inr (push_into r p ms)))"
  using assms
proof (cases "(lib, r, p)" rule: resp_item_ok.cases)
  case (1 lib' r' i name v)
  then show ?thesis using assms
    by (simp add: resp_decode_item_def resp_item_kind_def resp_decode_call_def get_either_def resp_arguments_back del: stringify_arguments.simps)
next
  case (2 lib' r' t sig)
  then show ?thesis using assms
    by (simp add: resp_decode_item_def resp_item_kind_def resp_decode_reasoning_item_def map_option_case option_again cong: option.case_cong)
      (cases sig; simp)
next
  case (3 lib' r' p' v)
  then obtain m where m: "v = JObj m" using assms by (cases v) auto
  then show ?thesis using assms 3
    by (simp add: resp_decode_item_def Let_def)
next
  case (4 lib' r' i t)
  then show ?thesis using assms
    by (simp add: resp_decode_item_def resp_item_kind_def resp_tool_output_def resp_result_text_def flatten_text_def)
qed (use assms in auto)

lemma resp_decode_items_append:
  "resp_decode_items lib (xs @ ys) ms = rbind (resp_decode_items lib xs ms) (resp_decode_items lib ys)"
proof (induction xs arbitrary: ms)
  case (Cons x xs)
  then show ?case by (cases "resp_decode_item lib x ms") simp_all
qed simp

lemma push_into_same: "push_into r p (ms @ [message_new r ps]) = ms @ [message_new r (ps @ [p])]"
  by (simp add: push_into_def message_new_def)

lemma resp_items_join:
  "list_all (resp_item_ok lib r) ps \<Longrightarrow>
   resp_decode_items lib (filter_map (resp_own_item lib) ps) (ms @ [message_new r qs]) = Inr (ms @ [message_new r (qs @ ps)])"
proof (induction ps arbitrary: qs)
  case (Cons p ps)
  then obtain j where "resp_own_item lib p = Some j" "\<And>ms. resp_decode_item lib j ms = Inr (push_into r p ms)"
    using resp_item_back[of lib r p] by auto
  then show ?case using Cons by (simp add: push_into_same)
qed simp

lemma resp_items_back:
  assumes "list_all (resp_item_ok lib r) ps" and "ps \<noteq> []" and "ms = [] \<or> msg_role (last ms) \<noteq> r"
  shows "resp_decode_items lib (filter_map (resp_own_item lib) ps) ms = Inr (ms @ [message_new r ps])"
proof -
  obtain p qs where ps: "ps = p # qs" using assms(2) by (cases ps) auto
  then obtain j where "resp_own_item lib p = Some j" "\<And>ms. resp_decode_item lib j ms = Inr (push_into r p ms)"
    using assms(1) resp_item_back[of lib r p] by auto
  moreover have "push_into r p ms = ms @ [message_new r [p]]" using assms(3) by (auto simp: push_into_def)
  ultimately show ?thesis using assms(1) ps resp_items_join[of lib r qs ms "[p]"] by simp
qed

lemma resp_items_no_parts: "list_all (resp_item_ok lib r) ps \<Longrightarrow> filter_map (resp_encode_part lib r) ps = []"
  by (induction ps) (auto dest: resp_item_back)

lemma resp_talk_back:
  "resp_talk_ok lib prev ms \<Longrightarrow> prev = (if acc = [] then None else Some (msg_role (last acc))) \<Longrightarrow>
   resp_decode_items lib (resp_encode_items lib ms) acc = Inr (acc @ ms)"
proof (induction ms arbitrary: prev acc)
  case (Cons m ms)
  have m: "message_new (msg_role m) (msg_content m) = m" using Cons.prems(1) by (simp add: message_new_def)
  have "resp_decode_items lib (resp_encode_message lib m) acc = Inr (acc @ [m])"
  proof (cases "list_all resp_part_ok (msg_content m) \<and> msg_role m \<in> {User, Assistant}")
    case True
    then have parts: "filter_map resp_decode_part (filter_map (resp_encode_part lib (msg_role m)) (msg_content m)) = msg_content m"
      "filter_map (resp_own_item lib) (msg_content m) = []"
      using resp_parts_back[of "msg_content m" lib "msg_role m"] by auto
    then have "filter_map (resp_encode_part lib (msg_role m)) (msg_content m) \<noteq> []" using Cons.prems(1) by auto
    moreover have "resp_item_role (Some (role_str (msg_role m))) = msg_role m" using True by (auto simp: resp_item_role_def)
    ultimately show ?thesis using parts m
      by (simp add: resp_encode_message_def resp_decode_item_def resp_item_kind_def resp_decode_content_def)
  next
    case False
    then have items: "list_all (resp_item_ok lib (msg_role m)) (msg_content m)" "prev \<noteq> Some (msg_role m)" "msg_content m \<noteq> []"
      using Cons.prems(1) by auto
    have "acc = [] \<or> msg_role (last acc) \<noteq> msg_role m" using items(2) Cons.prems(2) by auto
    then show ?thesis using resp_items_back[OF items(1,3)] resp_items_no_parts[OF items(1)] m
      by (simp add: resp_encode_message_def)
  qed
  note one = this
  have "resp_talk_ok lib (Some (msg_role m)) ms" using Cons.prems(1) by simp
  then have "resp_decode_items lib (resp_encode_items lib ms) (acc @ [m]) = Inr ((acc @ [m]) @ ms)"
    by (rule Cons.IH) simp
  moreover have "resp_encode_items lib (m # ms) = resp_encode_message lib m @ resp_encode_items lib ms"
    by (simp add: resp_encode_items_def)
  ultimately show ?case by (simp add: resp_decode_items_append one)
qed (simp add: resp_encode_items_def)

subsection \<open>Extensions\<close>

definition resp_entry_ok :: "string \<times> json \<Rightarrow> bool" where
  "resp_entry_ok e \<longleftrightarrow> prefix resp_ext (fst e) \<and> (let f = fst (ext_field resp_ext e) in
     if f = ''builtin_tools'' then (case snd e of JArr b \<Rightarrow> b \<noteq> [] \<and> list_all resp_is_builtin b | _ \<Rightarrow> False)
     else if f \<in> set resp_stateful then snd e \<noteq> JNull else f \<notin> set resp_known_request)"

definition resp_extensions_ok :: "extensions \<Rightarrow> bool" where
  "resp_extensions_ok ext \<longleftrightarrow> sorted_wrt (<) (map fst ext) \<and> list_all resp_entry_ok ext"

definition resp_carried :: "extensions \<Rightarrow> extensions" where
  "resp_carried ext = filter (\<lambda>e. fst (ext_field resp_ext e) \<noteq> ''builtin_tools'') ext"

lemma resp_put_back_append:
  assumes "\<forall>e \<in> set ext. prefix resp_ext (fst e)" and "distinct (map fst ext)"
    and "\<forall>e \<in> set ext. fst (ext_field resp_ext e) \<notin> set skip \<longrightarrow> fst (ext_field resp_ext e) \<notin> fst ` set body"
  shows "resp_put_back skip ext body =
    body @ map (ext_field resp_ext) (filter (\<lambda>e. fst (ext_field resp_ext e) \<notin> set skip) ext)"
  using assms
proof (induction ext arbitrary: body)
  case (Cons e ext)
  obtain f where f: "fst e = resp_ext @ f" using Cons.prems(1) by (auto simp: prefix_def)
  have field: "ext_field resp_ext e = (f, snd e)" "strip_prefix resp_ext (fst e) = Some f"
    by (simp_all add: ext_field_def strip_prefix_def f)
  have step: "resp_put_back skip (e # ext) body
      = resp_put_back skip ext (if f \<in> set skip then body else map_insert f (snd e) body)"
    by (simp add: resp_put_back_def case_prod_beta field(2))
  show ?case
  proof (cases "f \<in> set skip")
    case True
    then show ?thesis using Cons.IH[of body] Cons.prems unfolding step by (simp add: field)
  next
    case False
    have put: "map_insert f (snd e) body = body @ [(f, snd e)]"
      using Cons.prems(3) False field by (auto simp: map_insert_def al_put_def map_of_eq_None_iff)
    have other: "fst (ext_field resp_ext x) \<noteq> f" if x: "x \<in> set ext" for x
    proof
      assume "fst (ext_field resp_ext x) = f"
      moreover obtain g where "fst x = resp_ext @ g" using Cons.prems(1) x by (auto simp: prefix_def)
      ultimately have "fst x = fst e" by (simp add: ext_field_def f)
      then show False using Cons.prems(2) x by (simp add: image_iff) (metis)
    qed
    then show ?thesis using Cons.IH[of "body @ [(f, snd e)]"] Cons.prems False unfolding step
      by (simp add: field put)
  qed
qed (simp add: resp_put_back_def)

lemma map_of_fields:
  "\<forall>e \<in> set es. prefix pre (fst e) \<Longrightarrow> map_of (map (ext_field pre) es) f = map_of es (pre @ f)"
proof (induction es)
  case (Cons e es)
  obtain g where "fst e = pre @ g" using Cons.prems by (auto simp: prefix_def)
  then show ?case using Cons by (cases e) (simp add: ext_field_def)
qed simp

lemma map_of_filter_field:
  "map_of (filter (\<lambda>e. P (fst (ext_field pre e))) es) (pre @ f) = (if P f then map_of es (pre @ f) else None)"
  by (induction es) (auto simp: ext_field_def)

lemma collect_unknown_filter:
  "collect_unknown pre known obj ext = collect_unknown pre known (filter (\<lambda>e. fst e \<notin> set known) obj) ext"
  by (induction obj arbitrary: ext) (auto simp: collect_unknown_def)

lemma keep_stateful_map:
  "map_of (resp_keep_stateful keys raw ext) k = (case strip_prefix resp_ext k of
     Some f \<Rightarrow> if f \<in> set keys \<and> jget f raw \<notin> {None, Some JNull} then jget f raw else map_of ext k
   | None \<Rightarrow> map_of ext k)"
proof (induction keys arbitrary: ext)
  case (Cons key keys)
  have step: "resp_keep_stateful (key # keys) raw ext = resp_keep_stateful keys raw (case jget key raw of
      Some v \<Rightarrow> if v = JNull then ext else btree_insert (resp_ext @ key) v ext | None \<Rightarrow> ext)"
    by (simp add: resp_keep_stateful_def)
  show ?case unfolding step Cons.IH
    by (auto simp: strip_prefix_def prefix_def split: option.split)
qed (simp add: resp_keep_stateful_def split: option.split)

lemma keep_stateful_sorted:
  "sorted_wrt (<) (map fst ext) \<Longrightarrow> sorted_wrt (<) (map fst (resp_keep_stateful keys raw ext))"
  unfolding resp_keep_stateful_def
  by (induction keys arbitrary: ext) (auto intro: btree_insert_sorted split: option.split)

lemma resp_body_keys: "fst ` set (resp_request_body lib r) \<subseteq> set resp_known_request - set resp_stateful"
  by (simp only: resp_request_body_def Let_def set_append image_Un)
     (intro Un_least keys_within; simp add: resp_known_request_def resp_stateful_def)

definition resp_full :: "codec_lib \<Rightarrow> unified_request \<Rightarrow> jmap" where
  "resp_full lib r = resp_request_body lib r @ map (ext_field resp_ext) (resp_carried (ur_extensions r))"

lemma resp_restored:
  assumes "resp_extensions_ok (ur_extensions r)"
  shows "resp_put_back [''builtin_tools''] (ur_extensions r) (resp_request_body lib r) = resp_full lib r"
proof -
  have "fst (ext_field resp_ext e) \<notin> fst ` set (resp_request_body lib r)"
    if "e \<in> set (ur_extensions r)" "fst (ext_field resp_ext e) \<noteq> ''builtin_tools''" for e
    using assms that resp_body_keys[of lib r]
    by (fastforce simp: resp_extensions_ok_def list_all_iff resp_entry_ok_def Let_def split: if_splits)
  then have "resp_put_back [''builtin_tools''] (ur_extensions r) (resp_request_body lib r) = resp_request_body lib r
      @ map (ext_field resp_ext) (filter (\<lambda>e. fst (ext_field resp_ext e) \<notin> set [''builtin_tools'']) (ur_extensions r))"
    using assms by (intro resp_put_back_append)
      (auto simp: resp_extensions_ok_def strict_sorted_iff list_all_iff resp_entry_ok_def)
  then show ?thesis by (simp add: resp_full_def resp_carried_def)
qed

lemma resp_carried_lookup:
  assumes "resp_extensions_ok (ur_extensions r)"
  shows "map_of (map (ext_field resp_ext) (resp_carried (ur_extensions r))) f
    = (if f = ''builtin_tools'' then None else map_of (ur_extensions r) (resp_ext @ f))"
proof -
  have p: "\<forall>e \<in> set (resp_carried (ur_extensions r)). prefix resp_ext (fst e)"
    using assms by (auto simp: resp_carried_def resp_extensions_ok_def list_all_iff resp_entry_ok_def)
  show ?thesis unfolding map_of_fields[OF p]
    by (simp add: resp_carried_def map_of_filter_field[where P = "\<lambda>f. f \<noteq> ''builtin_tools''"])
qed

lemma resp_entry_lookup:
  assumes "resp_extensions_ok ext" and "map_of ext (resp_ext @ f) = Some v"
  shows "resp_entry_ok (resp_ext @ f, v)"
  using assms map_of_SomeD[OF assms(2)] by (auto simp: resp_extensions_ok_def list_all_iff)

lemma ext_field_pre [simp]: "fst (ext_field pre (pre @ f, v)) = f"
  by (simp add: ext_field_def)

text \<open>A known field that is not carried is the body's.\<close>

lemma resp_full_lookup:
  assumes "resp_extensions_ok (ur_extensions r)" and "k \<in> set resp_known_request" and "k \<notin> set resp_stateful"
  shows "map_of (resp_full lib r) k = map_of (resp_request_body lib r) k"
proof -
  have "map_of (ur_extensions r) (resp_ext @ k) = None \<or> k = ''builtin_tools''"
    using resp_entry_lookup[OF assms(1), of k] assms(2,3)
    by (cases "map_of (ur_extensions r) (resp_ext @ k)") (auto simp: resp_entry_ok_def split: if_splits)
  then have "map_of (map (ext_field resp_ext) (resp_carried (ur_extensions r))) k = None"
    by (auto simp: resp_carried_lookup[OF assms(1)])
  then show ?thesis by (cases "map_of (resp_request_body lib r) k") (simp_all add: resp_full_def)
qed

lemma resp_stateful_lookup:
  assumes "resp_extensions_ok (ur_extensions r)" and "k \<in> set resp_stateful"
  shows "map_of (resp_full lib r) k = map_of (ur_extensions r) (resp_ext @ k)"
proof -
  have "map_of (resp_request_body lib r) k = None" using resp_body_keys[of lib r] assms(2) by (auto simp: map_of_eq_None_iff)
  moreover have "k \<noteq> ''builtin_tools''" using assms(2) by (auto simp: resp_stateful_def)
  ultimately show ?thesis by (simp add: resp_full_def resp_carried_lookup[OF assms(1)])
qed

definition resp_builtins_of :: "extensions \<Rightarrow> json list" where
  "resp_builtins_of ext = (case Option.bind (map_of ext ''responses.builtin_tools'') as_array of Some b \<Rightarrow> b | None \<Rightarrow> [])"

lemma resp_builtins_entry:
  assumes "resp_extensions_ok ext"
  shows "(if resp_builtins_of ext = [] then None else Some (JArr (resp_builtins_of ext))) = map_of ext ''responses.builtin_tools''"
    and "list_all resp_is_builtin (resp_builtins_of ext)"
proof -
  have "map_of ext ''responses.builtin_tools'' = None \<or>
      (\<exists>b. map_of ext ''responses.builtin_tools'' = Some (JArr b) \<and> b \<noteq> [] \<and> list_all resp_is_builtin b)"
  proof (cases "map_of ext ''responses.builtin_tools''")
    case (Some v)
    then have "resp_entry_ok (resp_ext @ ''builtin_tools'', v)"
      by (intro resp_entry_lookup[OF assms]) (simp add: resp_ext_def)
    then show ?thesis using Some by (auto simp: resp_entry_ok_def split: json.splits)
  qed simp
  then show "(if resp_builtins_of ext = [] then None else Some (JArr (resp_builtins_of ext))) = map_of ext ''responses.builtin_tools''"
    "list_all resp_is_builtin (resp_builtins_of ext)"
    by (auto simp: resp_builtins_of_def)
qed

lemma resp_unknown_part:
  assumes "resp_extensions_ok (ur_extensions r)"
  shows "filter (\<lambda>e. fst e \<notin> set resp_known_request) (resp_full lib r) = map (ext_field resp_ext)
    (filter (\<lambda>e. fst (ext_field resp_ext e) \<notin> set resp_known_request) (resp_carried (ur_extensions r)))"
proof -
  have "filter (\<lambda>e. fst e \<notin> set resp_known_request) (resp_request_body lib r) = []"
    using resp_body_keys[of lib r] by (auto simp: filter_empty_conv)
  then show ?thesis by (simp add: resp_full_def filter_map comp_def)
qed

lemma resp_extensions_back:
  assumes "resp_extensions_ok (ur_extensions r)"
  shows "resp_request_ext (JObj (resp_full lib r)) (resp_full lib r) (resp_builtins_of (ur_extensions r)) = ur_extensions r"
proof (rule sorted_maps_eq)
  let ?ext = "ur_extensions r"
  define start where "start = (if resp_builtins_of ?ext = [] then []
      else btree_insert ''responses.builtin_tools'' (JArr (resp_builtins_of ?ext)) ([] :: extensions))"
  define kept where "kept = resp_keep_stateful resp_stateful (JObj (resp_full lib r)) start"
  define others where "others = filter (\<lambda>e. fst (ext_field resp_ext e) \<notin> set resp_known_request) (resp_carried ?ext)"
  show sorted: "sorted_wrt (<) (map fst ?ext)" using assms by (simp add: resp_extensions_ok_def)
  have def: "resp_request_ext (JObj (resp_full lib r)) (resp_full lib r) (resp_builtins_of ?ext)
      = collect_unknown resp_ext resp_known_request (map (ext_field resp_ext) others) kept"
    unfolding resp_request_ext_def kept_def start_def others_def
    by (subst collect_unknown_filter) (simp add: resp_unknown_part[OF assms])
  have "sorted_wrt (<) (map fst start)" by (simp add: start_def)
  then show "sorted_wrt (<) (map fst (resp_request_ext (JObj (resp_full lib r)) (resp_full lib r) (resp_builtins_of ?ext)))"
    unfolding def kept_def by (intro collect_unknown_sorted keep_stateful_sorted)
  have pre: "\<forall>e \<in> set ?ext. prefix resp_ext (fst e)" and dist: "distinct (map fst ?ext)"
    using assms sorted by (auto simp: resp_extensions_ok_def list_all_iff resp_entry_ok_def strict_sorted_iff)
  have d2: "distinct (map fst others)" unfolding others_def resp_carried_def by (intro distinct_map_filter dist)
  have collected: "map_of (collect_unknown resp_ext resp_known_request (map (ext_field resp_ext) others) kept) = map_of kept ++ map_of others"
    using pre d2 by (intro collect_unknown_map) (auto simp: others_def resp_carried_def)
  have others_at: "map_of others (resp_ext @ f)
      = (if f \<in> set resp_known_request \<or> f = ''builtin_tools'' then None else map_of ?ext (resp_ext @ f))" for f
    unfolding others_def resp_carried_def filter_filter
    by (simp add: map_of_filter_field[where P = "\<lambda>f. f \<noteq> ''builtin_tools'' \<and> f \<notin> set resp_known_request"])
  have start_at: "map_of start k = (if k = ''responses.builtin_tools'' then map_of ?ext ''responses.builtin_tools'' else None)" for k
    using resp_builtins_entry(1)[OF assms] by (auto simp: start_def)
  show "map_of (resp_request_ext (JObj (resp_full lib r)) (resp_full lib r) (resp_builtins_of ?ext)) = map_of ?ext"
    unfolding def collected
  proof
    fix k
    show "(map_of kept ++ map_of others) k = map_of ?ext k"
    proof (cases "prefix resp_ext k")
      case False
      have "k \<notin> fst ` set ?ext" using False pre by auto
      then have "map_of ?ext k = None" "map_of others k = None"
        by (auto simp: map_of_eq_None_iff others_def resp_carried_def)
      moreover have "map_of kept k = None"
        using False by (auto simp: kept_def keep_stateful_map strip_prefix_def start_at resp_ext_def)
      ultimately show ?thesis by simp
    next
      case True
      then obtain f where k: "k = resp_ext @ f" by (auto simp: prefix_def)
      have key: "k = ''responses.builtin_tools'' \<longleftrightarrow> f = ''builtin_tools''" by (simp add: k resp_ext_def)
      consider "f \<in> set resp_stateful" | "f = ''builtin_tools''" | "f \<in> set resp_known_request" "f \<notin> set resp_stateful"
        | "f \<notin> set resp_known_request" "f \<noteq> ''builtin_tools''" "f \<notin> set resp_stateful" by blast
      then show ?thesis
      proof cases
        case 1
        then have "f \<in> set resp_known_request" "f \<noteq> ''builtin_tools''"
          by (auto simp: resp_stateful_def resp_known_request_def)
        moreover have "map_of ?ext k \<noteq> Some JNull"
          using resp_entry_lookup[OF assms, of f JNull] 1 calculation(2) by (auto simp: k resp_entry_ok_def)
        ultimately show ?thesis using 1 resp_stateful_lookup[OF assms 1, of lib] key[unfolded k]
          by (auto simp: k others_at kept_def keep_stateful_map strip_prefix_def start_at split: option.split)
      next
        case 2
        then show ?thesis using key
          by (simp add: k others_at kept_def keep_stateful_map strip_prefix_def start_at resp_stateful_def)
            (simp add: resp_ext_def)
      next
        case 3
        have "map_of ?ext k = None"
          using resp_entry_lookup[OF assms, of f] 3
          by (cases "map_of ?ext k") (auto simp: k resp_entry_ok_def resp_known_request_def split: if_splits)
        then show ?thesis using 3 key
          by (auto simp: k others_at kept_def keep_stateful_map strip_prefix_def start_at)
      next
        case 4
        then show ?thesis using key
          by (auto simp: k others_at kept_def keep_stateful_map strip_prefix_def start_at split: option.split)
      qed
    qed
  qed
qed

subsection \<open>The whole request\<close>

definition resp_tool_ok :: "tool_def \<Rightarrow> bool" where
  "resp_tool_ok t \<longleftrightarrow> td_name t \<noteq> [] \<and> td_parameters t \<noteq> JNull"

definition resp_sampling_ok :: "sampling \<Rightarrow> bool" where
  "resp_sampling_ok s \<longleftrightarrow> s = sampling_default\<lparr>sa_temperature := sa_temperature s, sa_top_p := sa_top_p s\<rparr>
     \<and> list_all (\<lambda>x. case x of Some y \<Rightarrow> finite_f64 y | None \<Rightarrow> True) [sa_temperature s, sa_top_p s]"

definition resp_reasoning_ok :: "reasoning_config option \<Rightarrow> bool" where
  "resp_reasoning_ok r \<longleftrightarrow> (case r of None \<Rightarrow> True
     | Some c \<Rightarrow> rc_budget_tokens c = None \<and> rc_effort c \<in> {None, Some ''minimal'', Some ''low'', Some ''medium'', Some ''high''}
         \<and> (rc_effort c \<noteq> None \<or> rc_include_thoughts c \<noteq> None))"

definition resp_request_ok :: "codec_lib \<Rightarrow> unified_request \<Rightarrow> bool" where
  "resp_request_ok lib r \<longleftrightarrow> ur_model r \<noteq> []
     \<and> (case ur_system r of [] \<Rightarrow> True | [TextPart s] \<Rightarrow> True | _ \<Rightarrow> False)
     \<and> resp_talk_ok lib None (ur_messages r) \<and> list_all (\<lambda>m. msg_role m \<noteq> System) (ur_messages r)
     \<and> list_all resp_tool_ok (ur_tools r) \<and> resp_sampling_ok (ur_sampling r)
     \<and> (ur_stream_include_usage r = ur_stream r) \<and> resp_reasoning_ok (ur_reasoning r)
     \<and> resp_extensions_ok (ur_extensions r)"

lemma resp_tool_back: "resp_tool_ok t \<Longrightarrow> resp_decode_tool (resp_encode_tool t) = Some t \<and> \<not> resp_is_builtin (resp_encode_tool t)"
  by (cases t) (auto simp: resp_tool_ok_def resp_decode_tool_def resp_encode_tool_def resp_is_builtin_def
      map_option_case option_again Let_def cong: option.case_cong split: option.splits)

lemma resp_tools_back:
  assumes "list_all resp_tool_ok ts" and "list_all resp_is_builtin bs"
  shows "resp_decode_tools (map resp_encode_tool ts @ bs) = (ts, bs)"
proof -
  have "filter_map resp_decode_tool bs = []" using assms(2) by (induction bs) (simp_all add: resp_decode_tool_def)
  moreover have "filter_map resp_decode_tool (map resp_encode_tool ts) = ts" "filter resp_is_builtin (map resp_encode_tool ts) = []"
    using assms(1) by (induction ts) (simp_all add: resp_tool_back)
  moreover have "filter resp_is_builtin bs = bs" using assms(2) by (simp add: filter_id_conv list_all_iff)
  ultimately show ?thesis by (simp add: resp_decode_tools_def)
qed

lemma resp_choice_back: "(case resp_encode_choice c of Some v \<Rightarrow> resp_decode_choice v | None \<Rightarrow> Unspecified) = c"
  by (cases c) (simp_all add: resp_decode_choice_def)

lemma resp_format_back: "resp_decode_format (resp_encode_format f) = Some f"
  by (cases f) (simp_all add: resp_decode_format_def)

lemma resp_u32_back: "Option.bind (map_option (\<lambda>n. jnat (unat n)) x) as_u32 = x"
proof (cases x)
  case (Some w)
  have "unat w < 2 ^ 32" using unsigned_less[of w] by simp
  then show ?thesis using Some by (simp add: as_u32_def)
qed simp

lemma resp_reasoning_back:
  assumes "resp_reasoning_ok c"
  shows "Option.bind (Option.bind c (resp_encode_reasoning m)) resp_decode_reasoning = c"
proof (cases c)
  case (Some k)
  have eff: "effort_or_from_budget m k = rc_effort k"
    using assms Some by (auto simp: resp_reasoning_ok_def effort_or_from_budget_def)
  define m1 where "m1 = if_some ''effort'' (rc_effort k) JStr
      @ if_some ''summary'' (rc_include_thoughts k) (\<lambda>b. JStr (if b then ''auto'' else ''none''))"
  have fields: "get_str ''effort'' (JObj m1) = rc_effort k"
    "map_option (\<lambda>s. s \<noteq> ''none'') (get_str ''summary'' (JObj m1)) = rc_include_thoughts k"
    by (cases "rc_effort k"; cases "rc_include_thoughts k"; simp add: m1_def)+
  have some: "\<not> (rc_effort k = None \<and> rc_include_thoughts k = None)" "rc_budget_tokens k = None"
    using assms Some by (auto simp: resp_reasoning_ok_def)
  then have "m1 \<noteq> []" by (cases "rc_effort k"; cases "rc_include_thoughts k"; simp add: m1_def if_some_def)
  then have "resp_encode_reasoning m k = Some (JObj m1)" by (simp add: resp_encode_reasoning_def eff m1_def)
  then show ?thesis using some unfolding Some bind.simps
    by (simp only: bind.simps resp_decode_reasoning_def Let_def fields if_False) (cases k; simp)
qed simp

lemma resp_body_fields:
  "map_of (resp_request_body lib r) ''model'' = Some (JStr (ur_model r))"
  "map_of (resp_request_body lib r) ''instructions'' = (if ur_system r = [] then None else Some (JStr (system_text r)))"
  "map_of (resp_request_body lib r) ''input'' = Some (JArr (resp_encode_items lib (ur_messages r)))"
  "map_of (resp_request_body lib r) ''stream'' = (if ur_stream r then Some (JBool True) else None)"
  "map_of (resp_request_body lib r) ''max_output_tokens'' = map_option (\<lambda>n. jnat (unat n)) (ur_max_output_tokens r)"
  "map_of (resp_request_body lib r) ''temperature'' = map_option jfloat (sa_temperature (ur_sampling r))"
  "map_of (resp_request_body lib r) ''top_p'' = map_option jfloat (sa_top_p (ur_sampling r))"
  "map_of (resp_request_body lib r) ''parallel_tool_calls'' = map_option JBool (ur_parallel_tool_calls r)"
  "map_of (resp_request_body lib r) ''user'' = map_option JStr (ur_user r)"
  "map_of (resp_request_body lib r) ''tools'' = (if resp_tools_json r = [] then None else Some (JArr (resp_tools_json r)))"
  "map_of (resp_request_body lib r) ''tool_choice'' = resp_encode_choice (ur_tool_choice r)"
  "map_of (resp_request_body lib r) ''text'' = map_option (\<lambda>f. JObj [(''format'', resp_encode_format f)]) (ur_response_format r)"
  "map_of (resp_request_body lib r) ''reasoning'' = Option.bind (ur_reasoning r) (resp_encode_reasoning (ur_max_output_tokens r))"
  by (simp_all add: resp_request_body_def Let_def map_option_case option_again cong: option.case_cong)

text \<open>\<open>C26\<close>. A request in Responses form loses nothing: written for a Responses upstream and read again it is
  the same request, with every call and result, the reasoning and its encrypted content,
  the functions and the built-in tools, and what the upstream keeps for the client.\<close>

theorem resp_request_roundtrip:
  assumes "resp_request_ok lib r"
  shows "rbind (resp_encode_request lib r) (resp_decode_request lib) = Inr r"
proof -
  define full where "full = resp_full lib r"
  have ok: "resp_extensions_ok (ur_extensions r)" "ur_model r \<noteq> []" "resp_talk_ok lib None (ur_messages r)"
    "resp_sampling_ok (ur_sampling r)" "ur_stream_include_usage r = ur_stream r"
    using assms by (simp_all add: resp_request_ok_def)
  have f: "map_of full k = map_of (resp_request_body lib r) k" if "k \<in> set resp_known_request" "k \<notin> set resp_stateful" for k
    unfolding full_def by (rule resp_full_lookup[OF ok(1) that])
  note fs = f[unfolded resp_known_request_def resp_stateful_def] resp_body_fields
  have enc: "resp_encode_request lib r = Inr (JObj full)"
    by (simp add: resp_encode_request_def resp_restored[OF ok(1)] full_def)
  have ms: "resp_decode_items lib (resp_encode_items lib (ur_messages r)) [] = Inr (ur_messages r)"
    using resp_talk_back[OF ok(3), of "[]"] by simp
  have talk: "resp_talk_of (ur_messages r) = ur_messages r" "resp_system_of (ur_messages r) = []"
    using assms by (auto simp: resp_request_ok_def resp_talk_of_def resp_system_of_def list_all_iff filter_id_conv filter_empty_conv)
  have sys: "(case get_str ''instructions'' (JObj full) of Some t \<Rightarrow> [TextPart t] | None \<Rightarrow> []) = ur_system r"
    using assms by (cases "ur_system r") (auto simp: fs resp_request_ok_def system_text_def split: content_part.splits list.splits)
  have built: "(case Option.bind (req_extension r ''responses.builtin_tools'') as_array of Some b \<Rightarrow> b | None \<Rightarrow> [])
      = resp_builtins_of (ur_extensions r)"
    by (simp add: resp_builtins_of_def req_extension_def)
  have "(case get_array ''tools'' (JObj full) of Some ts \<Rightarrow> ts | None \<Rightarrow> []) = resp_tools_json r"
    by (simp add: fs)
  then have tools: "resp_decode_tools (case get_array ''tools'' (JObj full) of Some ts \<Rightarrow> ts | None \<Rightarrow> [])
      = (ur_tools r, resp_builtins_of (ur_extensions r))"
    using resp_tools_back[OF _ resp_builtins_entry(2)[OF ok(1)], of "ur_tools r"] assms
    by (simp add: resp_tools_json_def built resp_request_ok_def)
  have exts: "resp_request_ext (JObj full) full (resp_builtins_of (ur_extensions r)) = ur_extensions r"
    unfolding full_def by (rule resp_extensions_back[OF ok(1)])
  have heads: "get_nonempty ''model'' (JObj full) = Some (ur_model r)"
    "map_of full ''input'' = Some (JArr (resp_encode_items lib (ur_messages r)))"
    "get_bool ''stream'' (JObj full) = Some True \<longleftrightarrow> ur_stream r"
    "get_bool ''parallel_tool_calls'' (JObj full) = ur_parallel_tool_calls r" "get_str ''user'' (JObj full) = ur_user r"
    using ok(2) by (simp_all add: get_nonempty_def fs)
  have sampling: "sampling_default\<lparr>sa_temperature := get_f64 ''temperature'' (JObj full), sa_top_p := get_f64 ''top_p'' (JObj full)\<rparr>
      = ur_sampling r"
    using ok(4) by (simp add: fs resp_sampling_ok_def bind_back_f64)
  have limit: "Option.bind (jget ''max_output_tokens'' (JObj full)) as_u32 = ur_max_output_tokens r"
    by (simp add: fs resp_u32_back)
  have reasoning: "Option.bind (jget ''reasoning'' (JObj full)) resp_decode_reasoning = ur_reasoning r"
    using resp_reasoning_back[of "ur_reasoning r"] assms by (simp add: fs resp_request_ok_def)
  have format: "Option.bind (get_in ''text'' ''format'' (JObj full)) resp_decode_format = ur_response_format r"
    by (cases "ur_response_format r") (simp_all add: get_in_def fs resp_format_back)
  have choice: "(case jget ''tool_choice'' (JObj full) of Some c \<Rightarrow> resp_decode_choice c | None \<Rightarrow> Unspecified) = ur_tool_choice r"
    by (simp add: fs resp_choice_back)
  show ?thesis
    by (simp add: enc resp_decode_request_def resp_input_def Let_def heads ms talk sys tools exts sampling limit reasoning
        format choice ok(5) request_new_def del: jget.simps field_simps)
qed

definition resp_talk :: unified_request where
  "resp_talk = (request_new ''gpt'' [
     message_new User [TextPart ''look'', ImagePart (Base64 ''QUJD'') (Some ''image/png'') (Some ''low'')],
     message_new Assistant [ThinkingPart ''hm'' (Some ''enc''), ToolUsePart ''c1'' ''scan'' (JObj []) None],
     message_new Tool [ToolResult ''c1'' None [TextPart ''a cat''] False],
     message_new Assistant [TextPart ''a cat, I think'']])
     \<lparr>ur_system := [TextPart ''be brief''], ur_stream := True, ur_stream_include_usage := True,
       ur_reasoning := Some \<lparr>rc_effort = Some ''low'', rc_budget_tokens = None, rc_include_thoughts = Some True\<rparr>,
       ur_extensions := [(''responses.background'', JBool True), (''responses.store'', JBool False)]\<rparr>"

theorem resp_request_roundtrip_witness:
  "rbind (resp_encode_request tiny_codec_lib resp_talk) (resp_decode_request tiny_codec_lib) = Inr resp_talk"
proof (rule resp_request_roundtrip)
  have t: "trim ''{}'' \<noteq> []" by code_simp
  have "resp_extensions_ok (ur_extensions resp_talk)" by code_simp
  then show "resp_request_ok tiny_codec_lib resp_talk"
    by (simp add: resp_request_ok_def resp_talk_def request_new_def message_new_def mime_ok_def resp_args_ok_def
        tiny_codec_lib_def t resp_sampling_ok_def sampling_default_def resp_reasoning_ok_def)
qed

text \<open>What an assistant says before it calls a tool stands behind the call in the items.\<close>

lemma resp_text_behind_call:
  "map (get_str ''type'') (resp_encode_message tiny_codec_lib
     (message_new Assistant [TextPart ''let me look'', ToolUsePart ''c1'' ''scan'' (JObj []) None]))
   = [Some ''function_call'', Some ''message'']"
  by (simp add: resp_encode_message_def message_new_def)

end
