(* ===== verification/Responses_Response.thy ===== *)
theory Responses_Response
  imports Responses_Roundtrip
begin

section \<open>OpenAI Responses: responses\<close>

text \<open>
  The response half of \<open>crates/refract-protocol/src/codec/responses.rs\<close>: the items of an answer, its
  status as the reason it stopped for, usage and error bodies.
\<close>

definition resp_output_item :: "codec_lib \<Rightarrow> json \<Rightarrow> content_part list" where
  "resp_output_item lib item = (if as_object item = None then []
     else let kind = str_or [] (get_str ''type'' item)
          in if kind = ''message'' then (case get_array ''content'' item of Some ps \<Rightarrow> filter_map resp_decode_part ps | None \<Rightarrow> [])
             else if kind = ''function_call'' then [resp_decode_call lib item]
             else if kind = ''reasoning'' then [resp_decode_reasoning_item item]
             else [Opaque ''responses'' item])"

definition resp_decode_output :: "codec_lib \<Rightarrow> json list \<Rightarrow> content_part list" where
  "resp_decode_output lib items = concat (map (resp_output_item lib) items)"

definition resp_map_status :: "string \<Rightarrow> string option \<Rightarrow> bool \<Rightarrow> bool \<Rightarrow> stop_reason" where
  "resp_map_status status reason has_call has_refusal = (
     if status = ''incomplete'' then
       (if reason \<in> {Some ''max_output_tokens'', Some ''max_tokens''} then MaxTokens
        else if reason = Some ''content_filter'' then ContentFilter else OtherStop)
     else if status \<in> {''failed'', ''cancelled'', ''queued'', ''in_progress''} then OtherStop
     else if has_call then ToolUseStop else if has_refusal then RefusalStop else Stop)"

fun resp_status_str :: "stop_reason \<Rightarrow> string" where
  "resp_status_str MaxTokens = ''incomplete''"
| "resp_status_str ContentFilter = ''incomplete''"
| "resp_status_str _ = ''completed''"

fun resp_incomplete_details :: "stop_reason \<Rightarrow> json option" where
  "resp_incomplete_details MaxTokens = Some (JObj [(''reason'', JStr ''max_output_tokens'')])"
| "resp_incomplete_details ContentFilter = Some (JObj [(''reason'', JStr ''content_filter'')])"
| "resp_incomplete_details _ = None"

definition resp_decode_usage :: "json \<Rightarrow> usage" where
  "resp_decode_usage v = (
     let num = (\<lambda>n. case n of Some x \<Rightarrow> x | None \<Rightarrow> 0);
         inner = (\<lambda>a b. num (Option.bind (get_in a b v) as_u64))
     in \<lparr>us_input_tokens = num (get_u64 ''input_tokens'' v), us_output_tokens = num (get_u64 ''output_tokens'' v),
         us_cached_input_tokens = inner ''input_tokens_details'' ''cached_tokens'',
         us_cache_write_tokens = inner ''input_tokens_details'' ''cache_write_tokens'',
         us_reasoning_tokens = inner ''output_tokens_details'' ''reasoning_tokens''\<rparr>)"

definition resp_encode_usage :: "usage \<Rightarrow> json" where
  "resp_encode_usage u = JObj [(''input_tokens'', jnat (us_input_tokens u)),
     (''input_tokens_details'', JObj [(''cached_tokens'', jnat (us_cached_input_tokens u)),
        (''cache_write_tokens'', jnat (us_cache_write_tokens u))]),
     (''output_tokens'', jnat (us_output_tokens u)),
     (''output_tokens_details'', JObj [(''reasoning_tokens'', jnat (us_reasoning_tokens u))]),
     (''total_tokens'', jnat (usage_total u))]"

definition resp_error_kind :: "string \<Rightarrow> error_kind" where
  "resp_error_kind kind = (
     if kind \<in> {''invalid_request_error'', ''invalid_prompt''} then InvalidRequest
     else if kind = ''authentication_error'' then Unauthenticated
     else if kind \<in> {''not_found_error'', ''model_not_found''} then NotFound
     else if kind \<in> {''rate_limit_exceeded'', ''rate_limit_error''} then RateLimited else UpstreamError)"

definition resp_decode_error :: "codec_lib \<Rightarrow> json \<Rightarrow> gateway_error" where
  "resp_decode_error lib err = (
     let kind = (case get_str ''type'' err of Some k \<Rightarrow> k | None \<Rightarrow> str_or [] (get_str ''code'' err))
     in (with_protocol Responses (gateway_error_new (resp_error_kind kind)
          (str_or ''upstream returned an error without a message'' (get_str ''message'' err))))
        \<lparr>ge_upstream_body := Some (cl_print lib err)\<rparr>)"

definition resp_kept :: "string list" where
  "resp_kept = [''previous_response_id'', ''store'', ''conversation'']"

definition resp_read_response :: "codec_lib \<Rightarrow> int \<Rightarrow> json \<Rightarrow> unified_response" where
  "resp_read_response lib now raw = (
     let content = resp_decode_output lib (case get_array ''output'' raw of Some items \<Rightarrow> items | None \<Rightarrow> []);
         reason = Option.bind (get_in ''incomplete_details'' ''reason'' raw) as_str
     in (response_new (str_or [] (get_str ''id'' raw)) (str_or [] (get_str ''model'' raw))
           (case Option.bind (jget ''created_at'' raw) as_i64 of Some t \<Rightarrow> t | None \<Rightarrow> now))
        \<lparr>rs_content := content,
         rs_stop_reason := Some (resp_map_status (str_or ''completed'' (get_str ''status'' raw)) reason
           (list_ex (\<lambda>p. case p of ToolUsePart _ _ _ _ \<Rightarrow> True | _ \<Rightarrow> False) content) (list_ex is_refusal content)),
         rs_usage := (case jget ''usage'' raw of Some u \<Rightarrow> resp_decode_usage u | None \<Rightarrow> usage_default),
         rs_extensions := resp_keep_stateful resp_kept raw []\<rparr>)"

text \<open>A response may stand inside another one, as in the last event of a stream.\<close>

definition non_null :: "json option \<Rightarrow> json option" where
  "non_null v = (if v = Some JNull then None else v)"

function resp_decode_response :: "codec_lib \<Rightarrow> int \<Rightarrow> json \<Rightarrow> gateway_error + unified_response" where
  "resp_decode_response lib now raw = (case as_object raw of
     None \<Rightarrow> Inl (ge_invalid_request ''response body must be a JSON object'')
   | Some obj \<Rightarrow> (case non_null (map_of obj ''error'') of
     Some err \<Rightarrow> Inl (resp_decode_error lib err)
   | None \<Rightarrow> (case Option.bind (map_of obj ''response'') as_object of
     Some inner \<Rightarrow> resp_decode_response lib now (JObj inner)
   | None \<Rightarrow> Inr (resp_read_response lib now raw))))"
  by pat_completeness auto

lemma as_object_Some: "as_object v = Some m \<longleftrightarrow> v = JObj m"
  by (cases v) auto

termination resp_decode_response
  by (relation "measure (\<lambda>(_, _, v). size v)") (auto simp: as_object_Some bind_eq_Some_conv dest: map_of_size)

declare resp_decode_response.simps [simp del]

fun resp_output_own :: "codec_lib \<Rightarrow> string \<Rightarrow> content_part \<Rightarrow> json option" where
  "resp_output_own lib rid (ToolUsePart i name input _) = Some (JObj [(''type'', JStr ''function_call''),
     (''id'', JStr (''fc_'' @ i)), (''call_id'', JStr i), (''name'', JStr name),
     (''arguments'', JStr (stringify_arguments lib input)), (''status'', JStr ''completed'')])"
| "resp_output_own lib rid (ThinkingPart t sig) = Some (JObj ([(''type'', JStr ''reasoning''), (''id'', JStr (''rs_'' @ rid)),
     (''summary'', resp_summary t)] @ if_some ''encrypted_content'' sig JStr))"
| "resp_output_own lib rid (RedactedThinking d) = Some (JObj [(''type'', JStr ''reasoning''), (''id'', JStr (''rs_'' @ rid)),
     (''summary'', JArr []), (''encrypted_content'', JStr d)])"
| "resp_output_own lib rid (Opaque p v) = (if p = ''responses'' then Some v else None)"
| "resp_output_own lib rid _ = None"

fun resp_output_shown :: "content_part \<Rightarrow> json option" where
  "resp_output_shown (TextPart t) = Some (JObj [(''type'', JStr ''output_text''), (''text'', JStr t), (''annotations'', JArr [])])"
| "resp_output_shown (RefusalPart t) = Some (JObj [(''type'', JStr ''refusal''), (''refusal'', JStr t)])"
| "resp_output_shown _ = None"

definition resp_encode_output :: "codec_lib \<Rightarrow> unified_response \<Rightarrow> json list" where
  "resp_encode_output lib r = (
     let parts = filter_map resp_output_shown (rs_content r)
     in filter_map (resp_output_own lib (rs_id r)) (rs_content r)
        @ (if parts = [] then [] else [JObj [(''type'', JStr ''message''), (''id'', JStr (''msg_'' @ rs_id r)),
             (''role'', JStr ''assistant''), (''status'', JStr ''completed''), (''content'', JArr parts)]]))"

definition resp_response_body :: "codec_lib \<Rightarrow> unified_response \<Rightarrow> jmap" where
  "resp_response_body lib r = (let reason = (case rs_stop_reason r of Some s \<Rightarrow> s | None \<Rightarrow> Stop) in
     [(''id'', JStr (rs_id r)), (''object'', JStr ''response''), (''created_at'', JNum (JInt (rs_created r))),
      (''model'', JStr (rs_model r)), (''status'', JStr (resp_status_str reason)),
      (''output'', JArr (resp_encode_output lib r)), (''output_text'', JStr (response_text r)),
      (''parallel_tool_calls'', JBool True), (''tool_choice'', JStr ''auto''), (''tools'', JArr []),
      (''usage'', resp_encode_usage (rs_usage r)),
      (''incomplete_details'', case resp_incomplete_details reason of Some d \<Rightarrow> d | None \<Rightarrow> JNull), (''error'', JNull)]
     @ if_some ''metadata'' (rs_stop_sequence r) (\<lambda>s. JObj [(''stop_sequence'', JStr s)]))"

definition resp_encode_response :: "codec_lib \<Rightarrow> unified_response \<Rightarrow> gateway_error + json" where
  "resp_encode_response lib r = Inr (JObj (resp_put_back [] (rs_extensions r) (resp_response_body lib r)))"

subsection \<open>Responses go round\<close>

fun resp_own_ok :: "codec_lib \<Rightarrow> content_part \<Rightarrow> bool" where
  "resp_own_ok lib (ToolUsePart i name v None) = resp_args_ok lib v"
| "resp_own_ok lib (ThinkingPart _ _) = True"
| "resp_own_ok lib (Opaque p v) = (p = ''responses'' \<and> as_object v \<noteq> None
     \<and> str_or [] (get_str ''type'' v) \<notin> {''message'', ''function_call'', ''reasoning''})"
| "resp_own_ok lib _ = False"

fun resp_shown_ok :: "content_part \<Rightarrow> bool" where
  "resp_shown_ok (TextPart _) = True"
| "resp_shown_ok (RefusalPart _) = True"
| "resp_shown_ok _ = False"

definition resp_content_ok :: "codec_lib \<Rightarrow> content_part list \<Rightarrow> bool" where
  "resp_content_ok lib ps \<longleftrightarrow> list_all (resp_own_ok lib) (takeWhile (\<lambda>p. \<not> resp_shown_ok p) ps)
     \<and> list_all resp_shown_ok (dropWhile (\<lambda>p. \<not> resp_shown_ok p) ps)"

definition resp_calls :: "content_part list \<Rightarrow> bool" where
  "resp_calls ps \<longleftrightarrow> list_ex (\<lambda>p. case p of ToolUsePart _ _ _ _ \<Rightarrow> True | _ \<Rightarrow> False) ps"

definition resp_reason_ok :: "unified_response \<Rightarrow> bool" where
  "resp_reason_ok r \<longleftrightarrow> rs_stop_sequence r = None \<and> rs_stop_reason r \<in> {Some MaxTokens, Some ContentFilter,
     Some (resp_map_status ''completed'' None (resp_calls (rs_content r)) (list_ex is_refusal (rs_content r)))}"

definition resp_response_ext_ok :: "extensions \<Rightarrow> bool" where
  "resp_response_ext_ok ext \<longleftrightarrow> sorted_wrt (<) (map fst ext)
     \<and> list_all (\<lambda>e. prefix resp_ext (fst e) \<and> fst (ext_field resp_ext e) \<in> set resp_kept \<and> snd e \<noteq> JNull) ext"

definition resp_response_ok :: "codec_lib \<Rightarrow> unified_response \<Rightarrow> bool" where
  "resp_response_ok lib r \<longleftrightarrow> resp_content_ok lib (rs_content r) \<and> resp_reason_ok r
     \<and> - (2 ^ 63) \<le> rs_created r \<and> rs_created r < 2 ^ 63
     \<and> list_all (\<lambda>n. n < 2 ^ 64) [us_input_tokens (rs_usage r), us_output_tokens (rs_usage r),
          us_cached_input_tokens (rs_usage r), us_cache_write_tokens (rs_usage r), us_reasoning_tokens (rs_usage r)]
     \<and> resp_response_ext_ok (rs_extensions r)"

lemma resp_own_back:
  "resp_own_ok lib p \<Longrightarrow> resp_output_shown p = None
    \<and> (\<exists>j. resp_output_own lib rid p = Some j \<and> resp_output_item lib j = [p])"
proof (induction lib p rule: resp_own_ok.induct)
  case (1 lib i name v)
  then show ?case by (simp add: resp_output_item_def resp_decode_call_def get_either_def resp_arguments_back
      del: stringify_arguments.simps)
next
  case (2 lib t sig)
  then show ?case
    by (cases sig) (simp_all add: resp_output_item_def resp_decode_reasoning_item_def)
next
  case (3 lib p v)
  then obtain m where "v = JObj m" by (cases v) auto
  then show ?case using 3 by (simp add: resp_output_item_def Let_def)
qed simp_all

lemma resp_owns_back:
  "list_all (resp_own_ok lib) ps \<Longrightarrow> filter_map resp_output_shown ps = []
    \<and> resp_decode_output lib (filter_map (resp_output_own lib rid) ps) = ps"
proof (induction ps)
  case (Cons p ps)
  then obtain j where "resp_output_shown p = None" "resp_output_own lib rid p = Some j" "resp_output_item lib j = [p]"
    using resp_own_back[of lib p rid] by auto
  then show ?case using Cons by (simp add: resp_decode_output_def)
qed (simp add: resp_decode_output_def)

lemma resp_shown_back:
  "list_all resp_shown_ok ps \<Longrightarrow> filter_map (resp_output_own lib rid) ps = []
    \<and> filter_map resp_decode_part (filter_map resp_output_shown ps) = ps"
proof (induction ps)
  case (Cons p ps)
  then show ?case by (cases p) (simp_all add: resp_decode_part_def)
qed simp

lemma resp_output_back:
  assumes "resp_content_ok lib (rs_content r)"
  shows "resp_decode_output lib (resp_encode_output lib r) = rs_content r"
proof -
  define own where "own = takeWhile (\<lambda>p. \<not> resp_shown_ok p) (rs_content r)"
  define shown where "shown = dropWhile (\<lambda>p. \<not> resp_shown_ok p) (rs_content r)"
  have content: "rs_content r = own @ shown" by (simp add: own_def shown_def)
  have own: "filter_map resp_output_shown own = []" "resp_decode_output lib (filter_map (resp_output_own lib (rs_id r)) own) = own"
    using assms resp_owns_back[of lib own] by (simp_all add: resp_content_ok_def own_def)
  have shown: "filter_map (resp_output_own lib (rs_id r)) shown = []"
    "filter_map resp_decode_part (filter_map resp_output_shown shown) = shown"
    using assms resp_shown_back[of shown lib] by (simp_all add: resp_content_ok_def shown_def)
  have "filter_map resp_output_shown shown = [] \<longleftrightarrow> shown = []"
    using shown(2) filter_map.simps(1) by metis
  then show ?thesis using own shown unfolding resp_encode_output_def content Let_def
    by (simp add: resp_decode_output_def resp_output_item_def)
qed

lemma resp_usage_back:
  "list_all (\<lambda>n. n < 2 ^ 64) [us_input_tokens u, us_output_tokens u, us_cached_input_tokens u, us_cache_write_tokens u,
     us_reasoning_tokens u] \<Longrightarrow> resp_decode_usage (resp_encode_usage u) = u"
  by (cases u) (simp add: resp_decode_usage_def resp_encode_usage_def get_in_def Let_def)

lemma resp_status_back:
  assumes "resp_reason_ok r"
  shows "Some (resp_map_status (resp_status_str (the (rs_stop_reason r)))
      (Option.bind (case resp_incomplete_details (the (rs_stop_reason r)) of Some d \<Rightarrow> jget ''reason'' d | None \<Rightarrow> None) as_str)
      (resp_calls (rs_content r)) (list_ex is_refusal (rs_content r))) = rs_stop_reason r"
  using assms by (auto simp: resp_reason_ok_def resp_map_status_def)

definition resp_body_keys_all :: "string list" where
  "resp_body_keys_all = [''id'', ''object'', ''created_at'', ''model'', ''status'', ''output'', ''output_text'',
     ''parallel_tool_calls'', ''tool_choice'', ''tools'', ''usage'', ''incomplete_details'', ''error'', ''metadata'']"

lemma resp_response_keys: "fst ` set (resp_response_body lib r) \<subseteq> set resp_body_keys_all"
  using keys_if_some[of "''metadata''" "rs_stop_sequence r" "\<lambda>s. JObj [(''stop_sequence'', JStr s)]"]
  by (auto simp: resp_response_body_def resp_body_keys_all_def Let_def)

lemma resp_response_restored:
  assumes "resp_response_ext_ok ext"
  shows "resp_put_back [] ext (resp_response_body lib r) = resp_response_body lib r @ map (ext_field resp_ext) ext"
proof -
  have "fst (ext_field resp_ext e) \<notin> fst ` set (resp_response_body lib r)" if "e \<in> set ext" for e
    using assms that resp_response_keys[of lib r]
    by (fastforce simp: resp_response_ext_ok_def list_all_iff resp_kept_def resp_body_keys_all_def)
  then show ?thesis using assms
    by (subst resp_put_back_append) (auto simp: resp_response_ext_ok_def strict_sorted_iff list_all_iff)
qed

lemma resp_response_ext_back:
  assumes "resp_response_ext_ok ext"
  shows "resp_keep_stateful resp_kept (JObj (resp_response_body lib r @ map (ext_field resp_ext) ext)) [] = ext"
proof (rule sorted_maps_eq)
  show "sorted_wrt (<) (map fst ext)" using assms by (simp add: resp_response_ext_ok_def)
  show "sorted_wrt (<) (map fst (resp_keep_stateful resp_kept (JObj (resp_response_body lib r @ map (ext_field resp_ext) ext)) []))"
    by (rule keep_stateful_sorted) simp
  have pre: "\<forall>e \<in> set ext. prefix resp_ext (fst e)" using assms by (auto simp: resp_response_ext_ok_def list_all_iff)
  show "map_of (resp_keep_stateful resp_kept (JObj (resp_response_body lib r @ map (ext_field resp_ext) ext)) []) = map_of ext"
  proof
    fix k
    have entry: "fst (ext_field resp_ext (k, v)) \<in> set resp_kept \<and> v \<noteq> JNull" if "map_of ext k = Some v" for v
      using assms map_of_SomeD[OF that] by (auto simp: resp_response_ext_ok_def list_all_iff)
    show "map_of (resp_keep_stateful resp_kept (JObj (resp_response_body lib r @ map (ext_field resp_ext) ext)) []) k = map_of ext k"
    proof (cases "prefix resp_ext k")
      case False
      then have "map_of ext k = None" using pre by (auto simp: map_of_eq_None_iff)
      then show ?thesis using False by (simp add: keep_stateful_map strip_prefix_def)
    next
      case True
      then obtain f where k: "k = resp_ext @ f" by (auto simp: prefix_def)
      have "map_of (resp_response_body lib r) f = None" if "f \<in> set resp_kept"
        using that resp_response_keys[of lib r]
        by (fastforce simp: map_of_eq_None_iff resp_kept_def resp_body_keys_all_def)
      then have full: "jget f (JObj (resp_response_body lib r @ map (ext_field resp_ext) ext)) = map_of ext k" if "f \<in> set resp_kept"
        using that map_of_fields[OF pre, of f] by (simp add: k)
      show ?thesis using full entry
        by (cases "map_of ext k") (auto simp: keep_stateful_map strip_prefix_def k simp del: jget.simps)
    qed
  qed
qed

text \<open>\<open>C27\<close>. An answer in Responses form loses nothing on its way to a Responses client and back: its calls,
  reasoning with its encrypted content and the records of built-in tools, its text and
  refusals, its status, its usage with every detail, its time and its place in the
  conversation the upstream keeps.\<close>

theorem resp_response_roundtrip:
  assumes "resp_response_ok lib r"
  shows "rbind (resp_encode_response lib r) (resp_decode_response lib now) = Inr r"
proof -
  define full where "full = resp_response_body lib r @ map (ext_field resp_ext) (rs_extensions r)"
  define reason where "reason = the (rs_stop_reason r)"
  have ok: "resp_content_ok lib (rs_content r)" "resp_reason_ok r" "resp_response_ext_ok (rs_extensions r)"
    "- (2 ^ 63) \<le> rs_created r" "rs_created r < 2 ^ 63"
    using assms by (simp_all add: resp_response_ok_def)
  have some: "rs_stop_reason r = Some reason" using ok(2) by (auto simp: resp_reason_ok_def reason_def)
  have enc: "resp_encode_response lib r = Inr (JObj full)"
    by (simp add: resp_encode_response_def resp_response_restored[OF ok(3)] full_def)
  have fields: "get_str ''id'' (JObj full) = Some (rs_id r)" "get_str ''model'' (JObj full) = Some (rs_model r)"
    "Option.bind (jget ''created_at'' (JObj full)) as_i64 = Some (rs_created r)"
    "get_array ''output'' (JObj full) = Some (resp_encode_output lib r)"
    "get_str ''status'' (JObj full) = Some (resp_status_str reason)"
    "jget ''usage'' (JObj full) = Some (resp_encode_usage (rs_usage r))"
    "map_of full ''error'' = Some JNull"
    using ok(4,5) by (simp_all add: full_def resp_response_body_def some Let_def)
  have details: "Option.bind (get_in ''incomplete_details'' ''reason'' (JObj full)) as_str
      = Option.bind (case resp_incomplete_details reason of Some d \<Rightarrow> jget ''reason'' d | None \<Rightarrow> None) as_str"
    by (simp add: get_in_def full_def resp_response_body_def some Let_def split: option.split)
  have "''response'' \<notin> fst ` set (resp_response_body lib r)"
    using resp_response_keys[of lib r] by (auto simp: resp_body_keys_all_def)
  moreover have "''response'' \<noteq> fst (ext_field resp_ext e)" if "e \<in> set (rs_extensions r)" for e
    using ok(3) that by (auto simp: resp_response_ext_ok_def list_all_iff resp_kept_def)
  ultimately have "''response'' \<notin> fst ` set full"
    unfolding full_def set_append set_map image_Un image_image by blast
  then have alone: "map_of full ''response'' = None" by (simp add: map_of_eq_None_iff)
  have status: "Some (resp_map_status (resp_status_str reason)
      (Option.bind (case resp_incomplete_details reason of Some d \<Rightarrow> jget ''reason'' d | None \<Rightarrow> None) as_str)
      (list_ex (\<lambda>p. case p of ToolUsePart _ _ _ _ \<Rightarrow> True | _ \<Rightarrow> False) (rs_content r)) (list_ex is_refusal (rs_content r))) = Some reason"
    using resp_status_back[OF ok(2)] by (simp add: resp_calls_def some)
  have usage: "resp_decode_usage (resp_encode_usage (rs_usage r)) = rs_usage r"
    using assms by (intro resp_usage_back) (simp add: resp_response_ok_def)
  have ext: "resp_keep_stateful resp_kept (JObj full) [] = rs_extensions r"
    unfolding full_def by (rule resp_response_ext_back[OF ok(3)])
  have "resp_read_response lib now (JObj full) = (response_new (rs_id r) (rs_model r) (rs_created r))
      \<lparr>rs_content := rs_content r, rs_stop_reason := Some reason, rs_usage := rs_usage r, rs_extensions := rs_extensions r\<rparr>"
    unfolding resp_read_response_def fields details Let_def option.case str_or_simps resp_output_back[OF ok(1)] status usage ext ..
  also have "\<dots> = r" using ok(2) some by (simp add: response_new_def resp_reason_ok_def)
  finally show ?thesis
    by (simp add: enc resp_decode_response.simps[of lib now "JObj full"] fields(7) non_null_def alone del: jget.simps field_simps)
qed

definition resp_answer :: unified_response where
  "resp_answer = (response_new ''r1'' ''gpt'' 7)
     \<lparr>rs_content := [ThinkingPart ''hm'' (Some ''enc''), ToolUsePart ''c1'' ''scan'' (JObj []) None, TextPart ''one'', TextPart ''two''],
       rs_stop_reason := Some ToolUseStop,
       rs_usage := usage_default\<lparr>us_input_tokens := 12, us_output_tokens := 7, us_reasoning_tokens := 3\<rparr>,
       rs_extensions := [(''responses.store'', JBool True)]\<rparr>"

theorem resp_response_roundtrip_witness:
  "rbind (resp_encode_response tiny_codec_lib resp_answer) (resp_decode_response tiny_codec_lib 5) = Inr resp_answer"
proof (rule resp_response_roundtrip)
  have t: "trim ''{}'' \<noteq> []" by code_simp
  have "resp_response_ext_ok (rs_extensions resp_answer)" by code_simp
  then show "resp_response_ok tiny_codec_lib resp_answer"
    by (simp add: resp_response_ok_def resp_answer_def response_new_def resp_content_ok_def resp_args_ok_def tiny_codec_lib_def t
        resp_reason_ok_def resp_map_status_def resp_calls_def usage_default_def)
qed

end
