(* ===== verification/Responses_Stream.thy ===== *)
theory Responses_Stream
  imports Responses_Response
begin

section \<open>OpenAI Responses: streams\<close>

text \<open>
  The stream half of \<open>crates/refract-protocol/src/codec/responses.rs\<close>. The client of this protocol
  expects the whole ceremony: every item announced, its parts opened and closed, a sequence
  number on every event and a last event with everything in it. The encoder makes it up from
  whatever another upstream sends. \<open>uuid\<close> is the identifier drawn when the upstream names
  none, \<open>now\<close> the time of the first event. The counters stay far below the bits of the code.
\<close>

subsection \<open>The decoder\<close>

record resp_decoder =
  rsd_opened :: "part_kind option list"
  rsd_started :: bool
  rsd_finished :: bool

definition resp_decoder_new :: resp_decoder where
  "resp_decoder_new = \<lparr>rsd_opened = [], rsd_started = False, rsd_finished = False\<rparr>"

definition resp_ensure_open :: "nat \<Rightarrow> part_kind \<Rightarrow> resp_decoder \<Rightarrow> stream_event list \<times> resp_decoder" where
  "resp_ensure_open i k d = (
     let grown = rsd_opened d @ replicate (Suc i - length (rsd_opened d)) None
     in if grown ! i \<noteq> Some k then ([ContentStart i k], d\<lparr>rsd_opened := grown[i := Some k]\<rparr>)
        else ([], d\<lparr>rsd_opened := grown\<rparr>))"

definition resp_index :: "json \<Rightarrow> nat" where
  "resp_index v = (case Option.bind (jget ''output_index'' v) as_u32 of Some w \<Rightarrow> unat w | None \<Rightarrow> 0)"

text \<open>The delta stands in \<open>delta\<close>, or in \<open>text\<close>.\<close>

definition resp_delta_text :: "json \<Rightarrow> string" where
  "resp_delta_text v = get_either ''delta'' ''text'' v"

definition resp_opened_then :: "nat \<Rightarrow> part_kind \<Rightarrow> stream_event list \<Rightarrow> resp_decoder \<Rightarrow> stream_event list \<times> resp_decoder" where
  "resp_opened_then i k vs d = (let (out, d1) = resp_ensure_open i k d in (out @ vs, d1))"

definition resp_decode_created :: "json \<Rightarrow> resp_decoder \<Rightarrow> stream_event list \<times> resp_decoder" where
  "resp_decode_created v d = (if rsd_started d then ([], d)
     else let r = jget ''response'' v in
       ([Start (str_or [] (Option.bind r (get_str ''id''))) (str_or [] (Option.bind r (get_str ''model'')))
           (map_option resp_decode_usage (non_null (Option.bind r (jget ''usage''))))], d\<lparr>rsd_started := True\<rparr>))"

definition resp_decode_added :: "json \<Rightarrow> resp_decoder \<Rightarrow> stream_event list \<times> resp_decoder" where
  "resp_decode_added v d = (
     let i = resp_index v; item = jget ''item'' v; kind = str_or [] (Option.bind item (get_str ''type''))
     in if kind = ''function_call'' then resp_opened_then i KToolUse
            [ToolCallStart i (case item of Some x \<Rightarrow> get_either ''call_id'' ''id'' x | None \<Rightarrow> [])
               (str_or [] (Option.bind item (get_str ''name''))) None] d
        else if kind = ''reasoning'' then resp_ensure_open i KThinking d
        else ([], d))"

definition resp_decode_part_added :: "json \<Rightarrow> resp_decoder \<Rightarrow> stream_event list \<times> resp_decoder" where
  "resp_decode_part_added v d = (
     let t = str_or [] (Option.bind (get_in ''part'' ''type'' v) as_str)
     in resp_ensure_open (resp_index v) (if t = ''refusal'' then KRefusal
          else if t \<in> {''reasoning_text'', ''summary_text''} then KThinking else KText) d)"

definition resp_decode_item_done :: "json \<Rightarrow> resp_decoder \<Rightarrow> stream_event list \<times> resp_decoder" where
  "resp_decode_item_done v d = (
     let i = resp_index v
     in case Option.bind (get_in ''item'' ''encrypted_content'' v) as_str of
          Some sig \<Rightarrow> resp_opened_then i KThinking [ThinkingSignature i sig, ContentStop i] d
        | None \<Rightarrow> ([ContentStop i], d))"

definition resp_items_of :: "json option \<Rightarrow> json list" where
  "resp_items_of r = (case Option.bind r (get_array ''output'') of Some items \<Rightarrow> items | None \<Rightarrow> [])"

definition resp_item_refuses :: "json \<Rightarrow> bool" where
  "resp_item_refuses item = (case get_array ''content'' item of
     Some parts \<Rightarrow> list_ex (\<lambda>p. get_str ''type'' p = Some ''refusal'') parts | None \<Rightarrow> False)"

definition resp_decode_completed :: "string \<Rightarrow> json \<Rightarrow> resp_decoder \<Rightarrow> stream_event list \<times> resp_decoder" where
  "resp_decode_completed event v d = (
     let r = jget ''response'' v;
         used = (case non_null (Option.bind r (jget ''usage'')) of Some u \<Rightarrow> [UsageEvent (resp_decode_usage u)] | None \<Rightarrow> []);
         status = str_or (if event = ''response.incomplete'' then ''incomplete'' else ''completed'')
           (Option.bind r (get_str ''status''));
         reason = resp_map_status status (Option.bind (Option.bind r (get_in ''incomplete_details'' ''reason'')) as_str)
           (list_ex (\<lambda>i. get_str ''type'' i = Some ''function_call'') (resp_items_of r))
           (list_ex resp_item_refuses (resp_items_of r))
     in (used @ [StopEvent reason None] @ (if rsd_finished d then [] else [Done]), d\<lparr>rsd_finished := True\<rparr>))"

definition resp_decode_failed :: "json \<Rightarrow> resp_decoder \<Rightarrow> stream_event list \<times> resp_decoder" where
  "resp_decode_failed v d = (
     let err = (case non_null (get_in ''response'' ''error'' v) of Some e \<Rightarrow> e | None \<Rightarrow> v)
     in ([ErrorEvent (str_or ''upstream stream failed'' (get_str ''message'' err))
            (str_or ''upstream_error'' (Option.bind (case jget ''type'' err of Some t \<Rightarrow> Some t | None \<Rightarrow> jget ''code'' err) as_str))],
         d\<lparr>rsd_finished := True\<rparr>))"

definition resp_decode_event :: "string \<Rightarrow> json \<Rightarrow> resp_decoder \<Rightarrow> stream_event list \<times> resp_decoder" where
  "resp_decode_event event v d = (let i = resp_index v; text = resp_delta_text v in
     if event \<in> {''response.created'', ''response.in_progress''} then resp_decode_created v d
     else if event = ''response.output_item.added'' then resp_decode_added v d
     else if event = ''response.content_part.added'' then resp_decode_part_added v d
     else if event = ''response.output_text.delta'' then resp_opened_then i KText [TextDelta i text] d
     else if event = ''response.refusal.delta'' then resp_opened_then i KRefusal [RefusalDelta i text] d
     else if event \<in> {''response.reasoning_summary_text.delta'', ''response.reasoning_text.delta''}
       then resp_opened_then i KThinking [ThinkingDelta i text] d
     else if event = ''response.function_call_arguments.delta'' then resp_opened_then i KToolUse [ToolCallArgsDelta i text] d
     else if event = ''response.output_item.done'' then resp_decode_item_done v d
     else if event \<in> {''response.completed'', ''response.incomplete''} then resp_decode_completed event v d
     else if event \<in> {''response.failed'', ''error''} then resp_decode_failed v d
     else ([], d))"

definition resp_decode_frame :: "codec_lib \<Rightarrow> sse_frame \<Rightarrow> resp_decoder \<Rightarrow> stream_event list \<times> resp_decoder" where
  "resp_decode_frame lib frame d = (
     if trim (sf_data frame) = ''[DONE]'' then (if rsd_finished d then ([], d) else ([Done], d\<lparr>rsd_finished := True\<rparr>))
     else if trim (sf_data frame) = [] then ([], d)
     else case cl_parse lib (sf_data frame) of
       None \<Rightarrow> ([], d)
     | Some v \<Rightarrow> resp_decode_event (case sf_event frame of Some e \<Rightarrow> e | None \<Rightarrow> str_or [] (get_str ''type'' v)) v d)"

definition resp_decode_finish :: "resp_decoder \<Rightarrow> stream_event list \<times> resp_decoder" where
  "resp_decode_finish d = (if rsd_finished d then ([], d) else ([Done], d\<lparr>rsd_finished := True\<rparr>))"

subsection \<open>The encoder\<close>

record resp_block =
  rsb_output_index :: nat
  rsb_item_id :: string
  rsb_kind :: part_kind
  rsb_announced :: bool
  rsb_text :: string
  rsb_signature :: "string option"
  rsb_tool_id :: string
  rsb_tool_name :: string
  rsb_args :: string

record resp_encoder =
  rse_seq :: nat
  rse_id :: string
  rse_model :: string
  rse_created :: int
  rse_started :: bool
  rse_finished :: bool
  rse_blocks :: "(nat \<times> resp_block) list"
  rse_next_index :: nat
  rse_items :: "json option list"
  rse_usage :: usage
  rse_stop_reason :: "stop_reason option"

definition resp_encoder_new :: resp_encoder where
  "resp_encoder_new = \<lparr>rse_seq = 0, rse_id = [], rse_model = [], rse_created = 0, rse_started = False,
     rse_finished = False, rse_blocks = [], rse_next_index = 0, rse_items = [], rse_usage = usage_default,
     rse_stop_reason = None\<rparr>"

text \<open>A frame is its event name and its payload.\<close>

type_synonym resp_out = "string \<times> json"
type_synonym resp_run = "resp_encoder \<Rightarrow> resp_out list \<times> resp_encoder"

definition resp_frame :: "codec_lib \<Rightarrow> resp_out \<Rightarrow> sse_frame" where
  "resp_frame lib x = named_frame (fst x) (cl_print lib (snd x))"

text \<open>Two steps after each other, the frames of both.\<close>

definition resp_then :: "resp_run \<Rightarrow> resp_run \<Rightarrow> resp_run" where
  "resp_then f g e = (let (out1, e1) = f e; (out2, e2) = g e1 in (out1 @ out2, e2))"

definition resp_emit :: "string \<Rightarrow> jmap \<Rightarrow> resp_run" where
  "resp_emit event payload e = (
     [(event, JObj (map_insert ''sequence_number'' (jnat (rse_seq e)) (map_insert ''type'' (JStr event) payload)))],
     e\<lparr>rse_seq := Suc (rse_seq e)\<rparr>)"

fun resp_emits :: "(string \<times> jmap) list \<Rightarrow> resp_run" where
  "resp_emits [] e = ([], e)"
| "resp_emits (x # xs) e = resp_then (resp_emit (fst x) (snd x)) (resp_emits xs) e"

definition resp_message_texts :: "json \<Rightarrow> string" where
  "resp_message_texts item = (if get_str ''type'' item = Some ''message''
     then concat (filter_map (\<lambda>p. if get_str ''type'' p = Some ''output_text'' then get_str ''text'' p else None)
       (case get_array ''content'' item of Some ps \<Rightarrow> ps | None \<Rightarrow> [])) else [])"

definition resp_snapshot :: "string \<Rightarrow> bool \<Rightarrow> resp_encoder \<Rightarrow> json" where
  "resp_snapshot status terminal e = (
     let output = (if terminal then filter_map (\<lambda>x. x) (rse_items e) else [])
     in JObj [(''id'', JStr (rse_id e)), (''object'', JStr ''response''), (''created_at'', JNum (JInt (rse_created e))),
          (''model'', JStr (rse_model e)), (''status'', JStr status), (''output'', JArr output),
          (''output_text'', JStr (concat (map resp_message_texts output))),
          (''parallel_tool_calls'', JBool True), (''tool_choice'', JStr ''auto''), (''tools'', JArr []), (''error'', JNull),
          (''incomplete_details'', case Option.bind (rse_stop_reason e) resp_incomplete_details of Some d \<Rightarrow> d | None \<Rightarrow> JNull),
          (''usage'', if terminal then resp_encode_usage (rse_usage e) else JNull)])"

definition resp_fill_in :: "string \<Rightarrow> int \<Rightarrow> resp_encoder \<Rightarrow> resp_encoder" where
  "resp_fill_in uuid now e = e\<lparr>rse_started := True, rse_id := (if rse_id e = [] then ''resp_'' @ uuid else rse_id e),
     rse_created := (if rse_created e = 0 then now else rse_created e)\<rparr>"

definition resp_opening :: "resp_encoder \<Rightarrow> (string \<times> jmap) list" where
  "resp_opening e = (let p = [(''response'', resp_snapshot ''in_progress'' False e)]
     in [(''response.created'', p), (''response.in_progress'', p)])"

definition resp_ensure_started :: "string \<Rightarrow> int \<Rightarrow> resp_run" where
  "resp_ensure_started uuid now e = (if rse_started e then ([], e)
     else let e1 = resp_fill_in uuid now e in resp_emits (resp_opening e1) e1)"

definition resp_block_at :: "nat \<Rightarrow> resp_encoder \<Rightarrow> resp_block option" where
  "resp_block_at i e = map_of (rse_blocks e) i"

text \<open>\<open>get_mut\<close> and a change of what it finds.\<close>

definition resp_change :: "nat \<Rightarrow> (resp_block \<Rightarrow> resp_block) \<Rightarrow> resp_encoder \<Rightarrow> resp_encoder" where
  "resp_change i f e = e\<lparr>rse_blocks := map (\<lambda>(k, b). (k, if k = i then f b else b)) (rse_blocks e)\<rparr>"

text \<open>The frames that announce an item, and those that end it.\<close>

fun resp_new_item :: "part_kind \<Rightarrow> resp_block \<Rightarrow> json" where
  "resp_new_item KToolUse b = JObj [(''type'', JStr ''function_call''), (''id'', JStr (rsb_item_id b)),
     (''call_id'', JStr (rsb_tool_id b)), (''name'', JStr (rsb_tool_name b)), (''arguments'', JStr []),
     (''status'', JStr ''in_progress'')]"
| "resp_new_item KThinking b = JObj [(''type'', JStr ''reasoning''), (''id'', JStr (rsb_item_id b)), (''summary'', JArr [])]"
| "resp_new_item _ b = JObj [(''type'', JStr ''message''), (''id'', JStr (rsb_item_id b)), (''status'', JStr ''in_progress''),
     (''role'', JStr ''assistant''), (''content'', JArr [])]"

definition resp_at :: "resp_block \<Rightarrow> string \<Rightarrow> jmap \<Rightarrow> jmap" where
  "resp_at b part rest = [(''item_id'', JStr (rsb_item_id b)), (''output_index'', jnat (rsb_output_index b)), (part, jnat 0)] @ rest"

definition resp_text_part :: "string \<Rightarrow> json" where
  "resp_text_part t = JObj [(''type'', JStr ''output_text''), (''text'', JStr t), (''annotations'', JArr [])]"

definition resp_refusal_part :: "string \<Rightarrow> json" where
  "resp_refusal_part t = JObj [(''type'', JStr ''refusal''), (''refusal'', JStr t)]"

definition resp_summary_part :: "string \<Rightarrow> json" where
  "resp_summary_part t = JObj [(''type'', JStr ''summary_text''), (''text'', JStr t)]"

fun resp_new_part :: "part_kind \<Rightarrow> resp_block \<Rightarrow> (string \<times> jmap) list" where
  "resp_new_part KText b = [(''response.content_part.added'', resp_at b ''content_index'' [(''part'', resp_text_part [])])]"
| "resp_new_part KRefusal b = [(''response.content_part.added'', resp_at b ''content_index'' [(''part'', resp_refusal_part [])])]"
| "resp_new_part KThinking b =
     [(''response.reasoning_summary_part.added'', resp_at b ''summary_index'' [(''part'', resp_summary_part [])])]"
| "resp_new_part KToolUse b = []"

definition resp_announcement :: "resp_block \<Rightarrow> (string \<times> jmap) list" where
  "resp_announcement b = (''response.output_item.added'',
     [(''output_index'', jnat (rsb_output_index b)), (''item'', resp_new_item (rsb_kind b) b)]) # resp_new_part (rsb_kind b) b"

definition resp_announce :: "nat \<Rightarrow> resp_run" where
  "resp_announce i e = (case resp_block_at i e of
     None \<Rightarrow> ([], e)
   | Some b \<Rightarrow> if rsb_announced b then ([], e)
       else resp_emits (resp_announcement b) (resp_change i (\<lambda>b. b\<lparr>rsb_announced := True\<rparr>) e))"

fun resp_done_parts :: "part_kind \<Rightarrow> resp_block \<Rightarrow> (string \<times> jmap) list" where
  "resp_done_parts KText b = [
     (''response.output_text.done'', resp_at b ''content_index'' [(''text'', JStr (rsb_text b)), (''logprobs'', JArr [])]),
     (''response.content_part.done'', resp_at b ''content_index'' [(''part'', resp_text_part (rsb_text b))])]"
| "resp_done_parts KRefusal b = [
     (''response.refusal.done'', resp_at b ''content_index'' [(''refusal'', JStr (rsb_text b))]),
     (''response.content_part.done'', resp_at b ''content_index'' [(''part'', resp_refusal_part (rsb_text b))])]"
| "resp_done_parts KThinking b = [
     (''response.reasoning_summary_text.done'', resp_at b ''summary_index'' [(''text'', JStr (rsb_text b))]),
     (''response.reasoning_summary_part.done'', resp_at b ''summary_index'' [(''part'', resp_summary_part (rsb_text b))])]"
| "resp_done_parts KToolUse b = [
     (''response.function_call_arguments.done'', [(''item_id'', JStr (rsb_item_id b)),
        (''output_index'', jnat (rsb_output_index b)), (''name'', JStr (rsb_tool_name b)), (''arguments'', JStr (rsb_args b))])]"

definition resp_message_item :: "resp_block \<Rightarrow> json \<Rightarrow> json" where
  "resp_message_item b part = JObj [(''type'', JStr ''message''), (''id'', JStr (rsb_item_id b)),
     (''status'', JStr ''completed''), (''role'', JStr ''assistant''), (''content'', JArr [part])]"

fun resp_done_item :: "part_kind \<Rightarrow> resp_block \<Rightarrow> json" where
  "resp_done_item KText b = resp_message_item b (resp_text_part (rsb_text b))"
| "resp_done_item KRefusal b = resp_message_item b (resp_refusal_part (rsb_text b))"
| "resp_done_item KThinking b = JObj ([(''type'', JStr ''reasoning''), (''id'', JStr (rsb_item_id b)),
     (''summary'', JArr [resp_summary_part (rsb_text b)])] @ if_some ''encrypted_content'' (rsb_signature b) JStr)"
| "resp_done_item KToolUse b = JObj [(''type'', JStr ''function_call''), (''id'', JStr (rsb_item_id b)),
     (''call_id'', JStr (rsb_tool_id b)), (''name'', JStr (rsb_tool_name b)), (''arguments'', JStr (rsb_args b)),
     (''status'', JStr ''completed'')]"

definition resp_put_item :: "nat \<Rightarrow> json \<Rightarrow> resp_encoder \<Rightarrow> resp_encoder" where
  "resp_put_item n item e =
     e\<lparr>rse_items := (rse_items e @ replicate (Suc n - length (rse_items e)) None)[n := Some item]\<rparr>"

definition resp_finish_events :: "resp_block \<Rightarrow> (string \<times> jmap) list" where
  "resp_finish_events b = resp_done_parts (rsb_kind b) b @ [(''response.output_item.done'',
     [(''output_index'', jnat (rsb_output_index b)), (''item'', resp_done_item (rsb_kind b) b)])]"

definition resp_finish_block :: "resp_block \<Rightarrow> resp_run" where
  "resp_finish_block b e = (let (out, e1) = resp_emits (resp_finish_events b) e
     in (out, resp_put_item (rsb_output_index b) (resp_done_item (rsb_kind b) b) e1))"

definition resp_remove :: "nat \<Rightarrow> resp_encoder \<Rightarrow> resp_encoder" where
  "resp_remove i e = e\<lparr>rse_blocks := filter (\<lambda>x. fst x \<noteq> i) (rse_blocks e)\<rparr>"

definition resp_close_block :: "nat \<Rightarrow> resp_run" where
  "resp_close_block i e = (if resp_block_at i e = None then ([], e)
     else resp_then (resp_announce i) (\<lambda>e. case resp_block_at i e of
       Some b \<Rightarrow> resp_finish_block b (resp_remove i e) | None \<Rightarrow> ([], e)) e)"

fun resp_close_each :: "nat list \<Rightarrow> resp_run" where
  "resp_close_each [] e = ([], e)"
| "resp_close_each (i # is) e = resp_then (resp_close_block i) (resp_close_each is) e"

definition resp_close_all :: resp_run where
  "resp_close_all e = resp_close_each (map fst (rse_blocks e)) e"

definition resp_item_prefix :: "part_kind \<Rightarrow> string" where
  "resp_item_prefix k = (case k of KToolUse \<Rightarrow> ''fc'' | KThinking \<Rightarrow> ''rs'' | KText \<Rightarrow> ''msg'' | KRefusal \<Rightarrow> ''msg'')"

definition resp_block_new :: "part_kind \<Rightarrow> resp_encoder \<Rightarrow> resp_block" where
  "resp_block_new k e = \<lparr>rsb_output_index = rse_next_index e,
     rsb_item_id = resp_item_prefix k @ ''_'' @ rse_id e @ ''_'' @ nat_to_string (rse_next_index e),
     rsb_kind = k, rsb_announced = False, rsb_text = [], rsb_signature = None, rsb_tool_id = [], rsb_tool_name = [], rsb_args = []\<rparr>"

definition resp_add_block :: "nat \<Rightarrow> part_kind \<Rightarrow> resp_encoder \<Rightarrow> resp_encoder" where
  "resp_add_block i k e = e\<lparr>rse_blocks := btree_insert i (resp_block_new k e) (rse_blocks e),
     rse_next_index := Suc (rse_next_index e)\<rparr>"

definition resp_open_block :: "nat \<Rightarrow> part_kind \<Rightarrow> resp_run" where
  "resp_open_block i k e = (if k \<noteq> KToolUse then resp_announce i (resp_add_block i k e) else ([], resp_add_block i k e))"

definition resp_use_block :: "nat \<Rightarrow> part_kind \<Rightarrow> resp_run" where
  "resp_use_block i k e = (case resp_block_at i e of
     Some b \<Rightarrow> if rsb_kind b = k then ([], e) else resp_then (resp_close_block i) (resp_open_block i k) e
   | None \<Rightarrow> resp_open_block i k e)"

definition resp_ensure_block :: "string \<Rightarrow> int \<Rightarrow> nat \<Rightarrow> part_kind \<Rightarrow> resp_run" where
  "resp_ensure_block uuid now i k = resp_then (resp_ensure_started uuid now) (resp_use_block i k)"

definition resp_terminal_event :: "string \<Rightarrow> string" where
  "resp_terminal_event status = (if status = ''incomplete'' then ''response.incomplete''
     else if status = ''failed'' then ''response.failed'' else ''response.completed'')"

definition resp_send_terminal :: resp_run where
  "resp_send_terminal e = (
     let e1 = e\<lparr>rse_finished := True\<rparr>;
         status = resp_status_str (case rse_stop_reason e of Some r \<Rightarrow> r | None \<Rightarrow> Stop)
     in resp_emits [(resp_terminal_event status, [(''response'', resp_snapshot status True e1)])] e1)"

definition resp_terminate :: "string \<Rightarrow> int \<Rightarrow> resp_run" where
  "resp_terminate uuid now e = (if rse_finished e then ([], e)
     else resp_then (resp_ensure_started uuid now) (resp_then resp_close_all resp_send_terminal) e)"

text \<open>A piece of content: added to its block and sent.\<close>

fun resp_add_piece :: "part_kind \<Rightarrow> string \<Rightarrow> resp_block \<Rightarrow> resp_block" where
  "resp_add_piece KToolUse t b = b\<lparr>rsb_args := rsb_args b @ t\<rparr>"
| "resp_add_piece _ t b = b\<lparr>rsb_text := rsb_text b @ t\<rparr>"

fun resp_piece_event :: "part_kind \<Rightarrow> string \<Rightarrow> resp_block \<Rightarrow> string \<times> jmap" where
  "resp_piece_event KText t b = (''response.output_text.delta'',
     resp_at b ''content_index'' [(''delta'', JStr t), (''logprobs'', JArr [])])"
| "resp_piece_event KRefusal t b = (''response.refusal.delta'', resp_at b ''content_index'' [(''delta'', JStr t)])"
| "resp_piece_event KThinking t b = (''response.reasoning_summary_text.delta'',
     resp_at b ''summary_index'' [(''delta'', JStr t)])"
| "resp_piece_event KToolUse t b = (''response.function_call_arguments.delta'',
     [(''item_id'', JStr (rsb_item_id b)), (''output_index'', jnat (rsb_output_index b)), (''delta'', JStr t)])"

definition resp_piece :: "part_kind \<Rightarrow> nat \<Rightarrow> string \<Rightarrow> resp_run" where
  "resp_piece k i t e = (case resp_block_at i e of
     None \<Rightarrow> ([], e)
   | Some b \<Rightarrow> resp_emits [resp_piece_event k t b] (resp_change i (resp_add_piece k t) e))"

definition resp_send_error :: "string \<Rightarrow> string \<Rightarrow> resp_run" where
  "resp_send_error message kind e = (
     let (out, e1) = resp_emits [(''error'', [(''code'', JStr kind), (''message'', JStr message), (''param'', JNull)])] e
     in (out, e1\<lparr>rse_finished := True\<rparr>))"

definition resp_name_call :: "nat \<Rightarrow> string \<Rightarrow> string \<Rightarrow> resp_run" where
  "resp_name_call i c name e = ([], resp_change i (\<lambda>b. b\<lparr>rsb_tool_id := (if c = [] then rsb_tool_id b else c),
     rsb_tool_name := (if name = [] then rsb_tool_name b else name)\<rparr>) e)"

definition resp_sign :: "nat \<Rightarrow> string \<Rightarrow> resp_run" where
  "resp_sign i s e = ([], resp_change i (\<lambda>b. b\<lparr>rsb_signature := Some s\<rparr>) e)"

definition resp_begin :: "string \<Rightarrow> string \<Rightarrow> usage option \<Rightarrow> resp_encoder \<Rightarrow> resp_encoder" where
  "resp_begin i m u e = e\<lparr>rse_id := (if i = [] then rse_id e else i), rse_model := (if m = [] then rse_model e else m),
     rse_usage := (case u of Some v \<Rightarrow> merge_max (rse_usage e) v | None \<Rightarrow> rse_usage e)\<rparr>"

text \<open>The arms of \<open>encode\<close>, for an encoder that has not finished.\<close>

fun resp_encode_step :: "string \<Rightarrow> int \<Rightarrow> stream_event \<Rightarrow> resp_run" where
  "resp_encode_step uuid now (Start i m u) e = resp_ensure_started uuid now (resp_begin i m u e)"
| "resp_encode_step uuid now (ContentStart i k) e = resp_ensure_block uuid now i k e"
| "resp_encode_step uuid now (TextDelta i t) e = resp_then (resp_ensure_block uuid now i KText) (resp_piece KText i t) e"
| "resp_encode_step uuid now (RefusalDelta i t) e =
     resp_then (resp_ensure_block uuid now i KRefusal) (resp_piece KRefusal i t) e"
| "resp_encode_step uuid now (ThinkingDelta i t) e =
     resp_then (resp_ensure_block uuid now i KThinking) (resp_piece KThinking i t) e"
| "resp_encode_step uuid now (ThinkingSignature i s) e = resp_then (resp_ensure_block uuid now i KThinking) (resp_sign i s) e"
| "resp_encode_step uuid now (ToolCallStart i c name _) e =
     resp_then (resp_ensure_block uuid now i KToolUse) (resp_then (resp_name_call i c name) (resp_announce i)) e"
| "resp_encode_step uuid now (ToolCallArgsDelta i t) e =
     resp_then (resp_ensure_block uuid now i KToolUse) (resp_then (resp_announce i) (resp_piece KToolUse i t)) e"
| "resp_encode_step uuid now (ContentStop i) e = (if resp_block_at i e \<noteq> None then resp_close_block i e else ([], e))"
| "resp_encode_step uuid now (UsageEvent u) e = ([], e\<lparr>rse_usage := merge_max (rse_usage e) u\<rparr>)"
| "resp_encode_step uuid now (StopEvent reason _) e = ([], e\<lparr>rse_stop_reason := Some reason\<rparr>)"
| "resp_encode_step uuid now Done e = resp_terminate uuid now e"
| "resp_encode_step uuid now (ErrorEvent message kind) e =
     resp_then (resp_ensure_started uuid now) (resp_send_error message kind) e"
| "resp_encode_step uuid now Ping e = ([], e)"

definition resp_encode_event :: "string \<Rightarrow> int \<Rightarrow> stream_event \<Rightarrow> resp_run" where
  "resp_encode_event uuid now v e = (if rse_finished e then ([], e) else resp_encode_step uuid now v e)"

definition resp_encode_finish :: "string \<Rightarrow> int \<Rightarrow> resp_run" where
  "resp_encode_finish uuid now e = (if \<not> rse_finished e \<and> rse_started e then resp_terminate uuid now e else ([], e))"

fun resp_decode_all :: "codec_lib \<Rightarrow> sse_frame list \<Rightarrow> resp_decoder \<Rightarrow> stream_event list \<times> resp_decoder" where
  "resp_decode_all lib [] d = ([], d)"
| "resp_decode_all lib (f # fs) d = (
     let (out1, d1) = resp_decode_frame lib f d; (out2, d2) = resp_decode_all lib fs d1 in (out1 @ out2, d2))"

fun resp_encode_all :: "string \<Rightarrow> int \<Rightarrow> stream_event list \<Rightarrow> resp_run" where
  "resp_encode_all uuid now [] e = ([], e)"
| "resp_encode_all uuid now (v # vs) e = resp_then (resp_encode_event uuid now v) (resp_encode_all uuid now vs) e"

definition resp_stream_out :: "string \<Rightarrow> int \<Rightarrow> stream_event list \<Rightarrow> resp_out list" where
  "resp_stream_out uuid now vs = fst (resp_then (resp_encode_all uuid now vs) (resp_encode_finish uuid now) resp_encoder_new)"


subsection \<open>What the steps do to the state\<close>

lemma resp_then_sel [simp]:
  "fst (resp_then f g e) = fst (f e) @ fst (g (snd (f e)))" "snd (resp_then f g e) = snd (g (snd (f e)))"
  by (simp_all add: resp_then_def case_prod_beta Let_def)

definition resp_numbered_event :: "nat \<Rightarrow> string \<times> jmap \<Rightarrow> resp_out" where
  "resp_numbered_event n x =
     (fst x, JObj (map_insert ''sequence_number'' (jnat n) (map_insert ''type'' (JStr (fst x)) (snd x))))"

fun resp_number :: "nat \<Rightarrow> (string \<times> jmap) list \<Rightarrow> resp_out list" where
  "resp_number n [] = []"
| "resp_number n (x # xs) = resp_numbered_event n x # resp_number (Suc n) xs"

lemma resp_emits_eq: "resp_emits xs e = (resp_number (rse_seq e) xs, e\<lparr>rse_seq := rse_seq e + length xs\<rparr>)"
  by (induction xs arbitrary: e) (simp_all add: resp_then_def resp_emit_def resp_numbered_event_def)

lemma resp_block_at_simps [simp]:
  "resp_block_at i (e\<lparr>rse_seq := n\<rparr>) = resp_block_at i e"
  "resp_block_at i (resp_change j f e) = (if i = j then map_option f (resp_block_at i e) else resp_block_at i e)"
  "resp_block_at i (resp_remove j e) = (if i = j then None else resp_block_at i e)"
  "resp_block_at i (resp_add_block j k e) = (if i = j then Some (resp_block_new k e) else resp_block_at i e)"
  "resp_block_at i (resp_put_item n x e) = resp_block_at i e"
proof -
  have "map_of (map (\<lambda>(k, b). (k, if k = j then f b else b)) m) i
      = (if i = j then map_option f (map_of m i) else map_of m i)" for m
    by (induction m) auto
  then show "resp_block_at i (resp_change j f e) = (if i = j then map_option f (resp_block_at i e) else resp_block_at i e)"
    by (simp add: resp_block_at_def resp_change_def)
  have "map_of (filter (\<lambda>x. fst x \<noteq> j) m) i = (if i = j then None else map_of m i)" for m :: "(nat \<times> resp_block) list"
    by (induction m) auto
  then show "resp_block_at i (resp_remove j e) = (if i = j then None else resp_block_at i e)"
    by (simp add: resp_block_at_def resp_remove_def)
qed (simp_all add: resp_block_at_def resp_add_block_def resp_put_item_def)

lemma resp_flags [simp]:
  "rse_started (resp_change i f e) = rse_started e" "rse_finished (resp_change i f e) = rse_finished e"
  "rse_started (resp_remove i e) = rse_started e" "rse_finished (resp_remove i e) = rse_finished e"
  "rse_started (resp_add_block i k e) = rse_started e" "rse_finished (resp_add_block i k e) = rse_finished e"
  "rse_started (resp_put_item n x e) = rse_started e" "rse_finished (resp_put_item n x e) = rse_finished e"
  "rse_next_index (resp_change i f e) = rse_next_index e" "rse_next_index (resp_remove i e) = rse_next_index e"
  "rse_next_index (resp_put_item n x e) = rse_next_index e" "rse_next_index (resp_add_block i k e) = Suc (rse_next_index e)"
  by (simp_all add: resp_change_def resp_remove_def resp_add_block_def resp_put_item_def)

text \<open>No two blocks share a place among the items, and the next place is free.\<close>

definition resp_indexed :: "resp_encoder \<Rightarrow> bool" where
  "resp_indexed e \<longleftrightarrow> (\<forall>i b. resp_block_at i e = Some b \<longrightarrow> rsb_output_index b < rse_next_index e)
     \<and> (\<forall>i j b c. resp_block_at i e = Some b \<longrightarrow> resp_block_at j e = Some c \<longrightarrow>
          rsb_output_index b = rsb_output_index c \<longrightarrow> i = j)"

lemma resp_indexed_simps [simp]:
  "resp_indexed (e\<lparr>rse_seq := n\<rparr>) = resp_indexed e" "resp_indexed (resp_put_item n x e) = resp_indexed e"
  "resp_indexed e \<Longrightarrow> resp_indexed (resp_remove i e)" "resp_indexed e \<Longrightarrow> resp_indexed (resp_add_block i k e)"
proof -
  assume "resp_indexed e"
  then show "resp_indexed (resp_remove i e)" by (auto simp: resp_indexed_def split: if_splits)
  from \<open>resp_indexed e\<close> show "resp_indexed (resp_add_block i k e)"
    by (force simp: resp_indexed_def resp_block_new_def less_Suc_eq split: if_splits)
qed (simp_all add: resp_indexed_def)

lemma resp_indexed_change:
  assumes "resp_indexed e" and "\<And>b. rsb_output_index (f b) = rsb_output_index b"
  shows "resp_indexed (resp_change i f e)"
  using assms by (auto simp: resp_indexed_def split: if_splits)

lemma resp_indexed_same:
  "rse_blocks e1 = rse_blocks e \<Longrightarrow> rse_next_index e1 = rse_next_index e \<Longrightarrow> resp_indexed e1 = resp_indexed e"
  by (simp add: resp_indexed_def resp_block_at_def)

text \<open>An encoder at work; only calls wait to be announced.\<close>

definition resp_working :: "resp_encoder \<Rightarrow> bool" where
  "resp_working e \<longleftrightarrow> rse_started e \<and> \<not> rse_finished e \<and> resp_indexed e
     \<and> (\<forall>i b. resp_block_at i e = Some b \<and> rsb_kind b \<noteq> KToolUse \<longrightarrow> rsb_announced b)"

lemma resp_working_simps [simp]:
  "resp_working (e\<lparr>rse_seq := n\<rparr>) = resp_working e" "resp_working (resp_put_item n x e) = resp_working e"
  "resp_working e \<Longrightarrow> resp_working (resp_remove i e)"
  by (auto simp: resp_working_def)

lemma resp_working_change:
  "resp_working e \<Longrightarrow> (\<And>b. rsb_kind (f b) = rsb_kind b \<and> rsb_output_index (f b) = rsb_output_index b
     \<and> (rsb_announced b \<longrightarrow> rsb_announced (f b))) \<Longrightarrow> resp_working (resp_change i f e)"
  by (auto simp: resp_working_def resp_indexed_change)

text \<open>Changes no client hears of.\<close>

definition resp_same_block :: "resp_block \<Rightarrow> resp_block \<Rightarrow> bool" where
  "resp_same_block b c \<longleftrightarrow> rsb_output_index b = rsb_output_index c \<and> rsb_kind b = rsb_kind c
     \<and> rsb_announced b = rsb_announced c \<and> rsb_text b = rsb_text c \<and> rsb_args b = rsb_args c"

definition resp_alike :: "resp_encoder \<Rightarrow> resp_encoder \<Rightarrow> bool" where
  "resp_alike e e1 \<longleftrightarrow> rse_seq e1 = rse_seq e \<and> rse_started e1 = rse_started e \<and> rse_finished e1 = rse_finished e
     \<and> rse_next_index e1 = rse_next_index e \<and> rse_items e1 = rse_items e
     \<and> (\<forall>i. rel_option resp_same_block (resp_block_at i e) (resp_block_at i e1))"

lemma resp_same_block_refl [simp]: "rel_option resp_same_block b b"
  by (cases b) (simp_all add: resp_same_block_def)

lemma resp_alike_blocks:
  "rse_blocks e1 = rse_blocks e \<Longrightarrow> rse_seq e1 = rse_seq e \<Longrightarrow> rse_started e1 = rse_started e \<Longrightarrow>
   rse_finished e1 = rse_finished e \<Longrightarrow> rse_next_index e1 = rse_next_index e \<Longrightarrow> rse_items e1 = rse_items e \<Longrightarrow> resp_alike e e1"
  by (simp add: resp_alike_def resp_block_at_def)

lemma resp_alike_change:
  assumes "\<And>b. resp_same_block b (f b)"
  shows "resp_alike e (resp_change i f e)"
proof -
  have "rel_option resp_same_block b (map_option f b)" for b using assms by (cases b) auto
  then show ?thesis by (simp add: resp_alike_def) (simp add: resp_change_def)
qed

lemma resp_alike_working: "resp_alike e e1 \<Longrightarrow> resp_working e \<Longrightarrow> resp_working e1"
proof -
  assume a: "resp_alike e e1" "resp_working e"
  have "rsb_announced b" if "resp_block_at i e1 = Some b" "rsb_kind b \<noteq> KToolUse" for i b
  proof -
    have "rel_option resp_same_block (resp_block_at i e) (Some b)" using a(1) that(1) by (metis resp_alike_def)
    then obtain c where "resp_block_at i e = Some c" "resp_same_block c b" by (auto simp: option_rel_Some2)
    then show ?thesis using a(2) that(2) unfolding resp_working_def resp_same_block_def by metis
  qed
  moreover have "resp_indexed e1"
  proof -
    have kept: "\<exists>c. resp_block_at i e = Some c \<and> rsb_output_index c = rsb_output_index b" if "resp_block_at i e1 = Some b" for i b
    proof -
      have "rel_option resp_same_block (resp_block_at i e) (Some b)" using a(1) that by (metis resp_alike_def)
      then show ?thesis by (auto simp: option_rel_Some2 resp_same_block_def)
    qed
    have "resp_indexed e" "rse_next_index e1 = rse_next_index e" using a by (simp_all add: resp_working_def resp_alike_def)
    then show ?thesis unfolding resp_indexed_def using kept by metis
  qed
  ultimately show ?thesis using a by (auto simp: resp_alike_def resp_working_def)
qed

lemma resp_announce_eq:
  "resp_announce i e = (case resp_block_at i e of
     None \<Rightarrow> ([], e)
   | Some b \<Rightarrow> if rsb_announced b then ([], e)
       else (resp_number (rse_seq e) (resp_announcement b), resp_change i (\<lambda>b. b\<lparr>rsb_announced := True\<rparr>) e
          \<lparr>rse_seq := rse_seq e + length (resp_announcement b)\<rparr>))"
  by (simp add: resp_announce_def resp_emits_eq resp_change_def split: option.split)

lemma resp_announce_at:
  "resp_block_at j (snd (resp_announce i e))
   = (if j = i then map_option (\<lambda>b. b\<lparr>rsb_announced := True\<rparr>) (resp_block_at i e) else resp_block_at j e)"
  by (auto simp: resp_announce_eq split: option.split)

lemma resp_announce_flags [simp]:
  "rse_started (snd (resp_announce i e)) = rse_started e" "rse_finished (snd (resp_announce i e)) = rse_finished e"
  by (simp_all add: resp_announce_eq split: option.split)

lemma resp_announce_indexed: "resp_indexed e \<Longrightarrow> resp_indexed (snd (resp_announce i e))"
  by (simp add: resp_announce_eq resp_indexed_change split: option.split)

lemma resp_announce_working: "resp_working e \<Longrightarrow> resp_working (snd (resp_announce i e))"
  by (auto simp: resp_working_def resp_announce_at resp_announce_indexed)

lemma resp_finish_eq: "resp_finish_block b e = (resp_number (rse_seq e) (resp_finish_events b),
   resp_put_item (rsb_output_index b) (resp_done_item (rsb_kind b) b) (e\<lparr>rse_seq := rse_seq e + length (resp_finish_events b)\<rparr>))"
  by (simp add: resp_finish_block_def resp_emits_eq Let_def)

lemma resp_close_eq: "resp_block_at i e = Some b \<Longrightarrow> resp_close_block i e =
   (let e1 = snd (resp_announce i e); (out, e2) = resp_finish_block (b\<lparr>rsb_announced := True\<rparr>) (resp_remove i e1)
    in (fst (resp_announce i e) @ out, e2))"
  by (simp add: resp_close_block_def resp_then_def resp_announce_at Let_def case_prod_beta)

lemma resp_close_at: "resp_block_at j (snd (resp_close_block i e)) = (if j = i then None else resp_block_at j e)"
proof (cases "resp_block_at i e")
  case (Some b)
  show ?thesis unfolding resp_close_eq[OF Some] Let_def case_prod_beta by (simp add: resp_finish_eq resp_announce_at)
qed (simp add: resp_close_block_def)

lemma resp_close_working: "resp_working e \<Longrightarrow> resp_working (snd (resp_close_block i e))"
proof (cases "resp_block_at i e")
  case (Some b)
  assume "resp_working e"
  then show ?thesis
    unfolding resp_close_eq[OF Some] Let_def case_prod_beta by (simp add: resp_finish_eq resp_announce_working)
qed (simp add: resp_close_block_def)

lemma resp_close_each_working: "resp_working e \<Longrightarrow> resp_working (snd (resp_close_each js e))"
  by (induction js arbitrary: e) (simp_all add: resp_close_working)

lemma resp_close_each_at: "resp_block_at i (snd (resp_close_each js e)) = (if i \<in> set js then None else resp_block_at i e)"
  by (induction js arbitrary: e) (simp_all add: resp_close_at)

lemma resp_close_all_working: "resp_working e \<Longrightarrow> resp_working (snd (resp_close_all e))"
  by (simp add: resp_close_all_def resp_close_each_working)

lemma resp_close_all_empty: "rse_blocks (snd (resp_close_all e)) = []"
proof -
  have gone: "resp_block_at i (snd (resp_close_all e)) = None" for i
  proof (cases "i \<in> set (map fst (rse_blocks e))")
    case True
    then show ?thesis unfolding resp_close_all_def resp_close_each_at by (rule if_P)
  next
    case False
    then have "resp_block_at i e = None" by (simp add: resp_block_at_def map_of_eq_None_iff)
    then show ?thesis using False unfolding resp_close_all_def resp_close_each_at by simp
  qed
  show ?thesis
  proof (cases "rse_blocks (snd (resp_close_all e))")
    case (Cons x xs)
    then show ?thesis using gone[of "fst x"] by (cases x) (simp add: resp_block_at_def)
  qed simp
qed

lemma resp_open_working:
  assumes "resp_working e" shows "resp_working (snd (resp_open_block i k e))"
proof (cases "k = KToolUse")
  case True
  then show ?thesis using assms by (auto simp: resp_open_block_def resp_working_def resp_block_new_def)
next
  case False
  then show ?thesis using assms by (auto simp: resp_open_block_def resp_working_def resp_announce_at resp_announce_indexed)
qed

lemma resp_open_at:
  "\<exists>b. resp_block_at i (snd (resp_open_block i k e)) = Some b \<and> rsb_kind b = k \<and> (k \<noteq> KToolUse \<longrightarrow> rsb_announced b)"
  by (simp add: resp_open_block_def resp_announce_at) (simp add: resp_block_new_def)

text \<open>An encoder that may take events.\<close>

definition resp_sound :: "resp_encoder \<Rightarrow> bool" where
  "resp_sound e \<longleftrightarrow> \<not> rse_finished e \<and> (if rse_started e then resp_working e else rse_blocks e = [])"

lemma resp_new_sound: "resp_sound resp_encoder_new"
  by (simp add: resp_sound_def resp_encoder_new_def)

lemma resp_working_sound: "resp_working e \<Longrightarrow> resp_sound e"
  by (simp add: resp_sound_def) (simp add: resp_working_def)

lemma resp_sound_begin: "resp_sound (resp_begin i m u e) = resp_sound e"
  by (simp add: resp_sound_def resp_begin_def resp_working_def resp_block_at_def resp_indexed_def)

lemma resp_sound_quiet:
  "resp_sound (e\<lparr>rse_usage := u\<rparr>) = resp_sound e" "resp_sound (e\<lparr>rse_stop_reason := r\<rparr>) = resp_sound e"
  by (simp_all add: resp_sound_def resp_working_def resp_block_at_def resp_indexed_def)

lemma resp_started_eq: "\<not> rse_started e \<Longrightarrow> resp_ensure_started uuid now e =
   (resp_number (rse_seq e) (resp_opening (resp_fill_in uuid now e)),
    resp_fill_in uuid now e\<lparr>rse_seq := rse_seq e + length (resp_opening (resp_fill_in uuid now e))\<rparr>)"
  by (simp add: resp_ensure_started_def resp_emits_eq Let_def) (simp add: resp_fill_in_def)

lemma resp_started_working:
  assumes "resp_sound e" shows "resp_working (snd (resp_ensure_started uuid now e))"
proof (cases "rse_started e")
  case True
  then show ?thesis using assms by (simp add: resp_ensure_started_def resp_sound_def)
next
  case False
  then show ?thesis using assms
    by (simp add: resp_started_eq resp_sound_def resp_working_def resp_indexed_def resp_block_at_def resp_fill_in_def)
qed

lemma resp_ensured:
  assumes "resp_sound e"
  shows "resp_working (snd (resp_ensure_block uuid now i k e)) \<and>
    (\<exists>b. resp_block_at i (snd (resp_ensure_block uuid now i k e)) = Some b \<and> rsb_kind b = k \<and> (k \<noteq> KToolUse \<longrightarrow> rsb_announced b))"
proof -
  define e1 where "e1 = snd (resp_ensure_started uuid now e)"
  have w: "resp_working e1" unfolding e1_def by (rule resp_started_working[OF assms])
  have shown: "snd (resp_ensure_block uuid now i k e) = snd (resp_use_block i k e1)"
    by (simp add: resp_ensure_block_def e1_def)
  show ?thesis
  proof (cases "\<exists>b. resp_block_at i e1 = Some b \<and> rsb_kind b = k")
    case True
    then show ?thesis unfolding shown using w by (auto simp: resp_working_def resp_use_block_def)
  next
    case False
    then have "snd (resp_use_block i k e1) = snd (resp_open_block i k e1)
        \<or> snd (resp_use_block i k e1) = snd (resp_open_block i k (snd (resp_close_block i e1)))"
      by (auto simp: resp_use_block_def split: option.split)
    then show ?thesis using w resp_open_working resp_open_at resp_close_working shown by metis
  qed
qed

lemma resp_piece_working: "resp_working e \<Longrightarrow> resp_working (snd (resp_piece k i t e))"
proof -
  assume w: "resp_working e"
  have "rsb_kind (resp_add_piece k t b) = rsb_kind b \<and> rsb_output_index (resp_add_piece k t b) = rsb_output_index b
    \<and> rsb_announced (resp_add_piece k t b) = rsb_announced b" for b
    by (cases k) simp_all
  then have "resp_working (resp_change i (resp_add_piece k t) e)" by (intro resp_working_change[OF w]) simp
  then show ?thesis using w by (simp add: resp_piece_def resp_emits_eq del: resp_emits.simps split: option.split)
qed

lemma resp_step_sound:
  assumes "resp_sound e"
  shows "rse_finished (snd (resp_encode_step uuid now v e)) \<or> resp_sound (snd (resp_encode_step uuid now v e))"
proof -
  have block: "resp_working (snd (resp_ensure_block uuid now i k e))" for i k using resp_ensured[OF assms] by blast
  have working: "resp_sound e1" if "resp_working e1" for e1 using that by (rule resp_working_sound)
  show ?thesis
  proof (cases v)
    case (ThinkingSignature i s)
    then show ?thesis using block by (auto simp: resp_sign_def intro!: working resp_working_change)
  next
    case (ToolCallStart i c name sig)
    then show ?thesis using block
      by (auto simp: resp_name_call_def intro!: working resp_announce_working resp_working_change)
  next
    case (ContentStop i)
    have "resp_working e" if "resp_block_at i e \<noteq> None"
      using assms that by (cases "rse_started e") (simp_all add: resp_sound_def resp_block_at_def)
    then show ?thesis using assms ContentStop by (auto intro!: working resp_close_working)
  next
    case (ErrorEvent m t)
    then show ?thesis by (simp add: resp_send_error_def resp_emits_eq Let_def del: resp_emits.simps)
  next
    case Done
    then show ?thesis using assms by (simp add: resp_terminate_def resp_sound_def resp_send_terminal_def resp_emits_eq Let_def
        del: resp_emits.simps)
  next
    case (UsageEvent u)
    then show ?thesis using assms resp_sound_quiet by simp
  next
    case (StopEvent r s)
    then show ?thesis using assms resp_sound_quiet by simp
  next
    case (Start i m u)
    then show ?thesis using assms by (simp add: working resp_started_working resp_sound_begin)
  qed (use block assms in \<open>auto intro!: working resp_piece_working resp_announce_working\<close>)
qed

lemma resp_event_sound:
  "rse_finished e \<or> resp_sound e \<Longrightarrow>
   rse_finished (snd (resp_encode_event uuid now v e)) \<or> resp_sound (snd (resp_encode_event uuid now v e))"
  using resp_step_sound[of e] by (auto simp: resp_encode_event_def)

lemma resp_all_sound:
  "rse_finished e \<or> resp_sound e \<Longrightarrow>
   rse_finished (snd (resp_encode_all uuid now vs e)) \<or> resp_sound (snd (resp_encode_all uuid now vs e))"
proof (induction vs arbitrary: e)
  case (Cons v vs)
  show ?case using Cons.IH[OF resp_event_sound[OF Cons.prems]] by simp
qed simp

text \<open>The state a stream ends in.\<close>

definition resp_stream_end :: "string \<Rightarrow> int \<Rightarrow> stream_event list \<Rightarrow> resp_encoder" where
  "resp_stream_end uuid now vs = snd (resp_then (resp_encode_all uuid now vs) (resp_encode_finish uuid now) resp_encoder_new)"

lemma resp_end_over: "rse_finished (resp_stream_end uuid now vs) \<or> \<not> rse_started (resp_stream_end uuid now vs)"
  by (simp add: resp_stream_end_def resp_encode_finish_def resp_terminate_def resp_send_terminal_def resp_emits_eq Let_def
      del: resp_emits.simps)

subsection \<open>What every step keeps\<close>

text \<open>
  A property of what has been sent and the state it was sent in. The frames that matter come
  from seven places; what holds across each of them holds for a whole stream.
\<close>

locale resp_history =
  fixes P :: "resp_out list \<Rightarrow> resp_encoder \<Rightarrow> bool"
  assumes starts: "P h e \<Longrightarrow> \<not> rse_started e \<Longrightarrow> \<not> rse_finished e \<Longrightarrow>
      P (h @ fst (resp_ensure_started uuid now e)) (snd (resp_ensure_started uuid now e))"
    and quiet: "P h e \<Longrightarrow> resp_alike e e1 \<Longrightarrow> P h e1"
    and adds: "P h e \<Longrightarrow> resp_working e \<Longrightarrow> resp_block_at i e = None \<Longrightarrow> P h (resp_add_block i k e)"
    and announces: "P h e \<Longrightarrow> rse_started e \<Longrightarrow> \<not> rse_finished e \<Longrightarrow> resp_indexed e \<Longrightarrow> resp_block_at i e = Some b \<Longrightarrow>
      \<not> rsb_announced b \<Longrightarrow> P (h @ fst (resp_announce i e)) (snd (resp_announce i e))"
    and finishes: "P h e \<Longrightarrow> resp_working e \<Longrightarrow> resp_block_at i e = Some b \<Longrightarrow> rsb_announced b \<Longrightarrow>
      P (h @ fst (resp_finish_block b (resp_remove i e))) (snd (resp_finish_block b (resp_remove i e)))"
    and pieces: "P h e \<Longrightarrow> resp_working e \<Longrightarrow> resp_block_at i e = Some b \<Longrightarrow> rsb_announced b \<Longrightarrow>
      P (h @ fst (resp_piece (rsb_kind b) i t e)) (snd (resp_piece (rsb_kind b) i t e))"
    and ends: "P h e \<Longrightarrow> resp_working e \<Longrightarrow> rse_blocks e = [] \<Longrightarrow>
      P (h @ fst (resp_send_terminal e)) (snd (resp_send_terminal e))"
    and errors: "P h e \<Longrightarrow> resp_working e \<Longrightarrow>
      P (h @ fst (resp_send_error m c e)) (snd (resp_send_error m c e))"
begin

lemma announce:
  assumes "P h e" and "rse_started e" and "\<not> rse_finished e" and "resp_indexed e"
  shows "P (h @ fst (resp_announce i e)) (snd (resp_announce i e))"
proof (cases "\<exists>b. resp_block_at i e = Some b \<and> \<not> rsb_announced b")
  case True
  then show ?thesis using announces assms by blast
next
  case False
  then have "resp_announce i e = ([], e)" by (auto simp: resp_announce_def split: option.split)
  then show ?thesis using assms(1) by simp
qed

lemma close:
  assumes "P h e" and "resp_working e"
  shows "P (h @ fst (resp_close_block i e)) (snd (resp_close_block i e))"
proof (cases "resp_block_at i e")
  case None
  then show ?thesis using assms(1) by (simp add: resp_close_block_def)
next
  case (Some b)
  define e1 where "e1 = snd (resp_announce i e)"
  have w: "resp_working e1" and at: "resp_block_at i e1 = Some (b\<lparr>rsb_announced := True\<rparr>)"
    using assms(2) Some by (simp_all add: e1_def resp_announce_working resp_announce_at)
  have "P (h @ fst (resp_announce i e)) e1"
    using announce assms unfolding e1_def resp_working_def by blast
  then have "P ((h @ fst (resp_announce i e)) @ fst (resp_finish_block (b\<lparr>rsb_announced := True\<rparr>) (resp_remove i e1)))
      (snd (resp_finish_block (b\<lparr>rsb_announced := True\<rparr>) (resp_remove i e1)))"
    by (rule finishes[OF _ w at]) simp
  then show ?thesis using Some at by (simp add: resp_close_block_def e1_def)
qed

lemma close_each:
  assumes "P h e" and "resp_working e"
  shows "P (h @ fst (resp_close_each js e)) (snd (resp_close_each js e))"
  using assms
proof (induction js arbitrary: h e)
  case (Cons j js)
  show ?case using Cons.IH[OF close[OF Cons.prems] resp_close_working[OF Cons.prems(2)]] by simp
qed simp

lemma open_block:
  assumes "P h e" and "resp_working e" and "resp_block_at i e = None"
  shows "P (h @ fst (resp_open_block i k e)) (snd (resp_open_block i k e))"
proof -
  have "P h (resp_add_block i k e)" by (rule adds[OF assms])
  then show ?thesis using announce[of h "resp_add_block i k e" i] assms(2)
    by (cases "k = KToolUse") (simp_all add: resp_open_block_def resp_working_def)
qed

lemma begin_stream:
  assumes "P h e" and "resp_sound e"
  shows "P (h @ fst (resp_ensure_started uuid now e)) (snd (resp_ensure_started uuid now e))"
proof (cases "rse_started e")
  case True
  then show ?thesis using assms(1) by (simp add: resp_ensure_started_def)
next
  case False
  then show ?thesis using starts assms by (simp add: resp_sound_def)
qed

lemma ensure_block:
  assumes "P h e" and "resp_sound e"
  shows "P (h @ fst (resp_ensure_block uuid now i k e)) (snd (resp_ensure_block uuid now i k e))"
proof -
  define e1 where "e1 = snd (resp_ensure_started uuid now e)"
  define h1 where "h1 = h @ fst (resp_ensure_started uuid now e)"
  have w: "resp_working e1" and p: "P h1 e1"
    unfolding e1_def h1_def by (rule resp_started_working[OF assms(2)]) (rule begin_stream[OF assms])
  have "P (h1 @ fst (resp_use_block i k e1)) (snd (resp_use_block i k e1))"
  proof (cases "resp_block_at i e1")
    case None
    then show ?thesis using open_block[OF p w] by (simp add: resp_use_block_def)
  next
    case (Some b)
    then show ?thesis using p open_block[OF close[OF p w] resp_close_working[OF w], where i = i and k = k]
      by (simp add: resp_use_block_def resp_close_at)
  qed
  then show ?thesis by (simp add: resp_ensure_block_def h1_def e1_def)
qed

lemma piece:
  assumes "P h e" and "resp_working e" and "resp_block_at i e = Some b" and "rsb_announced b"
    and "rsb_kind b = k"
  shows "P (h @ fst (resp_piece k i t e)) (snd (resp_piece k i t e))"
  using pieces[OF assms(1-4)] assms(5) by simp

lemma terminate:
  assumes "P h e" and "resp_sound e"
  shows "P (h @ fst (resp_terminate uuid now e)) (snd (resp_terminate uuid now e))"
proof -
  define e1 where "e1 = snd (resp_ensure_started uuid now e)"
  define e2 where "e2 = snd (resp_close_all e1)"
  have w: "resp_working e1" unfolding e1_def by (rule resp_started_working[OF assms(2)])
  have "P ((h @ fst (resp_ensure_started uuid now e)) @ fst (resp_close_all e1)) e2"
    unfolding e2_def resp_close_all_def
    by (rule close_each[OF _ w]) (simp add: e1_def begin_stream[OF assms])
  moreover have "resp_working e2" "rse_blocks e2 = []"
    using resp_close_all_working[OF w] resp_close_all_empty[of e1] by (simp_all add: e2_def)
  ultimately have "P (((h @ fst (resp_ensure_started uuid now e)) @ fst (resp_close_all e1)) @ fst (resp_send_terminal e2))
      (snd (resp_send_terminal e2))" by (rule ends)
  then show ?thesis using assms(2) by (simp add: resp_terminate_def resp_sound_def e1_def e2_def)
qed

lemma step:
  assumes "P h e" and "resp_sound e"
  shows "P (h @ fst (resp_encode_step uuid now v e)) (snd (resp_encode_step uuid now v e))"
proof -
  have block: "P (h @ fst (resp_ensure_block uuid now i k e)) (snd (resp_ensure_block uuid now i k e))"
    "resp_working (snd (resp_ensure_block uuid now i k e))"
    "\<exists>b. resp_block_at i (snd (resp_ensure_block uuid now i k e)) = Some b \<and> rsb_kind b = k \<and> (k \<noteq> KToolUse \<longrightarrow> rsb_announced b)" for i k
    using ensure_block[OF assms] resp_ensured[OF assms(2)] by simp_all
  show ?thesis
  proof (cases v)
    case (Start i m u)
    have "P h (resp_begin i m u e)" by (rule quiet[OF assms(1)]) (rule resp_alike_blocks; simp add: resp_begin_def)
    moreover have "resp_sound (resp_begin i m u e)" using assms(2) by (simp add: resp_sound_begin)
    ultimately show ?thesis using begin_stream Start by simp
  next
    case (ThinkingSignature i s)
    have "resp_alike e1 (snd (resp_sign i s e1))" for e1
      unfolding resp_sign_def snd_conv by (rule resp_alike_change) (simp add: resp_same_block_def)
    then show ?thesis using quiet[OF block(1)[of i KThinking]] ThinkingSignature by (simp add: resp_sign_def)
  next
    case (ToolCallStart i c name sig)
    define e1 where "e1 = snd (resp_ensure_block uuid now i KToolUse e)"
    have a: "resp_alike e1 (snd (resp_name_call i c name e1))"
      unfolding resp_name_call_def snd_conv by (rule resp_alike_change) (simp add: resp_same_block_def)
    have "P (h @ fst (resp_ensure_block uuid now i KToolUse e)) (snd (resp_name_call i c name e1))"
      by (rule quiet[OF _ a]) (simp add: e1_def block)
    moreover have "resp_working (snd (resp_name_call i c name e1))"
      by (rule resp_alike_working[OF a]) (simp add: e1_def block)
    ultimately have "P ((h @ fst (resp_ensure_block uuid now i KToolUse e)) @ fst (resp_announce i (snd (resp_name_call i c name e1))))
        (snd (resp_announce i (snd (resp_name_call i c name e1))))"
      by (intro announce) (simp_all add: resp_working_def)
    then show ?thesis using ToolCallStart by (simp add: resp_name_call_def e1_def)
  next
    case (ToolCallArgsDelta i t)
    define e1 where "e1 = snd (resp_ensure_block uuid now i KToolUse e)"
    obtain b where b: "resp_block_at i e1 = Some b" "rsb_kind b = KToolUse" using block(3) e1_def by blast
    have w: "resp_working e1" by (simp add: e1_def block)
    have p: "P ((h @ fst (resp_ensure_block uuid now i KToolUse e)) @ fst (resp_announce i e1)) (snd (resp_announce i e1))"
      by (rule announce) (use w block in \<open>simp_all add: resp_working_def e1_def\<close>)
    show ?thesis using piece[OF p, of i "b\<lparr>rsb_announced := True\<rparr>" KToolUse t] b w ToolCallArgsDelta
      by (simp add: resp_announce_working resp_announce_at e1_def)
  next
    case (ContentStop i)
    have "resp_working e" if "resp_block_at i e \<noteq> None"
      using assms(2) that by (cases "rse_started e") (simp_all add: resp_sound_def resp_block_at_def)
    then show ?thesis using close[OF assms(1)] assms(1) ContentStop by simp
  next
    case (ErrorEvent m t)
    show ?thesis using errors[OF begin_stream[OF assms] resp_started_working[OF assms(2)]] ErrorEvent by simp
  next
    case Done
    then show ?thesis using terminate[OF assms] by simp
  next
    case (UsageEvent u)
    have "resp_alike e (e\<lparr>rse_usage := merge_max (rse_usage e) u\<rparr>)" by (rule resp_alike_blocks) simp_all
    then show ?thesis using quiet[OF assms(1)] UsageEvent by simp
  next
    case (StopEvent r s)
    have "resp_alike e (e\<lparr>rse_stop_reason := Some r\<rparr>)" by (rule resp_alike_blocks) simp_all
    then show ?thesis using quiet[OF assms(1)] StopEvent by simp
  next
    case (TextDelta i t)
    then show ?thesis using piece[OF block(1,2)] block(3)[of i KText] by fastforce
  next
    case (RefusalDelta i t)
    then show ?thesis using piece[OF block(1,2)] block(3)[of i KRefusal] by fastforce
  next
    case (ThinkingDelta i t)
    then show ?thesis using piece[OF block(1,2)] block(3)[of i KThinking] by fastforce
  qed (use assms(1) block(1) in simp_all)
qed

lemma encode_all:
  assumes "P h e" and "rse_finished e \<or> resp_sound e"
  shows "P (h @ fst (resp_encode_all uuid now vs e)) (snd (resp_encode_all uuid now vs e))"
  using assms
proof (induction vs arbitrary: h e)
  case (Cons v vs)
  let ?r = "resp_encode_event uuid now v e"
  have "P (h @ fst ?r) (snd ?r)"
    using step Cons.prems by (auto simp: resp_encode_event_def)
  then show ?case using Cons.IH resp_event_sound[OF Cons.prems(2)] by fastforce
qed simp

lemma whole:
  assumes "P [] resp_encoder_new"
  shows "P (resp_stream_out uuid now vs) (resp_stream_end uuid now vs)"
proof -
  define e1 where "e1 = snd (resp_encode_all uuid now vs resp_encoder_new)"
  have p: "P (fst (resp_encode_all uuid now vs resp_encoder_new)) e1"
    using encode_all[OF assms, where uuid = uuid and now = now and vs = vs] resp_new_sound by (simp add: e1_def)
  have "P (fst (resp_encode_all uuid now vs resp_encoder_new) @ fst (resp_encode_finish uuid now e1)) (snd (resp_encode_finish uuid now e1))"
  proof (cases "\<not> rse_finished e1 \<and> rse_started e1")
    case True
    then have "resp_sound e1" using resp_all_sound[of resp_encoder_new] resp_new_sound by (auto simp: e1_def)
    then show ?thesis using terminate[OF p] True by (simp add: resp_encode_finish_def)
  next
    case False
    then have "resp_encode_finish uuid now e1 = ([], e1)" unfolding resp_encode_finish_def by presburger
    then show ?thesis using p by simp
  qed
  then show ?thesis by (simp add: resp_stream_out_def resp_stream_end_def e1_def)
qed

end

end
