(* ===== verification/Responses_Stream_Facts.thy ===== *)
theory Responses_Stream_Facts
  imports Responses_Stream
begin

section \<open>OpenAI Responses: what a stream keeps\<close>

text \<open>
  Four properties of everything \<open>ResponsesStreamEncoder\<close> of \<open>crates/refract-protocol/src/codec/responses.rs\<close>
  sends, three of them kept by each of its steps (interpretations of \<open>resp_history\<close>): the events
  are numbered, a client can follow them, the items that are done hold what the deltas said,
  the last event holds all items. Then what the decoder of the same protocol hears.
\<close>

subsection \<open>Events are numbered\<close>

definition resp_numbers_ok :: "resp_out list \<Rightarrow> resp_encoder \<Rightarrow> bool" where
  "resp_numbers_ok h e \<longleftrightarrow>
     map (\<lambda>x. jget ''sequence_number'' (snd x)) h = map (\<lambda>n. Some (jnat n)) [0..<length h] \<and> rse_seq e = length h"

lemma resp_number_length [simp]: "length (resp_number n xs) = length xs"
  by (induction xs arbitrary: n) simp_all

lemma resp_number_seq:
  "map (\<lambda>x. jget ''sequence_number'' (snd x)) (resp_number n xs) = map (\<lambda>k. Some (jnat k)) [n..<n + length xs]"
proof (induction xs arbitrary: n)
  case (Cons x xs)
  have "[n..<n + length (x # xs)] = n # [Suc n..<Suc n + length xs]" by (simp add: upt_conv_Cons del: upt.simps)
  then show ?case using Cons.IH[of "Suc n"] by (simp add: resp_numbered_event_def)
qed simp

lemma resp_numbers_grow:
  assumes "resp_numbers_ok h e" and "out = resp_number (rse_seq e) xs" and "rse_seq e1 = rse_seq e + length xs"
  shows "resp_numbers_ok (h @ out) e1"
proof -
  have "[0..<length h + length xs] = [0..<length h] @ [length h..<length h + length xs]" by (rule upt_add_eq_append) simp
  then show ?thesis using assms by (simp add: resp_numbers_ok_def resp_number_seq)
qed

lemma resp_piece_eq: "resp_block_at i e = Some b \<Longrightarrow> resp_piece k i t e =
   (resp_number (rse_seq e) [resp_piece_event k t b], resp_change i (resp_add_piece k t) e\<lparr>rse_seq := Suc (rse_seq e)\<rparr>)"
  by (simp add: resp_piece_def resp_emits_eq resp_change_def del: resp_emits.simps)

lemma resp_send_terminal_eq: "resp_send_terminal e = (let status = resp_status_str (case rse_stop_reason e of Some r \<Rightarrow> r | None \<Rightarrow> Stop) in
   (resp_number (rse_seq e) [(resp_terminal_event status, [(''response'', resp_snapshot status True (e\<lparr>rse_finished := True\<rparr>))])],
    e\<lparr>rse_finished := True, rse_seq := Suc (rse_seq e)\<rparr>))"
  by (simp add: resp_send_terminal_def resp_emits_eq Let_def del: resp_emits.simps)

lemma resp_send_error_eq: "resp_send_error m c e =
   (resp_number (rse_seq e) [(''error'', [(''code'', JStr c), (''message'', JStr m), (''param'', JNull)])],
    e\<lparr>rse_finished := True, rse_seq := Suc (rse_seq e)\<rparr>)"
  by (simp add: resp_send_error_def resp_emits_eq Let_def del: resp_emits.simps)

interpretation numbered: resp_history resp_numbers_ok
proof
  show "resp_numbers_ok (h @ fst (resp_ensure_started uuid now e)) (snd (resp_ensure_started uuid now e))"
    if "resp_numbers_ok h e" "\<not> rse_started e" for h e uuid now
    by (rule resp_numbers_grow[OF that(1)]) (simp_all add: resp_started_eq[OF that(2)])
  show "resp_numbers_ok h e1" if "resp_numbers_ok h e" "resp_alike e e1" for h e e1
    using that by (simp add: resp_numbers_ok_def resp_alike_def)
  show "resp_numbers_ok h (resp_add_block i k e)" if "resp_numbers_ok h e" for h e i k
    using that by (simp add: resp_numbers_ok_def resp_add_block_def)
  show "resp_numbers_ok (h @ fst (resp_announce i e)) (snd (resp_announce i e))"
    if "resp_numbers_ok h e" "resp_block_at i e = Some b" "\<not> rsb_announced b" for h e i b
    using that by (auto simp: resp_announce_eq intro!: resp_numbers_grow[OF that(1)])
  show "resp_numbers_ok (h @ fst (resp_finish_block b (resp_remove i e))) (snd (resp_finish_block b (resp_remove i e)))"
    if "resp_numbers_ok h e" for h e i b
    by (rule resp_numbers_grow[OF that])
      (simp_all add: resp_finish_eq resp_put_item_def resp_remove_def)
  show "resp_numbers_ok (h @ fst (resp_piece (rsb_kind b) i t e)) (snd (resp_piece (rsb_kind b) i t e))"
    if "resp_numbers_ok h e" "resp_block_at i e = Some b" for h e i t b
    by (rule resp_numbers_grow[OF that(1), where xs = "[resp_piece_event (rsb_kind b) t b]"]) (simp_all add: resp_piece_eq[OF that(2)])
  show "resp_numbers_ok (h @ fst (resp_send_terminal e)) (snd (resp_send_terminal e))" if "resp_numbers_ok h e" for h e
    by (rule resp_numbers_grow[OF that]) (simp add: resp_send_terminal_eq Let_def del: resp_number.simps, simp add: resp_send_terminal_eq Let_def)
  show "resp_numbers_ok (h @ fst (resp_send_error m c e)) (snd (resp_send_error m c e))" if "resp_numbers_ok h e" for h e m c
    by (rule resp_numbers_grow[OF that]) (simp add: resp_send_error_eq del: resp_number.simps, simp add: resp_send_error_eq)
qed

lemma resp_events_numbered:
  "map (\<lambda>x. jget ''sequence_number'' (snd x)) (resp_stream_out uuid now vs)
   = map (\<lambda>n. Some (jnat n)) [0..<length (resp_stream_out uuid now vs)]"
proof -
  have "resp_numbers_ok [] resp_encoder_new" by (simp add: resp_numbers_ok_def resp_encoder_new_def)
  from numbered.whole[OF this] show ?thesis by (simp add: resp_numbers_ok_def)
qed

subsection \<open>What a client follows\<close>

datatype resp_item_state = RNone | RMessage | RTexting | RTexted | RRefusing | RRefused | RPartOver
  | RReasoning | RSummary | RSummarised | RReasoned | RCalling | RCalled | RClosed

text \<open>The life of an item: the events on it with the type of the item or part they carry, the state
  they need and the state they lead to.\<close>

definition resp_item_life :: "((string \<times> string) \<times> resp_item_state \<times> resp_item_state) list" where
  "resp_item_life = [
     ((''response.output_item.added'', ''message''), RNone, RMessage),
     ((''response.output_item.added'', ''reasoning''), RNone, RReasoning),
     ((''response.output_item.added'', ''function_call''), RNone, RCalling),
     ((''response.content_part.added'', ''output_text''), RMessage, RTexting),
     ((''response.content_part.added'', ''refusal''), RMessage, RRefusing),
     ((''response.reasoning_summary_part.added'', ''summary_text''), RReasoning, RSummary),
     ((''response.output_text.delta'', []), RTexting, RTexting),
     ((''response.refusal.delta'', []), RRefusing, RRefusing),
     ((''response.reasoning_summary_text.delta'', []), RSummary, RSummary),
     ((''response.function_call_arguments.delta'', []), RCalling, RCalling),
     ((''response.output_text.done'', []), RTexting, RTexted),
     ((''response.content_part.done'', ''output_text''), RTexted, RPartOver),
     ((''response.refusal.done'', []), RRefusing, RRefused),
     ((''response.content_part.done'', ''refusal''), RRefused, RPartOver),
     ((''response.reasoning_summary_text.done'', []), RSummary, RSummarised),
     ((''response.reasoning_summary_part.done'', ''summary_text''), RSummarised, RReasoned),
     ((''response.function_call_arguments.done'', []), RCalling, RCalled),
     ((''response.output_item.done'', ''message''), RPartOver, RClosed),
     ((''response.output_item.done'', ''reasoning''), RReasoned, RClosed),
     ((''response.output_item.done'', ''function_call''), RCalled, RClosed)]"

definition resp_carries :: "json \<Rightarrow> string" where
  "resp_carries v = str_or [] (Option.bind (case jget ''item'' v of Some i \<Rightarrow> Some i | None \<Rightarrow> jget ''part'' v) (get_str ''type''))"

datatype resp_phase = RBefore | RCreated | RRunning "(json \<times> resp_item_state) list" | REnd

definition resp_state_at :: "(json \<times> resp_item_state) list \<Rightarrow> json \<Rightarrow> resp_item_state" where
  "resp_state_at m i = (case map_of m i of Some s \<Rightarrow> s | None \<Rightarrow> RNone)"

definition resp_accept_item :: "(json \<times> resp_item_state) list \<Rightarrow> resp_out \<Rightarrow> resp_phase option" where
  "resp_accept_item m x = (case (jget ''output_index'' (snd x), map_of resp_item_life (fst x, resp_carries (snd x))) of
     (Some i, Some (s, s')) \<Rightarrow> if resp_state_at m i = s then Some (RRunning (al_put i s' m)) else None
   | _ \<Rightarrow> None)"

definition resp_last_events :: "string list" where
  "resp_last_events = [''response.completed'', ''response.incomplete'', ''response.failed'']"

definition resp_all_closed :: "(json \<times> resp_item_state) list \<Rightarrow> bool" where
  "resp_all_closed m \<longleftrightarrow> list_all (\<lambda>x. resp_state_at m (fst x) \<in> {RNone, RClosed}) m"

definition resp_accept :: "resp_phase \<Rightarrow> resp_out \<Rightarrow> resp_phase option" where
  "resp_accept p x = (case p of
     RBefore \<Rightarrow> if fst x = ''response.created'' then Some RCreated else None
   | RCreated \<Rightarrow> if fst x = ''response.in_progress'' then Some (RRunning []) else None
   | RRunning m \<Rightarrow> if fst x = ''error'' then Some REnd
       else if fst x \<in> set resp_last_events then (if resp_all_closed m then Some REnd else None)
       else resp_accept_item m x
   | REnd \<Rightarrow> None)"

fun resp_accept_all :: "resp_phase \<Rightarrow> resp_out list \<Rightarrow> resp_phase option" where
  "resp_accept_all p [] = Some p"
| "resp_accept_all p (x # xs) = Option.bind (resp_accept p x) (\<lambda>q. resp_accept_all q xs)"

lemma resp_accept_append [simp]:
  "resp_accept_all p (xs @ ys) = Option.bind (resp_accept_all p xs) (\<lambda>q. resp_accept_all q ys)"
  by (induction xs arbitrary: p) (auto split: bind_splits)

text \<open>Events on one item that lead it from one state to another and touch no other.\<close>

definition resp_walks :: "json \<Rightarrow> resp_item_state \<Rightarrow> resp_out list \<Rightarrow> resp_item_state \<Rightarrow> bool" where
  "resp_walks i s xs s' \<longleftrightarrow> (\<forall>m. resp_state_at m i = s \<longrightarrow>
     (\<exists>m'. resp_accept_all (RRunning m) xs = Some (RRunning m') \<and> resp_state_at m' = (resp_state_at m)(i := s')))"

lemma resp_state_put [simp]: "resp_state_at (al_put i s m) = (resp_state_at m)(i := s)"
  by (rule ext) (simp add: resp_state_at_def)

lemma resp_walks_nil: "resp_walks i s [] s"
  by (auto simp: resp_walks_def)

lemma resp_walks_cons:
  assumes "jget ''output_index'' v = Some i" and "map_of resp_item_life (n, resp_carries v) = Some (s, s1)"
    and "n \<noteq> ''error''" and "n \<notin> set resp_last_events" and "resp_walks i s1 xs s'"
  shows "resp_walks i s ((n, v) # xs) s'"
  unfolding resp_walks_def
proof (intro allI impI)
  fix m assume at: "resp_state_at m i = s"
  have "resp_accept (RRunning m) (n, v) = Some (RRunning (al_put i s1 m))"
    using assms at by (simp add: resp_accept_def resp_accept_item_def)
  moreover obtain m' where "resp_accept_all (RRunning (al_put i s1 m)) xs = Some (RRunning m')"
    "resp_state_at m' = (resp_state_at (al_put i s1 m))(i := s')"
    using assms(5) unfolding resp_walks_def by (metis fun_upd_same resp_state_put)
  ultimately show "\<exists>m'. resp_accept_all (RRunning m) ((n, v) # xs) = Some (RRunning m') \<and> resp_state_at m' = (resp_state_at m)(i := s')"
    by simp
qed

fun resp_live_state :: "part_kind \<Rightarrow> resp_item_state" where
  "resp_live_state KText = RTexting"
| "resp_live_state KRefusal = RRefusing"
| "resp_live_state KThinking = RSummary"
| "resp_live_state KToolUse = RCalling"

lemmas resp_walk_simps = resp_numbered_event_def resp_item_life_def resp_carries_def resp_last_events_def resp_at_def
  resp_text_part_def resp_refusal_part_def resp_summary_part_def resp_message_item_def

lemma resp_announce_walks:
  "resp_walks (jnat (rsb_output_index b)) RNone (resp_number n (resp_announcement b)) (resp_live_state (rsb_kind b))"
  by (cases "rsb_kind b") (auto simp: resp_announcement_def resp_walk_simps intro!: resp_walks_cons resp_walks_nil)

lemma resp_piece_walks:
  "resp_walks (jnat (rsb_output_index b)) (resp_live_state k) (resp_number n [resp_piece_event k t b]) (resp_live_state k)"
  by (cases k) (auto simp: resp_walk_simps intro!: resp_walks_cons resp_walks_nil)

lemma resp_done_walks:
  "resp_walks (jnat (rsb_output_index b)) (resp_live_state (rsb_kind b)) (resp_number n (resp_finish_events b)) RClosed"
  by (cases "rsb_kind b") (auto simp: resp_finish_events_def resp_walk_simps intro!: resp_walks_cons resp_walks_nil)


text \<open>The client and the encoder agree on where every item stands.\<close>

definition resp_in_step :: "(json \<times> resp_item_state) list \<Rightarrow> resp_encoder \<Rightarrow> bool" where
  "resp_in_step m e \<longleftrightarrow>
     (\<forall>i b. resp_block_at i e = Some b \<longrightarrow>
        resp_state_at m (jnat (rsb_output_index b)) = (if rsb_announced b then resp_live_state (rsb_kind b) else RNone))
     \<and> (\<forall>n \<ge> rse_next_index e. resp_state_at m (jnat n) = RNone)
     \<and> (\<forall>p. resp_state_at m p \<in> {RNone, RClosed} \<or>
          (\<exists>i b. resp_block_at i e = Some b \<and> rsb_announced b \<and> p = jnat (rsb_output_index b)))"

definition resp_followed :: "resp_out list \<Rightarrow> resp_encoder \<Rightarrow> bool" where
  "resp_followed h e \<longleftrightarrow> (if rse_finished e then resp_accept_all RBefore h = Some REnd
     else if \<not> rse_started e then h = [] \<and> (\<forall>i. resp_block_at i e = None)
     else \<exists>m. resp_accept_all RBefore h = Some (RRunning m) \<and> resp_in_step m e)"

lemma jnat_inject [simp]: "jnat n = jnat k \<longleftrightarrow> n = k"
  by (simp add: jnat_def)

lemma resp_in_step_other:
  assumes "resp_indexed e" and "resp_block_at i e = Some b" and "resp_block_at j e = Some c" and "j \<noteq> i"
  shows "rsb_output_index c \<noteq> rsb_output_index b"
  using assms unfolding resp_indexed_def by metis

lemma resp_in_step_keep:
  assumes "resp_in_step m e" and "resp_indexed e" and b: "resp_block_at i e = Some b"
    and new: "resp_block_at i e1 = Some c" "rsb_output_index c = rsb_output_index b" "rsb_kind c = rsb_kind b" "rsb_announced c"
    and others: "\<And>j. j \<noteq> i \<Longrightarrow> resp_block_at j e1 = resp_block_at j e" and "rse_next_index e1 = rse_next_index e"
    and state: "resp_state_at m' = (resp_state_at m)(jnat (rsb_output_index b) := resp_live_state (rsb_kind b))"
  shows "resp_in_step m' e1"
proof -
  have "resp_state_at m' (jnat (rsb_output_index a)) = (if rsb_announced a then resp_live_state (rsb_kind a) else RNone)"
    if "resp_block_at j e1 = Some a" for j a
  proof (cases "j = i")
    case False
    then have j: "resp_block_at j e = Some a" using others that by simp
    then have "resp_state_at m (jnat (rsb_output_index a)) = (if rsb_announced a then resp_live_state (rsb_kind a) else RNone)"
      using assms(1) unfolding resp_in_step_def by blast
    then show ?thesis using state resp_in_step_other[OF assms(2) b j False] by simp
  qed (use that new state in simp)
  moreover have "rsb_output_index b < rse_next_index e" using assms(2) b by (simp add: resp_indexed_def)
  then have "\<forall>n \<ge> rse_next_index e1. resp_state_at m' (jnat n) = RNone"
    using assms(1,9) state by (auto simp: resp_in_step_def)
  moreover have "resp_state_at m' p \<in> {RNone, RClosed} \<or>
      (\<exists>i b. resp_block_at i e1 = Some b \<and> rsb_announced b \<and> p = jnat (rsb_output_index b))" for p
  proof (cases "p = jnat (rsb_output_index b)")
    case True
    then show ?thesis using new by metis
  next
    case False
    then have "resp_state_at m' p = resp_state_at m p" using state by simp
    moreover have "resp_state_at m p \<in> {RNone, RClosed} \<or>
        (\<exists>j a. resp_block_at j e = Some a \<and> rsb_announced a \<and> p = jnat (rsb_output_index a))"
      using assms(1) unfolding resp_in_step_def by blast
    ultimately show ?thesis using False b others by (metis option.inject)
  qed
  ultimately show ?thesis unfolding resp_in_step_def by blast
qed

lemma resp_in_step_close:
  assumes "resp_in_step m e" and "resp_indexed e" and b: "resp_block_at i e = Some b"
    and gone: "resp_block_at i e1 = None"
    and others: "\<And>j. j \<noteq> i \<Longrightarrow> resp_block_at j e1 = resp_block_at j e" and "rse_next_index e1 = rse_next_index e"
    and state: "resp_state_at m' = (resp_state_at m)(jnat (rsb_output_index b) := RClosed)"
  shows "resp_in_step m' e1"
proof -
  have "resp_state_at m' (jnat (rsb_output_index a)) = (if rsb_announced a then resp_live_state (rsb_kind a) else RNone)"
    if "resp_block_at j e1 = Some a" for j a
  proof -
    have "j \<noteq> i" using that gone by auto
    then have j: "resp_block_at j e = Some a" using others that by simp
    then have "resp_state_at m (jnat (rsb_output_index a)) = (if rsb_announced a then resp_live_state (rsb_kind a) else RNone)"
      using assms(1) unfolding resp_in_step_def by blast
    then show ?thesis using state resp_in_step_other[OF assms(2) b j \<open>j \<noteq> i\<close>] by simp
  qed
  moreover have "rsb_output_index b < rse_next_index e" using assms(2) b by (simp add: resp_indexed_def)
  then have "\<forall>n \<ge> rse_next_index e1. resp_state_at m' (jnat n) = RNone"
    using assms(1,6) state by (auto simp: resp_in_step_def)
  moreover have "resp_state_at m' p \<in> {RNone, RClosed} \<or>
      (\<exists>i b. resp_block_at i e1 = Some b \<and> rsb_announced b \<and> p = jnat (rsb_output_index b))" for p
  proof (cases "p = jnat (rsb_output_index b)")
    case False
    then have "resp_state_at m' p = resp_state_at m p" using state by simp
    moreover have "resp_state_at m p \<in> {RNone, RClosed} \<or>
        (\<exists>j a. resp_block_at j e = Some a \<and> rsb_announced a \<and> p = jnat (rsb_output_index a))"
      using assms(1) unfolding resp_in_step_def by blast
    ultimately show ?thesis using False b others by (metis option.inject)
  qed (use state in simp)
  ultimately show ?thesis unfolding resp_in_step_def by blast
qed

lemma resp_in_step_add:
  assumes "resp_in_step m e" and "resp_indexed e" and "resp_block_at i e = None"
  shows "resp_in_step m (resp_add_block i k e)"
proof -
  have free: "\<forall>n \<ge> rse_next_index e. resp_state_at m (jnat n) = RNone"
    and old: "resp_block_at j e = Some a \<Longrightarrow>
      resp_state_at m (jnat (rsb_output_index a)) = (if rsb_announced a then resp_live_state (rsb_kind a) else RNone)"
    and rest: "resp_state_at m p \<in> {RNone, RClosed} \<or>
      (\<exists>j a. resp_block_at j e = Some a \<and> rsb_announced a \<and> p = jnat (rsb_output_index a))" for j a p
    using assms(1) unfolding resp_in_step_def by blast+
  have "resp_state_at m (jnat (rsb_output_index a)) = (if rsb_announced a then resp_live_state (rsb_kind a) else RNone)"
    if "resp_block_at j (resp_add_block i k e) = Some a" for j a
  proof (cases "j = i")
    case True
    then have "a = resp_block_new k e" using that by simp
    then show ?thesis using free by (simp add: resp_block_new_def)
  next
    case False
    then show ?thesis using that old by simp
  qed
  moreover have "resp_state_at m p \<in> {RNone, RClosed} \<or>
      (\<exists>j a. resp_block_at j (resp_add_block i k e) = Some a \<and> rsb_announced a \<and> p = jnat (rsb_output_index a))" for p
  proof -
    have "resp_block_at j (resp_add_block i k e) = Some a" if "resp_block_at j e = Some a" for j a
      using that assms(3) by auto
    then show ?thesis using rest by blast
  qed
  moreover have "\<forall>n \<ge> rse_next_index (resp_add_block i k e). resp_state_at m (jnat n) = RNone" using free by simp
  ultimately show ?thesis unfolding resp_in_step_def by blast
qed

lemma resp_in_step_alike:
  assumes "resp_in_step m e" and "resp_alike e e1"
  shows "resp_in_step m e1"
proof -
  have there: "\<exists>c. resp_block_at i e = Some c \<and> resp_same_block c b" if "resp_block_at i e1 = Some b" for i b
    using assms(2) that unfolding resp_alike_def by (metis option_rel_Some2)
  have here: "\<exists>c. resp_block_at i e1 = Some c \<and> resp_same_block b c" if "resp_block_at i e = Some b" for i b
    using assms(2) that unfolding resp_alike_def by (metis option_rel_Some1)
  have n: "rse_next_index e1 = rse_next_index e" using assms(2) by (simp add: resp_alike_def)
  have "resp_state_at m (jnat (rsb_output_index b)) = (if rsb_announced b then resp_live_state (rsb_kind b) else RNone)"
    if at: "resp_block_at i e1 = Some b" for i b
  proof -
    obtain c where "resp_block_at i e = Some c" "resp_same_block c b" using there[OF at] by blast
    then show ?thesis using assms(1) unfolding resp_in_step_def resp_same_block_def by metis
  qed
  moreover have "resp_state_at m p \<in> {RNone, RClosed} \<or>
      (\<exists>i b. resp_block_at i e1 = Some b \<and> rsb_announced b \<and> p = jnat (rsb_output_index b))" for p
    using assms(1) here unfolding resp_in_step_def resp_same_block_def by metis
  ultimately show ?thesis using assms(1) unfolding resp_in_step_def n by blast
qed

text \<open>What is sent about a block moves the client to the state the encoder goes to.\<close>

lemma resp_followed_item:
  assumes "resp_followed h e" and "rse_started e" and "\<not> rse_finished e" and "resp_block_at i e = Some b"
    and "resp_walks (jnat (rsb_output_index b)) (if rsb_announced b then resp_live_state (rsb_kind b) else RNone) out s"
    and "\<And>m m'. resp_in_step m e \<Longrightarrow>
      resp_state_at m' = (resp_state_at m)(jnat (rsb_output_index b) := s) \<Longrightarrow> resp_in_step m' e1"
    and "rse_started e1" and "\<not> rse_finished e1"
  shows "resp_followed (h @ out) e1"
proof -
  obtain m where m: "resp_accept_all RBefore h = Some (RRunning m)" "resp_in_step m e"
    using assms(1-3) by (auto simp: resp_followed_def)
  then have "resp_state_at m (jnat (rsb_output_index b)) = (if rsb_announced b then resp_live_state (rsb_kind b) else RNone)"
    using assms(4) unfolding resp_in_step_def by blast
  then obtain m' where "resp_accept_all (RRunning m) out = Some (RRunning m')"
    "resp_state_at m' = (resp_state_at m)(jnat (rsb_output_index b) := s)" using assms(5) unfolding resp_walks_def by metis
  then show ?thesis using m assms(6-8) by (auto simp: resp_followed_def)
qed


lemma resp_followed_end:
  assumes "resp_followed h e" and "resp_working e" and "rse_finished e1"
    and "\<And>m. resp_in_step m e \<Longrightarrow> resp_accept_all (RRunning m) out = Some REnd"
  shows "resp_followed (h @ out) e1"
proof -
  obtain m where "resp_accept_all RBefore h = Some (RRunning m)" "resp_in_step m e"
    using assms(1,2) by (auto simp: resp_followed_def resp_working_def)
  then show ?thesis using assms(3,4) by (simp add: resp_followed_def)
qed

lemma resp_in_step_closed:
  "resp_in_step m e \<Longrightarrow> rse_blocks e = [] \<Longrightarrow> resp_all_closed m"
  by (simp add: resp_in_step_def resp_all_closed_def list_all_iff resp_block_at_def)

lemma resp_add_piece_same [simp]:
  "rsb_output_index (resp_add_piece k t b) = rsb_output_index b" "rsb_kind (resp_add_piece k t b) = rsb_kind b"
  "rsb_announced (resp_add_piece k t b) = rsb_announced b"
  by (cases k; simp)+

interpretation followed: resp_history resp_followed
proof
  show "resp_followed (h @ fst (resp_ensure_started uuid now e)) (snd (resp_ensure_started uuid now e))"
    if p: "resp_followed h e" "\<not> rse_started e" "\<not> rse_finished e" for h e uuid now
  proof -
    have "resp_block_at i (resp_fill_in uuid now e) = None" for i
      using p by (simp add: resp_followed_def resp_fill_in_def resp_block_at_def)
    then have "resp_in_step [] (resp_fill_in uuid now e\<lparr>rse_seq := n\<rparr>)" for n by (simp add: resp_in_step_def resp_state_at_def)
    moreover have "resp_accept_all RBefore (resp_number n (resp_opening e1)) = Some (RRunning [])" for n e1
      by (simp add: resp_opening_def resp_numbered_event_def resp_accept_def Let_def)
    moreover have "rse_started (resp_fill_in uuid now e)" "\<not> rse_finished (resp_fill_in uuid now e)" "h = []"
      using p by (simp_all add: resp_fill_in_def resp_followed_def)
    ultimately show ?thesis unfolding resp_started_eq[OF p(2)] by (simp add: resp_followed_def)
  qed
  show "resp_followed h e1" if p: "resp_followed h e" "resp_alike e e1" for h e e1
  proof -
    have gone: "resp_block_at i e1 = None" if "resp_block_at i e = None" for i
      using p(2) that unfolding resp_alike_def by (metis option.rel_distinct(1) option.exhaust)
    have "rse_started e1 = rse_started e" "rse_finished e1 = rse_finished e" using p(2) by (simp_all add: resp_alike_def)
    then show ?thesis using p gone resp_in_step_alike by (auto simp: resp_followed_def split: if_splits)
  qed
  show "resp_followed h (resp_add_block i k e)" if "resp_followed h e" "resp_working e" "resp_block_at i e = None" for h e i k
    using that resp_in_step_add unfolding resp_followed_def resp_working_def by auto
  show "resp_followed (h @ fst (resp_announce i e)) (snd (resp_announce i e))"
    if p: "resp_followed h e" "rse_started e" "\<not> rse_finished e" "resp_indexed e" "resp_block_at i e = Some b" "\<not> rsb_announced b"
    for h e i b
  proof (rule resp_followed_item[OF p(1-3,5), where s = "resp_live_state (rsb_kind b)"])
    show "resp_walks (jnat (rsb_output_index b)) (if rsb_announced b then resp_live_state (rsb_kind b) else RNone)
        (fst (resp_announce i e)) (resp_live_state (rsb_kind b))"
      using p(5,6) by (simp add: resp_announce_eq resp_announce_walks)
    show "resp_in_step m' (snd (resp_announce i e))" if "resp_in_step m e"
      "resp_state_at m' = (resp_state_at m)(jnat (rsb_output_index b) := resp_live_state (rsb_kind b))" for m m'
      by (rule resp_in_step_keep[OF that(1) p(4,5) _ _ _ _ _ _ that(2), where c = "b\<lparr>rsb_announced := True\<rparr>"])
        (use p(5,6) in \<open>simp_all add: resp_announce_at resp_announce_eq\<close>)
  qed (use p in simp_all)
  show "resp_followed (h @ fst (resp_finish_block b (resp_remove i e))) (snd (resp_finish_block b (resp_remove i e)))"
    if p: "resp_followed h e" "resp_working e" "resp_block_at i e = Some b" "rsb_announced b" for h e i b
  proof (rule resp_followed_item[OF p(1) _ _ p(3), where s = RClosed])
    show "resp_walks (jnat (rsb_output_index b)) (if rsb_announced b then resp_live_state (rsb_kind b) else RNone)
        (fst (resp_finish_block b (resp_remove i e))) RClosed"
      using p(4) by (simp add: resp_finish_eq resp_done_walks)
    have x: "resp_indexed e" using p(2) by (simp add: resp_working_def)
    show "resp_in_step m' (snd (resp_finish_block b (resp_remove i e)))" if "resp_in_step m e"
      "resp_state_at m' = (resp_state_at m)(jnat (rsb_output_index b) := RClosed)" for m m'
      by (rule resp_in_step_close[OF that(1) x p(3) _ _ _ that(2)]) (simp_all add: resp_finish_eq)
  qed (use p in \<open>simp_all add: resp_working_def resp_finish_eq\<close>)
  show "resp_followed (h @ fst (resp_piece (rsb_kind b) i t e)) (snd (resp_piece (rsb_kind b) i t e))"
    if p: "resp_followed h e" "resp_working e" "resp_block_at i e = Some b" "rsb_announced b" for h e i t b
  proof (rule resp_followed_item[OF p(1) _ _ p(3), where s = "resp_live_state (rsb_kind b)"])
    show "resp_walks (jnat (rsb_output_index b)) (if rsb_announced b then resp_live_state (rsb_kind b) else RNone)
        (fst (resp_piece (rsb_kind b) i t e)) (resp_live_state (rsb_kind b))"
      using p(4) by (simp add: resp_piece_eq[OF p(3)] resp_piece_walks del: resp_number.simps)
    have x: "resp_indexed e" using p(2) by (simp add: resp_working_def)
    show "resp_in_step m' (snd (resp_piece (rsb_kind b) i t e))" if "resp_in_step m e"
      "resp_state_at m' = (resp_state_at m)(jnat (rsb_output_index b) := resp_live_state (rsb_kind b))" for m m'
      by (rule resp_in_step_keep[OF that(1) x p(3) _ _ _ _ _ _ that(2), where c = "resp_add_piece (rsb_kind b) t b"])
        (use p(3,4) in \<open>simp_all add: resp_piece_eq[OF p(3)]\<close>)
  qed (use p in \<open>simp_all add: resp_working_def resp_piece_eq[OF p(3)]\<close>)
  show "resp_followed (h @ fst (resp_send_terminal e)) (snd (resp_send_terminal e))"
    if p: "resp_followed h e" "resp_working e" "rse_blocks e = []" for h e
  proof (rule resp_followed_end[OF p(1,2)])
    show "resp_accept_all (RRunning m) (fst (resp_send_terminal e)) = Some REnd" if "resp_in_step m e" for m
      using resp_in_step_closed[OF that p(3)]
      by (simp add: resp_send_terminal_eq Let_def resp_accept_def resp_numbered_event_def resp_last_events_def resp_terminal_event_def)
  qed (simp add: resp_send_terminal_eq Let_def)
  show "resp_followed (h @ fst (resp_send_error m c e)) (snd (resp_send_error m c e))"
    if p: "resp_followed h e" "resp_working e" for h e m c
    by (rule resp_followed_end[OF p]) (simp_all add: resp_send_error_eq resp_accept_def resp_numbered_event_def)
qed


subsection \<open>Items are what was said\<close>

text \<open>What the deltas of an item said, and the items that were declared done.\<close>

definition resp_delta_events :: "string list" where
  "resp_delta_events = [''response.output_text.delta'', ''response.refusal.delta'',
     ''response.reasoning_summary_text.delta'', ''response.function_call_arguments.delta'']"

definition resp_spoken :: "json \<Rightarrow> resp_out list \<Rightarrow> string" where
  "resp_spoken i h = concat (map (\<lambda>x. if fst x \<in> set resp_delta_events \<and> jget ''output_index'' (snd x) = Some i
     then str_or [] (get_str ''delta'' (snd x)) else []) h)"

definition resp_dones :: "resp_out list \<Rightarrow> (json \<times> json) list" where
  "resp_dones h = filter_map (\<lambda>x. if fst x = ''response.output_item.done'' then
       (case (jget ''output_index'' (snd x), jget ''item'' (snd x)) of (Some i, Some item) \<Rightarrow> Some (i, item) | _ \<Rightarrow> None)
     else None) h"

text \<open>The text in an item: of its parts, of its summary, or its arguments.\<close>

definition resp_texts_in :: "string \<Rightarrow> json \<Rightarrow> string" where
  "resp_texts_in k item = concat (map (\<lambda>p. str_or (str_or [] (get_str ''refusal'' p)) (get_str ''text'' p))
     (case get_array k item of Some ps \<Rightarrow> ps | None \<Rightarrow> []))"

definition resp_item_said :: "json \<Rightarrow> string" where
  "resp_item_said item = resp_texts_in ''content'' item @ resp_texts_in ''summary'' item @ str_or [] (get_str ''arguments'' item)"

definition resp_said :: "resp_block \<Rightarrow> string" where
  "resp_said b = (if rsb_kind b = KToolUse then rsb_args b else rsb_text b)"

definition resp_slot :: "nat \<Rightarrow> json option list \<Rightarrow> json option" where
  "resp_slot n items = (if n < length items then items ! n else None)"

definition resp_told :: "resp_out list \<Rightarrow> resp_encoder \<Rightarrow> bool" where
  "resp_told h e \<longleftrightarrow>
     (\<forall>i b. resp_block_at i e = Some b \<longrightarrow> resp_spoken (jnat (rsb_output_index b)) h = resp_said b)
     \<and> (\<forall>n \<ge> rse_next_index e. resp_spoken (jnat n) h = [])
     \<and> (\<forall>x \<in> set (resp_dones h). resp_item_said (snd x) = resp_spoken (fst x) h
          \<and> (\<exists>n < rse_next_index e. fst x = jnat n \<and> (\<forall>i b. resp_block_at i e = Some b \<longrightarrow> rsb_output_index b \<noteq> n)))"

definition resp_stored :: "resp_out list \<Rightarrow> resp_encoder \<Rightarrow> bool" where
  "resp_stored h e \<longleftrightarrow> (\<forall>n. resp_slot n (rse_items e) = map_of (rev (resp_dones h)) (jnat n))
     \<and> (\<forall>x \<in> set h. fst x \<in> set resp_last_events \<longrightarrow> rse_finished e
          \<and> get_in ''response'' ''output'' (snd x) = Some (JArr (filter_map (\<lambda>y. y) (rse_items e))))"

lemma resp_spoken_append [simp]: "resp_spoken i (xs @ ys) = resp_spoken i xs @ resp_spoken i ys"
  by (simp add: resp_spoken_def)

lemma resp_dones_append [simp]: "resp_dones (xs @ ys) = resp_dones xs @ resp_dones ys"
  by (simp add: resp_dones_def)

text \<open>Events that add nothing to what is said or stored.\<close>

definition resp_silent :: "(string \<times> jmap) list \<Rightarrow> bool" where
  "resp_silent xs \<longleftrightarrow> list_all (\<lambda>x. fst x \<notin> set (''response.output_item.done'' # resp_delta_events)) xs"

lemma resp_silent_spoken:
  assumes "resp_silent xs"
  shows "resp_spoken i (resp_number n xs) = []" and "resp_dones (resp_number n xs) = []"
proof -
  have "resp_spoken i (resp_number n xs) = [] \<and> resp_dones (resp_number n xs) = []" using assms
    by (induction xs arbitrary: n)
      (simp_all add: resp_silent_def resp_spoken_def resp_dones_def resp_numbered_event_def)
  then show "resp_spoken i (resp_number n xs) = []" "resp_dones (resp_number n xs) = []" by simp_all
qed

lemma resp_number_names: "fst ` set (resp_number n xs) = fst ` set xs"
  by (induction xs arbitrary: n) (simp_all add: resp_numbered_event_def)

lemma resp_silent_opening [simp]: "resp_silent (resp_opening e)"
  by (simp add: resp_silent_def resp_opening_def resp_delta_events_def Let_def)

lemma resp_silent_announcement [simp]: "resp_silent (resp_announcement b)"
  by (cases "rsb_kind b") (simp_all add: resp_silent_def resp_announcement_def resp_delta_events_def)

lemma resp_silent_done [simp]: "resp_silent (resp_done_parts k b)"
  by (cases k) (simp_all add: resp_silent_def resp_delta_events_def)

lemma resp_number_append: "resp_number n (xs @ ys) = resp_number n xs @ resp_number (n + length xs) ys"
  by (induction xs arbitrary: n) simp_all

lemma resp_finish_spoken: "resp_spoken i (resp_number n (resp_finish_events b)) = []"
  by (simp add: resp_finish_events_def resp_number_append resp_silent_spoken)
    (simp add: resp_spoken_def resp_numbered_event_def resp_delta_events_def)

lemma resp_finish_dones: "resp_dones (resp_number n (resp_finish_events b)) =
   [(jnat (rsb_output_index b), resp_done_item (rsb_kind b) b)]"
  by (simp add: resp_finish_events_def resp_number_append resp_silent_spoken)
    (simp add: resp_dones_def resp_numbered_event_def)

lemma resp_piece_spoken: "resp_spoken i (resp_number n [resp_piece_event k t b]) = (if i = jnat (rsb_output_index b) then t else [])"
  by (cases k) (auto simp: resp_spoken_def resp_numbered_event_def resp_delta_events_def resp_at_def)

lemma resp_piece_dones: "resp_dones (resp_number n [resp_piece_event k t b]) = []"
  by (cases k) (simp_all add: resp_dones_def resp_numbered_event_def)

lemma resp_done_item_said: "resp_item_said (resp_done_item (rsb_kind b) b) = resp_said b"
  by (cases "rsb_kind b") (simp_all add: resp_item_said_def resp_texts_in_def resp_said_def resp_message_item_def
      resp_text_part_def resp_refusal_part_def resp_summary_part_def)

lemma resp_said_add [simp]: "resp_said (resp_add_piece (rsb_kind b) t b) = resp_said b @ t"
  by (cases "rsb_kind b") (simp_all add: resp_said_def)

text \<open>Nothing is said, and the blocks hold what they held.\<close>

lemma resp_told_silent:
  assumes "resp_told h e" and "\<And>i. resp_spoken i out = []" and "resp_dones out = []"
    and "rse_next_index e1 = rse_next_index e"
    and blocks: "\<And>i c. resp_block_at i e1 = Some c \<Longrightarrow>
      \<exists>b. resp_block_at i e = Some b \<and> rsb_output_index b = rsb_output_index c \<and> resp_said b = resp_said c"
  shows "resp_told (h @ out) e1"
proof -
  have "resp_spoken (jnat (rsb_output_index c)) h = resp_said c" if "resp_block_at i e1 = Some c" for i c
    using blocks[OF that] assms(1) unfolding resp_told_def by metis
  moreover have "\<exists>n < rse_next_index e1. p = jnat n \<and> (\<forall>i b. resp_block_at i e1 = Some b \<longrightarrow> rsb_output_index b \<noteq> n)"
    if "\<exists>n < rse_next_index e. p = jnat n \<and> (\<forall>i b. resp_block_at i e = Some b \<longrightarrow> rsb_output_index b \<noteq> n)" for p
    using that blocks assms(4) by metis
  ultimately show ?thesis using assms(1-4) by (simp add: resp_told_def)
qed

lemma resp_told_add:
  assumes "resp_told h e" and "resp_block_at i e = None"
  shows "resp_told h (resp_add_block i k e)"
proof -
  have free: "resp_spoken (jnat (rse_next_index e)) h = []" using assms(1) by (simp add: resp_told_def)
  have "resp_spoken (jnat (rsb_output_index b)) h = resp_said b" if "resp_block_at j (resp_add_block i k e) = Some b" for j b
  proof (cases "j = i")
    case True
    then have "b = resp_block_new k e" using that by simp
    then show ?thesis using free by (simp add: resp_block_new_def resp_said_def)
  next
    case False
    then have "resp_block_at j e = Some b" using that by simp
    then show ?thesis using assms(1) unfolding resp_told_def by blast
  qed
  moreover have "\<exists>n < rse_next_index (resp_add_block i k e). p = jnat n
      \<and> (\<forall>j b. resp_block_at j (resp_add_block i k e) = Some b \<longrightarrow> rsb_output_index b \<noteq> n)"
    if old: "\<exists>n < rse_next_index e. p = jnat n \<and> (\<forall>i b. resp_block_at i e = Some b \<longrightarrow> rsb_output_index b \<noteq> n)" for p
  proof -
    obtain n where n: "n < rse_next_index e" "p = jnat n" "\<And>i b. resp_block_at i e = Some b \<Longrightarrow> rsb_output_index b \<noteq> n"
      using old by blast
    have "rsb_output_index b \<noteq> n" if "resp_block_at j (resp_add_block i k e) = Some b" for j b
      using that n by (cases "j = i") (auto simp: resp_block_new_def)
    then show ?thesis using n by (intro exI[of _ n]) simp
  qed
  ultimately show ?thesis using assms(1) by (simp add: resp_told_def)
qed


lemma resp_told_piece:
  assumes told: "resp_told h e" and ix: "resp_indexed e" and b: "resp_block_at i e = Some b"
  shows "resp_told (h @ fst (resp_piece (rsb_kind b) i t e)) (snd (resp_piece (rsb_kind b) i t e))"
proof -
  define out where "out = fst (resp_piece (rsb_kind b) i t e)"
  define e1 where "e1 = snd (resp_piece (rsb_kind b) i t e)"
  have said: "resp_spoken p out = (if p = jnat (rsb_output_index b) then t else [])" and none: "resp_dones out = []" for p
    by (simp_all add: out_def resp_piece_eq[OF b] resp_piece_spoken resp_piece_dones del: resp_number.simps)
  have at: "resp_block_at j e1 = (if j = i then Some (resp_add_piece (rsb_kind b) t b) else resp_block_at j e)"
    and n: "rse_next_index e1 = rse_next_index e" for j
    using b by (simp_all add: e1_def resp_piece_eq[OF b])
  have "resp_spoken (jnat (rsb_output_index c)) (h @ out) = resp_said c" if c: "resp_block_at j e1 = Some c" for j c
  proof (cases "j = i")
    case True
    then have "c = resp_add_piece (rsb_kind b) t b" using c at by simp
    moreover have "resp_spoken (jnat (rsb_output_index b)) h = resp_said b" using told b unfolding resp_told_def by blast
    ultimately show ?thesis using said by simp
  next
    case False
    then have j: "resp_block_at j e = Some c" using c at by simp
    then have "resp_spoken (jnat (rsb_output_index c)) h = resp_said c" using told unfolding resp_told_def by blast
    then show ?thesis using said resp_in_step_other[OF ix b j False] by simp
  qed
  moreover have "rsb_output_index b < rse_next_index e" using ix b by (simp add: resp_indexed_def)
  then have "\<forall>k \<ge> rse_next_index e1. resp_spoken (jnat k) (h @ out) = []"
    using told said n by (auto simp: resp_told_def)
  moreover have "resp_item_said (snd x) = resp_spoken (fst x) (h @ out)
      \<and> (\<exists>k < rse_next_index e1. fst x = jnat k \<and> (\<forall>j c. resp_block_at j e1 = Some c \<longrightarrow> rsb_output_index c \<noteq> k))"
    if x: "x \<in> set (resp_dones (h @ out))" for x
  proof -
    have "x \<in> set (resp_dones h)" using x none by simp
    then obtain k where k: "resp_item_said (snd x) = resp_spoken (fst x) h" "k < rse_next_index e" "fst x = jnat k"
      "\<And>j c. resp_block_at j e = Some c \<Longrightarrow> rsb_output_index c \<noteq> k" using told unfolding resp_told_def by blast
    have other: "rsb_output_index b \<noteq> k" by (rule k(4)[OF b])
    have "rsb_output_index c \<noteq> k" if "resp_block_at j e1 = Some c" for j c
      using that at k(4) other by (cases "j = i") auto
    moreover have "resp_spoken (fst x) out = []" using said k(3) other by auto
    ultimately show ?thesis using k n by auto
  qed
  ultimately show ?thesis unfolding resp_told_def out_def[symmetric] e1_def[symmetric] by blast
qed

lemma resp_told_finish:
  assumes told: "resp_told h e" and ix: "resp_indexed e" and b: "resp_block_at i e = Some b"
  shows "resp_told (h @ fst (resp_finish_block b (resp_remove i e))) (snd (resp_finish_block b (resp_remove i e)))"
proof -
  define out where "out = fst (resp_finish_block b (resp_remove i e))"
  define e1 where "e1 = snd (resp_finish_block b (resp_remove i e))"
  have said: "resp_spoken p out = []" for p by (simp add: out_def resp_finish_eq resp_finish_spoken)
  have one: "resp_dones out = [(jnat (rsb_output_index b), resp_done_item (rsb_kind b) b)]"
    by (simp add: out_def resp_finish_eq resp_finish_dones)
  have at: "resp_block_at j e1 = (if j = i then None else resp_block_at j e)" and n: "rse_next_index e1 = rse_next_index e" for j
    by (simp_all add: e1_def resp_finish_eq)
  have "resp_spoken (jnat (rsb_output_index c)) (h @ out) = resp_said c" if "resp_block_at j e1 = Some c" for j c
  proof -
    have "resp_block_at j e = Some c" using that at by (simp split: if_splits)
    then show ?thesis using told said unfolding resp_told_def by simp
  qed
  moreover have "resp_item_said (snd x) = resp_spoken (fst x) (h @ out)
      \<and> (\<exists>k < rse_next_index e1. fst x = jnat k \<and> (\<forall>j c. resp_block_at j e1 = Some c \<longrightarrow> rsb_output_index c \<noteq> k))"
    if x: "x \<in> set (resp_dones (h @ out))" for x
  proof -
    consider "x \<in> set (resp_dones h)" | "x = (jnat (rsb_output_index b), resp_done_item (rsb_kind b) b)"
      using x one by auto
    then show ?thesis
    proof cases
      case 1
      then obtain k where k: "resp_item_said (snd x) = resp_spoken (fst x) h" "k < rse_next_index e" "fst x = jnat k"
        "\<And>j c. resp_block_at j e = Some c \<Longrightarrow> rsb_output_index c \<noteq> k" using told unfolding resp_told_def by blast
      have "rsb_output_index c \<noteq> k" if "resp_block_at j e1 = Some c" for j c
        using that at k(4) by (simp split: if_splits)
      then show ?thesis using k n said by auto
    next
      case 2
      have "rsb_output_index c \<noteq> rsb_output_index b" if "resp_block_at j e1 = Some c" for j c
        using that at resp_in_step_other[OF ix b] by (auto split: if_splits)
      moreover have "rsb_output_index b < rse_next_index e1" using ix b n by (simp add: resp_indexed_def)
      moreover have "resp_spoken (jnat (rsb_output_index b)) h = resp_said b" using told b unfolding resp_told_def by blast
      ultimately show ?thesis unfolding 2 using said by (auto simp: resp_done_item_said)
    qed
  qed
  moreover have "\<forall>k \<ge> rse_next_index e1. resp_spoken (jnat k) (h @ out) = []" using told said n by (simp add: resp_told_def)
  ultimately show ?thesis unfolding resp_told_def out_def[symmetric] e1_def[symmetric] by blast
qed

lemma resp_fill_at [simp]: "resp_block_at i (resp_fill_in uuid now e) = resp_block_at i e"
  "rse_next_index (resp_fill_in uuid now e) = rse_next_index e" "rse_items (resp_fill_in uuid now e) = rse_items e"
  "rse_finished (resp_fill_in uuid now e) = rse_finished e"
  by (simp_all add: resp_fill_in_def resp_block_at_def)

lemma resp_last_spoken:
  assumes "n \<in> set (''error'' # resp_last_events)"
  shows "resp_spoken i (resp_number k [(n, p)]) = []" and "resp_dones (resp_number k [(n, p)]) = []"
  using assms by (auto simp: resp_last_events_def resp_spoken_def resp_dones_def resp_numbered_event_def resp_delta_events_def)

lemma resp_terminal_last: "resp_terminal_event s \<in> set resp_last_events"
  by (simp add: resp_terminal_event_def resp_last_events_def)

interpretation told: resp_history resp_told
proof
  show "resp_told (h @ fst (resp_ensure_started uuid now e)) (snd (resp_ensure_started uuid now e))"
    if p: "resp_told h e" "\<not> rse_started e" for h e uuid now
    by (rule resp_told_silent[OF p(1)]) (use p(2) in \<open>simp_all add: resp_started_eq resp_silent_spoken\<close>)
  show "resp_told h e1" if p: "resp_told h e" "resp_alike e e1" for h e e1
  proof -
    have there: "\<exists>b. resp_block_at i e = Some b \<and> resp_same_block b c" if "resp_block_at i e1 = Some c" for i c
      using p(2) that unfolding resp_alike_def by (metis option_rel_Some2)
    have "resp_told (h @ []) e1"
    proof (rule resp_told_silent[OF p(1)])
      show "\<exists>b. resp_block_at i e = Some b \<and> rsb_output_index b = rsb_output_index c \<and> resp_said b = resp_said c"
        if at: "resp_block_at i e1 = Some c" for i c
      proof -
        obtain b where "resp_block_at i e = Some b" "resp_same_block b c" using there[OF at] by blast
        then show ?thesis by (intro exI[of _ b]) (simp add: resp_same_block_def resp_said_def)
      qed
    qed (use p(2) in \<open>simp_all only: resp_alike_def resp_spoken_def resp_dones_def list.map filter_map.simps concat.simps\<close>)
    then show ?thesis by simp
  qed
  show "resp_told h (resp_add_block i k e)" if "resp_told h e" "resp_block_at i e = None" for h e i k
    using that by (rule resp_told_add)
  show "resp_told (h @ fst (resp_announce i e)) (snd (resp_announce i e))"
    if p: "resp_told h e" "resp_block_at i e = Some b" "\<not> rsb_announced b" for h e i b
  proof (rule resp_told_silent[OF p(1)])
    show "\<exists>a. resp_block_at j e = Some a \<and> rsb_output_index a = rsb_output_index c \<and> resp_said a = resp_said c"
      if "resp_block_at j (snd (resp_announce i e)) = Some c" for j c
      using that p(2) by (cases "j = i") (auto simp: resp_announce_at resp_said_def)
  qed (use p(2,3) in \<open>simp_all add: resp_announce_eq resp_silent_spoken\<close>)
  show "resp_told (h @ fst (resp_finish_block b (resp_remove i e))) (snd (resp_finish_block b (resp_remove i e)))"
    if "resp_told h e" "resp_working e" "resp_block_at i e = Some b" for h e i b
    using that resp_told_finish by (simp add: resp_working_def)
  show "resp_told (h @ fst (resp_piece (rsb_kind b) i t e)) (snd (resp_piece (rsb_kind b) i t e))"
    if "resp_told h e" "resp_working e" "resp_block_at i e = Some b" for h e i t b
    using that resp_told_piece by (simp add: resp_working_def)
  show "resp_told (h @ fst (resp_send_terminal e)) (snd (resp_send_terminal e))" if "resp_told h e" for h e
    by (rule resp_told_silent[OF that])
      (simp_all add: resp_send_terminal_eq Let_def resp_last_spoken resp_terminal_last resp_block_at_def del: resp_number.simps)
  show "resp_told (h @ fst (resp_send_error m c e)) (snd (resp_send_error m c e))" if "resp_told h e" for h e m c
    by (rule resp_told_silent[OF that])
      (simp_all add: resp_send_error_eq resp_last_spoken resp_block_at_def del: resp_number.simps)
qed

text \<open>\<open>C29\<close>. Every item a Responses client is told is done holds exactly what the deltas of that item said, no
  matter how the upstream interleaves its blocks, reuses their indices or leaves them open.\<close>

theorem resp_items_hold_deltas:
  "list_all (\<lambda>x. resp_item_said (snd x) = resp_spoken (fst x) (resp_stream_out uuid now vs)) (resp_dones (resp_stream_out uuid now vs))"
proof -
  have "resp_told [] resp_encoder_new"
    by (simp add: resp_told_def resp_encoder_new_def resp_block_at_def resp_spoken_def resp_dones_def)
  from told.whole[OF this, of uuid now vs] show ?thesis by (auto simp: resp_told_def list_all_iff)
qed


subsection \<open>The last event holds everything\<close>

lemma resp_slot_put: "resp_slot n (rse_items (resp_put_item k x e)) = (if n = k then Some x else resp_slot n (rse_items e))"
  by (auto simp: resp_slot_def resp_put_item_def nth_append nth_list_update)

lemma resp_items_simps [simp]:
  "rse_items (resp_change i f e) = rse_items e" "rse_items (resp_remove i e) = rse_items e"
  "rse_items (resp_add_block i k e) = rse_items e"
  by (simp_all add: resp_change_def resp_remove_def resp_add_block_def)

lemma resp_put_item_seq [simp]:
  "rse_items (resp_put_item n x (e\<lparr>rse_seq := k\<rparr>)) = rse_items (resp_put_item n x e)"
  "rse_items (resp_put_item n x (resp_remove i e)) = rse_items (resp_put_item n x e)"
  by (simp_all add: resp_put_item_def resp_remove_def)

lemma resp_no_last [simp]:
  "set (map fst (resp_opening e)) \<inter> set resp_last_events = {}"
  "set (map fst (resp_announcement b)) \<inter> set resp_last_events = {}"
  "set (map fst (resp_finish_events b)) \<inter> set resp_last_events = {}"
  "set (map fst [resp_piece_event k t b]) \<inter> set resp_last_events = {}"
proof -
  show "set (map fst (resp_announcement b)) \<inter> set resp_last_events = {}"
    by (cases "rsb_kind b") (simp_all add: resp_announcement_def resp_last_events_def)
  show "set (map fst (resp_finish_events b)) \<inter> set resp_last_events = {}"
    by (cases "rsb_kind b") (simp_all add: resp_finish_events_def resp_last_events_def)
  show "set (map fst [resp_piece_event k t b]) \<inter> set resp_last_events = {}"
    by (cases k) (simp_all add: resp_last_events_def)
qed (simp add: resp_opening_def resp_last_events_def Let_def)

text \<open>Before the end every event may only add to what is stored.\<close>

lemma resp_stored_grow:
  assumes "resp_stored h e" and "\<not> rse_finished e" and "set (map fst xs) \<inter> set resp_last_events = {}"
    and "\<And>n. resp_slot n (rse_items e1) = (case map_of (rev (resp_dones (resp_number k xs))) (jnat n) of
        Some x \<Rightarrow> Some x | None \<Rightarrow> resp_slot n (rse_items e))"
  shows "resp_stored (h @ resp_number k xs) e1"
proof -
  have "fst x \<notin> set resp_last_events" if x: "x \<in> set (h @ resp_number k xs)" for x
  proof (cases "x \<in> set h")
    case True
    then show ?thesis using assms(1,2) unfolding resp_stored_def by blast
  next
    case False
    then have "fst x \<in> fst ` set (resp_number k xs)" using x by simp
    then show ?thesis using assms(3) by (auto simp: resp_number_names)
  qed
  then show ?thesis using assms(1,4) by (simp add: resp_stored_def split: option.split)
qed

interpretation stored: resp_history resp_stored
proof
  show "resp_stored (h @ fst (resp_ensure_started uuid now e)) (snd (resp_ensure_started uuid now e))"
    if p: "resp_stored h e" "\<not> rse_started e" "\<not> rse_finished e" for h e uuid now
    unfolding resp_started_eq[OF p(2)] fst_conv
    by (rule resp_stored_grow[OF p(1,3)]) (simp_all only: resp_no_last, simp add: resp_silent_spoken)
  show "resp_stored h e1" if p: "resp_stored h e" "resp_alike e e1" for h e e1
    using p by (simp add: resp_stored_def resp_alike_def)
  show "resp_stored h (resp_add_block i k e)" if "resp_stored h e" for h e i k
    using that by (simp add: resp_stored_def)
  show "resp_stored (h @ fst (resp_announce i e)) (snd (resp_announce i e))"
    if p: "resp_stored h e" "\<not> rse_finished e" "resp_block_at i e = Some b" "\<not> rsb_announced b" for h e i b
  proof -
    have "resp_stored (h @ resp_number (rse_seq e) (resp_announcement b)) (snd (resp_announce i e))"
      by (rule resp_stored_grow[OF p(1,2)]) (simp_all only: resp_no_last, simp add: resp_silent_spoken resp_announce_eq p(3,4))
    then show ?thesis by (simp add: resp_announce_eq p(3,4))
  qed
  show "resp_stored (h @ fst (resp_finish_block b (resp_remove i e))) (snd (resp_finish_block b (resp_remove i e)))"
    if p: "resp_stored h e" "resp_working e" for h e i b
  proof -
    have "\<not> rse_finished e" using p(2) by (simp add: resp_working_def)
    then show ?thesis unfolding resp_finish_eq fst_conv snd_conv
      by (rule resp_stored_grow[OF p(1)]) (simp_all only: resp_no_last, simp add: resp_finish_dones resp_slot_put)
  qed
  show "resp_stored (h @ fst (resp_piece (rsb_kind b) i t e)) (snd (resp_piece (rsb_kind b) i t e))"
    if p: "resp_stored h e" "resp_working e" "resp_block_at i e = Some b" for h e i t b
  proof -
    have "\<not> rse_finished e" using p(2) by (simp add: resp_working_def)
    then show ?thesis unfolding resp_piece_eq[OF p(3)] fst_conv snd_conv
      by (rule resp_stored_grow[OF p(1)]) (simp_all only: resp_no_last resp_piece_dones, simp)
  qed
  show "resp_stored (h @ fst (resp_send_terminal e)) (snd (resp_send_terminal e))"
    if p: "resp_stored h e" "resp_working e" for h e
  proof -
    have "fst x \<notin> set resp_last_events" if "x \<in> set h" for x
      using p that by (auto simp: resp_stored_def resp_working_def)
    moreover have "resp_dones (fst (resp_send_terminal e)) = []"
      by (simp add: resp_send_terminal_eq Let_def resp_last_spoken resp_terminal_last del: resp_number.simps)
    ultimately show ?thesis using p(1)
      by (auto simp: resp_stored_def) (auto simp: resp_send_terminal_eq Let_def resp_numbered_event_def get_in_def resp_snapshot_def)
  qed
  show "resp_stored (h @ fst (resp_send_error m c e)) (snd (resp_send_error m c e))"
    if p: "resp_stored h e" "resp_working e" for h e m c
  proof -
    have "fst x \<notin> set resp_last_events" if "x \<in> set h" for x
      using p that by (auto simp: resp_stored_def resp_working_def)
    then show ?thesis using p(1)
      by (auto simp: resp_stored_def resp_send_error_eq resp_numbered_event_def resp_dones_def resp_last_events_def)
  qed
qed

lemma filter_map_more:
  assumes "\<And>n. k \<le> n \<Longrightarrow> f n = None" and "k \<le> l"
  shows "filter_map f [0..<l] = filter_map f [0..<k]"
proof -
  have "filter_map f xs = []" if "\<forall>n \<in> set xs. k \<le> n" for xs using that assms(1) by (induction xs) auto
  then have "filter_map f [k..<l] = []" by simp
  moreover have "[0..<l] = [0..<k] @ [k..<l]" using assms(2) upt_add_eq_append[of 0 k "l - k"] by simp
  ultimately show ?thesis by simp
qed

lemma resp_slots_all: "filter_map (\<lambda>x. x) items = filter_map (\<lambda>n. resp_slot n items) [0..<length items]"
proof -
  have "filter_map f (map g xs) = filter_map (\<lambda>x. f (g x)) xs" for f :: "json option \<Rightarrow> json option" and g and xs :: "nat list"
    by (induction xs) (auto split: option.split)
  moreover have "items = map (\<lambda>n. resp_slot n items) [0..<length items]"
    by (rule nth_equalityI) (simp_all add: resp_slot_def)
  ultimately have "filter_map (\<lambda>x. x) items = filter_map (\<lambda>x. x) (map (\<lambda>n. resp_slot n items) [0..<length items])"
    by simp
  then show ?thesis using \<open>\<And>f g xs. filter_map f (map g xs) = filter_map (\<lambda>x. f (g x)) xs\<close> by simp
qed

text \<open>\<open>C30\<close>. The last event of a stream holds every item the client was told is done, each at its place, and no
  other: a client that reads nothing but that event misses nothing.\<close>

theorem resp_last_event_complete:
  assumes "x \<in> set (resp_stream_out uuid now vs)" and "fst x \<in> set resp_last_events"
    and "list_all (\<lambda>y. \<exists>n < k. fst y = jnat n) (resp_dones (resp_stream_out uuid now vs))"
  shows "get_in ''response'' ''output'' (snd x)
    = Some (JArr (filter_map (\<lambda>n. map_of (rev (resp_dones (resp_stream_out uuid now vs))) (jnat n)) [0..<k]))"
proof -
  define items where "items = rse_items (resp_stream_end uuid now vs)"
  define dones where "dones = resp_dones (resp_stream_out uuid now vs)"
  have "resp_stored [] resp_encoder_new"
    by (simp add: resp_stored_def resp_encoder_new_def resp_dones_def resp_slot_def)
  from stored.whole[OF this, of uuid now vs]
  have slots: "\<And>n. resp_slot n items = map_of (rev dones) (jnat n)"
    and out: "get_in ''response'' ''output'' (snd x) = Some (JArr (filter_map (\<lambda>y. y) items))"
    using assms(1,2) by (auto simp: resp_stored_def items_def dones_def)
  have above: "map_of (rev dones) (jnat n) = None" if "k \<le> n" for n
  proof (rule ccontr)
    assume "map_of (rev dones) (jnat n) \<noteq> None"
    then obtain it where "(jnat n, it) \<in> set (rev dones)" by (auto dest: map_of_SomeD)
    then have "(jnat n, it) \<in> set dones" by simp
    then show False using assms(3) that unfolding dones_def[symmetric] by (auto simp: list_all_iff)
  qed
  have long: "map_of (rev dones) (jnat n) = None" if "length items \<le> n" for n
    using slots[of n] that by (simp add: resp_slot_def)
  have "filter_map (\<lambda>y. y) items = filter_map (\<lambda>n. map_of (rev dones) (jnat n)) [0..<length items]"
    unfolding resp_slots_all[of items] slots ..
  also have "\<dots> = filter_map (\<lambda>n. map_of (rev dones) (jnat n)) [0..<k]"
  proof (cases "k \<le> length items")
    case True
    show ?thesis by (rule filter_map_more[OF above True])
  next
    case False
    then show ?thesis by (intro filter_map_more[OF long, symmetric]) simp_all
  qed
  finally show ?thesis using out by (simp add: dones_def)
qed


definition resp_call_events :: "stream_event list" where
  "resp_call_events = [Start ''r'' ''gpt'' None, TextDelta 0 ''let me '', ToolCallStart 1 ''c1'' ''scan'' None, TextDelta 0 ''see'',
     ToolCallArgsDelta 1 ''{}'', StopEvent ToolUseStop None, Done]"

lemmas resp_run_simps = resp_stream_out_def resp_encode_event_def resp_encoder_new_def resp_then_def resp_emit_def
  resp_ensure_started_def resp_fill_in_def resp_opening_def resp_ensure_block_def resp_use_block_def resp_block_at_def
  resp_open_block_def resp_add_block_def resp_block_new_def resp_announce_def resp_announcement_def resp_change_def
  resp_piece_def resp_name_call_def resp_begin_def resp_terminate_def resp_close_all_def resp_close_block_def resp_remove_def
  resp_finish_block_def resp_finish_events_def resp_put_item_def resp_send_terminal_def resp_send_error_def
  resp_encode_finish_def resp_terminal_event_def Let_def

theorem resp_last_event_complete_witness:
  "let out = resp_stream_out ''u'' 7 resp_call_events; x = last out in
     fst x = ''response.completed''
     \<and> map_option (map resp_item_said) (Option.bind (get_in ''response'' ''output'' (snd x)) as_array) = Some [''let me see'', ''{}'']"
proof -
  define out where "out = resp_stream_out ''u'' 7 resp_call_events"
  have dones: "map (\<lambda>y. (fst y, resp_item_said (snd y))) (resp_dones out) = [(jnat 0, ''let me see''), (jnat 1, ''{}'')]"
    and last: "fst (last out) = ''response.completed''" "out \<noteq> []"
    unfolding out_def resp_call_events_def
    by (simp_all add: resp_run_simps resp_dones_def resp_item_said_def resp_texts_in_def resp_message_item_def resp_text_part_def)
  obtain p q where pq: "resp_dones out = [(jnat 0, p), (jnat 1, q)]" "resp_item_said p = ''let me see''" "resp_item_said q = ''{}''"
    using dones by (auto simp: map_eq_Cons_conv)
  have "get_in ''response'' ''output'' (snd (last out))
      = Some (JArr (filter_map (\<lambda>n. map_of (rev (resp_dones out)) (jnat n)) [0..<2]))"
    unfolding out_def
  proof (rule resp_last_event_complete)
    show "list_all (\<lambda>y. \<exists>n < 2. fst y = jnat n) (resp_dones (resp_stream_out ''u'' 7 resp_call_events))"
      using pq(1) unfolding out_def[symmetric] by auto
  qed (use last in \<open>simp_all add: out_def resp_last_events_def\<close>)
  then show ?thesis using pq last(1) by (simp add: out_def[symmetric] Let_def numeral_2_eq_2)
qed

subsection \<open>What is said arrives\<close>

datatype resp_word = RWord part_kind string

text \<open>The pieces of content of an event, with their kind and their place left aside.\<close>

fun resp_words :: "stream_event \<Rightarrow> resp_word list" where
  "resp_words (TextDelta _ t) = [RWord KText t]"
| "resp_words (RefusalDelta _ t) = [RWord KRefusal t]"
| "resp_words (ThinkingDelta _ t) = [RWord KThinking t]"
| "resp_words (ToolCallArgsDelta _ t) = [RWord KToolUse t]"
| "resp_words _ = []"

definition resp_all_words :: "stream_event list \<Rightarrow> resp_word list" where
  "resp_all_words vs = concat (map resp_words vs)"

lemma resp_all_words_simps [simp]:
  "resp_all_words [] = []" "resp_all_words (v # vs) = resp_words v @ resp_all_words vs"
  "resp_all_words (vs @ ws) = resp_all_words vs @ resp_all_words ws"
  by (simp_all add: resp_all_words_def)

definition resp_reads_back :: "codec_lib \<Rightarrow> resp_out list \<Rightarrow> bool" where
  "resp_reads_back lib out \<longleftrightarrow> list_all (\<lambda>x. cl_parse lib (cl_print lib (snd x)) = Some (snd x)
     \<and> trim (cl_print lib (snd x)) \<noteq> [] \<and> trim (cl_print lib (snd x)) \<noteq> ''[DONE]'') out"

definition resp_wire_words :: "resp_out \<Rightarrow> resp_word list" where
  "resp_wire_words x = resp_all_words (fst (resp_decode_event (fst x) (snd x) resp_decoder_new))"

definition resp_wire :: "resp_out list \<Rightarrow> resp_word list" where
  "resp_wire out = concat (map resp_wire_words out)"

lemma resp_wire_simps [simp]:
  "resp_wire [] = []" "resp_wire (x # xs) = resp_wire_words x @ resp_wire xs" "resp_wire (xs @ ys) = resp_wire xs @ resp_wire ys"
  by (simp_all add: resp_wire_def)

lemma resp_ensure_open_words [simp]: "resp_all_words (fst (resp_ensure_open i k d)) = []"
  by (simp add: resp_ensure_open_def Let_def)

lemma resp_opened_words [simp]: "resp_all_words (fst (resp_opened_then i k vs d)) = resp_all_words vs"
  by (simp add: resp_opened_then_def case_prod_beta Let_def)

text \<open>The events that say something, and what they say.\<close>

definition resp_says :: "string \<Rightarrow> json \<Rightarrow> resp_word list" where
  "resp_says n v = (case map_of [(''response.output_text.delta'', KText), (''response.refusal.delta'', KRefusal),
       (''response.reasoning_summary_text.delta'', KThinking), (''response.reasoning_text.delta'', KThinking),
       (''response.function_call_arguments.delta'', KToolUse)] n of
     Some k \<Rightarrow> [RWord k (resp_delta_text v)] | None \<Rightarrow> [])"

lemma resp_decode_event_words: "resp_all_words (fst (resp_decode_event n v d)) = resp_says n v"
  unfolding resp_decode_event_def resp_decode_created_def resp_decode_added_def resp_decode_part_added_def
    resp_decode_item_done_def resp_decode_completed_def resp_decode_failed_def Let_def
  by (auto simp: resp_says_def split: option.split)

lemma resp_wire_says: "resp_wire_words x = resp_says (fst x) (snd x)"
  by (simp add: resp_wire_words_def resp_decode_event_words)

lemma resp_decode_all_words:
  "resp_reads_back lib out \<Longrightarrow>
   resp_all_words (fst (resp_decode_all lib (map (resp_frame lib) out) d)) = resp_wire out"
proof (induction out arbitrary: d)
  case (Cons x out)
  have "resp_decode_frame lib (resp_frame lib x) d = resp_decode_event (fst x) (snd x) d"
    using Cons.prems by (simp add: resp_reads_back_def resp_decode_frame_def resp_frame_def named_frame_def)
  moreover have "resp_reads_back lib out" using Cons.prems by (simp add: resp_reads_back_def)
  ultimately show ?case using Cons.IH by (simp add: case_prod_beta Let_def resp_decode_event_words resp_wire_says)
qed simp

lemma resp_wire_silent:
  "list_all (\<lambda>x. fst x \<notin> set (''response.reasoning_text.delta'' # resp_delta_events)) xs \<Longrightarrow> resp_wire (resp_number n xs) = []"
  by (induction xs arbitrary: n) (auto simp: resp_wire_says resp_says_def resp_numbered_event_def resp_delta_events_def)

lemma resp_wire_started [simp]: "resp_wire (fst (resp_ensure_started uuid now e)) = []"
  by (cases "rse_started e")
    (simp_all add: resp_ensure_started_def resp_emits_eq resp_opening_def resp_wire_silent resp_delta_events_def Let_def
      del: resp_number.simps resp_emits.simps)

lemma resp_wire_announce [simp]: "resp_wire (fst (resp_announce i e)) = []"
proof -
  have "resp_wire (resp_number n (resp_announcement b)) = []" for n b
    by (rule resp_wire_silent) (cases "rsb_kind b", simp_all add: resp_announcement_def resp_delta_events_def)
  then show ?thesis by (simp add: resp_announce_eq split: option.split)
qed

lemma resp_wire_finish [simp]: "resp_wire (fst (resp_finish_block b e)) = []"
proof -
  have "resp_wire (resp_number n (resp_finish_events b)) = []" for n
    by (rule resp_wire_silent) (cases "rsb_kind b", simp_all add: resp_finish_events_def resp_delta_events_def)
  then show ?thesis by (simp add: resp_finish_eq)
qed

lemma resp_wire_close [simp]: "resp_wire (fst (resp_close_block i e)) = []"
  by (simp add: resp_close_block_def split: option.split)

lemma resp_wire_close_each [simp]: "resp_wire (fst (resp_close_each js e)) = []"
  by (induction js arbitrary: e) simp_all

lemma resp_wire_block [simp]: "resp_wire (fst (resp_ensure_block uuid now i k e)) = []"
  by (simp add: resp_ensure_block_def resp_use_block_def resp_open_block_def split: option.split)

lemma resp_wire_piece: "resp_block_at i e \<noteq> None \<Longrightarrow> resp_wire (fst (resp_piece k i t e)) = [RWord k t]"
  by (cases k) (auto simp: resp_piece_eq resp_wire_says resp_says_def resp_numbered_event_def resp_delta_text_def get_either_def resp_at_def)

lemma resp_wire_terminate [simp]: "resp_wire (fst (resp_terminate uuid now e)) = []"
proof -
  have "resp_wire (fst (resp_send_terminal e)) = []" for e
    by (simp add: resp_send_terminal_eq Let_def resp_wire_says resp_says_def resp_numbered_event_def resp_terminal_event_def)
  then show ?thesis by (simp add: resp_terminate_def resp_close_all_def)
qed

lemma resp_wire_step:
  assumes "resp_sound e"
  shows "resp_wire (fst (resp_encode_step uuid now v e)) = resp_words v"
proof -
  have at: "resp_block_at i (snd (resp_ensure_block uuid now i k e)) \<noteq> None" for i k using resp_ensured[OF assms, of uuid now i k] by auto
  have "resp_wire (fst (resp_send_error m c e)) = []" for m c e
    by (simp add: resp_send_error_eq resp_wire_says resp_says_def resp_numbered_event_def)
  then show ?thesis
    by (cases v) (simp_all add: resp_wire_piece at resp_announce_at resp_name_call_def resp_sign_def)
qed

lemma resp_step_finished:
  assumes "resp_sound e"
  shows "rse_finished (snd (resp_encode_step uuid now v e)) = is_terminal v"
proof -
  have held: "\<not> rse_finished (snd (resp_ensure_block uuid now i k e))" for i k
    using resp_ensured[OF assms, of uuid now i k] by (simp add: resp_working_def)
  have begun: "\<not> rse_finished (snd (resp_ensure_started uuid now e1))" if "\<not> rse_finished e1" for e1
    using that by (simp add: resp_ensure_started_def resp_emits_eq Let_def del: resp_emits.simps)
  have piece: "rse_finished (snd (resp_piece k i t e1)) = rse_finished e1" for k i t e1
    by (simp add: resp_piece_def resp_emits_eq del: resp_emits.simps split: option.split)
  have close: "\<not> rse_finished (snd (resp_close_block i e))" for i
  proof (cases "resp_block_at i e")
    case None
    then show ?thesis using assms by (simp add: resp_close_block_def resp_sound_def)
  next
    case (Some b)
    then have "resp_working e" using assms by (cases "rse_started e") (simp_all add: resp_sound_def resp_block_at_def)
    then have "resp_working (snd (resp_close_block i e))" by (rule resp_close_working)
    then show ?thesis by (simp add: resp_working_def)
  qed
  show ?thesis using assms
    by (cases v) (simp_all add: held begun piece close resp_name_call_def resp_sign_def resp_begin_def resp_sound_def
        resp_terminate_def resp_send_terminal_eq resp_send_error_eq Let_def del: resp_number.simps)
qed

lemma resp_wire_all:
  "rse_finished e \<or> resp_sound e \<Longrightarrow> resp_wire (fst (resp_encode_all uuid now vs e))
   = (if rse_finished e then [] else resp_all_words (takeWhile (\<lambda>v. \<not> is_terminal v) vs))"
proof (induction vs arbitrary: e)
  case (Cons v vs)
  have "is_terminal v \<Longrightarrow> resp_words v = []" by (cases v) simp_all
  then show ?case using Cons.IH[OF resp_event_sound[OF Cons.prems]] Cons.prems resp_step_finished[of e uuid now v]
    by (auto simp: resp_encode_event_def resp_wire_step resp_sound_def)
qed simp

text \<open>\<open>C31\<close>. A Responses client hears what the model said up to the end of the stream, piece by piece and in
  order: text, refusals as refusals, thoughts and the arguments of calls.\<close>

theorem resp_stream_says_the_same:
  assumes "resp_reads_back lib (resp_stream_out uuid now vs)"
  shows "resp_all_words (fst (resp_decode_all lib (map (resp_frame lib) (resp_stream_out uuid now vs)) d))
    = resp_all_words (takeWhile (\<lambda>v. \<not> is_terminal v) vs)"
proof -
  have "resp_wire (resp_stream_out uuid now vs) = resp_all_words (takeWhile (\<lambda>v. \<not> is_terminal v) vs)"
    using resp_wire_all[of resp_encoder_new uuid now vs] resp_new_sound
    by (simp add: resp_stream_out_def resp_encode_finish_def) (simp add: resp_encoder_new_def)
  then show ?thesis using resp_decode_all_words[OF assms] by simp
qed


lemma table_lib_whole: "j \<in> set js \<Longrightarrow> cl_parse (table_lib js) (cl_print (table_lib js) j) = Some j"
proof -
  assume "j \<in> set js"
  moreover have "trim (cl_print (table_lib js) j) = cl_print (table_lib js) j"
    using trim_replicate[of 0] trim_replicate by (simp add: table_lib_def split: option.split del: replicate.simps)
  ultimately show ?thesis using table_lib_back(1)[of j js] by simp
qed

definition resp_refusing_events :: "stream_event list" where
  "resp_refusing_events = [ThinkingDelta 0 ''hm'', ThinkingSignature 0 ''sig'', TextDelta 0 ''hi'', RefusalDelta 0 ''no'',
     ToolCallArgsDelta 3 ''{}'', Done, TextDelta 1 ''late'']"

theorem resp_stream_says_the_same_witness:
  "let out = resp_stream_out ''u'' 7 resp_refusing_events; lib = table_lib (map snd out) in
     resp_all_words (fst (resp_decode_all lib (map (resp_frame lib) out) resp_decoder_new))
       = [RWord KThinking ''hm'', RWord KText ''hi'', RWord KRefusal ''no'', RWord KToolUse ''{}'']"
proof -
  let ?out = "resp_stream_out ''u'' 7 resp_refusing_events"
  have "resp_reads_back (table_lib (map snd ?out)) ?out"
    by (auto simp: resp_reads_back_def list_all_iff table_lib_back table_lib_whole)
  from resp_stream_says_the_same[OF this, of resp_decoder_new] show ?thesis by (simp add: Let_def resp_refusing_events_def)
qed

text \<open>An \<open>error\<close> event says what went wrong in its \<open>code\<close>; its \<open>type\<close> is always \<open>error\<close>, and the decoder looks at the
  type first. What the encoder sends as the kind of an error comes back as \<open>error\<close>.\<close>

lemma resp_error_code_unread:
  "fst (resp_decode_event ''error'' (JObj [(''type'', JStr ''error''), (''code'', JStr c), (''message'', JStr m)]) d)
   = [ErrorEvent m ''error'']"
  by (simp add: resp_decode_event_def resp_decode_failed_def get_in_def non_null_def)

lemma resp_error_kind_lost:
  "map (\<lambda>x. fst (resp_decode_event (fst x) (snd x) resp_decoder_new)) (fst (resp_send_error m c e)) = [[ErrorEvent m ''error'']]"
  by (simp add: resp_send_error_eq resp_numbered_event_def resp_decode_event_def resp_decode_failed_def get_in_def non_null_def)

text \<open>A message whose second part is of another kind begins a block where one is open that is never ended.\<close>

lemma resp_second_part_overlaps:
  "(let (out1, d) = resp_decode_event ''response.output_text.delta'' (JObj [(''output_index'', jnat 0), (''delta'', JStr ''a'')]) resp_decoder_new
    in out1 @ fst (resp_decode_event ''response.refusal.delta'' (JObj [(''output_index'', jnat 0), (''delta'', JStr ''b'')]) d))
   = [ContentStart 0 KText, TextDelta 0 ''a'', ContentStart 0 KRefusal, RefusalDelta 0 ''b'']"
  by (simp add: resp_decode_event_def resp_opened_then_def resp_ensure_open_def resp_index_def resp_delta_text_def
      get_either_def resp_decoder_new_def as_u32_def jnat_def)

end
