(* ===== verification/Spec2Isabelle.thy ===== *)
theory Spec2Isabelle
  imports Plan Keys Health Affinity_Engine Sse Stream_Agg Rate_Limit Address Affinity_Config Failover
    Stream_Exec Chat_Stream Messages_Stream Gemini_Roundtrip Gemini_Stream Responses_Stream_Facts
begin

text \<open>
  Refract is a gateway in front of language-model services. A client speaks one of four
  protocols (OpenAI Chat and Responses, Anthropic Messages, Google Gemini) to it; the gateway
  chooses an upstream endpoint, converts the request when the endpoint speaks another
  protocol, calls it, fails over to the next endpoint, and converts the answer or the stream
  back. This development models the code under \<open>src/crates\<close> that decides and converts;
  definitions have the names of the functions they translate.

  \<^bold>\<open>Parts and theories.\<close>

  \<^item> Shared ground. \<open>Prelude\<close>: results as sums, association lists, list operations of Rust.
    \<open>Rust_Str\<close>: byte strings, UTF-8, white space. \<open>Json\<close>: the values of \<open>serde_json\<close> with their
    order of fields, \<open>BTreeMap\<close> insertion.
  \<^item> Core (\<open>refract-core\<close>). \<open>Protocol\<close>: protocols and sets of them. \<open>Gateway_Error\<close>: kinds,
    statuses, retry classes. \<open>Address\<close>: joining base addresses and paths. \<open>Routing\<close>: the routing
    policy. \<open>Channel\<close>: channels, endpoints, key pools and their validation.
    \<open>Affinity_Config\<close>: affinity rules and the checks of their patterns.
  \<^item> Router (\<open>refract-router\<close>). \<open>Plan\<close>, \<open>Round_Robin\<close>: which endpoints can serve a request and in
    what order. \<open>Keys\<close>: selection and rotation of keys. \<open>Affinity_Engine\<close>: bindings of a
    conversation to a channel. \<open>Exec_Body\<close>, \<open>Executor\<close>, \<open>Failover\<close>, \<open>Stream_Exec\<close>,
    \<open>Preflight\<close>: the buffered and streaming executions, from the ordered candidates through
    retries, key rotation, the call budget and health records to the answer.
  \<^item> Upstream (\<open>refract-upstream\<close>). \<open>Upstream_Client\<close>: the request on the wire, the pools of
    clients per proxy, the reading of statuses and error bodies.
  \<^item> Store and limits. \<open>Health\<close>: the circuit breaker of \<open>health_repo.rs\<close> with its cache.
    \<open>Rate_Limit\<close>: the limiter of \<open>refract-api/src/rate.rs\<close>.
  \<^item> Protocol (\<open>refract-protocol\<close>). \<open>Ir\<close>: the unified request and answer. \<open>Sse\<close>: the
    server-sent event parser and printer. \<open>Stream_Agg\<close>: stream events and their aggregation.
    \<open>Codec_Base\<close>: what codecs share. \<open>Chat_Request\<close>, \<open>Chat_Response\<close>, \<open>Chat_Stream\<close>: the Chat
    codec. \<open>Messages_Request\<close>, \<open>Messages_Roundtrip\<close>, \<open>Messages_Response\<close>, \<open>Messages_Stream\<close>: the
    Messages codec. \<open>Turns\<close>: bringing a conversation into alternating turns.
    \<open>Gemini_Request\<close>, \<open>Gemini_Response\<close>, \<open>Gemini_Roundtrip\<close>, \<open>Gemini_Stream\<close>: the Gemini codec.
    \<open>Responses_Request\<close>, \<open>Responses_Roundtrip\<close>, \<open>Responses_Response\<close>, \<open>Responses_Stream\<close>,
    \<open>Responses_Stream_Facts\<close>: the Responses codec.

  \<^bold>\<open>How the code appears.\<close> A struct is a record, an enum a datatype; a method that changes its
  receiver returns the changed value beside its result; \<open>Result\<close> is a sum with the error on the
  left, chained by \<open>rbind\<close>. Integers whose width matters are words or have their wrap-around
  written out; counters that saturate do so. What lies outside the sources is an argument: the
  JSON parser and printer (\<open>codec_lib\<close>), the HTTP library, the regular expressions, the
  clock, random numbers and identifiers, and the outcome of a database transaction. Laws
  asked of them are hypotheses of the theorems that need them, and a witness beside each such
  theorem shows them satisfiable. Locales state the contracts between components: a cursor
  that goes round, the arrangement of a tier, a table of one-minute windows against the plain
  history, the run of one candidate and its extension for streams, finite sets of protocols,
  what every step of the Responses encoder keeps; each is interpreted on the definitions of the code.

  \<^bold>\<open>What is shown.\<close> Planning is complete and loses no candidate, layers descend, round robin is
  fair; every key is tried once before a candidate is given up; execution reaches a serving
  endpoint, is bounded by the budget, charges refused keys once and attributes success;
  streams come from one endpoint and settle its health once. The breaker's cache agrees with
  its table; the rate limiter refines a plain history. Requests, answers and streams go round
  through the Chat and the Messages codecs; conversations are brought into the form Anthropic
  asks for without losing a block; a Messages stream is well formed whatever events arrive.
  Gemini answers go round, conversations alternate, results find their functions; a Gemini
  stream says what was said, sends calls whole and counts the usage once. Responses requests and
  answers go round; whatever arrives, a Responses client can follow the stream, each item
  holds what its deltas said and the last event holds all items.

  \<^bold>\<open>Termination and bounds.\<close> Loops over lists are structural recursion. Recursion over JSON goes
  by the size of the value; the attempt loop by the candidates that are left together with the
  retries and keys of the current one, so no fuel is needed; polling a stream takes the number
  of polls, and what it claims holds for each number.

  \<^bold>\<open>Not modelled.\<close> The handlers of \<open>refract-api\<close> beyond the limiter (gateway, administration,
  accounts) stand behind the web framework and call what is modelled here. Operations of
  \<open>refract-store\<close> that only hand SQL to the database are left to it. The idle guard of streams
  and the probe wrap the asynchronous runtime; the server shell, configuration, static files
  and logs decide nothing.
\<close>

end
